(* ===== verification/Prelude.thy ===== *)
theory Prelude
  imports Main "HOL-Library.Signed_Division"
begin

text \<open>
  The vocabulary shared by all components: Go's fixed-width integers with their
  wrap-around written out, run-time panics as values of a sum type, slices, and the
  integer clock.

  \<^item> An \<^verbatim>\<open>int64\<close> (\<^verbatim>\<open>congestion.ByteCount\<close>, \<^verbatim>\<open>congestion.PacketNumber\<close>,
    \<^verbatim>\<open>time.Duration\<close>, \<^verbatim>\<open>monotime.Time\<close>) is an \<open>int\<close> in the range checked by
    \<open>in_i64\<close>; every arithmetic result is passed through \<open>i64\<close>, which wraps modulo
    \<open>2 ^ 64\<close> into the signed range.  A \<^verbatim>\<open>uint64\<close> (\<^verbatim>\<open>Bandwidth\<close>, \<^verbatim>\<open>roundTripCount\<close>) is an
    \<open>int\<close> in the range checked by \<open>in_u64\<close>, wrapped by \<open>u64\<close>.
  \<^item> Signed division truncates towards zero (\<open>sdiv\<close>), unsigned division is \<open>div\<close>; a zero
    divisor panics.
  \<^item> A panic ends the call: an operation that can panic returns \<open>panic + 'a\<close>.
\<close>

section \<open>Automation\<close>

named_theorems wrap_simps "facts that remove an integer wrap-around"
named_theorems res_simps "facts about the panic-or-value results"

section \<open>Fixed-width integers\<close>

definition i64 :: "int \<Rightarrow> int" where
  "i64 x = (x + 9223372036854775808) mod 18446744073709551616 - 9223372036854775808"

definition u64 :: "int \<Rightarrow> int" where
  "u64 x = x mod 18446744073709551616"

definition in_i64 :: "int \<Rightarrow> bool" where
  "in_i64 x \<longleftrightarrow> - 9223372036854775808 \<le> x \<and> x < 9223372036854775808"

definition in_u64 :: "int \<Rightarrow> bool" where
  "in_u64 x \<longleftrightarrow> 0 \<le> x \<and> x < 18446744073709551616"

lemma i64_id [wrap_simps]: "in_i64 x \<Longrightarrow> i64 x = x"
  by (simp add: i64_def in_i64_def)

lemma u64_id [wrap_simps]: "in_u64 x \<Longrightarrow> u64 x = x"
  by (simp add: u64_def in_u64_def)

lemma i64_small: "- 9223372036854775808 \<le> x \<Longrightarrow> x < 9223372036854775808 \<Longrightarrow> i64 x = x"
  by (simp add: i64_def)

lemma u64_small: "0 \<le> x \<Longrightarrow> x < 18446744073709551616 \<Longrightarrow> u64 x = x"
  by (simp add: u64_def)

lemma in_i64_i64 [simp, intro]: "in_i64 (i64 x)"
  by (simp add: i64_def in_i64_def)

lemma in_u64_u64 [simp, intro]: "in_u64 (u64 x)"
  by (simp add: u64_def in_u64_def)

lemma i64_i64 [simp]: "i64 (i64 x) = i64 x"
  by (rule i64_id) simp

lemma u64_u64 [simp]: "u64 (u64 x) = u64 x"
  by (rule u64_id) simp

lemma u64_nonneg [simp]: "0 \<le> u64 x"
  by (simp add: u64_def)

lemma i64_bounds: "- 9223372036854775808 \<le> i64 x \<and> i64 x < 9223372036854775808"
  by (simp add: i64_def)

lemma i64_numerals [simp]: "i64 0 = 0" "i64 1 = 1" "i64 (- 1) = - 1"
  by (simp_all add: i64_def)

lemma u64_numerals [simp]: "u64 0 = 0" "u64 1 = 1"
  by (simp_all add: u64_def)

lemma in_i64_max [intro]: "in_i64 a \<Longrightarrow> in_i64 b \<Longrightarrow> in_i64 (max a b)"
  by (auto simp: in_i64_def)

lemma in_i64_min [intro]: "in_i64 a \<Longrightarrow> in_i64 b \<Longrightarrow> in_i64 (min a b)"
  by (auto simp: in_i64_def)

lemma i64_eq_0D:
  assumes "i64 x = 0"
  shows "18446744073709551616 dvd x"
proof -
  from assms have "(x + 9223372036854775808) mod 18446744073709551616 = 9223372036854775808 mod 18446744073709551616"
    by (simp add: i64_def)
  then show ?thesis unfolding mod_eq_dvd_iff by simp
qed

lemma i64_add_i64: "i64 (i64 a + b) = i64 (a + b)"
proof -
  have "(i64 a + b + 9223372036854775808) mod 18446744073709551616 =
        ((a + 9223372036854775808) mod 18446744073709551616 + b) mod 18446744073709551616"
    by (simp add: i64_def algebra_simps)
  also have "\<dots> = (a + b + 9223372036854775808) mod 18446744073709551616"
    by (simp add: mod_simps algebra_simps)
  finally show ?thesis by (simp add: i64_def)
qed

lemma i64_add_nonneg:
  assumes "0 \<le> a" "0 \<le> b" "a + b < 9223372036854775808"
  shows "i64 (a + b) = a + b"
  using assms by (intro i64_small) auto

lemma i64_diff_nonneg:
  assumes "0 \<le> a" "0 \<le> b" "a < 9223372036854775808" "b < 9223372036854775808"
  shows "i64 (a - b) = a - b"
  using assms by (intro i64_small) auto

section \<open>Division\<close>

lemma sdiv_nonneg:
  assumes "0 \<le> a" "0 \<le> b"
  shows "(a :: int) sdiv b = a div b"
  using assms by (auto simp: signed_divide_int_def sgn_if)

lemma smod_nonneg:
  assumes "0 \<le> a" "0 \<le> b"
  shows "(a :: int) smod b = a mod b"
  using assms by (auto simp: signed_modulo_int_def sgn_if)

lemma div_mult_le_self: "0 < (b :: int) \<Longrightarrow> a div b * b \<le> a"
  by (simp add: minus_mod_eq_div_mult [symmetric])

section \<open>Panics\<close>

datatype panic =
    Panic string          \<comment> \<open>an explicit call of the built-in panic\<close>
  | IndexOutOfRange       \<comment> \<open>slice or array index outside its bounds\<close>
  | DivideByZero          \<comment> \<open>integer division by zero\<close>
  | NilPointer            \<comment> \<open>a method call on a nil interface or pointer\<close>
  | Diverges              \<comment> \<open>a loop that does not stop: its fuel is used up\<close>

type_synonym 'a res = "panic + 'a"

definition bindR :: "'a res \<Rightarrow> ('a \<Rightarrow> 'b res) \<Rightarrow> 'b res" where
  "bindR m f = (case m of Inl e \<Rightarrow> Inl e | Inr x \<Rightarrow> f x)"

lemma bindR_simps [simp]: "bindR (Inl e) f = Inl e" "bindR (Inr x) f = f x"
  by (simp_all add: bindR_def)

lemma bindR_eq_Inr [res_simps]: "bindR m f = Inr y \<longleftrightarrow> (\<exists>x. m = Inr x \<and> f x = Inr y)"
  by (cases m) auto

lemma bindR_eq_Inl [res_simps]:
  "bindR m f = Inl e \<longleftrightarrow> m = Inl e \<or> (\<exists>x. m = Inr x \<and> f x = Inl e)"
  by (cases m) auto

lemma bindR_assoc [res_simps]: "bindR (bindR m f) g = bindR m (\<lambda>x. bindR (f x) g)"
  by (cases m) auto

lemma bindR_cong [fundef_cong]:
  "m = m' \<Longrightarrow> (\<And>x. m' = Inr x \<Longrightarrow> f x = g x) \<Longrightarrow> bindR m f = bindR m' g"
  by (cases m') auto

definition safe :: "'a res \<Rightarrow> bool" where
  "safe m \<longleftrightarrow> (\<exists>x. m = Inr x)"

lemma safe_Inr [simp]: "safe (Inr x)"
  by (simp add: safe_def)

lemma safe_bindR: "safe m \<Longrightarrow> (\<And>x. m = Inr x \<Longrightarrow> safe (f x)) \<Longrightarrow> safe (bindR m f)"
  by (auto simp: safe_def)

section \<open>Slices\<close>

text \<open>\<^verbatim>\<open>copy(dst, src)\<close> overwrites a prefix of \<open>dst\<close>; the shorter of the two bounds it.\<close>

definition go_copy :: "'a list \<Rightarrow> 'a list \<Rightarrow> 'a list" where
  "go_copy dst src = take (length dst) src @ drop (length src) dst"

lemma length_go_copy [simp]: "length (go_copy dst src) = length dst"
  by (simp add: go_copy_def)

lemma go_copy_fits: "length src \<le> length dst \<Longrightarrow> go_copy dst src = src @ drop (length src) dst"
  by (simp add: go_copy_def)

lemma length_filter_update:
  assumes "i < length xs"
  shows "int (length (filter P (xs[i := x]))) = int (length (filter P xs)) - (if P (xs ! i) then 1 else 0) + (if P x then 1 else 0)"
proof -
  have k: "int (length (filter P (take i xs @ y # drop (Suc i) xs))) =
      int (length (filter P (take i xs))) + (if P y then 1 else 0) + int (length (filter P (drop (Suc i) xs)))" for y
    by simp
  show ?thesis using k [of x] k [of "xs ! i"]
    unfolding id_take_nth_drop [OF assms, symmetric] upd_conv_take_nth_drop [OF assms] by simp
qed

text \<open>A checked read of a slice.\<close>

definition index :: "'a list \<Rightarrow> nat \<Rightarrow> 'a res" where
  "index xs i = (if i < length xs then Inr (xs ! i) else Inl IndexOutOfRange)"

lemma index_ok [simp]: "i < length xs \<Longrightarrow> index xs i = Inr (xs ! i)"
  by (simp add: index_def)

section \<open>The monotonic clock\<close>

text \<open>
  \<^verbatim>\<open>monotime.Time\<close> is an integer number of nanoseconds whose zero value means "unset":
  the code assigns and returns the literal 0 for it.
\<close>

type_synonym mtime = int

definition IsZero :: "mtime \<Rightarrow> bool" where
  "IsZero t \<longleftrightarrow> t = 0"

definition Sub :: "mtime \<Rightarrow> mtime \<Rightarrow> int" where
  "Sub t s = i64 (t - s)"

definition Add :: "mtime \<Rightarrow> int \<Rightarrow> mtime" where
  "Add t d = i64 (t + d)"

definition After :: "mtime \<Rightarrow> mtime \<Rightarrow> bool" where
  "After t s \<longleftrightarrow> s < t"

definition Before :: "mtime \<Rightarrow> mtime \<Rightarrow> bool" where
  "Before t s \<longleftrightarrow> t < s"

lemmas time_defs = IsZero_def Sub_def Add_def After_def Before_def

abbreviation Second :: int where "Second \<equiv> 1000000000"
abbreviation Millisecond :: int where "Millisecond \<equiv> 1000000"

section \<open>Constants of the QUIC library\<close>

text \<open>
  The constants the program takes from the package \<^verbatim>\<open>github.com/apernet/quic-go/congestion\<close>,
  which is not part of the repository: a parameter of every definition that uses one.
  \<open>quic_ok\<close> names what the code relies on: sizes, delays and counts are positive and small
  enough for their products with packet counts to stay far below \<open>2 ^ 63\<close>.
\<close>

record quic_params =
  InitialPacketSize :: int
  MinInitialPacketSize :: int
  MaxCongestionWindowPackets :: int
  MinPacingDelay :: int
  MaxPacketBufferSize :: int
  PacketsPerConnectionID :: int

definition quic_ok :: "quic_params \<Rightarrow> bool" where
  "quic_ok q \<longleftrightarrow>
     0 < InitialPacketSize q \<and> InitialPacketSize q \<le> 65535 \<and>
     0 < MinInitialPacketSize q \<and> MinInitialPacketSize q \<le> InitialPacketSize q \<and>
     32 \<le> MaxCongestionWindowPackets q \<and> MaxCongestionWindowPackets q \<le> 1000000 \<and>
     0 < MinPacingDelay q \<and> MinPacingDelay q \<le> Second \<and>
     0 < MaxPacketBufferSize q \<and> MaxPacketBufferSize q \<le> 65535 \<and>
     0 < PacketsPerConnectionID q \<and> PacketsPerConnectionID q < 2147483648"

text \<open>Values as published for the library, for the examples.\<close>

definition quic_example :: quic_params where
  "quic_example =
     \<lparr>InitialPacketSize = 1280, MinInitialPacketSize = 1200, MaxCongestionWindowPackets = 10000,
      MinPacingDelay = Millisecond, MaxPacketBufferSize = 1452, PacketsPerConnectionID = 10000\<rparr>"

lemma quic_example_ok: "quic_ok quic_example"
  by (simp add: quic_ok_def quic_example_def)

end
