(* ===== verification/WindowedFilter.thy ===== *)
theory WindowedFilter
  imports Prelude
begin

text \<open>
  \<^verbatim>\<open>h3frontend/internal/congestion/bbr/windowed_filter.go\<close>: Kathleen Nichols' windowed
  maximum (or minimum) filter.  The three estimates of the slice \<^verbatim>\<open>estimates\<close>, always made with
  length 3, are the fields \<open>est0\<close>, \<open>est1\<close>, \<open>est2\<close>.  The time type of both uses in the program
  is \<^verbatim>\<open>roundTripCount\<close>, an unsigned 64-bit counter, so time differences wrap.  The comparator
  and the zero value of the sample type (\<^verbatim>\<open>*new(V)\<close>) are the arguments \<open>cmp\<close> and \<open>z\<close>.

  The theorems treat comparators that order samples by an integer key (\<open>keyed\<close>), which
  covers \<open>MaxFilter\<close>, \<open>MinFilter\<close> and the ack-height comparator of the sampler.
\<close>

section \<open>Data and operations\<close>

record 'v wfEntry =
  wf_sample :: 'v
  wf_time :: int

record 'v windowedFilter =
  windowLength :: int
  est0 :: "'v wfEntry"
  est1 :: "'v wfEntry"
  est2 :: "'v wfEntry"

definition MaxFilter :: "int \<Rightarrow> int \<Rightarrow> int" where
  "MaxFilter a b = (if a > b then 1 else if a < b then - 1 else 0)"

definition MinFilter :: "int \<Rightarrow> int \<Rightarrow> int" where
  "MinFilter a b = (if a < b then 1 else if a > b then - 1 else 0)"

definition NewWindowedFilter :: "'v \<Rightarrow> int \<Rightarrow> 'v windowedFilter" where
  "NewWindowedFilter z w =
     \<lparr>windowLength = w, est0 = \<lparr>wf_sample = z, wf_time = 0\<rparr>,
      est1 = \<lparr>wf_sample = z, wf_time = 0\<rparr>, est2 = \<lparr>wf_sample = z, wf_time = 0\<rparr>\<rparr>"

definition SetWindowLength :: "int \<Rightarrow> 'v windowedFilter \<Rightarrow> 'v windowedFilter" where
  "SetWindowLength w f = f\<lparr>windowLength := w\<rparr>"

definition GetBest :: "'v windowedFilter \<Rightarrow> 'v" where
  "GetBest f = wf_sample (est0 f)"

definition GetSecondBest :: "'v windowedFilter \<Rightarrow> 'v" where
  "GetSecondBest f = wf_sample (est1 f)"

definition GetThirdBest :: "'v windowedFilter \<Rightarrow> 'v" where
  "GetThirdBest f = wf_sample (est2 f)"

definition wfReset :: "'v \<Rightarrow> int \<Rightarrow> 'v windowedFilter \<Rightarrow> 'v windowedFilter" where
  "wfReset newSample newTime f =
     (let f = f\<lparr>est2 := \<lparr>wf_sample = newSample, wf_time = newTime\<rparr>\<rparr>;
          f = f\<lparr>est1 := est2 f\<rparr>
      in f\<lparr>est0 := est1 f\<rparr>)"

definition wfClear :: "'v \<Rightarrow> 'v windowedFilter \<Rightarrow> 'v windowedFilter" where
  "wfClear z f =
     f\<lparr>est0 := \<lparr>wf_sample = z, wf_time = 0\<rparr>, est1 := \<lparr>wf_sample = z, wf_time = 0\<rparr>,
       est2 := \<lparr>wf_sample = z, wf_time = 0\<rparr>\<rparr>"

text \<open>
  The end of \<^verbatim>\<open>Update\<close>, after the new sample has been ranked: expire estimates that left the
  window, or take fresh second and third estimates after a quarter or half of it.
\<close>

definition wfExpire :: "('v \<Rightarrow> 'v \<Rightarrow> int) \<Rightarrow> 'v \<Rightarrow> int \<Rightarrow> 'v windowedFilter \<Rightarrow> 'v windowedFilter" where
  "wfExpire cmp newSample newTime f =
     (let new = \<lparr>wf_sample = newSample, wf_time = newTime\<rparr> in
      if u64 (newTime - wf_time (est0 f)) > windowLength f then
        let f = f\<lparr>est0 := est1 f\<rparr>; f = f\<lparr>est1 := est2 f\<rparr>; f = f\<lparr>est2 := new\<rparr>
        in if u64 (newTime - wf_time (est0 f)) > windowLength f
           then let f = f\<lparr>est0 := est1 f\<rparr> in f\<lparr>est1 := est2 f\<rparr>
           else f
      else if cmp (wf_sample (est1 f)) (wf_sample (est0 f)) = 0 \<and>
              u64 (newTime - wf_time (est1 f)) > windowLength f div 4 then
        let f = f\<lparr>est1 := new\<rparr> in f\<lparr>est2 := est1 f\<rparr>
      else if cmp (wf_sample (est2 f)) (wf_sample (est1 f)) = 0 \<and>
              u64 (newTime - wf_time (est2 f)) > windowLength f div 2 then
        f\<lparr>est2 := new\<rparr>
      else f)"

text \<open>Its middle: a sample better than the second or third estimate replaces them.\<close>

definition wfRank :: "('v \<Rightarrow> 'v \<Rightarrow> int) \<Rightarrow> 'v \<Rightarrow> int \<Rightarrow> 'v windowedFilter \<Rightarrow> 'v windowedFilter" where
  "wfRank cmp newSample newTime f =
     (let new = \<lparr>wf_sample = newSample, wf_time = newTime\<rparr> in
      if cmp newSample (wf_sample (est1 f)) \<ge> 0
      then let f = f\<lparr>est1 := new\<rparr> in f\<lparr>est2 := est1 f\<rparr>
      else if cmp newSample (wf_sample (est2 f)) \<ge> 0 then f\<lparr>est2 := new\<rparr>
      else f)"

definition wfUpdate ::
  "('v \<Rightarrow> 'v \<Rightarrow> int) \<Rightarrow> 'v \<Rightarrow> 'v \<Rightarrow> int \<Rightarrow> 'v windowedFilter \<Rightarrow> 'v windowedFilter"
where
  "wfUpdate cmp z newSample newTime f =
     (if cmp (wf_sample (est0 f)) z = 0 \<or> cmp newSample (wf_sample (est0 f)) \<ge> 0 \<or>
         u64 (newTime - wf_time (est2 f)) > windowLength f
      then wfReset newSample newTime f
      else wfExpire cmp newSample newTime (wfRank cmp newSample newTime f))"

section \<open>Comparators with a key\<close>

definition keyed :: "('v \<Rightarrow> 'v \<Rightarrow> int) \<Rightarrow> ('v \<Rightarrow> int) \<Rightarrow> bool" where
  "keyed cmp k \<longleftrightarrow> (\<forall>a b. cmp a b = MaxFilter (k a) (k b))"

lemma MaxFilter_keyed: "keyed MaxFilter (\<lambda>x. x)"
  by (simp add: keyed_def)

lemma MinFilter_keyed: "keyed MinFilter uminus"
  by (simp add: keyed_def MinFilter_def MaxFilter_def)

lemma keyed_ge [simp]: "keyed cmp k \<Longrightarrow> 0 \<le> cmp a b \<longleftrightarrow> k b \<le> k a"
  by (auto simp: keyed_def MaxFilter_def)

lemma keyed_eq [simp]: "keyed cmp k \<Longrightarrow> cmp a b = 0 \<longleftrightarrow> k a = k b"
  by (auto simp: keyed_def MaxFilter_def)

section \<open>Invariant\<close>

abbreviation key0 :: "('v \<Rightarrow> int) \<Rightarrow> 'v windowedFilter \<Rightarrow> int" where "key0 k f \<equiv> k (wf_sample (est0 f))"
abbreviation key1 :: "('v \<Rightarrow> int) \<Rightarrow> 'v windowedFilter \<Rightarrow> int" where "key1 k f \<equiv> k (wf_sample (est1 f))"
abbreviation key2 :: "('v \<Rightarrow> int) \<Rightarrow> 'v windowedFilter \<Rightarrow> int" where "key2 k f \<equiv> k (wf_sample (est2 f))"
abbreviation time0 :: "'v windowedFilter \<Rightarrow> int" where "time0 f \<equiv> wf_time (est0 f)"
abbreviation time1 :: "'v windowedFilter \<Rightarrow> int" where "time1 f \<equiv> wf_time (est1 f)"
abbreviation time2 :: "'v windowedFilter \<Rightarrow> int" where "time2 f \<equiv> wf_time (est2 f)"

text \<open>The estimates are ranked, and a worse estimate is never older than a better one.\<close>

definition wf_inv :: "('v \<Rightarrow> int) \<Rightarrow> int \<Rightarrow> 'v windowedFilter \<Rightarrow> bool" where
  "wf_inv k now f \<longleftrightarrow>
     key1 k f \<le> key0 k f \<and> key2 k f \<le> key1 k f \<and>
     0 \<le> time0 f \<and> time0 f \<le> time1 f \<and> time1 f \<le> time2 f \<and> time2 f \<le> now \<and>
     in_u64 now \<and> in_u64 (windowLength f)"

lemma u64_elapsed: "0 \<le> t \<Longrightarrow> t \<le> now \<Longrightarrow> in_u64 now \<Longrightarrow> u64 (now - t) = now - t"
  by (rule u64_small) (auto simp: in_u64_def)

lemma wf_inv_elapsed:
  assumes "wf_inv k now f" "now \<le> t" "in_u64 t"
  shows "u64 (t - time0 f) = t - time0 f" "u64 (t - time1 f) = t - time1 f" "u64 (t - time2 f) = t - time2 f"
  using assms by (auto simp: wf_inv_def intro!: u64_elapsed)

lemma new_wf_inv: "in_u64 w \<Longrightarrow> wf_inv k 0 (NewWindowedFilter z w)"
  by (simp add: wf_inv_def NewWindowedFilter_def in_u64_def)

lemma wfReset_simps [simp]:
  "est0 (wfReset s t f) = \<lparr>wf_sample = s, wf_time = t\<rparr>"
  "est1 (wfReset s t f) = \<lparr>wf_sample = s, wf_time = t\<rparr>"
  "est2 (wfReset s t f) = \<lparr>wf_sample = s, wf_time = t\<rparr>"
  "windowLength (wfReset s t f) = windowLength f"
  by (simp_all add: wfReset_def Let_def)

lemma wfUpdate_windowLength [simp]: "windowLength (wfUpdate cmp z s t f) = windowLength f"
  by (simp add: wfUpdate_def wfExpire_def wfRank_def Let_def)

lemma wfUpdate_inv:
  assumes "keyed cmp k" "wf_inv k now f" "now \<le> t" "in_u64 t"
  shows "wf_inv k t (wfUpdate cmp z s t f)"
  using assms wf_inv_elapsed [OF assms(2-4)]
  by (auto simp: wf_inv_def wfUpdate_def wfExpire_def wfRank_def Let_def u64_elapsed in_u64_def not_le
      elim!: order_trans)

lemma wfUpdate_fresh:
  assumes "keyed cmp k" "wf_inv k now f" "now \<le> t" "in_u64 t"
  shows "t - time0 (wfUpdate cmp z s t f) \<le> windowLength f"
  using assms wf_inv_elapsed [OF assms(2-4)]
  by (auto simp: wf_inv_def wfUpdate_def wfExpire_def wfRank_def Let_def u64_elapsed in_u64_def not_le)

lemma wfUpdate_best_ge:
  assumes "keyed cmp k" "wf_inv k now f" "now \<le> t" "in_u64 t"
  shows "k s \<le> key0 k (wfUpdate cmp z s t f)"
  using assms wf_inv_elapsed [OF assms(2-4)]
  by (auto simp: wf_inv_def wfUpdate_def wfExpire_def wfRank_def Let_def u64_elapsed in_u64_def not_le)

text \<open>The samples a filter holds: an update only adds the new one.\<close>

definition wf_samples :: "'v windowedFilter \<Rightarrow> 'v set" where
  "wf_samples f = {GetBest f, GetSecondBest f, GetThirdBest f}"

lemma wfUpdate_samples: "wf_samples (wfUpdate cmp z s t f) \<subseteq> insert s (wf_samples f)"
  by (simp add: wf_samples_def GetBest_def GetSecondBest_def GetThirdBest_def
      wfUpdate_def wfExpire_def wfRank_def Let_def)

lemma wf_inv_mono: "wf_inv k now f \<Longrightarrow> now \<le> t \<Longrightarrow> in_u64 t \<Longrightarrow> wf_inv k t f"
  by (auto simp: wf_inv_def)

lemma wfClear_inv: "in_u64 (windowLength f) \<Longrightarrow> wf_inv k 0 (wfClear z f)"
  by (simp add: wf_inv_def wfClear_def in_u64_def)

lemma wfReset_inv: "in_u64 t \<Longrightarrow> in_u64 (windowLength f) \<Longrightarrow> wf_inv k t (wfReset s t f)"
  by (simp add: wf_inv_def in_u64_def)

section \<open>What the estimates are, over a whole run\<close>

text \<open>
  \<open>tracks k h e i\<close>: the estimate \<open>e\<close> is the \<open>i\<close>-th sample of the history \<open>h\<close>, and no sample
  from there on has a larger key.
\<close>

definition tracks :: "('v \<Rightarrow> int) \<Rightarrow> ('v \<times> int) list \<Rightarrow> 'v wfEntry \<Rightarrow> nat \<Rightarrow> bool" where
  "tracks k h e i \<longleftrightarrow>
     i < length h \<and> h ! i = (wf_sample e, wf_time e) \<and>
     (\<forall>j. i \<le> j \<and> j < length h \<longrightarrow> k (fst (h ! j)) \<le> k (wf_sample e))"

definition tracked :: "('v \<Rightarrow> int) \<Rightarrow> ('v \<times> int) list \<Rightarrow> 'v wfEntry \<Rightarrow> bool" where
  "tracked k h e \<longleftrightarrow> (\<exists>i. tracks k h e i)"

definition wf_tracks :: "('v \<Rightarrow> int) \<Rightarrow> ('v \<times> int) list \<Rightarrow> 'v windowedFilter \<Rightarrow> bool" where
  "wf_tracks k h f \<longleftrightarrow>
     tracked k h (est0 f) \<and> tracked k h (est1 f) \<and> tracked k h (est2 f)"

lemma tracked_snoc:
  "tracked k h e \<Longrightarrow> k s \<le> k (wf_sample e) \<Longrightarrow> tracked k (h @ [(s, t)]) e"
  by (force simp: tracked_def tracks_def nth_append less_Suc_eq)

lemma tracked_new [simp]: "tracked k (h @ [(s, t)]) \<lparr>wf_sample = s, wf_time = t\<rparr>"
  unfolding tracked_def by (intro exI [of _ "length h"]) (auto simp: tracks_def nth_append less_Suc_eq)

lemma wf_tracks_reset: "wf_tracks k (h @ [(s, t)]) (wfReset s t f)"
  by (simp add: wf_tracks_def)

fun wf_run ::
  "('v \<Rightarrow> 'v \<Rightarrow> int) \<Rightarrow> 'v \<Rightarrow> 'v windowedFilter \<Rightarrow> ('v \<times> int) list \<Rightarrow> 'v windowedFilter"
where
  "wf_run cmp z f [] = f"
| "wf_run cmp z f ((s, t) # xs) = wf_run cmp z (wfUpdate cmp z s t f) xs"

lemma wf_run_append: "wf_run cmp z f (xs @ ys) = wf_run cmp z (wf_run cmp z f xs) ys"
  by (induction cmp z f xs rule: wf_run.induct) auto

lemma wf_run_windowLength [simp]: "windowLength (wf_run cmp z f xs) = windowLength f"
  by (induction cmp z f xs rule: wf_run.induct) auto

text \<open>The times of a run: they never go back and fit the counter.\<close>

fun times_ok :: "int \<Rightarrow> ('v \<times> int) list \<Rightarrow> bool" where
  "times_ok now [] = True"
| "times_ok now ((s, t) # xs) = (now \<le> t \<and> in_u64 t \<and> times_ok t xs)"

locale keyed_filter =
  fixes cmp :: "'v \<Rightarrow> 'v \<Rightarrow> int" and k :: "'v \<Rightarrow> int" and z :: 'v
  assumes key: "keyed cmp k"
begin

lemma ranked_tracks:
  assumes "wf_tracks k h f" "k s < key0 k f"
  shows "wf_tracks k (h @ [(s, t)]) (wfRank cmp s t f)"
  using assms key by (auto simp: wf_tracks_def wfRank_def Let_def not_le intro: tracked_snoc)

lemma expire_tracks:
  assumes "wf_tracks k (h @ [(s, t)]) f"
  shows "wf_tracks k (h @ [(s, t)]) (wfExpire cmp s t f)"
  using assms by (simp add: wf_tracks_def wfExpire_def Let_def)

lemma update_tracks:
  assumes "wf_tracks k h f \<or> cmp (wf_sample (est0 f)) z = 0"
  shows "wf_tracks k (h @ [(s, t)]) (wfUpdate cmp z s t f)"
proof (cases "cmp (wf_sample (est0 f)) z = 0 \<or> cmp s (wf_sample (est0 f)) \<ge> 0 \<or>
    u64 (t - time2 f) > windowLength f")
  case True
  then show ?thesis by (simp add: wfUpdate_def wf_tracks_reset)
next
  case False
  then have "wf_tracks k h f" "k s < key0 k f" using assms key by auto
  from expire_tracks [OF ranked_tracks [OF this, of t]] False show ?thesis
    by (simp add: wfUpdate_def)
qed

lemma run_tracks:
  assumes "wf_tracks k h f \<or> cmp (wf_sample (est0 f)) z = 0" "xs \<noteq> []"
  shows "wf_tracks k (h @ xs) (wf_run cmp z f xs)"
  using assms
proof (induction xs arbitrary: h f)
  case (Cons x xs)
  obtain s t where x: "x = (s, t)" by (cases x)
  note u = update_tracks [OF Cons.prems(1), of s t]
  show ?case
  proof (cases "xs = []")
    case False
    with Cons.IH [of "h @ [x]" "wfUpdate cmp z s t f"] u x show ?thesis by simp
  qed (use u x in simp)
qed simp

lemma run_inv:
  "wf_inv k now f \<Longrightarrow> times_ok now xs \<Longrightarrow> wf_inv k (if xs = [] then now else snd (last xs)) (wf_run cmp z f xs)"
proof (induction xs arbitrary: now f)
  case (Cons x xs)
  obtain s t where x: "x = (s, t)" by (cases x)
  with Cons.prems have "wf_inv k t (wfUpdate cmp z s t f)" by (auto intro: wfUpdate_inv [OF key])
  from Cons.IH [OF this] Cons.prems x show ?case by (simp split: if_splits)
qed simp

lemma run_fresh:
  assumes "wf_inv k now f" "times_ok now xs" "xs \<noteq> []"
  shows "snd (last xs) - time0 (wf_run cmp z f xs) \<le> windowLength f"
proof -
  obtain ys s t where xs: "xs = ys @ [(s, t)]"
    using assms(3) by (cases xs rule: rev_cases) auto
  have ty: "times_ok now ys" "(if ys = [] then now else snd (last ys)) \<le> t" "in_u64 t"
    using assms(2) unfolding xs
    by (induction now ys rule: times_ok.induct) (auto split: if_splits)
  from wfUpdate_fresh [OF key run_inv [OF assms(1) ty(1)] ty(2,3)] show ?thesis
    by (simp add: xs wf_run_append)
qed

theorem run_best:
  assumes "wf_inv k now f" "times_ok now xs" "xs \<noteq> []" "cmp (wf_sample (est0 f)) z = 0"
  shows "\<exists>i < length xs. fst (xs ! i) = GetBest (wf_run cmp z f xs) \<and>
     snd (last xs) - snd (xs ! i) \<le> windowLength f \<and>
     (\<forall>j. i \<le> j \<and> j < length xs \<longrightarrow> k (fst (xs ! j)) \<le> k (GetBest (wf_run cmp z f xs)))"
proof -
  have "wf_tracks k ([] @ xs) (wf_run cmp z f xs)" using assms(3,4) by (intro run_tracks) auto
  then obtain i where i: "tracks k xs (est0 (wf_run cmp z f xs)) i"
    by (auto simp: wf_tracks_def tracked_def)
  with run_fresh [OF assms(1-3)] show ?thesis
    by (intro exI [of _ i]) (auto simp: tracks_def GetBest_def)
qed

end

interpretation max_filter: keyed_filter MaxFilter "\<lambda>x. x" 0
  by unfold_locales (rule MaxFilter_keyed)

interpretation min_filter: keyed_filter MinFilter uminus 0
  by unfold_locales (rule MinFilter_keyed)

text \<open>
  (C30) The bandwidth filter, fed with any samples at non-decreasing round counts: its best
  estimate is one of the samples, measured within the window that ends at the latest
  sample, and at least as large as every sample since it was measured.
\<close>

theorem max_filter_best:
  assumes "in_u64 w" "times_ok 0 xs" "xs \<noteq> []"
  shows "\<exists>i < length xs. fst (xs ! i) = GetBest (wf_run MaxFilter 0 (NewWindowedFilter 0 w) xs) \<and>
     snd (last xs) - snd (xs ! i) \<le> w \<and>
     (\<forall>j. i \<le> j \<and> j < length xs \<longrightarrow>
        fst (xs ! j) \<le> GetBest (wf_run MaxFilter 0 (NewWindowedFilter 0 w) xs))"
  using max_filter.run_best [OF new_wf_inv [OF assms(1)] assms(2,3)]
  by (simp add: NewWindowedFilter_def MaxFilter_def)

theorem max_filter_best_witness:
  "let xs = [(5, 1), (9, 2), (3, 20)]; f = wf_run MaxFilter 0 (NewWindowedFilter 0 10) xs
   in \<exists>i < length xs. fst (xs ! i) = GetBest f \<and> snd (last xs) - snd (xs ! i) \<le> 10 \<and>
        (\<forall>j. i \<le> j \<and> j < length xs \<longrightarrow> fst (xs ! j) \<le> GetBest f)"
  unfolding Let_def by (rule max_filter_best) (simp_all add: in_u64_def)

text \<open>
  Every update keeps the documented invariant: the estimates are ranked best, second,
  third, their measurement times are ordered the same way, and the best is not older than
  the window.
\<close>

theorem max_filter_invariant:
  assumes "wf_inv (\<lambda>x. x) now f" "now \<le> t" "in_u64 t"
  shows "wf_inv (\<lambda>x. x) t (wfUpdate MaxFilter 0 s t f) \<and>
         s \<le> GetBest (wfUpdate MaxFilter 0 s t f) \<and>
         t - wf_time (est0 (wfUpdate MaxFilter 0 s t f)) \<le> windowLength f"
  using wfUpdate_inv [OF MaxFilter_keyed assms] wfUpdate_best_ge [OF MaxFilter_keyed assms]
    wfUpdate_fresh [OF MaxFilter_keyed assms]
  by (simp add: GetBest_def)

theorem max_filter_invariant_witness:
  "wf_inv (\<lambda>x. x) 3 (wfUpdate MaxFilter 0 7 3 (NewWindowedFilter 0 10)) \<and>
   7 \<le> GetBest (wfUpdate MaxFilter 0 7 3 (NewWindowedFilter 0 10)) \<and>
   3 - wf_time (est0 (wfUpdate MaxFilter 0 7 3 (NewWindowedFilter 0 10))) \<le> 10"
proof -
  have "wf_inv (\<lambda>x. x) 0 (NewWindowedFilter (0 :: int) 10)" by (rule new_wf_inv) (simp add: in_u64_def)
  from max_filter_invariant [OF this, of 3 7] show ?thesis
    by (simp add: in_u64_def) (simp add: NewWindowedFilter_def)
qed

end
