(* ===== verification/Float64.thy ===== *)
theory Float64
  imports Prelude "HOL-Library.Log_Nat"
begin

text \<open>
  The finite \<^verbatim>\<open>float64\<close> arithmetic the congestion controller uses for its gains: IEEE binary64
  with rounding to nearest, ties to even.  A value is \<open>F64 m e\<close>, standing for \<open>m * 2 ^ e\<close>
  with at most 53 significant bits.  The exponent is unbounded: every value in this code
  lies between \<open>2 ^ -10\<close> and \<open>2 ^ 70\<close>, far from overflow and from subnormal numbers.

  A conversion to an integer type truncates towards zero; where the value does not fit the
  type the Go specification leaves the result to the implementation, and so does
  \<open>implementation_defined\<close>.
\<close>

section \<open>Values and rounding\<close>

datatype f64 = F64 (mant: int) (expo: int)

definition f64_round :: "int \<Rightarrow> int \<Rightarrow> f64" where
  "f64_round m e =
     (let a = \<bar>m\<bar>; l = bitlen a in
      if l \<le> 53 then F64 m e
      else let s = nat (l - 53);
               q = a div 2 ^ s;
               r = a mod 2 ^ s;
               h = 2 ^ (s - 1);
               q' = (if h < r \<or> (r = h \<and> odd q) then q + 1 else q)
           in F64 (sgn m * q') (e + int s))"

definition f64_of_int :: "int \<Rightarrow> f64" where
  "f64_of_int n = f64_round n 0"

definition f64_mul :: "f64 \<Rightarrow> f64 \<Rightarrow> f64" where
  "f64_mul x y = f64_round (mant x * mant y) (expo x + expo y)"

text \<open>
  Division by a positive value: 55 quotient bits and a sticky bit decide the rounding.
\<close>

definition f64_div :: "f64 \<Rightarrow> f64 \<Rightarrow> f64" where
  "f64_div x y =
     (let a = \<bar>mant x\<bar>; b = mant y;
          k = nat (max 0 (bitlen b - bitlen a + 55));
          q = a * 2 ^ k div b;
          m = 2 * q + (if a * 2 ^ k mod b = 0 then 0 else 1)
      in f64_round (sgn (mant x) * m) (expo x - expo y - int k - 1))"

text \<open>A decimal literal \<open>p / q\<close> of the source is the nearest float.\<close>

definition f64_lit :: "int \<Rightarrow> int \<Rightarrow> f64" where
  "f64_lit p q = f64_div (F64 p 0) (F64 q 0)"

abbreviation f64_one :: f64 where
  "f64_one \<equiv> F64 1 0"

section \<open>Comparison\<close>

definition f64_less :: "f64 \<Rightarrow> f64 \<Rightarrow> bool" where
  "f64_less x y =
     (if expo x \<le> expo y then mant x < mant y * 2 ^ nat (expo y - expo x)
      else mant x * 2 ^ nat (expo x - expo y) < mant y)"

definition f64_eq :: "f64 \<Rightarrow> f64 \<Rightarrow> bool" where
  "f64_eq x y \<longleftrightarrow> \<not> f64_less x y \<and> \<not> f64_less y x"

section \<open>Conversion to integers\<close>

definition f64_trunc :: "f64 \<Rightarrow> int" where
  "f64_trunc x =
     (if 0 \<le> expo x then mant x * 2 ^ nat (expo x)
      else sgn (mant x) * (\<bar>mant x\<bar> div 2 ^ nat (- expo x)))"

definition implementation_defined :: "f64 \<Rightarrow> int" where
  "implementation_defined x = undefined"

definition f64_to_i64 :: "f64 \<Rightarrow> int" where
  "f64_to_i64 x =
     (if in_i64 (f64_trunc x) then f64_trunc x else i64 (implementation_defined x))"

definition f64_to_u64 :: "f64 \<Rightarrow> int" where
  "f64_to_u64 x =
     (if in_u64 (f64_trunc x) then f64_trunc x else u64 (implementation_defined x))"

lemma in_i64_f64_to_i64 [simp]: "in_i64 (f64_to_i64 x)"
  by (simp add: f64_to_i64_def)

lemma in_u64_f64_to_u64 [simp]: "in_u64 (f64_to_u64 x)"
  by (simp add: f64_to_u64_def)

section \<open>Exact results\<close>

lemma f64_round_exact: "\<bar>m\<bar> < 2 ^ 53 \<Longrightarrow> f64_round m e = F64 m e"
  by (simp add: f64_round_def bitlen_le_iff_power)

lemma f64_of_int_exact: "\<bar>n\<bar> < 2 ^ 53 \<Longrightarrow> f64_of_int n = F64 n 0"
  by (simp add: f64_of_int_def f64_round_exact)

lemma f64_mul_one: "\<bar>n\<bar> < 2 ^ 53 \<Longrightarrow> f64_mul f64_one (f64_of_int n) = F64 n 0"
  by (simp add: f64_mul_def f64_of_int_exact f64_round_exact)

lemma f64_trunc_int [simp]: "f64_trunc (F64 n 0) = n"
  by (simp add: f64_trunc_def)

lemma f64_to_i64_int: "in_i64 n \<Longrightarrow> f64_to_i64 (F64 n 0) = n"
  by (simp add: f64_to_i64_def)

lemma f64_to_u64_int: "in_u64 n \<Longrightarrow> f64_to_u64 (F64 n 0) = n"
  by (simp add: f64_to_u64_def)

lemma f64_to_i64_mul_one:
  assumes "0 \<le> n" "n < 2 ^ 53"
  shows "f64_to_i64 (f64_mul f64_one (f64_of_int n)) = n"
proof -
  have "f64_mul f64_one (f64_of_int n) = F64 n 0" using assms by (intro f64_mul_one) simp
  moreover have "in_i64 n" using assms by (simp add: in_i64_def)
  ultimately show ?thesis by (simp add: f64_to_i64_int)
qed

lemma f64_to_i64_mul_two:
  assumes "0 \<le> n" "n < 2 ^ 52"
  shows "f64_to_i64 (f64_mul (F64 2 0) (f64_of_int n)) = 2 * n"
proof -
  have "f64_mul (F64 2 0) (f64_of_int n) = F64 (2 * n) 0"
    using assms by (simp add: f64_mul_def f64_of_int_exact f64_round_exact)
  moreover have "in_i64 (2 * n)" using assms by (simp add: in_i64_def)
  ultimately show ?thesis by (simp add: f64_to_i64_int)
qed

section \<open>Signs and bounds\<close>

lemma f64_round_nonneg: "0 \<le> m \<Longrightarrow> 0 \<le> mant (f64_round m e)"
  by (simp add: f64_round_def Let_def sgn_if pos_imp_zdiv_nonneg_iff)

lemma f64_of_int_nonneg: "0 \<le> n \<Longrightarrow> 0 \<le> mant (f64_of_int n)"
  by (simp add: f64_of_int_def f64_round_nonneg)

lemma f64_mul_nonneg: "0 \<le> mant x \<Longrightarrow> 0 \<le> mant y \<Longrightarrow> 0 \<le> mant (f64_mul x y)"
  by (simp add: f64_mul_def f64_round_nonneg)

lemma f64_trunc_nonneg: "0 \<le> mant x \<Longrightarrow> 0 \<le> f64_trunc x"
  by (simp add: f64_trunc_def sgn_if pos_imp_zdiv_nonneg_iff)

end
