(* ===== verification/RingBuffer.thy ===== *)
theory RingBuffer
  imports Prelude
begin

text \<open>
  \<^verbatim>\<open>h3frontend/internal/congestion/bbr/ringbuffer.go\<close>: a growable ring buffer.  The
  zero value of the element type (\<^verbatim>\<open>*new(T)\<close>) is the argument \<open>z\<close>.  A pointer into the
  ring is the slot it points to, so that the client can write through it.

  The section on the list view shows that every operation is the corresponding operation
  on the list \<open>rb_list\<close> of its elements in order; the locale \<open>fifo_buffer\<close> states that
  contract for the clients, and the interpretation \<open>rb\<close> discharges it.
\<close>

section \<open>Data and operations\<close>

record 'a ringBuffer =
  ring :: "'a list"
  headPos :: nat
  tailPos :: nat
  full :: bool

definition rb_zero :: "'a ringBuffer" where
  "rb_zero = \<lparr>ring = [], headPos = 0, tailPos = 0, full = False\<rparr>"

definition Init :: "'a \<Rightarrow> nat \<Rightarrow> 'a ringBuffer \<Rightarrow> 'a ringBuffer" where
  "Init z sz r = r\<lparr>ring := replicate sz z\<rparr>"

definition Len :: "'a ringBuffer \<Rightarrow> int" where
  "Len r =
     (if full r then int (length (ring r))
      else if tailPos r \<ge> headPos r then int (tailPos r) - int (headPos r)
      else int (tailPos r) - int (headPos r) + int (length (ring r)))"

definition Empty :: "'a ringBuffer \<Rightarrow> bool" where
  "Empty r \<longleftrightarrow> \<not> full r \<and> headPos r = tailPos r"

definition grow :: "'a \<Rightarrow> 'a ringBuffer \<Rightarrow> 'a ringBuffer res" where
  "grow z r =
     (let oldRing = ring r;
          newSize = (if length oldRing * 2 = 0 then 1 else length oldRing * 2);
          fresh = replicate newSize z
      in if headPos r > length oldRing then Inl IndexOutOfRange
         else let headLen = min (length fresh) (length (drop (headPos r) oldRing));
                  ring1 = go_copy fresh (drop (headPos r) oldRing);
                  ring2 = take headLen ring1 @ go_copy (drop headLen ring1) (take (headPos r) oldRing)
              in Inr (r\<lparr>ring := ring2, headPos := 0, tailPos := length oldRing, full := False\<rparr>))"

definition PushBack :: "'a \<Rightarrow> 'a \<Rightarrow> 'a ringBuffer \<Rightarrow> 'a ringBuffer res" where
  "PushBack z t r =
     bindR (if full r \<or> length (ring r) = 0 then grow z r else Inr r) (\<lambda>r.
     if tailPos r \<ge> length (ring r) then Inl IndexOutOfRange
     else let r = r\<lparr>ring := (ring r)[tailPos r := t]\<rparr>;
              r = r\<lparr>tailPos := tailPos r + 1\<rparr>;
              r = (if tailPos r = length (ring r) then r\<lparr>tailPos := 0\<rparr> else r);
              r = (if tailPos r = headPos r then r\<lparr>full := True\<rparr> else r)
          in Inr r)"

definition PopFront :: "'a \<Rightarrow> 'a ringBuffer \<Rightarrow> ('a \<times> 'a ringBuffer) res" where
  "PopFront z r =
     (if Empty r then Inl (Panic ''ringbuffer: pop from an empty queue'')
      else let r = r\<lparr>full := False\<rparr>
           in bindR (index (ring r) (headPos r)) (\<lambda>t.
              let r = r\<lparr>ring := (ring r)[headPos r := z]\<rparr>;
                  r = r\<lparr>headPos := headPos r + 1\<rparr>;
                  r = (if headPos r = length (ring r) then r\<lparr>headPos := 0\<rparr> else r)
              in Inr (t, r)))"

definition Offset :: "'a ringBuffer \<Rightarrow> int \<Rightarrow> nat res" where
  "Offset r i =
     (if Empty r \<or> i \<ge> Len r then Inl (Panic ''ringbuffer: offset from invalid index'')
      else if ring r = [] then Inl DivideByZero
      else let offset = (int (headPos r) + i) smod int (length (ring r))
           in if 0 \<le> offset \<and> offset < int (length (ring r)) then Inr (nat offset)
              else Inl IndexOutOfRange)"

definition Front :: "'a ringBuffer \<Rightarrow> nat res" where
  "Front r =
     (if Empty r then Inl (Panic ''ringbuffer: front from an empty queue'')
      else if headPos r < length (ring r) then Inr (headPos r) else Inl IndexOutOfRange)"

definition Back :: "'a ringBuffer \<Rightarrow> nat res" where
  "Back r =
     (if Empty r then Inl (Panic ''ringbuffer: back from an empty queue'')
      else Offset r (Len r - 1))"

definition Clear :: "'a \<Rightarrow> 'a ringBuffer \<Rightarrow> 'a ringBuffer" where
  "Clear z r =
     r\<lparr>ring := map (\<lambda>_. z) (ring r), headPos := 0, tailPos := 0, full := False\<rparr>"

text \<open>Reading and writing through a pointer into the ring.\<close>

definition deref :: "'a ringBuffer \<Rightarrow> nat \<Rightarrow> 'a" where
  "deref r p = ring r ! p"

definition store :: "'a ringBuffer \<Rightarrow> nat \<Rightarrow> 'a \<Rightarrow> 'a ringBuffer" where
  "store r p x = r\<lparr>ring := (ring r)[p := x]\<rparr>"

section \<open>Invariant and list view\<close>

definition rb_inv :: "'a ringBuffer \<Rightarrow> bool" where
  "rb_inv r \<longleftrightarrow>
     (if ring r = [] then headPos r = 0 \<and> tailPos r = 0 \<and> \<not> full r
      else headPos r < length (ring r) \<and> tailPos r < length (ring r) \<and>
           (full r \<longrightarrow> headPos r = tailPos r))"

definition slot :: "'a ringBuffer \<Rightarrow> nat \<Rightarrow> nat" where
  "slot r i = (headPos r + i) mod length (ring r)"

definition rb_list :: "'a ringBuffer \<Rightarrow> 'a list" where
  "rb_list r = map (\<lambda>i. ring r ! slot r i) [0..<nat (Len r)]"

text \<open>The arithmetic of slots: one conditional subtraction instead of a remainder.\<close>

lemma mod_wrap: "(h::nat) < n \<Longrightarrow> i < n \<Longrightarrow> (h + i) mod n = (if h + i < n then h + i else h + i - n)"
  by (simp add: mod_if)

lemma slot_wrap:
  "headPos r < length (ring r) \<Longrightarrow> i < length (ring r) \<Longrightarrow>
   slot r i = (if headPos r + i < length (ring r) then headPos r + i
               else headPos r + i - length (ring r))"
  by (simp add: slot_def mod_wrap)

lemma Len_nonneg: "rb_inv r \<Longrightarrow> 0 \<le> Len r"
  by (auto simp: rb_inv_def Len_def split: if_splits)

lemma Len_le: "rb_inv r \<Longrightarrow> Len r \<le> int (length (ring r))"
  by (auto simp: rb_inv_def Len_def split: if_splits)

lemma length_rb_list: "rb_inv r \<Longrightarrow> int (length (rb_list r)) = Len r"
  by (simp add: rb_list_def Len_nonneg)

lemma rb_list_nth:
  "i < length (rb_list r) \<Longrightarrow> rb_list r ! i = ring r ! slot r i"
  by (simp add: rb_list_def)

lemma Empty_iff: "rb_inv r \<Longrightarrow> Empty r \<longleftrightarrow> rb_list r = []"
  by (auto simp: rb_inv_def Len_def Empty_def rb_list_def split: if_splits)

lemma rb_list_eqI:
  assumes "rb_inv r" "Len r = int (length xs)"
    and "\<And>i. i < length xs \<Longrightarrow> ring r ! slot r i = xs ! i"
  shows "rb_list r = xs"
  using assms by (intro nth_equalityI) (auto simp: rb_list_def)

lemma rb_inv_zero: "rb_inv rb_zero"
  by (simp add: rb_inv_def rb_zero_def)

lemma rb_list_zero: "rb_list rb_zero = []"
  by (simp add: rb_list_def rb_zero_def Len_def)

lemma Init_fresh: "rb_inv (Init z n rb_zero) \<and> rb_list (Init z n rb_zero) = []"
  by (simp add: rb_inv_def rb_list_def Init_def rb_zero_def Len_def)

lemma Clear_inv: "rb_inv (Clear z r)"
  by (simp add: rb_inv_def Clear_def)

lemma Clear_list: "rb_list (Clear z r) = []"
  by (simp add: rb_list_def Clear_def Len_def)

subsection \<open>Growing and pushing\<close>

lemma grow_keeps:
  assumes "rb_inv r" "full r \<or> ring r = []"
  shows "\<exists>r'. grow z r = Inr r' \<and> rb_inv r' \<and> rb_list r' = rb_list r \<and> \<not> full r' \<and>
              tailPos r' < length (ring r') \<and> headPos r' = 0 \<and> tailPos r' = length (ring r)"
proof (cases "ring r = []")
  case True
  with assms show ?thesis
    by (auto simp: grow_def rb_inv_def rb_list_def Len_def go_copy_def)
next
  case False
  let ?n = "length (ring r)" and ?h = "headPos r"
  from False assms have f: "full r" and h: "?h < ?n" and t: "tailPos r = ?h"
    by (auto simp: rb_inv_def)
  define r' where "r' = r\<lparr>ring := drop ?h (ring r) @ take ?h (ring r) @ replicate ?n z,
      headPos := 0, tailPos := ?n, full := False\<rparr>"
  have g: "grow z r = Inr r'"
    using False h by (simp add: grow_def r'_def go_copy_def mult_2_right Let_def)
  have i: "rb_inv r'"
    using False by (auto simp: rb_inv_def r'_def)
  have "rb_list r' = rb_list r"
  proof (rule rb_list_eqI [OF i])
    show "Len r' = int (length (rb_list r))"
      using length_rb_list [OF assms(1)] f by (simp add: r'_def Len_def)
    fix i assume "i < length (rb_list r)"
    then have i: "i < ?n" using f by (simp add: rb_list_def Len_def)
    show "ring r' ! slot r' i = rb_list r ! i"
      using i h f by (auto simp: r'_def slot_def rb_list_def Len_def nth_append mod_wrap
          add.commute)
  qed
  with g i show ?thesis using False h by (auto simp: r'_def)
qed

lemma PushBack_nonfull:
  assumes "rb_inv r" "\<not> full r" "ring r \<noteq> []"
  shows "\<exists>r'. PushBack z t r = Inr r' \<and> rb_inv r' \<and> rb_list r' = rb_list r @ [t]"
proof -
  let ?n = "length (ring r)" and ?h = "headPos r" and ?t = "tailPos r"
  from assms have h: "?h < ?n" and tl: "?t < ?n" by (auto simp: rb_inv_def)
  define q where "q = (if ?t + 1 = ?n then 0 else ?t + 1)"
  define r' where "r' = r\<lparr>ring := (ring r)[?t := t], tailPos := q, full := (q = ?h)\<rparr>"
  have p: "PushBack z t r = Inr r'"
    using assms tl by (auto simp: PushBack_def r'_def q_def Let_def)
  have i: "rb_inv r'"
    using h tl assms by (auto simp: rb_inv_def r'_def q_def)
  have L: "Len r' = Len r + 1"
    using h tl assms by (auto simp: Len_def r'_def q_def)
  have len: "length (rb_list r) = (if ?h \<le> ?t then ?t - ?h else ?t + ?n - ?h)"
    using assms by (auto simp: rb_list_def Len_def)
  then have last: "slot r (length (rb_list r)) = ?t"
    using h tl by (subst slot_wrap) auto
  have "rb_list r' = rb_list r @ [t]"
  proof (rule rb_list_eqI [OF i])
    show "Len r' = int (length (rb_list r @ [t]))"
      using L length_rb_list [OF assms(1)] by simp
    fix i assume "i < length (rb_list r @ [t])"
    then consider "i < length (rb_list r)" | "i = length (rb_list r)" by fastforce
    then show "ring r' ! slot r' i = (rb_list r @ [t]) ! i"
    proof cases
      case 1
      then have "i < ?n" using len h tl by (auto split: if_splits)
      then have "slot r i \<noteq> ?t"
        using h tl len 1 by (subst slot_wrap) (auto split: if_splits)
      then show ?thesis
        using 1 by (simp add: nth_append rb_list_nth r'_def slot_def)
    next
      case 2
      then show ?thesis using last tl by (simp add: r'_def slot_def)
    qed
  qed
  with p i show ?thesis by blast
qed

lemma PushBack_list:
  assumes "rb_inv r"
  shows "\<exists>r'. PushBack z t r = Inr r' \<and> rb_inv r' \<and> rb_list r' = rb_list r @ [t]"
proof (cases "full r \<or> ring r = []")
  case True
  from grow_keeps [OF assms True] obtain g where
    g: "grow z r = Inr g" "rb_inv g" "rb_list g = rb_list r" "\<not> full g" "tailPos g < length (ring g)"
    by blast
  have "PushBack z t r = PushBack z t g"
    using True g(1,4,5) by (auto simp: PushBack_def)
  with PushBack_nonfull [OF g(2,4)] g(3,5) show ?thesis by fastforce
next
  case False
  with PushBack_nonfull [OF assms] show ?thesis by blast
qed

subsection \<open>Popping and reading\<close>

lemma PopFront_empty: "Empty r \<Longrightarrow> PopFront z r = Inl (Panic ''ringbuffer: pop from an empty queue'')"
  by (simp add: PopFront_def)

lemma PopFront_list:
  assumes "rb_inv r" "rb_list r \<noteq> []"
  shows "\<exists>r'. PopFront z r = Inr (hd (rb_list r), r') \<and> rb_inv r' \<and> rb_list r' = tl (rb_list r)"
proof -
  let ?n = "length (ring r)" and ?h = "headPos r"
  have ne: "\<not> Empty r" using Empty_iff [OF assms(1)] assms(2) by simp
  have rn: "ring r \<noteq> []" using assms ne by (auto simp: rb_inv_def Empty_def)
  with assms have h: "?h < ?n" and t: "tailPos r < ?n" by (auto simp: rb_inv_def)
  define q where "q = (if ?h + 1 = ?n then 0 else ?h + 1)"
  define r' where "r' = r\<lparr>ring := (ring r)[?h := z], headPos := q, full := False\<rparr>"
  have hd: "hd (rb_list r) = ring r ! ?h"
    using assms(2) h by (simp add: hd_conv_nth rb_list_nth slot_def)
  have p: "PopFront z r = Inr (hd (rb_list r), r')"
    using ne h hd by (auto simp: PopFront_def r'_def q_def Let_def)
  have i: "rb_inv r'"
    using h t rn by (auto simp: rb_inv_def r'_def q_def)
  have L: "Len r' = Len r - 1"
    using h t rn ne assms(1) by (auto simp: Len_def r'_def q_def Empty_def rb_inv_def)
  have "rb_list r' = tl (rb_list r)"
  proof (rule rb_list_eqI [OF i])
    show "Len r' = int (length (tl (rb_list r)))"
      using L length_rb_list [OF assms(1)] assms(2) by (cases "rb_list r") auto
    fix i assume "i < length (tl (rb_list r))"
    then have i: "Suc i < length (rb_list r)" by simp
    then have "Suc i < ?n" using length_rb_list [OF assms(1)] Len_le [OF assms(1)] by linarith
    then have s: "slot r' i = slot r (Suc i)" "slot r (Suc i) \<noteq> ?h"
      using h rn slot_wrap [of r "Suc i"] slot_wrap [of r' i]
      by (auto simp: r'_def q_def)
    show "ring r' ! slot r' i = tl (rb_list r) ! i"
      using s i by (simp add: r'_def nth_tl rb_list_nth)
  qed
  with p i show ?thesis by blast
qed

lemma Offset_list:
  assumes "rb_inv r" "i < length (rb_list r)"
  shows "Offset r (int i) = Inr (slot r i)" "deref r (slot r i) = rb_list r ! i"
    "slot r i < length (ring r)"
proof -
  from assms have ne: "\<not> Empty r" using Empty_iff by fastforce
  have i: "int i < Len r" using length_rb_list [OF assms(1)] assms(2) by linarith
  have rn: "ring r \<noteq> []" using assms(1) ne by (auto simp: rb_inv_def Empty_def)
  have "(int (headPos r) + int i) smod int (length (ring r)) = int (slot r i)"
    by (simp add: slot_def smod_nonneg zmod_int)
  then show "Offset r (int i) = Inr (slot r i)"
    using ne i rn by (simp add: Offset_def Let_def slot_def)
  show "deref r (slot r i) = rb_list r ! i"
    using assms(2) by (simp add: deref_def rb_list_nth)
  show "slot r i < length (ring r)" using rn by (simp add: slot_def)
qed

lemma Offset_panics: "i \<ge> Len r \<Longrightarrow> \<exists>m. Offset r i = Inl (Panic m)"
  by (simp add: Offset_def)

lemma Front_list:
  assumes "rb_inv r" "rb_list r \<noteq> []"
  shows "Front r = Inr (slot r 0)" "deref r (slot r 0) = hd (rb_list r)"
proof -
  have ne: "\<not> Empty r" using Empty_iff [OF assms(1)] assms(2) by simp
  then have "headPos r < length (ring r)"
    using assms(1) by (auto simp: rb_inv_def Empty_def split: if_splits)
  with ne show "Front r = Inr (slot r 0)" by (simp add: Front_def slot_def)
  show "deref r (slot r 0) = hd (rb_list r)"
    using assms(2) by (simp add: deref_def hd_conv_nth rb_list_nth)
qed

lemma Back_list:
  assumes "rb_inv r" "rb_list r \<noteq> []"
  shows "\<exists>p. Back r = Inr p \<and> deref r p = last (rb_list r)"
proof -
  let ?k = "length (rb_list r) - 1"
  have "\<not> Empty r" using Empty_iff [OF assms(1)] assms(2) by simp
  moreover have "Len r - 1 = int ?k" using length_rb_list [OF assms(1)] assms(2)
    by (cases "rb_list r") auto
  moreover have "?k < length (rb_list r)" using assms(2) by simp
  ultimately show ?thesis
    unfolding Back_def using Offset_list(1,2) [OF assms(1), of ?k] assms(2) last_conv_nth by metis
qed

lemma store_list:
  assumes "rb_inv r" "i < length (rb_list r)"
  shows "rb_inv (store r (slot r i) x)" "rb_list (store r (slot r i) x) = (rb_list r)[i := x]"
proof -
  let ?r = "store r (slot r i) x"
  have sl: "slot ?r = slot r" by (simp add: fun_eq_iff slot_def store_def)
  have L: "Len ?r = Len r" by (simp add: Len_def store_def)
  show inv: "rb_inv ?r" using assms(1) by (auto simp: rb_inv_def store_def)
  show "rb_list ?r = (rb_list r)[i := x]"
  proof (rule rb_list_eqI [OF inv])
    show "Len ?r = int (length ((rb_list r)[i := x]))"
      using L length_rb_list [OF assms(1)] by simp
    fix j assume "j < length ((rb_list r)[i := x])"
    then have j: "j < length (rb_list r)" by simp
    have n: "i < length (ring r)" "j < length (ring r)"
      using assms(2) j length_rb_list [OF assms(1)] Len_le [OF assms(1)] by linarith+
    then have rn: "headPos r < length (ring r)" using assms(1) by (auto simp: rb_inv_def split: if_splits)
    then have "slot r j = slot r i \<longleftrightarrow> j = i"
      using n by (auto simp: slot_wrap split: if_splits)
    then show "ring ?r ! slot ?r j = (rb_list r)[i := x] ! j"
      using j Offset_list(3) [OF assms] unfolding sl
      by (auto simp: store_def nth_list_update rb_list_nth)
  qed
qed

section \<open>The contract of a FIFO buffer\<close>

text \<open>
  What the packet queue and the sampler rely on: the operations are those of a list.  The
  lemmas inside the locale are about whole runs of pushes and pops.
\<close>

locale fifo_buffer =
  fixes push :: "'a \<Rightarrow> 'b \<Rightarrow> 'b res"
    and pop :: "'b \<Rightarrow> ('a \<times> 'b) res"
    and len :: "'b \<Rightarrow> int"
    and empty :: "'b \<Rightarrow> bool"
    and contents :: "'b \<Rightarrow> 'a list"
    and inv :: "'b \<Rightarrow> bool"
  assumes push_contents:
      "inv b \<Longrightarrow> \<exists>b'. push x b = Inr b' \<and> inv b' \<and> contents b' = contents b @ [x]"
    and pop_contents:
      "inv b \<Longrightarrow> contents b \<noteq> [] \<Longrightarrow>
       \<exists>b'. pop b = Inr (hd (contents b), b') \<and> inv b' \<and> contents b' = tl (contents b)"
    and len_contents: "inv b \<Longrightarrow> len b = int (length (contents b))"
    and empty_contents: "inv b \<Longrightarrow> empty b \<longleftrightarrow> contents b = []"
begin

primrec push_all :: "'a list \<Rightarrow> 'b \<Rightarrow> 'b res" where
  "push_all [] b = Inr b"
| "push_all (x # xs) b = bindR (push x b) (push_all xs)"

primrec pop_n :: "nat \<Rightarrow> 'b \<Rightarrow> ('a list \<times> 'b) res" where
  "pop_n 0 b = Inr ([], b)"
| "pop_n (Suc n) b = bindR (pop b) (\<lambda>(x, b). bindR (pop_n n b) (\<lambda>(xs, b). Inr (x # xs, b)))"

lemma push_all_contents:
  "inv b \<Longrightarrow> \<exists>b'. push_all xs b = Inr b' \<and> inv b' \<and> contents b' = contents b @ xs"
proof (induction xs arbitrary: b)
  case (Cons x xs)
  from push_contents [OF Cons.prems, of x] obtain b1 where
    "push x b = Inr b1" "inv b1" "contents b1 = contents b @ [x]" by blast
  with Cons.IH [of b1] show ?case by auto
qed simp

lemma pop_n_contents:
  "inv b \<Longrightarrow> n \<le> length (contents b) \<Longrightarrow>
   \<exists>b'. pop_n n b = Inr (take n (contents b), b') \<and> inv b' \<and> contents b' = drop n (contents b)"
proof (induction n arbitrary: b)
  case (Suc n)
  then have ne: "contents b \<noteq> []" by auto
  from pop_contents [OF Suc.prems(1) ne] obtain b1 where
    b1: "pop b = Inr (hd (contents b), b1)" "inv b1" "contents b1 = tl (contents b)" by blast
  with Suc.prems ne have "n \<le> length (contents b1)" by simp
  with Suc.IH [OF b1(2)] b1 ne show ?case by (cases "contents b") auto
qed simp

lemma fifo_order:
  assumes "inv b" "contents b = []"
  shows "\<exists>b1 b2. push_all xs b = Inr b1 \<and> pop_n (length xs) b1 = Inr (xs, b2) \<and> empty b2"
proof -
  from push_all_contents [OF assms(1), of xs] assms(2) obtain b1 where
    b1: "push_all xs b = Inr b1" "inv b1" "contents b1 = xs" by auto
  from pop_n_contents [OF b1(2), of "length xs"] b1(3) obtain b2 where
    "pop_n (length xs) b1 = Inr (xs, b2)" "inv b2" "contents b2 = []" by auto
  with b1(1) empty_contents show ?thesis by blast
qed

end

interpretation rb: fifo_buffer "PushBack z" "PopFront z" Len Empty rb_list rb_inv for z
  by unfold_locales
    (rule PushBack_list PopFront_list length_rb_list [symmetric] Empty_iff; assumption)+

text \<open>
  A ring buffer is a first-in first-out queue: whatever is pushed into an empty
  buffer, across any number of reallocations and wrap-arounds, is popped in the same order,
  no operation panics, and the buffer is empty again.
\<close>

theorem ringbuffer_fifo:
  assumes "rb_inv r" "Empty r"
  shows "\<exists>r1 r2. rb.push_all z xs r = Inr r1 \<and> rb.pop_n z (length xs) r1 = Inr (xs, r2) \<and> Empty r2"
  by (rule rb.fifo_order) (use assms Empty_iff [of r] in simp_all)

theorem ringbuffer_fifo_witness:
  "\<exists>r1 r2. rb.push_all 0 [1, 2, 3 :: nat] (Init 0 2 rb_zero) = Inr r1 \<and>
           rb.pop_n 0 (length [1, 2, 3 :: nat]) r1 = Inr ([1, 2, 3], r2) \<and> Empty r2"
proof (rule ringbuffer_fifo)
  show "rb_inv (Init (0 :: nat) 2 rb_zero)" by (simp add: Init_fresh)
  show "Empty (Init (0 :: nat) 2 rb_zero)" by (simp add: Empty_def Init_def rb_zero_def)
qed

end
