(* ===== verification/PacketQueue.thy ===== *)
theory PacketQueue
  imports RingBuffer
begin

text \<open>
  \<^verbatim>\<open>h3frontend/internal/congestion/bbr/packet_number_indexed_queue.go\<close>: a queue of
  entries indexed by packet number, kept in a ring buffer of slots each marked present or
  not.  The queue starts at its lowest present packet number.

  The abstract view \<open>pnq_map\<close> is the finite map from packet numbers to entries; the
  theorems show that insertion, lookup, removal and pruning are the operations of that map,
  and that none of them panics or loops.  A nil \<^verbatim>\<open>*T\<close> is \<open>None\<close>; the zero value of \<open>T\<close> is
  the argument \<open>z\<close>.
\<close>

section \<open>Data and operations\<close>

record 'a entryWrapper =
  present :: bool
  entry_of :: 'a

record 'a packetNumberIndexedQueue =
  entries :: "'a entryWrapper ringBuffer"
  numberOfPresentEntries :: int
  firstPacket :: int

definition invalidPacketNumber :: int where
  "invalidPacketNumber = - 1"

abbreviation hole :: "'a \<Rightarrow> 'a entryWrapper" where
  "hole z \<equiv> \<lparr>present = False, entry_of = z\<rparr>"

definition newPacketNumberIndexedQueue :: "'a \<Rightarrow> nat \<Rightarrow> 'a packetNumberIndexedQueue" where
  "newPacketNumberIndexedQueue z n =
     \<lparr>entries = Init (hole z) n rb_zero, numberOfPresentEntries = 0,
      firstPacket = invalidPacketNumber\<rparr>"

definition IsEmpty :: "'a packetNumberIndexedQueue \<Rightarrow> bool" where
  "IsEmpty p \<longleftrightarrow> numberOfPresentEntries p = 0"

definition EntrySlotsUsed :: "'a packetNumberIndexedQueue \<Rightarrow> int" where
  "EntrySlotsUsed p = Len (entries p)"

definition FirstPacket :: "'a packetNumberIndexedQueue \<Rightarrow> int" where
  "FirstPacket p = firstPacket p"

definition LastPacket :: "'a packetNumberIndexedQueue \<Rightarrow> int" where
  "LastPacket p =
     (if IsEmpty p then invalidPacketNumber else i64 (firstPacket p + (Len (entries p) - 1)))"

text \<open>The loop that fills the gap before an out-of-sequence insertion.\<close>

primrec fillGap :: "'a \<Rightarrow> nat \<Rightarrow> 'a entryWrapper ringBuffer \<Rightarrow> 'a entryWrapper ringBuffer res" where
  "fillGap z 0 es = Inr es"
| "fillGap z (Suc n) es = bindR (PushBack (hole z) (hole z) es) (fillGap z n)"

definition Emplace ::
  "'a \<Rightarrow> int \<Rightarrow> 'a option \<Rightarrow> 'a packetNumberIndexedQueue \<Rightarrow> (bool \<times> 'a packetNumberIndexedQueue) res"
where
  "Emplace z packetNumber entry p =
     (case entry of
        None \<Rightarrow> Inr (False, p)
      | Some e \<Rightarrow>
          if packetNumber = invalidPacketNumber then Inr (False, p)
          else if IsEmpty p then
            bindR (PushBack (hole z) \<lparr>present = True, entry_of = e\<rparr> (entries p)) (\<lambda>es.
            Inr (True, p\<lparr>entries := es, numberOfPresentEntries := 1, firstPacket := packetNumber\<rparr>))
          else if packetNumber \<le> LastPacket p then Inr (False, p)
          else let offset = i64 (packetNumber - FirstPacket p);
                   gap = offset - Len (entries p)
               in bindR (fillGap z (nat gap) (entries p)) (\<lambda>es.
                  bindR (PushBack (hole z) \<lparr>present = True, entry_of = e\<rparr> es) (\<lambda>es.
                  Inr (True, p\<lparr>entries := es, numberOfPresentEntries := numberOfPresentEntries p + 1\<rparr>))))"

text \<open>The slot a packet number points to, if there is a present entry for it.\<close>

definition getEntryWraper :: "int \<Rightarrow> 'a packetNumberIndexedQueue \<Rightarrow> nat option res" where
  "getEntryWraper packetNumber p =
     (if packetNumber = invalidPacketNumber \<or> IsEmpty p \<or> packetNumber < firstPacket p then Inr None
      else let offset = i64 (packetNumber - firstPacket p)
           in if offset \<ge> Len (entries p) then Inr None
              else bindR (Offset (entries p) offset) (\<lambda>ew.
                   if \<not> present (deref (entries p) ew) then Inr None else Inr (Some ew)))"

definition GetEntry :: "int \<Rightarrow> 'a packetNumberIndexedQueue \<Rightarrow> 'a option res" where
  "GetEntry packetNumber p =
     bindR (getEntryWraper packetNumber p) (\<lambda>ew.
     Inr (map_option (\<lambda>s. entry_of (deref (entries p) s)) ew))"

text \<open>
  The loop of \<^verbatim>\<open>clearup\<close>.  Each round pops one slot, so one unit of fuel per slot and one for
  the final test of the condition are enough (\<open>clearup_front\<close>).
\<close>

primrec clearupLoop ::
  "'a \<Rightarrow> nat \<Rightarrow> 'a packetNumberIndexedQueue \<Rightarrow> 'a packetNumberIndexedQueue res"
where
  "clearupLoop z 0 p = Inl Diverges"
| "clearupLoop z (Suc fuel) p =
     (if Empty (entries p) then Inr p
      else bindR (Front (entries p)) (\<lambda>s.
           if present (deref (entries p) s) then Inr p
           else bindR (PopFront (hole z) (entries p)) (\<lambda>(_, es).
                clearupLoop z fuel (p\<lparr>entries := es, firstPacket := i64 (firstPacket p + 1)\<rparr>))))"

definition clearup :: "'a \<Rightarrow> 'a packetNumberIndexedQueue \<Rightarrow> 'a packetNumberIndexedQueue res" where
  "clearup z p =
     bindR (clearupLoop z (Suc (nat (Len (entries p)))) p) (\<lambda>p.
     Inr (if Empty (entries p) then p\<lparr>firstPacket := invalidPacketNumber\<rparr> else p))"

text \<open>\<^verbatim>\<open>Remove\<close> hands the removed entry to its callback: the third component is its argument.\<close>

definition Remove ::
  "'a \<Rightarrow> int \<Rightarrow> 'a packetNumberIndexedQueue \<Rightarrow> (bool \<times> 'a packetNumberIndexedQueue \<times> 'a option) res"
where
  "Remove z packetNumber p =
     bindR (getEntryWraper packetNumber p) (\<lambda>ew.
     case ew of
       None \<Rightarrow> Inr (False, p, None)
     | Some s \<Rightarrow>
         let e = entry_of (deref (entries p) s);
             p = p\<lparr>entries := store (entries p) s ((deref (entries p) s)\<lparr>present := False\<rparr>),
                   numberOfPresentEntries := numberOfPresentEntries p - 1\<rparr>
         in bindR (if packetNumber = FirstPacket p then clearup z p else Inr p) (\<lambda>p.
            Inr (True, p, Some e)))"

primrec removeUpToLoop ::
  "'a \<Rightarrow> nat \<Rightarrow> int \<Rightarrow> 'a packetNumberIndexedQueue \<Rightarrow> 'a packetNumberIndexedQueue res"
where
  "removeUpToLoop z 0 packetNumber p = Inl Diverges"
| "removeUpToLoop z (Suc fuel) packetNumber p =
     (if \<not> Empty (entries p) \<and> firstPacket p \<noteq> invalidPacketNumber \<and> firstPacket p < packetNumber
      then bindR (Front (entries p)) (\<lambda>s.
           let n = (if present (deref (entries p) s) then numberOfPresentEntries p - 1
                    else numberOfPresentEntries p)
           in bindR (PopFront (hole z) (entries p)) (\<lambda>(_, es).
              removeUpToLoop z fuel packetNumber
                (p\<lparr>entries := es, numberOfPresentEntries := n, firstPacket := i64 (firstPacket p + 1)\<rparr>)))
      else Inr p)"

definition RemoveUpTo ::
  "'a \<Rightarrow> int \<Rightarrow> 'a packetNumberIndexedQueue \<Rightarrow> 'a packetNumberIndexedQueue res"
where
  "RemoveUpTo z packetNumber p =
     bindR (removeUpToLoop z (Suc (nat (Len (entries p)))) packetNumber p) (clearup z)"

section \<open>Invariant and map view\<close>

abbreviation slots :: "'a packetNumberIndexedQueue \<Rightarrow> 'a entryWrapper list" where
  "slots p \<equiv> rb_list (entries p)"

abbreviation pn_limit :: int where
  "pn_limit \<equiv> 4611686018427387904"   \<comment> \<open>QUIC packet numbers are below \<open>2 ^ 62\<close>\<close>

text \<open>What holds between any two loop rounds: the count, and packet numbers in range.\<close>

definition pnq_core :: "'a packetNumberIndexedQueue \<Rightarrow> bool" where
  "pnq_core p \<longleftrightarrow>
     rb_inv (entries p) \<and>
     numberOfPresentEntries p = int (length (filter present (slots p))) \<and>
     (slots p \<noteq> [] \<longrightarrow> 0 \<le> firstPacket p \<and> firstPacket p + int (length (slots p)) \<le> pn_limit)"

definition pnq_inv :: "'a packetNumberIndexedQueue \<Rightarrow> bool" where
  "pnq_inv p \<longleftrightarrow>
     pnq_core p \<and>
     (case slots p of [] \<Rightarrow> firstPacket p = invalidPacketNumber | e # _ \<Rightarrow> present e)"

primrec slots_map :: "int \<Rightarrow> 'a entryWrapper list \<Rightarrow> int \<rightharpoonup> 'a" where
  "slots_map f [] = Map.empty"
| "slots_map f (x # xs) =
     (if present x then (slots_map (f + 1) xs)(f \<mapsto> entry_of x) else slots_map (f + 1) xs)"

definition pnq_map :: "'a packetNumberIndexedQueue \<Rightarrow> int \<rightharpoonup> 'a" where
  "pnq_map p = slots_map (firstPacket p) (slots p)"

lemma slots_map_below: "k < f \<Longrightarrow> slots_map f xs k = None"
  by (induction xs arbitrary: f) auto

lemma slots_map_nth:
  "slots_map f xs k =
     (if f \<le> k \<and> k - f < int (length xs) \<and> present (xs ! nat (k - f))
      then Some (entry_of (xs ! nat (k - f))) else None)"
proof (induction xs arbitrary: f)
  case (Cons x xs)
  consider "k < f" | "k = f" | "f < k" by linarith
  then show ?case
  proof cases
    case 3
    then have "nat (k - f) = Suc (nat (k - (f + 1)))" by linarith
    with 3 Cons show ?thesis by auto
  qed (auto simp: slots_map_below)
qed simp

lemma slots_map_append:
  "slots_map f (xs @ ys) = slots_map (f + int (length xs)) ys ++ slots_map f xs"
  by (induction xs arbitrary: f) (auto simp: algebra_simps)

lemma slots_map_holes [simp]: "slots_map f (replicate n (hole z)) = Map.empty"
  by (induction n arbitrary: f) auto

lemma slots_map_beyond: "f + int (length xs) \<le> k \<Longrightarrow> slots_map f xs k = None"
  by (simp add: slots_map_nth)

lemma dom_slots_map: "finite (dom (slots_map f xs))"
  by (induction xs arbitrary: f) auto

lemma card_slots_map: "card (dom (slots_map f xs)) = length (filter present xs)"
proof (induction xs arbitrary: f)
  case (Cons x xs)
  have "f \<notin> dom (slots_map (f + 1) xs)" by (simp add: domIff slots_map_below)
  moreover have "dom (slots_map f (x # xs)) =
      (if present x then insert f (dom (slots_map (f + 1) xs)) else dom (slots_map (f + 1) xs))"
    by (auto split: if_splits)
  ultimately show ?case using Cons by (simp add: dom_slots_map del: slots_map.simps)
qed simp

lemma slots_map_drop:
  assumes "n \<le> length xs"
  shows "slots_map (f + int n) (drop n xs) = slots_map f xs |` {f + int n..}"
proof (rule ext)
  fix k
  show "slots_map (f + int n) (drop n xs) k = (slots_map f xs |` {f + int n..}) k"
  proof (cases "f + int n \<le> k")
    case True
    then have "nat (k - f) = n + nat (k - (f + int n))" by linarith
    with True assms show ?thesis by (auto simp: slots_map_nth restrict_map_def nth_append)
  next
    case False
    then show ?thesis by (simp add: slots_map_below)
  qed
qed

lemma slots_map_absent:
  assumes "i < length xs"
  shows "slots_map f (xs[i := x\<lparr>present := False\<rparr>]) = (slots_map f xs)(f + int i := None)"
  using assms
  by (auto simp: fun_eq_iff slots_map_nth nth_list_update nat_eq_iff)

lemma pnq_coreD:
  assumes "pnq_core p"
  shows "rb_inv (entries p)" "numberOfPresentEntries p = int (length (filter present (slots p)))"
    "slots p \<noteq> [] \<Longrightarrow> 0 \<le> firstPacket p"
    "slots p \<noteq> [] \<Longrightarrow> firstPacket p + int (length (slots p)) \<le> pn_limit"
  using assms by (auto simp: pnq_core_def)

lemma pnq_invD: "pnq_inv p \<Longrightarrow> pnq_core p"
  by (simp add: pnq_inv_def)

lemma pnq_Len: "pnq_core p \<Longrightarrow> Len (entries p) = int (length (slots p))"
  by (simp add: pnq_core_def length_rb_list)

lemma pnq_Empty: "pnq_core p \<Longrightarrow> Empty (entries p) \<longleftrightarrow> slots p = []"
  by (simp add: pnq_core_def Empty_iff)

lemma IsEmpty_iff: "pnq_inv p \<Longrightarrow> IsEmpty p \<longleftrightarrow> slots p = []"
  by (auto simp: pnq_inv_def pnq_core_def IsEmpty_def split: list.splits)

lemma new_inv: "pnq_inv (newPacketNumberIndexedQueue z n)"
  by (simp add: pnq_inv_def pnq_core_def newPacketNumberIndexedQueue_def Init_fresh)

lemma new_map: "pnq_map (newPacketNumberIndexedQueue z n) = Map.empty"
  by (simp add: pnq_map_def newPacketNumberIndexedQueue_def Init_fresh)

lemma LastPacket_eq:
  assumes "pnq_inv p" "slots p \<noteq> []"
  shows "LastPacket p = firstPacket p + int (length (slots p)) - 1"
  using assms IsEmpty_iff [OF assms(1)] pnq_coreD(3,4) [OF pnq_invD [OF assms(1)]]
  by (simp add: LastPacket_def pnq_Len pnq_invD i64_small)

section \<open>Insertion\<close>

lemma fillGap_push_all: "fillGap z n es = rb.push_all (hole z) (replicate n (hole z)) es"
  by (induction n arbitrary: es) (simp_all add: bindR_def split: sum.splits)

lemma fillGap_list:
  "rb_inv es \<Longrightarrow>
   \<exists>es'. fillGap z n es = Inr es' \<and> rb_inv es' \<and> rb_list es' = rb_list es @ replicate n (hole z)"
  unfolding fillGap_push_all by (rule rb.push_all_contents)

lemma Emplace_first:
  assumes "pnq_inv p" "slots p = []" "0 \<le> k" "k < pn_limit"
  shows "\<exists>p'. Emplace z k (Some e) p = Inr (True, p') \<and> pnq_inv p' \<and> pnq_map p' = [k \<mapsto> e]"
proof -
  have c: "rb_inv (entries p)" using assms(1) pnq_invD pnq_coreD(1) by blast
  from PushBack_list [OF c, of "hole z" "\<lparr>present = True, entry_of = e\<rparr>"] obtain es where
    es: "PushBack (hole z) \<lparr>present = True, entry_of = e\<rparr> (entries p) = Inr es" "rb_inv es"
      "rb_list es = [\<lparr>present = True, entry_of = e\<rparr>]"
    using assms(2) by auto
  let ?p = "p\<lparr>entries := es, numberOfPresentEntries := 1, firstPacket := k\<rparr>"
  have "Emplace z k (Some e) p = Inr (True, ?p)"
    using assms es(1) IsEmpty_iff [OF assms(1)] by (simp add: Emplace_def invalidPacketNumber_def)
  moreover have "pnq_inv ?p" using es assms by (simp add: pnq_inv_def pnq_core_def)
  moreover have "pnq_map ?p = [k \<mapsto> e]" using es by (simp add: pnq_map_def)
  ultimately show ?thesis by blast
qed

lemma Emplace_after:
  assumes "pnq_inv p" "slots p \<noteq> []" "LastPacket p < k" "k < pn_limit"
  shows "\<exists>p'. Emplace z k (Some e) p = Inr (True, p') \<and> pnq_inv p' \<and> pnq_map p' = (pnq_map p)(k \<mapsto> e)"
proof -
  note c = pnq_invD [OF assms(1)]
  note D = pnq_coreD [OF c]
  let ?f = "firstPacket p" and ?n = "length (slots p)"
  let ?e = "\<lparr>present = True, entry_of = e\<rparr>"
  have last: "?f + int ?n \<le> k" and f: "0 \<le> ?f"
    using LastPacket_eq [OF assms(1,2)] assms(2,3) D(3) by auto
  define g where "g = nat (k - ?f - int ?n)"
  have off: "i64 (k - ?f) = k - ?f" using last f assms(4) by (intro i64_small) auto
  from fillGap_list [OF D(1), of z g] obtain es1 where
    es1: "fillGap z g (entries p) = Inr es1" "rb_inv es1" "rb_list es1 = slots p @ replicate g (hole z)"
    by blast
  from PushBack_list [OF es1(2), of "hole z" ?e] es1(3) obtain es2 where
    es2: "PushBack (hole z) ?e es1 = Inr es2" "rb_inv es2"
      "rb_list es2 = slots p @ replicate g (hole z) @ [?e]" by auto
  let ?p = "p\<lparr>entries := es2, numberOfPresentEntries := numberOfPresentEntries p + 1\<rparr>"
  have "Emplace z k (Some e) p = Inr (True, ?p)"
    using assms(2,3) IsEmpty_iff [OF assms(1)] es1(1) es2(1) last f
    by (simp add: Emplace_def invalidPacketNumber_def FirstPacket_def off pnq_Len [OF c] g_def)
  moreover have "pnq_inv ?p"
    using es2 assms D last f
    by (auto simp: pnq_inv_def pnq_core_def g_def split: list.splits)
  moreover have "pnq_map ?p = (pnq_map p)(k \<mapsto> e)"
  proof -
    have "?f + int ?n + int g = k" using last by (simp add: g_def)
    then have "pnq_map ?p = [k \<mapsto> e] ++ slots_map ?f (slots p)"
      using es2(3) by (simp add: pnq_map_def slots_map_append)
    moreover have "slots_map ?f (slots p) k = None"
      using last by (rule slots_map_beyond)
    ultimately show ?thesis by (auto simp: pnq_map_def map_add_def fun_eq_iff split: option.splits)
  qed
  ultimately show ?thesis by blast
qed

lemma Emplace_refused:
  assumes "pnq_inv p" "slots p \<noteq> [] \<and> k \<le> LastPacket p \<or> k = invalidPacketNumber \<or> entry = None"
  shows "Emplace z k entry p = Inr (False, p)"
  using assms IsEmpty_iff [OF assms(1)] by (auto simp: Emplace_def split: option.splits)

section \<open>Lookup\<close>

lemma getEntryWraper_map:
  assumes "pnq_inv p" "in_i64 k"
  shows "getEntryWraper k p =
     Inr (if pnq_map p k = None then None else Some (slot (entries p) (nat (k - firstPacket p))))"
proof (cases "slots p \<noteq> [] \<and> firstPacket p \<le> k \<and> k - firstPacket p < int (length (slots p))")
  case True
  note c = pnq_invD [OF assms(1)]
  note D = pnq_coreD [OF c]
  let ?i = "nat (k - firstPacket p)"
  have i: "?i < length (slots p)" "k - firstPacket p = int ?i" using True by linarith+
  have off: "i64 (k - firstPacket p) = int ?i"
    using True D(3) assms(2) by (subst i64_small) (auto simp: in_i64_def)
  show ?thesis
    using True D(3) i IsEmpty_iff [OF assms(1)] Offset_list [OF D(1) i(1)]
    by (auto simp: getEntryWraper_def off pnq_Len [OF c] pnq_map_def slots_map_nth
        invalidPacketNumber_def Let_def)
next
  case False
  note c = pnq_invD [OF assms(1)]
  have "pnq_map p k = None" using False by (auto simp: pnq_map_def slots_map_nth)
  moreover have "getEntryWraper k p = Inr None"
  proof (cases "slots p = [] \<or> k < firstPacket p")
    case True
    then show ?thesis using IsEmpty_iff [OF assms(1)] by (auto simp: getEntryWraper_def)
  next
    case ff: False
    then have "i64 (k - firstPacket p) = k - firstPacket p"
      using pnq_coreD(3) [OF c] assms(2) by (intro i64_small) (auto simp: in_i64_def)
    then show ?thesis using ff False by (auto simp: getEntryWraper_def pnq_Len [OF c])
  qed
  ultimately show ?thesis by simp
qed

lemma pnq_map_SomeD:
  assumes "pnq_map p k = Some e"
  shows "nat (k - firstPacket p) < length (slots p)" "firstPacket p \<le> k"
    "slots p ! nat (k - firstPacket p) = \<lparr>present = True, entry_of = e\<rparr>"
  using assms by (auto simp: pnq_map_def slots_map_nth split: if_splits)

lemma GetEntry_map:
  assumes "pnq_inv p" "in_i64 k"
  shows "GetEntry k p = Inr (pnq_map p k)"
proof (cases "pnq_map p k")
  case None
  then show ?thesis by (simp add: GetEntry_def getEntryWraper_map [OF assms])
next
  case (Some e)
  note m = pnq_map_SomeD [OF Some]
  note rb = pnq_coreD(1) [OF pnq_invD [OF assms(1)]]
  show ?thesis
    using Offset_list(2) [OF rb m(1)] m(3) Some
    by (simp add: GetEntry_def getEntryWraper_map [OF assms])
qed

section \<open>Removal\<close>

lemma pop_core:
  assumes "pnq_core p" "slots p = x # xs"
  shows "\<exists>es. Front (entries p) = Inr (slot (entries p) 0) \<and> deref (entries p) (slot (entries p) 0) = x \<and>
     PopFront z (entries p) = Inr (x, es) \<and> rb_inv es \<and> rb_list es = xs \<and>
     i64 (firstPacket p + 1) = firstPacket p + 1"
proof -
  note D = pnq_coreD [OF assms(1)]
  have ne: "slots p \<noteq> []" using assms(2) by simp
  have "i64 (firstPacket p + 1) = firstPacket p + 1"
    using D(3,4) ne assms(2) by (intro i64_small) auto
  with Front_list [OF D(1) ne] PopFront_list [OF D(1) ne, of z] assms(2) show ?thesis by auto
qed

lemma clearupLoop_front:
  assumes "pnq_core p" "length (slots p) < fuel"
  shows "\<exists>p'. clearupLoop z fuel p = Inr p' \<and> pnq_core p' \<and> pnq_map p' = pnq_map p \<and>
     (slots p' \<noteq> [] \<longrightarrow> present (hd (slots p')))"
  using assms
proof (induction fuel arbitrary: p)
  case (Suc fuel)
  show ?case
  proof (cases "slots p")
    case Nil
    with Suc.prems show ?thesis by (auto simp: pnq_Empty)
  next
    case (Cons x xs)
    from pop_core [OF Suc.prems(1) Cons, of "hole z"] obtain es where
      es: "Front (entries p) = Inr (slot (entries p) 0)" "deref (entries p) (slot (entries p) 0) = x"
        "PopFront (hole z) (entries p) = Inr (x, es)" "rb_inv es" "rb_list es = xs"
        "i64 (firstPacket p + 1) = firstPacket p + 1" by blast
    let ?p = "p\<lparr>entries := es, firstPacket := firstPacket p + 1\<rparr>"
    show ?thesis
    proof (cases "present x")
      case True
      then show ?thesis using Suc.prems Cons es by (auto simp: pnq_Empty)
    next
      case False
      have core: "pnq_core ?p" using Suc.prems(1) Cons False es by (auto simp: pnq_core_def)
      have m: "pnq_map ?p = pnq_map p" using Cons False es by (simp add: pnq_map_def)
      have "length (slots ?p) < fuel" using Suc.prems(2) Cons es by simp
      from Suc.IH [OF core this] m False Cons es Suc.prems(1) show ?thesis by (auto simp: pnq_Empty)
    qed
  qed
qed simp

lemma clearup_front:
  assumes "pnq_core p"
  shows "\<exists>p'. clearup z p = Inr p' \<and> pnq_inv p' \<and> pnq_map p' = pnq_map p"
proof -
  have "length (slots p) < Suc (nat (Len (entries p)))" by (simp add: pnq_Len [OF assms])
  from clearupLoop_front [OF assms this, of z] obtain q where
    q: "clearupLoop z (Suc (nat (Len (entries p)))) p = Inr q" "pnq_core q" "pnq_map q = pnq_map p"
      "slots q \<noteq> [] \<longrightarrow> present (hd (slots q))" by blast
  show ?thesis
  proof (cases "slots q")
    case Nil
    let ?q = "q\<lparr>firstPacket := invalidPacketNumber\<rparr>"
    have "pnq_inv ?q" "pnq_map ?q = pnq_map q"
      using q Nil by (simp_all add: pnq_inv_def pnq_core_def pnq_map_def)
    with q Nil show ?thesis by (simp add: clearup_def pnq_Empty)
  next
    case (Cons x xs)
    with q have "pnq_inv q" by (simp add: pnq_inv_def)
    with q Cons show ?thesis by (simp add: clearup_def pnq_Empty)
  qed
qed

lemma length_filter_removed:
  "i < length xs \<Longrightarrow> P (xs ! i) \<Longrightarrow> \<not> P y \<Longrightarrow>
   Suc (length (filter P (xs[i := y]))) = length (filter P xs)"
  using length_filter_update [of i xs P y] by simp

lemma Remove_map:
  assumes "pnq_inv p" "in_i64 k"
  shows "\<exists>p'. Remove z k p = Inr (pnq_map p k \<noteq> None, p', pnq_map p k) \<and> pnq_inv p' \<and>
     pnq_map p' = (pnq_map p)(k := None)"
proof (cases "pnq_map p k")
  case None
  then show ?thesis
    using assms by (auto simp: Remove_def getEntryWraper_map fun_upd_idem)
next
  case (Some e)
  note m = pnq_map_SomeD [OF Some]
  note D = pnq_coreD [OF pnq_invD [OF assms(1)]]
  let ?i = "nat (k - firstPacket p)"
  let ?s = "slot (entries p) ?i"
  let ?x = "(deref (entries p) ?s)\<lparr>present := False\<rparr>"
  let ?p = "p\<lparr>entries := store (entries p) ?s ?x, numberOfPresentEntries := numberOfPresentEntries p - 1\<rparr>"
  have dr: "deref (entries p) ?s = \<lparr>present = True, entry_of = e\<rparr>"
    using Offset_list(2) [OF D(1) m(1)] m(3) by simp
  note st = store_list [OF D(1) m(1), of ?x]
  have core: "pnq_core ?p"
    using D st m(1,3) length_filter_removed [of ?i "slots p" present ?x]
    by (auto simp: pnq_core_def dr)
  have map: "pnq_map ?p = (pnq_map p)(k := None)"
    using st(2) m(1,2) slots_map_absent [OF m(1), of "firstPacket p" "deref (entries p) ?s"]
    by (simp add: pnq_map_def)
  show ?thesis
  proof (cases "k = firstPacket p")
    case True
    from clearup_front [OF core, of z] map show ?thesis
      using True Some assms dr by (auto simp: Remove_def getEntryWraper_map FirstPacket_def Let_def)
  next
    case False
    then have "?i \<noteq> 0" using m(2) by simp
    then have "pnq_inv ?p"
      using core assms(1) st(2) m(1) by (auto simp: pnq_inv_def split: list.splits nat.splits)
    with map show ?thesis
      using False Some assms dr by (auto simp: Remove_def getEntryWraper_map FirstPacket_def Let_def)
  qed
qed

subsection \<open>Pruning\<close>

lemma removeUpToLoop_map:
  assumes "pnq_core p" "length (slots p) < fuel"
  shows "\<exists>p'. removeUpToLoop z fuel k p = Inr p' \<and> pnq_core p' \<and> pnq_map p' = pnq_map p |` {k..}"
  using assms
proof (induction fuel arbitrary: p)
  case (Suc fuel)
  show ?case
  proof (cases "slots p \<noteq> [] \<and> firstPacket p < k")
    case False
    then have "pnq_map p |` {k..} = pnq_map p"
      by (force simp: fun_eq_iff restrict_map_def pnq_map_def slots_map_nth)
    with False Suc.prems show ?thesis by (auto simp: pnq_Empty)
  next
    case True
    then obtain x xs where Cons: "slots p = x # xs" by (cases "slots p") auto
    from pop_core [OF Suc.prems(1) Cons, of "hole z"] obtain es where
      es: "Front (entries p) = Inr (slot (entries p) 0)" "deref (entries p) (slot (entries p) 0) = x"
        "PopFront (hole z) (entries p) = Inr (x, es)" "rb_inv es" "rb_list es = xs"
        "i64 (firstPacket p + 1) = firstPacket p + 1" by blast
    let ?n = "if present x then numberOfPresentEntries p - 1 else numberOfPresentEntries p"
    let ?p = "p\<lparr>entries := es, numberOfPresentEntries := ?n, firstPacket := firstPacket p + 1\<rparr>"
    have core: "pnq_core ?p" using Suc.prems(1) Cons es by (auto simp: pnq_core_def)
    have "length (slots ?p) < fuel" using Suc.prems(2) Cons es by simp
    from Suc.IH [OF core this] obtain q where
      q: "removeUpToLoop z fuel k ?p = Inr q" "pnq_core q" "pnq_map q = pnq_map ?p |` {k..}" by blast
    have "pnq_map ?p |` {k..} = pnq_map p |` {k..}"
      using Cons es True by (auto simp: fun_eq_iff restrict_map_def pnq_map_def)
    moreover have "firstPacket p \<noteq> invalidPacketNumber"
      using pnq_coreD(3) [OF Suc.prems(1)] Cons by (auto simp: invalidPacketNumber_def)
    ultimately show ?thesis
      using q True es Cons Suc.prems(1) by (auto simp: pnq_Empty)
  qed
qed simp

lemma RemoveUpTo_map:
  assumes "pnq_inv p"
  shows "\<exists>p'. RemoveUpTo z k p = Inr p' \<and> pnq_inv p' \<and> pnq_map p' = pnq_map p |` {k..}"
proof -
  note c = pnq_invD [OF assms]
  have "length (slots p) < Suc (nat (Len (entries p)))" by (simp add: pnq_Len [OF c])
  from removeUpToLoop_map [OF c this, of z k] obtain q where
    "removeUpToLoop z (Suc (nat (Len (entries p)))) k p = Inr q" "pnq_core q"
    "pnq_map q = pnq_map p |` {k..}" by blast
  with clearup_front [of q z] show ?thesis by (auto simp: RemoveUpTo_def)
qed

section \<open>The contract of the packet map\<close>

text \<open>
  What the bandwidth sampler relies on.  Packets are inserted in increasing order, so an
  insertion above every number seen so far succeeds; \<open>last\<close> bounds the numbers in the map.
\<close>

locale packet_map =
  fixes emplace :: "int \<Rightarrow> 'a \<Rightarrow> 'q \<Rightarrow> (bool \<times> 'q) res"
    and get :: "int \<Rightarrow> 'q \<Rightarrow> 'a option res"
    and remove :: "int \<Rightarrow> 'q \<Rightarrow> (bool \<times> 'q \<times> 'a option) res"
    and prune :: "int \<Rightarrow> 'q \<Rightarrow> 'q res"
    and lookup :: "'q \<Rightarrow> int \<rightharpoonup> 'a"
    and inv :: "'q \<Rightarrow> bool"
  assumes emplace_lookup:
      "inv q \<Longrightarrow> 0 \<le> k \<Longrightarrow> k < pn_limit \<Longrightarrow>
       \<exists>b q'. emplace k e q = Inr (b, q') \<and> inv q' \<and>
         lookup q' = (if b then (lookup q)(k \<mapsto> e) else lookup q)"
    and emplace_free: "inv q \<Longrightarrow> emplace k e q = Inr (True, q') \<Longrightarrow> lookup q k = None"
    and get_lookup: "inv q \<Longrightarrow> in_i64 k \<Longrightarrow> get k q = Inr (lookup q k)"
    and remove_lookup:
      "inv q \<Longrightarrow> in_i64 k \<Longrightarrow>
       \<exists>q'. remove k q = Inr (lookup q k \<noteq> None, q', lookup q k) \<and> inv q' \<and>
         lookup q' = (lookup q)(k := None)"
    and prune_lookup: "inv q \<Longrightarrow> \<exists>q'. prune k q = Inr q' \<and> inv q' \<and> lookup q' = lookup q |` {k..}"
    and finite_lookup: "inv q \<Longrightarrow> finite (dom (lookup q))"
begin

lemma get_emplace:
  assumes "inv q" "0 \<le> k" "k < pn_limit" "emplace k e q = Inr (True, q')"
  shows "get k q' = Inr (Some e)" "\<And>j. in_i64 j \<Longrightarrow> j \<noteq> k \<Longrightarrow> get j q' = get j q"
proof -
  from emplace_lookup [OF assms(1-3), of e] assms(4)
  have q': "inv q'" "lookup q' = (lookup q)(k \<mapsto> e)" by auto
  have "in_i64 k" using assms(2,3) by (simp add: in_i64_def)
  then show "get k q' = Inr (Some e)" by (simp add: get_lookup q')
  show "get j q' = get j q" if "in_i64 j" "j \<noteq> k" for j
    using that assms(1) q' by (simp add: get_lookup)
qed

lemma get_pruned:
  assumes "inv q" "prune k q = Inr q'" "in_i64 j"
  shows "get j q' = (if k \<le> j then get j q else Inr None)"
proof -
  from prune_lookup [OF assms(1), of k] assms(2)
  have q': "inv q'" "lookup q' = lookup q |` {k..}" by auto
  then show ?thesis using assms by (simp add: get_lookup restrict_map_def)
qed

lemma get_removed:
  assumes "inv q" "in_i64 k" "remove k q = Inr (b, q', r)"
  shows "get k q' = Inr None" "get k q = Inr r" "b \<longleftrightarrow> r \<noteq> None"
  using remove_lookup [OF assms(1,2)] assms by (auto simp: get_lookup)

end

lemma Emplace_map:
  assumes "pnq_inv p" "0 \<le> k" "k < pn_limit"
  shows "\<exists>p'. Emplace z k (Some e) p = Inr (slots p = [] \<or> LastPacket p < k, p') \<and> pnq_inv p' \<and>
     pnq_map p' = (if slots p = [] \<or> LastPacket p < k then (pnq_map p)(k \<mapsto> e) else pnq_map p)"
proof -
  consider "slots p = []" | "slots p \<noteq> []" "LastPacket p < k" | "slots p \<noteq> []" "k \<le> LastPacket p"
    by linarith
  then show ?thesis
  proof cases
    case 1
    then have "pnq_map p = Map.empty" by (simp add: pnq_map_def)
    with 1 Emplace_first [OF assms(1) 1 assms(2,3)] show ?thesis by simp
  next
    case 2
    with Emplace_after [OF assms(1) 2 assms(3)] show ?thesis by simp
  next
    case 3
    with Emplace_refused [OF assms(1), of k] assms(1) show ?thesis by auto
  qed
qed

lemma Emplace_free:
  assumes "pnq_inv p" "Emplace z k (Some e) p = Inr (True, p')"
  shows "pnq_map p k = None"
proof (cases "slots p = []")
  case False
  with assms have "LastPacket p < k"
    by (metis Emplace_refused Inr_inject linorder_not_le prod.inject)
  with LastPacket_eq [OF assms(1) False] show ?thesis
    by (auto simp: pnq_map_def intro: slots_map_beyond)
qed (simp add: pnq_map_def)

interpretation pnq: packet_map "\<lambda>k e. Emplace z k (Some e)" GetEntry "Remove z" "RemoveUpTo z" pnq_map pnq_inv
  for z
proof unfold_locales
  show "\<exists>b q'. Emplace z k (Some e) q = Inr (b, q') \<and> pnq_inv q' \<and>
      pnq_map q' = (if b then (pnq_map q)(k \<mapsto> e) else pnq_map q)"
    if "pnq_inv q" "0 \<le> k" "k < pn_limit" for q k e
    using Emplace_map [OF that, of z e] by blast
  show "finite (dom (pnq_map q))" if "pnq_inv q" for q
    by (simp add: pnq_map_def dom_slots_map)
qed (rule Emplace_free GetEntry_map Remove_map RemoveUpTo_map; assumption)+

text \<open>
  (C28) \<^verbatim>\<open>Emplace\<close> inserts exactly when the queue has no entry or the packet number lies past the
  last one ever inserted; then the queue's map gains that entry and nothing else changes,
  also when intermediate slots have to be filled.  Otherwise it reports false and the map is
  as before.  It never panics.
\<close>

theorem emplace_refines_map:
  assumes "pnq_inv p" "0 \<le> k" "k < pn_limit"
  shows "\<exists>p'. Emplace z k (Some e) p = Inr (IsEmpty p \<or> LastPacket p < k, p') \<and> pnq_inv p' \<and>
     pnq_map p' = (if IsEmpty p \<or> LastPacket p < k then (pnq_map p)(k \<mapsto> e) else pnq_map p)"
  using Emplace_map [OF assms] IsEmpty_iff [OF assms(1)] by simp

theorem emplace_refines_map_witness:
  "\<exists>p'. Emplace 0 7 (Some 42) (newPacketNumberIndexedQueue (0 :: nat) 4) = Inr (True, p') \<and>
        pnq_map p' = [7 \<mapsto> 42]"
proof -
  let ?p = "newPacketNumberIndexedQueue (0 :: nat) 4"
  have "IsEmpty ?p" by (simp add: IsEmpty_def newPacketNumberIndexedQueue_def)
  moreover have i: "pnq_inv ?p" by (rule new_inv)
  ultimately show ?thesis using emplace_refines_map [OF i, of 7 0 42] by (auto simp: new_map)
qed

text \<open>
  (C29) \<^verbatim>\<open>Remove\<close> deletes exactly the given packet number, hands the callback the entry that was
  stored there, and reports whether there was one; \<^verbatim>\<open>RemoveUpTo\<close> keeps exactly the entries at
  or above its argument.  Both restore the invariant that the queue starts at a present
  entry, so a queue without entries is back in its initial state; their loops stop and
  nothing panics.
\<close>

theorem removal_refines_map:
  assumes "pnq_inv p" "in_i64 k"
  shows "(\<exists>p'. Remove z k p = Inr (pnq_map p k \<noteq> None, p', pnq_map p k) \<and> pnq_inv p' \<and>
            pnq_map p' = (pnq_map p)(k := None)) \<and>
         (\<exists>p'. RemoveUpTo z k p = Inr p' \<and> pnq_inv p' \<and> pnq_map p' = pnq_map p |` {k..})"
  using Remove_map [OF assms] RemoveUpTo_map [OF assms(1)] by blast

theorem removal_refines_map_witness:
  "\<exists>p p'. pnq_map p = [7 \<mapsto> 42 :: nat] \<and> Remove 0 7 p = Inr (True, p', Some 42) \<and> pnq_map p' = Map.empty"
proof -
  let ?p = "newPacketNumberIndexedQueue (0 :: nat) 4"
  have "slots ?p = []" by (simp add: newPacketNumberIndexedQueue_def Init_fresh)
  from Emplace_first [OF new_inv this, of 7 0 42] obtain p where
    p: "pnq_inv p" "pnq_map p = [7 \<mapsto> 42 :: nat]" by auto
  from removal_refines_map [OF p(1), of 7 0] p(2) show ?thesis by (auto simp: in_i64_def)
qed

text \<open>
  The number of present entries the queue reports is the number of packets in its map,
  and \<^verbatim>\<open>GetEntry\<close> is lookup in that map.
\<close>

theorem lookup_and_count:
  assumes "pnq_inv p" "in_i64 k"
  shows "GetEntry k p = Inr (pnq_map p k) \<and>
         numberOfPresentEntries p = int (card (dom (pnq_map p)))"
  using GetEntry_map [OF assms] pnq_coreD(2) [OF pnq_invD [OF assms(1)]]
  by (simp add: pnq_map_def card_slots_map)

theorem lookup_and_count_witness:
  "GetEntry 3 (newPacketNumberIndexedQueue (0 :: nat) 4) = Inr None \<and>
   numberOfPresentEntries (newPacketNumberIndexedQueue (0 :: nat) 4) = 0"
  using lookup_and_count [OF new_inv, of 3 "0 :: nat" 4] by (simp add: new_map in_i64_def)

end
