(* ===== verification/AckHeight.thy ===== *)
theory AckHeight
  imports WindowedFilter Float64 PacketQueue
begin

text \<open>
  \<^verbatim>\<open>bandwidth.go\<close> and the first part of \<^verbatim>\<open>bandwidth_sampler.go\<close>: conversions between bytes, times
  and bandwidths (bits per second, \<^verbatim>\<open>uint64\<close>), and the \<^verbatim>\<open>maxAckHeightTracker\<close>, which measures ack
  aggregation: the bytes acknowledged faster than the estimated bandwidth.

  The theorems: the tracker reports zero exactly when it starts a new aggregation epoch,
  what it reports is reflected in its windowed maximum, and the round of an event is lost.
\<close>

section \<open>Bandwidth arithmetic\<close>

definition infBandwidth :: int where
  "infBandwidth = 18446744073709551615"

definition BytesPerSecond :: int where
  "BytesPerSecond = 8"

definition BandwidthFromDelta :: "int \<Rightarrow> int \<Rightarrow> int res" where
  "BandwidthFromDelta bytes delta =
     (if u64 delta = 0 then Inl DivideByZero
      else Inr (u64 (u64 (u64 bytes * u64 Second) div u64 delta * BytesPerSecond)))"

definition bytesFromBandwidthAndTimeDelta :: "int \<Rightarrow> int \<Rightarrow> int" where
  "bytesFromBandwidthAndTimeDelta bandwidth delta =
     i64 (i64 bandwidth * delta) sdiv i64 (Second * 8)"

definition timeDeltaFromBytesAndBandwidth :: "int \<Rightarrow> int \<Rightarrow> int res" where
  "timeDeltaFromBytesAndBandwidth bytes bandwidth =
     (if i64 bandwidth = 0 then Inl DivideByZero
      else Inr (i64 (i64 (i64 (bytes * 8) * Second) sdiv i64 bandwidth)))"

lemma BandwidthFromDelta_ok:
  assumes "0 \<le> bytes" "bytes * Second < 18446744073709551616" "0 < delta" "delta < 9223372036854775808"
  shows "BandwidthFromDelta bytes delta = Inr (u64 (bytes * Second div delta * 8))"
  using assms by (simp add: BandwidthFromDelta_def BytesPerSecond_def u64_small)

lemma bytesFromBandwidthAndTimeDelta_nonneg:
  assumes "0 \<le> bw" "0 \<le> delta" "bw * delta < 9223372036854775808" "bw < 9223372036854775808"
  shows "bytesFromBandwidthAndTimeDelta bw delta = bw * delta div 8000000000"
proof -
  have nn: "0 \<le> bw * delta" using assms by (intro mult_nonneg_nonneg)
  have "i64 bw = bw" "i64 (bw * delta) = bw * delta" using assms nn by (intro i64_small; linarith)+
  then show ?thesis
    using sdiv_nonneg [OF nn, of 8000000000] by (simp add: bytesFromBandwidthAndTimeDelta_def i64_small)
qed

section \<open>The ack-height tracker\<close>

record extraAckedEvent =
  ea_extraAcked :: int
  ea_bytesAcked :: int
  ea_timeDelta :: int
  ea_round :: int

definition extraAckedEvent_zero :: extraAckedEvent where
  "extraAckedEvent_zero = \<lparr>ea_extraAcked = 0, ea_bytesAcked = 0, ea_timeDelta = 0, ea_round = 0\<rparr>"

definition maxExtraAckedEventFunc :: "extraAckedEvent \<Rightarrow> extraAckedEvent \<Rightarrow> int" where
  "maxExtraAckedEventFunc a b =
     (if ea_extraAcked a > ea_extraAcked b then 1
      else if ea_extraAcked a < ea_extraAcked b then - 1 else 0)"

record maxAckHeightTracker =
  maxAckHeightFilter :: "extraAckedEvent windowedFilter"
  aggregationEpochStartTime :: mtime
  aggregationEpochBytes :: int
  lastSentPacketNumberBeforeEpoch :: int
  numAckAggregationEpochs :: int
  ackAggregationBandwidthThreshold :: f64
  startNewAggregationEpochAfterFullRound :: bool
  reduceExtraAckedOnBandwidthIncrease :: bool

definition newMaxAckHeightTracker :: "int \<Rightarrow> maxAckHeightTracker" where
  "newMaxAckHeightTracker w =
     \<lparr>maxAckHeightFilter = NewWindowedFilter extraAckedEvent_zero w,
      aggregationEpochStartTime = 0, aggregationEpochBytes = 0,
      lastSentPacketNumberBeforeEpoch = invalidPacketNumber, numAckAggregationEpochs = 0,
      ackAggregationBandwidthThreshold = F64 1 0,
      startNewAggregationEpochAfterFullRound = False, reduceExtraAckedOnBandwidthIncrease = False\<rparr>"

definition mahGet :: "maxAckHeightTracker \<Rightarrow> int" where
  "mahGet m = ea_extraAcked (GetBest (maxAckHeightFilter m))"

abbreviation eaUpdate ::
  "extraAckedEvent \<Rightarrow> int \<Rightarrow> extraAckedEvent windowedFilter \<Rightarrow> extraAckedEvent windowedFilter" where
  "eaUpdate \<equiv> wfUpdate maxExtraAckedEventFunc extraAckedEvent_zero"

text \<open>Recalculate one saved height for a higher bandwidth and put it back into the filter.\<close>

definition reinsert ::
  "int \<Rightarrow> extraAckedEvent \<Rightarrow> extraAckedEvent windowedFilter \<Rightarrow> extraAckedEvent windowedFilter"
where
  "reinsert bandwidthEstimate e f =
     (let expectedBytesAcked = bytesFromBandwidthAndTimeDelta bandwidthEstimate (ea_timeDelta e)
      in if expectedBytesAcked < ea_bytesAcked e
         then let e = e\<lparr>ea_extraAcked := i64 (ea_bytesAcked e - expectedBytesAcked)\<rparr>
              in eaUpdate e (ea_round e) f
         else f)"

definition reduceHeights :: "int \<Rightarrow> extraAckedEvent windowedFilter \<Rightarrow> extraAckedEvent windowedFilter" where
  "reduceHeights bandwidthEstimate f =
     (let best = GetBest f; secondBest = GetSecondBest f; thirdBest = GetThirdBest f;
          f = wfClear extraAckedEvent_zero f;
          f = reinsert bandwidthEstimate best f;
          f = reinsert bandwidthEstimate secondBest f
      in reinsert bandwidthEstimate thirdBest f)"

definition startEpoch :: "int \<Rightarrow> mtime \<Rightarrow> int \<Rightarrow> maxAckHeightTracker \<Rightarrow> maxAckHeightTracker" where
  "startEpoch bytesAcked ackTime lastSentPacketNumber m =
     m\<lparr>aggregationEpochBytes := bytesAcked, aggregationEpochStartTime := ackTime,
       lastSentPacketNumberBeforeEpoch := lastSentPacketNumber,
       numAckAggregationEpochs := u64 (numAckAggregationEpochs m + 1)\<rparr>"

definition mahUpdate ::
  "int \<Rightarrow> bool \<Rightarrow> int \<Rightarrow> int \<Rightarrow> int \<Rightarrow> mtime \<Rightarrow> int \<Rightarrow> maxAckHeightTracker \<Rightarrow>
   int \<times> maxAckHeightTracker"
where
  "mahUpdate bandwidthEstimate isNewMaxBandwidth roundTripCount lastSentPacketNumber
       lastAckedPacketNumber ackTime bytesAcked m =
     (let m = (if reduceExtraAckedOnBandwidthIncrease m \<and> isNewMaxBandwidth
               then m\<lparr>maxAckHeightFilter := reduceHeights bandwidthEstimate (maxAckHeightFilter m)\<rparr>
               else m);
          forceNewEpoch = (startNewAggregationEpochAfterFullRound m \<and>
              lastSentPacketNumberBeforeEpoch m \<noteq> invalidPacketNumber \<and>
              lastAckedPacketNumber \<noteq> invalidPacketNumber \<and>
              lastAckedPacketNumber > lastSentPacketNumberBeforeEpoch m)
      in if IsZero (aggregationEpochStartTime m) \<or> forceNewEpoch
         then (0, startEpoch bytesAcked ackTime lastSentPacketNumber m)
         else
           let aggregationDelta = Sub ackTime (aggregationEpochStartTime m);
               expectedBytesAcked = bytesFromBandwidthAndTimeDelta bandwidthEstimate aggregationDelta
           in if aggregationEpochBytes m \<le>
                 f64_to_i64 (f64_mul (ackAggregationBandwidthThreshold m) (f64_of_int expectedBytesAcked))
              then (0, startEpoch bytesAcked ackTime lastSentPacketNumber m)
              else
                let m = m\<lparr>aggregationEpochBytes := i64 (aggregationEpochBytes m + bytesAcked)\<rparr>;
                    extraBytesAcked = i64 (aggregationEpochBytes m - expectedBytesAcked);
                    newEvent = \<lparr>ea_extraAcked = extraBytesAcked, ea_bytesAcked = aggregationEpochBytes m,
                                ea_timeDelta = aggregationDelta, ea_round = 0\<rparr>
                in (extraBytesAcked,
                    m\<lparr>maxAckHeightFilter := eaUpdate newEvent roundTripCount (maxAckHeightFilter m)\<rparr>))"

definition SetFilterWindowLength :: "int \<Rightarrow> maxAckHeightTracker \<Rightarrow> maxAckHeightTracker" where
  "SetFilterWindowLength l m = m\<lparr>maxAckHeightFilter := SetWindowLength l (maxAckHeightFilter m)\<rparr>"

definition mahReset :: "int \<Rightarrow> int \<Rightarrow> maxAckHeightTracker \<Rightarrow> maxAckHeightTracker" where
  "mahReset newHeight newTime m =
     (let newEvent = \<lparr>ea_extraAcked = newHeight, ea_bytesAcked = 0, ea_timeDelta = 0, ea_round = newTime\<rparr>
      in m\<lparr>maxAckHeightFilter := wfReset newEvent newTime (maxAckHeightFilter m)\<rparr>)"

definition SetAckAggregationBandwidthThreshold :: "f64 \<Rightarrow> maxAckHeightTracker \<Rightarrow> maxAckHeightTracker" where
  "SetAckAggregationBandwidthThreshold t m = m\<lparr>ackAggregationBandwidthThreshold := t\<rparr>"

definition mahSetStartNewAggregationEpochAfterFullRound ::
  "bool \<Rightarrow> maxAckHeightTracker \<Rightarrow> maxAckHeightTracker" where
  "mahSetStartNewAggregationEpochAfterFullRound b m = m\<lparr>startNewAggregationEpochAfterFullRound := b\<rparr>"

definition mahSetReduceExtraAckedOnBandwidthIncrease ::
  "bool \<Rightarrow> maxAckHeightTracker \<Rightarrow> maxAckHeightTracker" where
  "mahSetReduceExtraAckedOnBandwidthIncrease b m = m\<lparr>reduceExtraAckedOnBandwidthIncrease := b\<rparr>"

section \<open>The comparator has a key\<close>

lemma maxExtraAckedEventFunc_keyed: "keyed maxExtraAckedEventFunc ea_extraAcked"
  by (simp add: keyed_def maxExtraAckedEventFunc_def MaxFilter_def)

interpretation ack_filter: keyed_filter maxExtraAckedEventFunc ea_extraAcked extraAckedEvent_zero
  by unfold_locales (rule maxExtraAckedEventFunc_keyed)

section \<open>Invariant\<close>

text \<open>
  The filter is ranked and timed (\<open>wf_inv\<close>); where heights are re-inserted on a bandwidth
  increase, the rounds they are re-inserted with are zero.
\<close>

definition mah_inv :: "int \<Rightarrow> maxAckHeightTracker \<Rightarrow> bool" where
  "mah_inv now m \<longleftrightarrow>
     wf_inv ea_extraAcked now (maxAckHeightFilter m) \<and>
     (reduceExtraAckedOnBandwidthIncrease m \<longrightarrow>
        (\<forall>e \<in> wf_samples (maxAckHeightFilter m). ea_round e = 0)) \<and>
     in_u64 (numAckAggregationEpochs m)"

lemma new_mah_inv: "in_u64 w \<Longrightarrow> mah_inv 0 (newMaxAckHeightTracker w)"
  by (simp add: mah_inv_def newMaxAckHeightTracker_def new_wf_inv in_u64_def)

lemma reduce_mah_inv:
  "in_u64 w \<Longrightarrow> mah_inv 0 (mahSetReduceExtraAckedOnBandwidthIncrease b (newMaxAckHeightTracker w))"
  using new_wf_inv [of w ea_extraAcked extraAckedEvent_zero]
  by (simp add: mah_inv_def mahSetReduceExtraAckedOnBandwidthIncrease_def newMaxAckHeightTracker_def in_u64_def)
    (simp add: wf_samples_def NewWindowedFilter_def GetBest_def GetSecondBest_def GetThirdBest_def
      extraAckedEvent_zero_def)

lemma reinsert_inv:
  assumes "wf_inv ea_extraAcked 0 f" "ea_round e = 0" "\<forall>x \<in> wf_samples f. ea_round x = 0"
  shows "wf_inv ea_extraAcked 0 (reinsert bw e f)" "\<forall>x \<in> wf_samples (reinsert bw e f). ea_round x = 0"
    "windowLength (reinsert bw e f) = windowLength f"
proof -
  let ?e = "e\<lparr>ea_extraAcked := i64 (ea_bytesAcked e - bytesFromBandwidthAndTimeDelta bw (ea_timeDelta e))\<rparr>"
  have "wf_inv ea_extraAcked 0 (eaUpdate ?e 0 f)"
    using assms(1) by (intro wfUpdate_inv [OF maxExtraAckedEventFunc_keyed]) (auto simp: in_u64_def)
  then show "wf_inv ea_extraAcked 0 (reinsert bw e f)"
    using assms(1,2) by (simp add: reinsert_def Let_def)
  show "\<forall>x \<in> wf_samples (reinsert bw e f). ea_round x = 0"
    using assms(2,3) wfUpdate_samples [of maxExtraAckedEventFunc extraAckedEvent_zero ?e 0 f]
    by (auto simp: reinsert_def Let_def)
  show "windowLength (reinsert bw e f) = windowLength f" by (simp add: reinsert_def Let_def)
qed

lemma reduceHeights_inv:
  assumes "wf_inv ea_extraAcked now f" "\<forall>e \<in> wf_samples f. ea_round e = 0"
  shows "wf_inv ea_extraAcked 0 (reduceHeights bw f)" "\<forall>e \<in> wf_samples (reduceHeights bw f). ea_round e = 0"
    "windowLength (reduceHeights bw f) = windowLength f"
proof -
  let ?c = "wfClear extraAckedEvent_zero f"
  have c: "wf_inv ea_extraAcked 0 ?c" "\<forall>e \<in> wf_samples ?c. ea_round e = 0" "windowLength ?c = windowLength f"
    using assms(1) wfClear_inv [of f ea_extraAcked extraAckedEvent_zero]
    by (auto simp: wf_inv_def wf_samples_def wfClear_def GetBest_def GetSecondBest_def GetThirdBest_def
        extraAckedEvent_zero_def)
  have r: "ea_round (GetBest f) = 0" "ea_round (GetSecondBest f) = 0" "ea_round (GetThirdBest f) = 0"
    using assms(2) by (auto simp: wf_samples_def)
  note 1 = reinsert_inv [OF c(1) r(1) c(2), of bw]
  note 2 = reinsert_inv [OF 1(1) r(2) 1(2), of bw]
  note 3 = reinsert_inv [OF 2(1) r(3) 2(2), of bw]
  show "wf_inv ea_extraAcked 0 (reduceHeights bw f)" "\<forall>e \<in> wf_samples (reduceHeights bw f). ea_round e = 0"
    "windowLength (reduceHeights bw f) = windowLength f"
    using 1(3) 2(3) 3 c(3) by (simp_all add: reduceHeights_def Let_def)
qed

text \<open>The tracker after the first step of an update, before the epoch test.\<close>

definition reduced :: "int \<Rightarrow> bool \<Rightarrow> maxAckHeightTracker \<Rightarrow> maxAckHeightTracker" where
  "reduced bw isNew m =
     (if reduceExtraAckedOnBandwidthIncrease m \<and> isNew
      then m\<lparr>maxAckHeightFilter := reduceHeights bw (maxAckHeightFilter m)\<rparr> else m)"

lemma reduced_inv:
  assumes "mah_inv now m" "now \<le> t" "in_u64 t"
  shows "mah_inv t (reduced bw isNew m)"
proof -
  have f: "wf_inv ea_extraAcked t (maxAckHeightFilter m)"
    using assms wf_inv_mono by (auto simp: mah_inv_def)
  show ?thesis
  proof (cases "reduceExtraAckedOnBandwidthIncrease m \<and> isNew")
    case True
    with assms have r: "\<forall>e \<in> wf_samples (maxAckHeightFilter m). ea_round e = 0" by (simp add: mah_inv_def)
    note h = reduceHeights_inv [OF f r, of bw]
    have "0 \<le> t" using assms(3) by (simp add: in_u64_def)
    with wf_inv_mono [OF h(1) _ assms(3)] have "wf_inv ea_extraAcked t (reduceHeights bw (maxAckHeightFilter m))"
      by simp
    with True h(2) assms(1) show ?thesis by (simp add: mah_inv_def reduced_def)
  next
    case False
    with f assms(1) show ?thesis by (auto simp: mah_inv_def reduced_def)
  qed
qed

text \<open>An update is either a new epoch or one more event in the filter.\<close>

lemma mahUpdate_cases:
  assumes "mahUpdate bw isNew rtc lastSent lastAcked ackTime bytes m = (e, m')"
  obtains (epoch) "e = 0" "m' = startEpoch bytes ackTime lastSent (reduced bw isNew m)"
  | (event) expected ev where
      "\<not> IsZero (aggregationEpochStartTime m)"
      "expected = bytesFromBandwidthAndTimeDelta bw (Sub ackTime (aggregationEpochStartTime m))"
      "f64_to_i64 (f64_mul (ackAggregationBandwidthThreshold m) (f64_of_int expected)) < aggregationEpochBytes m"
      "e = i64 (i64 (aggregationEpochBytes m + bytes) - expected)"
      "ea_extraAcked ev = e" "ea_round ev = 0"
      "m' = (reduced bw isNew m)\<lparr>aggregationEpochBytes := i64 (aggregationEpochBytes m + bytes),
             maxAckHeightFilter := eaUpdate ev rtc (maxAckHeightFilter (reduced bw isNew m))\<rparr>"
proof -
  let ?m = "reduced bw isNew m"
  have s: "aggregationEpochStartTime ?m = aggregationEpochStartTime m"
    "aggregationEpochBytes ?m = aggregationEpochBytes m"
    "ackAggregationBandwidthThreshold ?m = ackAggregationBandwidthThreshold m"
    by (simp_all add: reduced_def)
  show thesis
    using assms epoch event unfolding mahUpdate_def reduced_def [symmetric] Let_def s
    by (force simp: not_le split: if_splits)
qed

lemma mahUpdate_flag:
  assumes "mahUpdate bw isNew rtc lastSent lastAcked ackTime bytes m = (e, m')"
  shows "reduceExtraAckedOnBandwidthIncrease m' = reduceExtraAckedOnBandwidthIncrease m"
  using assms by (cases rule: mahUpdate_cases) (simp_all add: startEpoch_def reduced_def)

text \<open>
  The two thresholds in use (1 and 2): the epoch test compares against at least the expected
  bytes, so an event that is recorded has excess bytes.
\<close>

definition threshold_ok :: "maxAckHeightTracker \<Rightarrow> bool" where
  "threshold_ok m \<longleftrightarrow>
     ackAggregationBandwidthThreshold m = F64 1 0 \<or> ackAggregationBandwidthThreshold m = F64 2 0"

lemma threshold_ge:
  assumes "threshold_ok m" "0 \<le> n" "n < 2 ^ 52"
  shows "n \<le> f64_to_i64 (f64_mul (ackAggregationBandwidthThreshold m) (f64_of_int n))"
  using assms f64_to_i64_mul_one [of n] f64_to_i64_mul_two [of n] by (auto simp: threshold_ok_def)

lemma startEpoch_inv: "mah_inv t m \<Longrightarrow> mah_inv t (startEpoch b a l m)"
  by (simp add: mah_inv_def startEpoch_def)

lemma startEpoch_counts: "in_u64 (numAckAggregationEpochs m) \<Longrightarrow>
    numAckAggregationEpochs (startEpoch b a l m) \<noteq> numAckAggregationEpochs m"
  by (cases "numAckAggregationEpochs m = 18446744073709551615") (auto simp: startEpoch_def in_u64_def u64_def)

lemma reduced_epochs [simp]: "numAckAggregationEpochs (reduced bw isNew m) = numAckAggregationEpochs m"
  by (simp add: reduced_def)

lemma mahUpdate_event_inv:
  assumes "mah_inv t m" "in_u64 t" "ea_round ev = 0"
  shows "mah_inv t (m\<lparr>aggregationEpochBytes := b, maxAckHeightFilter := eaUpdate ev t (maxAckHeightFilter m)\<rparr>)"
    and "ea_extraAcked ev \<le> ea_extraAcked (GetBest (eaUpdate ev t (maxAckHeightFilter m)))"
proof -
  have f: "wf_inv ea_extraAcked t (maxAckHeightFilter m)" using assms(1) by (simp add: mah_inv_def)
  note u = wfUpdate_inv [OF maxExtraAckedEventFunc_keyed f order_refl assms(2)]
  note s = wfUpdate_samples [of maxExtraAckedEventFunc extraAckedEvent_zero ev t "maxAckHeightFilter m"]
  show "mah_inv t (m\<lparr>aggregationEpochBytes := b, maxAckHeightFilter := eaUpdate ev t (maxAckHeightFilter m)\<rparr>)"
    using assms(1,3) u s by (auto simp: mah_inv_def)
  show "ea_extraAcked ev \<le> ea_extraAcked (GetBest (eaUpdate ev t (maxAckHeightFilter m)))"
    using wfUpdate_best_ge [OF maxExtraAckedEventFunc_keyed f order_refl assms(2)] by (simp add: GetBest_def)
qed

lemma mahUpdate_inv:
  assumes "mah_inv now m" "now \<le> t" "in_u64 t"
    and "mahUpdate bw isNew t lastSent lastAcked ackTime bytes m = (e, m')"
  shows "mah_inv t m'"
proof -
  note r = reduced_inv [OF assms(1-3), of bw isNew]
  from assms(4) show ?thesis
  proof (cases rule: mahUpdate_cases)
    case epoch
    then show ?thesis using r by (simp add: startEpoch_inv)
  next
    case (event expected ev)
    then show ?thesis using mahUpdate_event_inv(1) [OF r assms(3), of ev] by simp
  qed
qed

lemma mah_inv_mono: "mah_inv now m \<Longrightarrow> now \<le> t \<Longrightarrow> in_u64 t \<Longrightarrow> mah_inv t m"
  by (auto simp: mah_inv_def intro: wf_inv_mono)

lemma mahReset_inv:
  assumes "mah_inv now m" "in_u64 t" "\<not> reduceExtraAckedOnBandwidthIncrease m"
  shows "mah_inv t (mahReset h t m)"
  using assms by (simp add: mah_inv_def mahReset_def wfReset_inv wf_inv_def in_u64_def)

section \<open>Properties\<close>

text \<open>
  An update of the ack-height tracker keeps its invariant; it returns zero exactly when it
  starts a new aggregation epoch (which counts the epoch, and restarts the epoch's byte count,
  time and last sent packet from this ack), and otherwise returns a positive number of excess
  bytes, which the windowed maximum reported by \<open>Get\<close> includes from then on.
\<close>

theorem ack_height_update:
  assumes "mah_inv now m" "now \<le> t" "in_u64 t" "threshold_ok m"
    and "mahUpdate bw isNew t lastSent lastAcked ackTime bytes m = (e, m')"
    and "expected = bytesFromBandwidthAndTimeDelta bw (Sub ackTime (aggregationEpochStartTime m))"
    and "0 \<le> expected" "expected < 2 ^ 52"
    and "0 < bytes" "bytes < 2 ^ 62" "aggregationEpochBytes m < 2 ^ 62"
  shows "mah_inv t m' \<and> 0 \<le> e \<and>
     (e = 0 \<longleftrightarrow> numAckAggregationEpochs m' \<noteq> numAckAggregationEpochs m) \<and>
     (e = 0 \<longrightarrow> aggregationEpochBytes m' = bytes \<and> aggregationEpochStartTime m' = ackTime \<and>
               lastSentPacketNumberBeforeEpoch m' = lastSent) \<and>
     (0 < e \<longrightarrow> e = aggregationEpochBytes m + bytes - expected \<and> e \<le> mahGet m' \<and>
               aggregationEpochBytes m' = aggregationEpochBytes m + bytes)"
proof -
  note r = reduced_inv [OF assms(1-3), of bw isNew]
  note i = mahUpdate_inv [OF assms(1-3,5)]
  from assms(5) show ?thesis
  proof (cases rule: mahUpdate_cases)
    case epoch
    moreover have "numAckAggregationEpochs m' \<noteq> numAckAggregationEpochs m"
      using epoch(2) startEpoch_counts [of "reduced bw isNew m"] r by (auto simp: mah_inv_def)
    ultimately show ?thesis using i by (simp add: startEpoch_def)
  next
    case (event x ev)
    have x: "x = expected" using event(2) assms(6) by simp
    have "expected < aggregationEpochBytes m"
      using threshold_ge [OF assms(4,7,8)] event(3) x by simp
    with assms(7-11) x event(4) have e: "e = aggregationEpochBytes m + bytes - expected" "0 < e"
      "i64 (aggregationEpochBytes m + bytes) = aggregationEpochBytes m + bytes"
      by (simp_all add: i64_small)
    have "e \<le> mahGet m'"
      using mahUpdate_event_inv(2) [OF r assms(3) event(6)] event(5,7) by (simp add: mahGet_def)
    with e event(7) i show ?thesis by simp
  qed
qed

theorem ack_height_update_witness:
  "let m0 = newMaxAckHeightTracker 10;
       m = snd (mahUpdate 8000000 False 1 5 3 1000000000 3000 m0);
       m' = snd (mahUpdate 8000000 False 2 9 6 1001000000 1200 m)
   in mah_inv 2 m' \<and> fst (mahUpdate 8000000 False 2 9 6 1001000000 1200 m) = 3200 \<and> 3200 \<le> mahGet m'"
proof -
  let ?m = "snd (mahUpdate 8000000 False 1 5 3 1000000000 3000 (newMaxAckHeightTracker 10))"
  let ?u = "mahUpdate 8000000 False 2 9 6 1001000000 1200 ?m"
  have "mah_inv 1 ?m"
    using mahUpdate_inv [OF new_mah_inv, of 10 1 8000000 False 5 3 1000000000 3000] by (simp add: in_u64_def prod_eq_iff)
  moreover have e: "fst ?u = 3200" and "threshold_ok ?m"
    and "1000 = bytesFromBandwidthAndTimeDelta 8000000 (Sub 1001000000 (aggregationEpochStartTime ?m))"
    and "aggregationEpochBytes ?m < 2 ^ 62"
    by code_simp+
  ultimately have "mah_inv 2 (snd ?u) \<and> (0 < fst ?u \<longrightarrow> fst ?u \<le> mahGet (snd ?u))"
    using ack_height_update [OF _ _ _ _ prod.collapse [symmetric],
        where now = 1 and m = ?m and t = 2 and bw = 8000000 and isNew = False and lastSent = 9 and lastAcked = 6
          and ackTime = 1001000000 and bytes = 1200 and expected = 1000]
    by (simp add: in_u64_def del: One_nat_def)
  with e show ?thesis unfolding Let_def by simp
qed

text \<open>
  The round of an event is never recorded: with \<open>reduceExtraAckedOnBandwidthIncrease\<close>, once the
  round-trip count exceeds the window length, an ack that raises the maximum bandwidth makes
  the tracker forget every height it kept, however recent: what \<open>Get\<close> reports afterwards is
  the excess of this ack alone.  (\<open>Update\<close> saves the old heights in order to re-insert them,
  reduced for the new bandwidth, but re-inserts them at round zero.)
\<close>

theorem ack_height_history_dropped:
  assumes "mah_inv now m" "now \<le> t" "in_u64 t"
    and "reduceExtraAckedOnBandwidthIncrease m" "windowLength (maxAckHeightFilter m) < t"
    and "mahUpdate bw True t lastSent lastAcked ackTime bytes m = (e, m')"
    and "numAckAggregationEpochs m' = numAckAggregationEpochs m"
  shows "mahGet m' = e"
proof -
  have f: "wf_inv ea_extraAcked now (maxAckHeightFilter m)"
    and z: "\<forall>e \<in> wf_samples (maxAckHeightFilter m). ea_round e = 0"
    and n: "in_u64 (numAckAggregationEpochs m)"
    using assms(1,4) by (simp_all add: mah_inv_def)
  let ?f = "reduceHeights bw (maxAckHeightFilter m)"
  note h = reduceHeights_inv [OF f z, of bw]
  have "wf_time (est2 ?f) = 0" "windowLength ?f < t" using h(1,3) assms(5) by (auto simp: wf_inv_def)
  then have old: "u64 (t - wf_time (est2 ?f)) > windowLength ?f" using assms(3) by (simp add: u64_id)
  from assms(6) show ?thesis
  proof (cases rule: mahUpdate_cases)
    case epoch
    with assms(7) startEpoch_counts [of "reduced bw True m"] n show ?thesis by simp
  next
    case (event x ev)
    have "mahGet m' = ea_extraAcked (GetBest (eaUpdate ev t ?f))"
      using event(7) assms(4) by (simp add: mahGet_def reduced_def)
    also have "\<dots> = ea_extraAcked ev"
      using old by (simp add: wfUpdate_def GetBest_def)
    finally show ?thesis using event(5) by simp
  qed
qed

theorem ack_height_history_dropped_witness:
  "let m0 = mahSetReduceExtraAckedOnBandwidthIncrease True (newMaxAckHeightTracker 10);
       m1 = snd (mahUpdate 8000000 False 19 5 3 1000000000 3000 m0);
       m2 = snd (mahUpdate 8000000 False 19 9 6 1001000000 50000 m1);
       m3 = snd (mahUpdate 8000000 False 20 9 7 1100000000 4000 m2);
       u = mahUpdate 8000008 True 20 9 8 1100100000 1200 m3
   in mahGet m3 = 52000 \<and> fst u = 5100 \<and> mahGet (snd u) = 5100"
proof -
  let ?m0 = "mahSetReduceExtraAckedOnBandwidthIncrease True (newMaxAckHeightTracker 10)"
  let ?m1 = "snd (mahUpdate 8000000 False 19 5 3 1000000000 3000 ?m0)"
  let ?m2 = "snd (mahUpdate 8000000 False 19 9 6 1001000000 50000 ?m1)"
  let ?m3 = "snd (mahUpdate 8000000 False 20 9 7 1100000000 4000 ?m2)"
  let ?u = "mahUpdate 8000008 True 20 9 8 1100100000 1200 ?m3"
  have i0: "mah_inv 0 ?m0"
    by (rule reduce_mah_inv) (simp add: in_u64_def)
  have i1: "mah_inv 19 ?m1"
    using mahUpdate_inv [OF i0, of 19 8000000 False 5 3 1000000000 3000] by (simp add: in_u64_def prod_eq_iff)
  have i2: "mah_inv 19 ?m2"
    using mahUpdate_inv [OF i1, of 19 8000000 False 9 6 1001000000 50000] by (simp add: in_u64_def prod_eq_iff)
  have i3: "mah_inv 20 ?m3"
    using mahUpdate_inv [OF i2, of 20 8000000 False 9 7 1100000000 4000] by (simp add: in_u64_def prod_eq_iff)
  have h: "mahGet ?m3 = 52000" "fst ?u = 5100" and "reduceExtraAckedOnBandwidthIncrease ?m3"
    "windowLength (maxAckHeightFilter ?m3) < 20"
    "numAckAggregationEpochs (snd ?u) = numAckAggregationEpochs ?m3"
    by code_simp+
  then have "mahGet (snd ?u) = fst ?u"
    by (intro ack_height_history_dropped [OF i3 _ _ _ _ prod.collapse [symmetric]]) (simp_all add: in_u64_def)
  with h show ?thesis unfolding Let_def by simp
qed

end
