(* ===== verification/BandwidthSampler.thy ===== *)
theory BandwidthSampler
  imports AckHeight
begin

text \<open>
  The rest of \<^verbatim>\<open>bandwidth_sampler.go\<close>: the sampler that records the connection state with every
  packet sent and turns every acknowledgement into a bandwidth sample, the smaller of the
  send rate and the ack rate.  Sent packets live in the packet-number indexed queue, the
  candidate points for the start of an ack-rate slope in a ring buffer.

  The theorems: no operation panics and every operation keeps the sampler's invariant; what
  an acknowledgement reports and how it moves the counters; the app-limited phase; and the
  loop that was to leave one candidate point but leaves half of them.
\<close>

section \<open>Data\<close>

definition infRTT :: int where
  "infRTT = 9223372036854775807"

definition defaultConnectionStateMapQueueSize :: nat where
  "defaultConnectionStateMapQueueSize = 256"

definition defaultCandidatesBufferSize :: nat where
  "defaultCandidatesBufferSize = 256"

record sendTimeState =
  st_isValid :: bool
  st_isAppLimited :: bool
  st_totalBytesSent :: int
  st_totalBytesAcked :: int
  st_totalBytesLost :: int
  st_bytesInFlight :: int

definition sendTimeState_zero :: sendTimeState where
  "sendTimeState_zero =
     \<lparr>st_isValid = False, st_isAppLimited = False, st_totalBytesSent = 0, st_totalBytesAcked = 0,
      st_totalBytesLost = 0, st_bytesInFlight = 0\<rparr>"

definition newSendTimeState :: "bool \<Rightarrow> int \<Rightarrow> int \<Rightarrow> int \<Rightarrow> int \<Rightarrow> sendTimeState" where
  "newSendTimeState isAppLimited totalBytesSent totalBytesAcked totalBytesLost bytesInFlight =
     \<lparr>st_isValid = True, st_isAppLimited = isAppLimited, st_totalBytesSent = totalBytesSent,
      st_totalBytesAcked = totalBytesAcked, st_totalBytesLost = totalBytesLost,
      st_bytesInFlight = bytesInFlight\<rparr>"

record bandwidthSample =
  bs_bandwidth :: int
  bs_rtt :: int
  bs_sendRate :: int
  bs_stateAtSend :: sendTimeState

definition newBandwidthSample :: bandwidthSample where
  "newBandwidthSample =
     \<lparr>bs_bandwidth = 0, bs_rtt = 0, bs_sendRate = infBandwidth, bs_stateAtSend = sendTimeState_zero\<rparr>"

record ackPoint =
  ap_ackTime :: mtime
  ap_totalBytesAcked :: int

definition ackPoint_zero :: ackPoint where
  "ackPoint_zero = \<lparr>ap_ackTime = 0, ap_totalBytesAcked = 0\<rparr>"

section \<open>The two most recent ack points\<close>

record recentAckPoints =
  ackPoints0 :: ackPoint
  ackPoints1 :: ackPoint

definition rapUpdate :: "mtime \<Rightarrow> int \<Rightarrow> recentAckPoints \<Rightarrow> recentAckPoints" where
  "rapUpdate ackTime totalBytesAcked r =
     (let r = (if Before ackTime (ap_ackTime (ackPoints1 r))
               then r\<lparr>ackPoints1 := (ackPoints1 r)\<lparr>ap_ackTime := ackTime\<rparr>\<rparr>
               else if After ackTime (ap_ackTime (ackPoints1 r))
               then r\<lparr>ackPoints0 := ackPoints1 r, ackPoints1 := (ackPoints1 r)\<lparr>ap_ackTime := ackTime\<rparr>\<rparr>
               else r)
      in r\<lparr>ackPoints1 := (ackPoints1 r)\<lparr>ap_totalBytesAcked := totalBytesAcked\<rparr>\<rparr>)"

definition rapClear :: "recentAckPoints \<Rightarrow> recentAckPoints" where
  "rapClear r = r\<lparr>ackPoints0 := ackPoint_zero, ackPoints1 := ackPoint_zero\<rparr>"

definition MostRecentPoint :: "recentAckPoints \<Rightarrow> ackPoint" where
  "MostRecentPoint r = ackPoints1 r"

definition LessRecentPoint :: "recentAckPoints \<Rightarrow> ackPoint" where
  "LessRecentPoint r =
     (if ap_totalBytesAcked (ackPoints0 r) \<noteq> 0 then ackPoints0 r else ackPoints1 r)"

section \<open>Sampler state\<close>

record connectionStateOnSentPacket =
  cs_sentTime :: mtime
  cs_size :: int
  cs_totalBytesSentAtLastAckedPacket :: int
  cs_lastAckedPacketSentTime :: mtime
  cs_lastAckedPacketAckTime :: mtime
  cs_sendTimeState :: sendTimeState

definition connectionState_zero :: connectionStateOnSentPacket where
  "connectionState_zero =
     \<lparr>cs_sentTime = 0, cs_size = 0, cs_totalBytesSentAtLastAckedPacket = 0,
      cs_lastAckedPacketSentTime = 0, cs_lastAckedPacketAckTime = 0, cs_sendTimeState = sendTimeState_zero\<rparr>"

record congestionEventSample =
  ev_sampleMaxBandwidth :: int
  ev_sampleIsAppLimited :: bool
  ev_sampleRtt :: int
  ev_sampleMaxInflight :: int
  ev_lastPacketSendState :: sendTimeState
  ev_extraAcked :: int

definition newCongestionEventSample :: congestionEventSample where
  "newCongestionEventSample =
     \<lparr>ev_sampleMaxBandwidth = 0, ev_sampleIsAppLimited = False, ev_sampleRtt = infRTT,
      ev_sampleMaxInflight = 0, ev_lastPacketSendState = sendTimeState_zero, ev_extraAcked = 0\<rparr>"

record bandwidthSampler =
  totalBytesSent :: int
  totalBytesAcked :: int
  totalBytesLost :: int
  totalBytesNeutered :: int
  totalBytesSentAtLastAckedPacket :: int
  lastAckedPacketSentTime :: mtime
  lastAckedPacketAckTime :: mtime
  sp_lastSentPacket :: int
  lastAckedPacket :: int
  isAppLimited :: bool
  endOfAppLimitedPhase :: int
  connectionStateMap :: "connectionStateOnSentPacket packetNumberIndexedQueue"
  recentPoints :: recentAckPoints
  a0Candidates :: "ackPoint ringBuffer"
  maxTrackedPackets :: int
  heightTracker :: maxAckHeightTracker
  totalBytesAckedAfterLastAckEvent :: int
  overestimateAvoidance :: bool
  limitMaxAckHeightTrackerBySendRate :: bool

definition newConnectionStateOnSentPacket ::
  "mtime \<Rightarrow> int \<Rightarrow> int \<Rightarrow> bandwidthSampler \<Rightarrow> connectionStateOnSentPacket"
where
  "newConnectionStateOnSentPacket sentTime sz bytesInFlight s =
     \<lparr>cs_sentTime = sentTime, cs_size = sz,
      cs_totalBytesSentAtLastAckedPacket = totalBytesSentAtLastAckedPacket s,
      cs_lastAckedPacketSentTime = lastAckedPacketSentTime s,
      cs_lastAckedPacketAckTime = lastAckedPacketAckTime s,
      cs_sendTimeState = newSendTimeState (isAppLimited s) (totalBytesSent s) (totalBytesAcked s)
                           (totalBytesLost s) bytesInFlight\<rparr>"

definition newBandwidthSampler :: "int \<Rightarrow> bandwidthSampler" where
  "newBandwidthSampler maxAckHeightTrackerWindowLength =
     \<lparr>totalBytesSent = 0, totalBytesAcked = 0, totalBytesLost = 0, totalBytesNeutered = 0,
      totalBytesSentAtLastAckedPacket = 0, lastAckedPacketSentTime = 0, lastAckedPacketAckTime = 0,
      sp_lastSentPacket = invalidPacketNumber, lastAckedPacket = invalidPacketNumber,
      isAppLimited = False, endOfAppLimitedPhase = invalidPacketNumber,
      connectionStateMap = newPacketNumberIndexedQueue connectionState_zero defaultConnectionStateMapQueueSize,
      recentPoints = \<lparr>ackPoints0 = ackPoint_zero, ackPoints1 = ackPoint_zero\<rparr>,
      a0Candidates = Init ackPoint_zero defaultCandidatesBufferSize rb_zero,
      maxTrackedPackets = 0, heightTracker = newMaxAckHeightTracker maxAckHeightTrackerWindowLength,
      totalBytesAckedAfterLastAckEvent = 0, overestimateAvoidance = False,
      limitMaxAckHeightTrackerBySendRate = False\<rparr>"

definition MaxAckHeight :: "bandwidthSampler \<Rightarrow> int" where
  "MaxAckHeight b = mahGet (heightTracker b)"

definition NumAckAggregationEpochs :: "bandwidthSampler \<Rightarrow> int" where
  "NumAckAggregationEpochs b = numAckAggregationEpochs (heightTracker b)"

definition SetMaxAckHeightTrackerWindowLength :: "int \<Rightarrow> bandwidthSampler \<Rightarrow> bandwidthSampler" where
  "SetMaxAckHeightTrackerWindowLength l b = b\<lparr>heightTracker := SetFilterWindowLength l (heightTracker b)\<rparr>"

definition ResetMaxAckHeightTracker :: "int \<Rightarrow> int \<Rightarrow> bandwidthSampler \<Rightarrow> bandwidthSampler" where
  "ResetMaxAckHeightTracker newHeight newTime b = b\<lparr>heightTracker := mahReset newHeight newTime (heightTracker b)\<rparr>"

definition SetStartNewAggregationEpochAfterFullRound :: "bool \<Rightarrow> bandwidthSampler \<Rightarrow> bandwidthSampler" where
  "SetStartNewAggregationEpochAfterFullRound v b =
     b\<lparr>heightTracker := mahSetStartNewAggregationEpochAfterFullRound v (heightTracker b)\<rparr>"

definition SetLimitMaxAckHeightTrackerBySendRate :: "bool \<Rightarrow> bandwidthSampler \<Rightarrow> bandwidthSampler" where
  "SetLimitMaxAckHeightTrackerBySendRate v b = b\<lparr>limitMaxAckHeightTrackerBySendRate := v\<rparr>"

definition SetReduceExtraAckedOnBandwidthIncrease :: "bool \<Rightarrow> bandwidthSampler \<Rightarrow> bandwidthSampler" where
  "SetReduceExtraAckedOnBandwidthIncrease v b =
     b\<lparr>heightTracker := mahSetReduceExtraAckedOnBandwidthIncrease v (heightTracker b)\<rparr>"

definition EnableOverestimateAvoidance :: "bandwidthSampler \<Rightarrow> bandwidthSampler" where
  "EnableOverestimateAvoidance b =
     (if overestimateAvoidance b then b
      else b\<lparr>overestimateAvoidance := True,
             heightTracker := SetAckAggregationBandwidthThreshold (F64 2 0) (heightTracker b)\<rparr>)"

section \<open>Sending\<close>

text \<open>With nothing in flight, the new transmission is the A0 point.\<close>

definition openTransmission :: "mtime \<Rightarrow> bandwidthSampler \<Rightarrow> bandwidthSampler res" where
  "openTransmission sentTime b =
     (let b = b\<lparr>lastAckedPacketAckTime := sentTime\<rparr> in
      bindR (if overestimateAvoidance b then
               let b = b\<lparr>recentPoints := rapUpdate sentTime (totalBytesAcked b) (rapClear (recentPoints b)),
                         a0Candidates := Clear ackPoint_zero (a0Candidates b)\<rparr>
               in bindR (PushBack ackPoint_zero (MostRecentPoint (recentPoints b)) (a0Candidates b))
                    (\<lambda>q. Inr (b\<lparr>a0Candidates := q\<rparr>))
             else Inr b) (\<lambda>b.
      Inr (b\<lparr>totalBytesSentAtLastAckedPacket := totalBytesSent b, lastAckedPacketSentTime := sentTime\<rparr>)))"

definition spOnPacketSent ::
  "mtime \<Rightarrow> int \<Rightarrow> int \<Rightarrow> int \<Rightarrow> bool \<Rightarrow> bandwidthSampler \<Rightarrow> bandwidthSampler res"
where
  "spOnPacketSent sentTime packetNumber bytes bytesInFlight isRetransmittable b =
     (let b = b\<lparr>sp_lastSentPacket := packetNumber\<rparr> in
      if \<not> isRetransmittable then Inr b
      else
        let b = b\<lparr>totalBytesSent := i64 (totalBytesSent b + bytes)\<rparr> in
        bindR (if bytesInFlight = 0 then openTransmission sentTime b else Inr b) (\<lambda>b.
        bindR (Emplace connectionState_zero packetNumber
                 (Some (newConnectionStateOnSentPacket sentTime bytes (i64 (bytesInFlight + bytes)) b))
                 (connectionStateMap b)) (\<lambda>(_, m).
        Inr (b\<lparr>connectionStateMap := m\<rparr>))))"

section \<open>Loss, neutering, app-limited phase\<close>

definition sentPacketToSendTimeState :: "connectionStateOnSentPacket \<Rightarrow> sendTimeState" where
  "sentPacketToSendTimeState sentPacket = (cs_sendTimeState sentPacket)\<lparr>st_isValid := True\<rparr>"

definition spOnPacketLost :: "int \<Rightarrow> int \<Rightarrow> bandwidthSampler \<Rightarrow> (sendTimeState \<times> bandwidthSampler) res" where
  "spOnPacketLost packetNumber bytesLost b =
     (let b = b\<lparr>totalBytesLost := i64 (totalBytesLost b + bytesLost)\<rparr> in
      bindR (GetEntry packetNumber (connectionStateMap b)) (\<lambda>sentPacketPointer.
      Inr (case sentPacketPointer of
             None \<Rightarrow> sendTimeState_zero
           | Some p \<Rightarrow> sentPacketToSendTimeState p, b)))"

definition OnPacketNeutered :: "int \<Rightarrow> bandwidthSampler \<Rightarrow> bandwidthSampler res" where
  "OnPacketNeutered packetNumber b =
     bindR (Remove connectionState_zero packetNumber (connectionStateMap b)) (\<lambda>(_, m, removed).
     let b = b\<lparr>connectionStateMap := m\<rparr> in
     Inr (case removed of
            None \<Rightarrow> b
          | Some sentPacket \<Rightarrow> b\<lparr>totalBytesNeutered := i64 (totalBytesNeutered b + cs_size sentPacket)\<rparr>))"

definition OnAppLimited :: "bandwidthSampler \<Rightarrow> bandwidthSampler" where
  "OnAppLimited b = b\<lparr>isAppLimited := True, endOfAppLimitedPhase := sp_lastSentPacket b\<rparr>"

definition RemoveObsoletePackets :: "int \<Rightarrow> bandwidthSampler \<Rightarrow> bandwidthSampler res" where
  "RemoveObsoletePackets leastUnacked b =
     bindR (RemoveUpTo connectionState_zero leastUnacked (connectionStateMap b)) (\<lambda>m.
     Inr (b\<lparr>connectionStateMap := m\<rparr>))"

section \<open>Choosing the start of the ack-rate slope\<close>

text \<open>The search loop over the candidates: the first index whose point is beyond the total.\<close>

primrec searchA0 :: "int \<Rightarrow> nat list \<Rightarrow> ackPoint ringBuffer \<Rightarrow> nat option res" where
  "searchA0 tot [] q = Inr None"
| "searchA0 tot (i # is) q =
     bindR (Offset q (int i)) (\<lambda>p.
     if ap_totalBytesAcked (deref q p) > tot then Inr (Some i) else searchA0 tot is q)"

primrec popN :: "nat \<Rightarrow> ackPoint ringBuffer \<Rightarrow> ackPoint ringBuffer res" where
  "popN 0 q = Inr q"
| "popN (Suc n) q = bindR (PopFront ackPoint_zero q) (\<lambda>(_, q). popN n q)"

text \<open>
  The final loop, whose bound \<open>Len() - 1\<close> is evaluated again in every round.  Every round
  pops, so the number of elements is enough fuel.
\<close>

fun popLoop :: "nat \<Rightarrow> int \<Rightarrow> ackPoint ringBuffer \<Rightarrow> ackPoint ringBuffer res" where
  "popLoop fuel k q =
     (if k < Len q - 1
      then (case fuel of
              0 \<Rightarrow> Inl Diverges
            | Suc n \<Rightarrow> bindR (PopFront ackPoint_zero q) (\<lambda>(_, q). popLoop n (k + 1) q))
      else Inr q)"

declare popLoop.simps [simp del]

definition chooseA0Point :: "int \<Rightarrow> bandwidthSampler \<Rightarrow> (ackPoint option \<times> bandwidthSampler) res" where
  "chooseA0Point tot b =
     (let q = a0Candidates b in
      if Empty q then Inr (None, b)
      else if Len q = 1 then bindR (Front q) (\<lambda>p. Inr (Some (deref q p), b))
      else
        bindR (searchA0 tot [1..<nat (Len q)] q) (\<lambda>found.
        case found of
          Some i \<Rightarrow>
            bindR (Offset q (int i - 1)) (\<lambda>p.
            bindR (popN (i - 1) q) (\<lambda>q'.
            Inr (Some (deref q p), b\<lparr>a0Candidates := q'\<rparr>)))
        | None \<Rightarrow>
            bindR (Back q) (\<lambda>p.
            bindR (popLoop (nat (Len q)) 0 q) (\<lambda>q'.
            Inr (Some (deref q p), b\<lparr>a0Candidates := q'\<rparr>)))))"

section \<open>Acknowledgements\<close>

text \<open>The counters, the recent ack points and the app-limited phase on the ack of a known packet.\<close>

definition onPacketAcknowledgedInner ::
  "mtime \<Rightarrow> int \<Rightarrow> connectionStateOnSentPacket \<Rightarrow> bandwidthSampler \<Rightarrow> bandwidthSampler"
where
  "onPacketAcknowledgedInner ackTime packetNumber sentPacket b =
     (let b = b\<lparr>totalBytesAcked := i64 (totalBytesAcked b + cs_size sentPacket),
                totalBytesSentAtLastAckedPacket := st_totalBytesSent (cs_sendTimeState sentPacket),
                lastAckedPacketSentTime := cs_sentTime sentPacket,
                lastAckedPacketAckTime := ackTime\<rparr>;
          b = (if overestimateAvoidance b
               then b\<lparr>recentPoints := rapUpdate ackTime (totalBytesAcked b) (recentPoints b)\<rparr> else b)
      in if isAppLimited b \<and>
            (endOfAppLimitedPhase b = invalidPacketNumber \<or> packetNumber > endOfAppLimitedPhase b)
         then b\<lparr>isAppLimited := False\<rparr> else b)"

definition onPacketAcknowledged ::
  "mtime \<Rightarrow> int \<Rightarrow> bandwidthSampler \<Rightarrow> (bandwidthSample \<times> bandwidthSampler) res"
where
  "onPacketAcknowledged ackTime packetNumber b =
     (let b = b\<lparr>lastAckedPacket := packetNumber\<rparr> in
      bindR (GetEntry packetNumber (connectionStateMap b)) (\<lambda>sentPacketPointer.
      case sentPacketPointer of
        None \<Rightarrow> Inr (newBandwidthSample, b)
      | Some sentPacket \<Rightarrow>
          let b = onPacketAcknowledgedInner ackTime packetNumber sentPacket b in
          if IsZero (cs_lastAckedPacketSentTime sentPacket) then Inr (newBandwidthSample, b)
          else
            bindR (if After (cs_sentTime sentPacket) (cs_lastAckedPacketSentTime sentPacket)
                   then BandwidthFromDelta
                          (i64 (st_totalBytesSent (cs_sendTimeState sentPacket)
                                - cs_totalBytesSentAtLastAckedPacket sentPacket))
                          (Sub (cs_sentTime sentPacket) (cs_lastAckedPacketSentTime sentPacket))
                   else Inr infBandwidth) (\<lambda>sendRate.
            bindR (if overestimateAvoidance b
                   then chooseA0Point (st_totalBytesAcked (cs_sendTimeState sentPacket)) b
                   else Inr (None, b)) (\<lambda>(chosen, b).
            let a0 = (case chosen of
                        Some a0 \<Rightarrow> a0
                      | None \<Rightarrow> \<lparr>ap_ackTime = cs_lastAckedPacketAckTime sentPacket,
                                 ap_totalBytesAcked = st_totalBytesAcked (cs_sendTimeState sentPacket)\<rparr>)
            in if Sub ackTime (ap_ackTime a0) \<le> 0 then Inr (newBandwidthSample, b)
               else
                 bindR (BandwidthFromDelta (i64 (totalBytesAcked b - ap_totalBytesAcked a0))
                          (Sub ackTime (ap_ackTime a0))) (\<lambda>ackRate.
                 Inr (\<lparr>bs_bandwidth = min sendRate ackRate, bs_rtt = Sub ackTime (cs_sentTime sentPacket),
                       bs_sendRate = sendRate, bs_stateAtSend = sentPacketToSendTimeState sentPacket\<rparr>, b))))))"

definition onAckEventEnd :: "int \<Rightarrow> bool \<Rightarrow> int \<Rightarrow> bandwidthSampler \<Rightarrow> (int \<times> bandwidthSampler) res" where
  "onAckEventEnd bandwidthEstimate isNewMaxBandwidth roundTripCount b =
     (let newlyAckedBytes = i64 (totalBytesAcked b - totalBytesAckedAfterLastAckEvent b) in
      if newlyAckedBytes = 0 then Inr (0, b)
      else
        let b = b\<lparr>totalBytesAckedAfterLastAckEvent := totalBytesAcked b\<rparr>;
            (extraAcked, t) = mahUpdate bandwidthEstimate isNewMaxBandwidth roundTripCount
                (sp_lastSentPacket b) (lastAckedPacket b) (lastAckedPacketAckTime b) newlyAckedBytes
                (heightTracker b);
            b = b\<lparr>heightTracker := t\<rparr>
        in if overestimateAvoidance b \<and> extraAcked = 0
           then bindR (PushBack ackPoint_zero (LessRecentPoint (recentPoints b)) (a0Candidates b)) (\<lambda>q.
                Inr (extraAcked, b\<lparr>a0Candidates := q\<rparr>))
           else Inr (extraAcked, b))"

section \<open>A congestion event\<close>

text \<open>Acknowledged and lost packets: packet number and bytes.\<close>

type_synonym packetInfo = "int \<times> int"

primrec lossLoop :: "packetInfo list \<Rightarrow> sendTimeState \<Rightarrow> bandwidthSampler \<Rightarrow>
    (sendTimeState \<times> bandwidthSampler) res" where
  "lossLoop [] lastLost b = Inr (lastLost, b)"
| "lossLoop (p # ps) lastLost b =
     bindR (spOnPacketLost (fst p) (snd p) b) (\<lambda>(sendState, b).
     lossLoop ps (if st_isValid sendState then sendState else lastLost) b)"

text \<open>What one sample adds to the event: rtt, maximum bandwidth, maximum send rate, inflight.\<close>

definition addSample ::
  "bandwidthSample \<Rightarrow> bandwidthSampler \<Rightarrow> congestionEventSample \<Rightarrow> congestionEventSample"
where
  "addSample sample b ev =
     (let ev = (if bs_rtt sample \<noteq> 0 then ev\<lparr>ev_sampleRtt := min (ev_sampleRtt ev) (bs_rtt sample)\<rparr> else ev);
          ev = (if bs_bandwidth sample > ev_sampleMaxBandwidth ev
                then ev\<lparr>ev_sampleMaxBandwidth := bs_bandwidth sample,
                        ev_sampleIsAppLimited := st_isAppLimited (bs_stateAtSend sample)\<rparr>
                else ev);
          inflightSample = i64 (totalBytesAcked b - st_totalBytesAcked (bs_stateAtSend sample))
      in if inflightSample > ev_sampleMaxInflight ev then ev\<lparr>ev_sampleMaxInflight := inflightSample\<rparr> else ev)"

primrec ackLoop :: "mtime \<Rightarrow> packetInfo list \<Rightarrow>
    congestionEventSample \<times> sendTimeState \<times> int \<Rightarrow> bandwidthSampler \<Rightarrow>
    ((congestionEventSample \<times> sendTimeState \<times> int) \<times> bandwidthSampler) res" where
  "ackLoop ackTime [] acc b = Inr (acc, b)"
| "ackLoop ackTime (p # ps) acc b =
     bindR (onPacketAcknowledged ackTime (fst p) b) (\<lambda>(sample, b).
     if \<not> st_isValid (bs_stateAtSend sample) then ackLoop ackTime ps acc b
     else
       let (ev, lastAcked, maxSendRate) = acc in
       ackLoop ackTime ps
         (addSample sample b ev, bs_stateAtSend sample,
          if bs_sendRate sample \<noteq> infBandwidth then max maxSendRate (bs_sendRate sample) else maxSendRate) b)"

definition lastNumber :: "packetInfo list \<Rightarrow> int res" where
  "lastNumber ps = (if ps = [] then Inl IndexOutOfRange else Inr (fst (last ps)))"

text \<open>Which packet's send state the event reports.\<close>

definition lastSendState ::
  "packetInfo list \<Rightarrow> packetInfo list \<Rightarrow> sendTimeState \<Rightarrow> sendTimeState \<Rightarrow> sendTimeState res"
where
  "lastSendState ackedPackets lostPackets lastAcked lastLost =
     (if \<not> st_isValid lastLost then Inr lastAcked
      else if \<not> st_isValid lastAcked then Inr lastLost
      else bindR (lastNumber lostPackets) (\<lambda>l.
           bindR (lastNumber ackedPackets) (\<lambda>a.
           Inr (if l > a then lastLost else lastAcked))))"

definition spOnCongestionEvent ::
  "mtime \<Rightarrow> packetInfo list \<Rightarrow> packetInfo list \<Rightarrow> int \<Rightarrow> int \<Rightarrow> int \<Rightarrow> bandwidthSampler \<Rightarrow>
   (congestionEventSample \<times> bandwidthSampler) res"
where
  "spOnCongestionEvent ackTime ackedPackets lostPackets maxBandwidth estBandwidthUpperBound roundTripCount b =
     (let eventSample = newCongestionEventSample in
      bindR (lossLoop lostPackets sendTimeState_zero b) (\<lambda>(lastLost, b).
      if ackedPackets = [] then Inr (eventSample\<lparr>ev_lastPacketSendState := lastLost\<rparr>, b)
      else
        bindR (ackLoop ackTime ackedPackets (eventSample, sendTimeState_zero, 0) b)
          (\<lambda>((eventSample, lastAcked, maxSendRate), b).
        bindR (lastSendState ackedPackets lostPackets lastAcked lastLost) (\<lambda>sendState.
        let eventSample = eventSample\<lparr>ev_lastPacketSendState := sendState\<rparr>;
            isNewMaxBandwidth = (ev_sampleMaxBandwidth eventSample > maxBandwidth);
            maxBandwidth = max maxBandwidth (ev_sampleMaxBandwidth eventSample);
            maxBandwidth = (if limitMaxAckHeightTrackerBySendRate b then max maxBandwidth maxSendRate
                            else maxBandwidth)
        in bindR (onAckEventEnd (min estBandwidthUpperBound maxBandwidth) isNewMaxBandwidth roundTripCount b)
             (\<lambda>(extraAcked, b).
           Inr (eventSample\<lparr>ev_extraAcked := extraAcked\<rparr>, b))))))"

section \<open>Rates never divide by zero\<close>

lemma BandwidthFromDelta_safe:
  assumes "in_i64 d" "d \<noteq> 0"
  shows "\<exists>r. BandwidthFromDelta x d = Inr r \<and> in_u64 r"
proof -
  have "u64 d \<noteq> 0"
    using assms by (cases "0 \<le> d") (auto simp: in_i64_def u64_def mod_eq_0_iff_dvd dvd_def)
  then show ?thesis by (simp add: BandwidthFromDelta_def)
qed

lemma Sub_After: "in_i64 t \<Longrightarrow> in_i64 s \<Longrightarrow> After t s \<Longrightarrow> Sub t s \<noteq> 0"
  by (auto simp: time_defs in_i64_def dest!: i64_eq_0D zdvd_imp_le)

section \<open>The choice of the A0 point\<close>

lemma popN_list:
  "rb_inv q \<Longrightarrow> n \<le> length (rb_list q) \<Longrightarrow>
   \<exists>q'. popN n q = Inr q' \<and> rb_inv q' \<and> rb_list q' = drop n (rb_list q)"
proof (induction n arbitrary: q)
  case (Suc n)
  from Suc.prems have "rb_list q \<noteq> []" by auto
  from PopFront_list [OF Suc.prems(1) this] obtain q1 where
    "PopFront ackPoint_zero q = Inr (hd (rb_list q), q1)" "rb_inv q1" "rb_list q1 = tl (rb_list q)" by blast
  with Suc.IH [of q1] Suc.prems show ?case by (auto simp: drop_Suc)
qed simp

lemma popLoop_list:
  "rb_inv q \<Longrightarrow> length (rb_list q) \<le> fuel + k \<Longrightarrow>
   \<exists>q'. popLoop fuel (int k) q = Inr q' \<and> rb_inv q' \<and>
        rb_list q' = drop ((length (rb_list q) - k) div 2) (rb_list q)"
proof (induction fuel arbitrary: k q)
  case 0
  then show ?case using length_rb_list [OF 0(1)] by (subst popLoop.simps) auto
next
  case (Suc n)
  note L = length_rb_list [OF Suc.prems(1)]
  show ?case
  proof (cases "int k < Len q - 1")
    case True
    then have ne: "rb_list q \<noteq> []" and k: "Suc k < length (rb_list q)" using L by auto
    from PopFront_list [OF Suc.prems(1) ne] obtain q1 where
      q1: "PopFront ackPoint_zero q = Inr (hd (rb_list q), q1)" "rb_inv q1" "rb_list q1 = tl (rb_list q)" by blast
    have "length (rb_list q1) \<le> n + Suc k" using q1(3) Suc.prems(2) by auto
    from Suc.IH [OF q1(2) this] q1(3) obtain q2 where
      q2: "popLoop n (int k + 1) q1 = Inr q2" "rb_inv q2"
      "rb_list q2 = drop ((length (rb_list q) - 1 - Suc k) div 2) (tl (rb_list q))"
      by (auto simp: algebra_simps)
    have "Suc ((length (rb_list q) - 1 - Suc k) div 2) = (length (rb_list q) - k) div 2"
      using k by presburger
    with q2 have "rb_list q2 = drop ((length (rb_list q) - k) div 2) (rb_list q)"
      by (metis drop_Suc)
    with True q1 q2 show ?thesis by (subst popLoop.simps) simp
  next
    case False
    then have "(length (rb_list q) - k) div 2 = 0" using L by simp
    with False Suc.prems(1) show ?thesis by (subst popLoop.simps) simp
  qed
qed

text \<open>
  Among the candidates \<open>xs\<close>: which index is chosen and which candidates are left.
\<close>

definition a0_choice :: "int \<Rightarrow> ackPoint list \<Rightarrow> ackPoint option \<times> ackPoint list" where
  "a0_choice tot xs =
     (if xs = [] then (None, xs)
      else if length xs = 1 then (Some (hd xs), xs)
      else case find (\<lambda>i. tot < ap_totalBytesAcked (xs ! i)) [1..<length xs] of
             Some i \<Rightarrow> (Some (xs ! (i - 1)), drop (i - 1) xs)
           | None \<Rightarrow> (Some (last xs), drop (length xs div 2) xs))"

lemma searchA0_find:
  assumes "rb_inv q" "\<forall>i \<in> set is. i < length (rb_list q)"
  shows "searchA0 tot is q = Inr (find (\<lambda>i. tot < ap_totalBytesAcked (rb_list q ! i)) is)"
  using assms(2) by (induction "is") (auto simp: Offset_list [OF assms(1)])

lemma chooseA0Point_list:
  assumes "rb_inv (a0Candidates b)"
  shows "\<exists>q. chooseA0Point tot b = Inr (fst (a0_choice tot (rb_list (a0Candidates b))), b\<lparr>a0Candidates := q\<rparr>) \<and>
     rb_inv q \<and> rb_list q = snd (a0_choice tot (rb_list (a0Candidates b)))"
proof -
  let ?q = "a0Candidates b" and ?xs = "rb_list (a0Candidates b)"
  note L = length_rb_list [OF assms] and E = Empty_iff [OF assms]
  consider "?xs = []" | "length ?xs = 1" | "1 < length ?xs" by (cases ?xs) auto
  then show ?thesis
  proof cases
    case 1
    then show ?thesis using E assms by (intro exI [of _ ?q]) (simp add: chooseA0Point_def a0_choice_def)
  next
    case 2
    then have "?xs \<noteq> []" by auto
    with Front_list [OF assms this] 2 E L assms show ?thesis
      by (intro exI [of _ ?q]) (auto simp: chooseA0Point_def a0_choice_def)
  next
    case 3
    then have ne: "?xs \<noteq> []" by auto
    have n: "nat (Len ?q) = length ?xs" using L by simp
    have s: "searchA0 tot [1..<nat (Len ?q)] ?q =
        Inr (find (\<lambda>i. tot < ap_totalBytesAcked (?xs ! i)) [1..<length ?xs])"
      unfolding n by (rule searchA0_find [OF assms]) simp
    show ?thesis
    proof (cases "find (\<lambda>i. tot < ap_totalBytesAcked (?xs ! i)) [1..<length ?xs]")
      case None
      from Back_list [OF assms ne] obtain p where p: "Back ?q = Inr p" "deref ?q p = last ?xs" by blast
      from popLoop_list [OF assms, of "length ?xs" 0] obtain q' where
        q': "popLoop (length ?xs) 0 ?q = Inr q'" "rb_inv q'" "rb_list q' = drop (length ?xs div 2) ?xs" by auto
      show ?thesis using 3 ne E L n s None p q'
        by (intro exI [of _ q']) (simp add: chooseA0Point_def a0_choice_def Let_def)
    next
      case (Some i)
      then have i: "1 \<le> i" "i < length ?xs" by (auto simp: find_Some_iff)
      then have o: "Offset ?q (int i - 1) = Inr (slot ?q (i - 1))" "deref ?q (slot ?q (i - 1)) = ?xs ! (i - 1)"
        using Offset_list [OF assms, of "i - 1"] by simp_all
      have "i - 1 \<le> length ?xs" using i by linarith
      from popN_list [OF assms this] obtain q' where
        q': "popN (i - 1) ?q = Inr q'" "rb_inv q'" "rb_list q' = drop (i - 1) ?xs" by auto
      show ?thesis using 3 ne E L n s Some o q'
        by (intro exI [of _ q']) (simp add: chooseA0Point_def a0_choice_def Let_def)
    qed
  qed
qed

section \<open>Invariant\<close>

text \<open>
  The queue, the ring of candidates and the ack-height tracker are well-formed, and every
  time stamp that a rate is computed from is an \<^verbatim>\<open>int64\<close>.
\<close>

definition cs_ok :: "connectionStateOnSentPacket \<Rightarrow> bool" where
  "cs_ok c \<longleftrightarrow> in_i64 (cs_sentTime c) \<and> in_i64 (cs_lastAckedPacketSentTime c)"

definition sp_inv :: "int \<Rightarrow> bandwidthSampler \<Rightarrow> bool" where
  "sp_inv now b \<longleftrightarrow>
     pnq_inv (connectionStateMap b) \<and>
     (\<forall>c \<in> ran (pnq_map (connectionStateMap b)). cs_ok c) \<and>
     in_i64 (lastAckedPacketSentTime b) \<and> in_i64 (totalBytesAcked b) \<and> in_i64 (totalBytesLost b) \<and>
     rb_inv (a0Candidates b) \<and>
     mah_inv now (heightTracker b)"

abbreviation sentPackets :: "bandwidthSampler \<Rightarrow> int \<rightharpoonup> connectionStateOnSentPacket" where
  "sentPackets b \<equiv> pnq_map (connectionStateMap b)"

abbreviation reduces :: "bandwidthSampler \<Rightarrow> bool" where
  "reduces b \<equiv> reduceExtraAckedOnBandwidthIncrease (heightTracker b)"

lemma new_sp_inv: "in_u64 w \<Longrightarrow> sp_inv 0 (newBandwidthSampler w)"
  by (simp add: sp_inv_def newBandwidthSampler_def new_inv new_map new_mah_inv Init_fresh in_i64_def)

lemma sp_inv_mono: "sp_inv now b \<Longrightarrow> now \<le> t \<Longrightarrow> in_u64 t \<Longrightarrow> sp_inv t b"
  by (auto simp: sp_inv_def intro: mah_inv_mono)

lemma sp_inv_simps [simp]:
  "sp_inv now (b\<lparr>sp_lastSentPacket := x\<rparr>) = sp_inv now b"
  "sp_inv now (b\<lparr>lastAckedPacket := x\<rparr>) = sp_inv now b"
  "sp_inv now (b\<lparr>totalBytesSent := x\<rparr>) = sp_inv now b"
  "sp_inv now (b\<lparr>totalBytesNeutered := x\<rparr>) = sp_inv now b"
  "sp_inv now (b\<lparr>totalBytesAckedAfterLastAckEvent := x\<rparr>) = sp_inv now b"
  by (simp_all add: sp_inv_def)

lemma sp_invD:
  assumes "sp_inv now b"
  shows "in_i64 (totalBytesAcked b)" "in_i64 (totalBytesLost b)" "pnq_inv (connectionStateMap b)"
    "mah_inv now (heightTracker b)" "rb_inv (a0Candidates b)"
  using assms by (simp_all add: sp_inv_def)

subsection \<open>Sending\<close>

lemma openTransmission_ok:
  assumes "sp_inv now b" "in_i64 t"
  shows "\<exists>q r. openTransmission t b =
       Inr (b\<lparr>lastAckedPacketAckTime := t, recentPoints := r, a0Candidates := q,
              totalBytesSentAtLastAckedPacket := totalBytesSent b, lastAckedPacketSentTime := t\<rparr>) \<and> rb_inv q"
proof (cases "overestimateAvoidance b")
  case True
  let ?r = "rapUpdate t (totalBytesAcked b) (rapClear (recentPoints b))"
  from PushBack_list [OF Clear_inv, of ackPoint_zero "MostRecentPoint ?r" ackPoint_zero "a0Candidates b"]
  obtain q where
    "PushBack ackPoint_zero (MostRecentPoint ?r) (Clear ackPoint_zero (a0Candidates b)) = Inr q" "rb_inv q" by blast
  with True show ?thesis by (intro exI [of _ q] exI [of _ ?r]) (simp add: openTransmission_def Let_def)
next
  case False
  with assms show ?thesis
    by (intro exI [of _ "a0Candidates b"] exI [of _ "recentPoints b"]) (simp add: openTransmission_def sp_inv_def)
qed

text \<open>What the record of a sent packet holds.\<close>

definition sent_record :: "mtime \<Rightarrow> int \<Rightarrow> int \<Rightarrow> bandwidthSampler \<Rightarrow> connectionStateOnSentPacket \<Rightarrow> bool" where
  "sent_record t bytes inflight b c \<longleftrightarrow>
     cs_sentTime c = t \<and> cs_size c = bytes \<and>
     cs_sendTimeState c = newSendTimeState (isAppLimited b) (i64 (totalBytesSent b + bytes)) (totalBytesAcked b)
       (totalBytesLost b) (i64 (inflight + bytes)) \<and>
     (if inflight = 0
      then cs_lastAckedPacketSentTime c = t \<and> cs_lastAckedPacketAckTime c = t \<and>
           cs_totalBytesSentAtLastAckedPacket c = i64 (totalBytesSent b + bytes)
      else cs_lastAckedPacketSentTime c = lastAckedPacketSentTime b \<and>
           cs_lastAckedPacketAckTime c = lastAckedPacketAckTime b \<and>
           cs_totalBytesSentAtLastAckedPacket c = totalBytesSentAtLastAckedPacket b)"

lemma spOnPacketSent_ok:
  assumes "sp_inv now b" "in_i64 t" "0 \<le> k" "k < pn_limit"
  shows "\<exists>b' c. spOnPacketSent t k bytes inflight True b = Inr b' \<and> sp_inv now b' \<and>
     totalBytesSent b' = i64 (totalBytesSent b + bytes) \<and> totalBytesAcked b' = totalBytesAcked b \<and>
     totalBytesLost b' = totalBytesLost b \<and> isAppLimited b' = isAppLimited b \<and> sp_lastSentPacket b' = k \<and>
     heightTracker b' = heightTracker b \<and>
     sent_record t bytes inflight b c \<and>
     sentPackets b' = (if slots (connectionStateMap b) = [] \<or> LastPacket (connectionStateMap b) < k
        then (sentPackets b)(k \<mapsto> c) else sentPackets b)"
proof -
  let ?b0 = "b\<lparr>sp_lastSentPacket := k, totalBytesSent := i64 (totalBytesSent b + bytes)\<rparr>"
  have "sp_inv now ?b0" using assms(1) by (simp add: sp_inv_def)
  from openTransmission_ok [OF this assms(2)] obtain q r where
    o: "openTransmission t ?b0 = Inr (?b0\<lparr>lastAckedPacketAckTime := t, recentPoints := r, a0Candidates := q,
          totalBytesSentAtLastAckedPacket := totalBytesSent ?b0, lastAckedPacketSentTime := t\<rparr>)" "rb_inv q" by blast
  define b1 where "b1 = (if inflight = 0
    then ?b0\<lparr>lastAckedPacketAckTime := t, recentPoints := r, a0Candidates := q,
          totalBytesSentAtLastAckedPacket := totalBytesSent ?b0, lastAckedPacketSentTime := t\<rparr> else ?b0)"
  define c where "c = newConnectionStateOnSentPacket t bytes (i64 (inflight + bytes)) b1"
  have b1: "(if inflight = 0 then openTransmission t ?b0 else Inr ?b0) = Inr b1" "sp_inv now b1"
    "connectionStateMap b1 = connectionStateMap b"
    using o assms(1,2) by (simp_all add: b1_def sp_inv_def)
  have c: "cs_ok c" "sent_record t bytes inflight b c"
    using assms(1,2) by (simp_all add: c_def b1_def cs_ok_def sp_inv_def sent_record_def newConnectionStateOnSentPacket_def)
  have "pnq_inv (connectionStateMap b)" using assms(1) by (simp add: sp_inv_def)
  from Emplace_map [OF this assms(3,4), of connectionState_zero c] obtain m where
    m: "Emplace connectionState_zero k (Some c) (connectionStateMap b) =
        Inr (slots (connectionStateMap b) = [] \<or> LastPacket (connectionStateMap b) < k, m)" "pnq_inv m"
      "pnq_map m = (if slots (connectionStateMap b) = [] \<or> LastPacket (connectionStateMap b) < k
                    then (sentPackets b)(k \<mapsto> c) else sentPackets b)" by blast
  have "\<forall>c \<in> ran (pnq_map m). cs_ok c"
    using m(3) c(1) assms(1) by (auto simp: sp_inv_def ran_def split: if_splits)
  then have "sp_inv now (b1\<lparr>connectionStateMap := m\<rparr>)" using b1(2) m(2) by (simp add: sp_inv_def)
  moreover have "spOnPacketSent t k bytes inflight True b = Inr (b1\<lparr>connectionStateMap := m\<rparr>)"
    using b1(1,3) m(1) by (simp add: spOnPacketSent_def Let_def c_def split: if_splits)
  ultimately show ?thesis using m(3) c(2)
    by (intro exI [of _ "b1\<lparr>connectionStateMap := m\<rparr>"] exI [of _ c]) (simp add: b1_def)
qed

lemma spOnPacketSent_uncounted:
  "spOnPacketSent t k bytes inflight False b = Inr (b\<lparr>sp_lastSentPacket := k\<rparr>)"
  by (simp add: spOnPacketSent_def)

subsection \<open>Loss, neutering, clean-up\<close>

lemma spOnPacketLost_eq:
  assumes "sp_inv now b" "in_i64 k"
  shows "spOnPacketLost k n b =
     Inr (case sentPackets b k of None \<Rightarrow> sendTimeState_zero | Some p \<Rightarrow> sentPacketToSendTimeState p,
          b\<lparr>totalBytesLost := i64 (totalBytesLost b + n)\<rparr>)"
  using assms GetEntry_map [of "connectionStateMap b" k] by (simp add: spOnPacketLost_def sp_inv_def)

lemma ran_upd_None: "ran (m(k := None)) \<subseteq> ran m"
  by (auto simp: ran_def split: if_splits)

lemma OnPacketNeutered_ok:
  assumes "sp_inv now b" "in_i64 k"
  shows "\<exists>b'. OnPacketNeutered k b = Inr b' \<and> sp_inv now b' \<and> sentPackets b' = (sentPackets b)(k := None) \<and>
     totalBytesNeutered b' = (case sentPackets b k of None \<Rightarrow> totalBytesNeutered b
        | Some c \<Rightarrow> i64 (totalBytesNeutered b + cs_size c))"
proof -
  have "pnq_inv (connectionStateMap b)" using assms(1) by (simp add: sp_inv_def)
  from Remove_map [OF this assms(2), of connectionState_zero] obtain m where
    m: "Remove connectionState_zero k (connectionStateMap b) = Inr (sentPackets b k \<noteq> None, m, sentPackets b k)"
      "pnq_inv m" "pnq_map m = (sentPackets b)(k := None)" by blast
  have "\<forall>c \<in> ran (pnq_map m). cs_ok c"
    using m(3) ran_upd_None [of "sentPackets b" k] assms(1) by (auto simp: sp_inv_def)
  with m assms(1) show ?thesis
    by (auto simp: OnPacketNeutered_def sp_inv_def Let_def split: option.splits)
qed

lemma RemoveObsoletePackets_ok:
  assumes "sp_inv now b"
  shows "\<exists>m. RemoveObsoletePackets k b = Inr (b\<lparr>connectionStateMap := m\<rparr>) \<and> sp_inv now (b\<lparr>connectionStateMap := m\<rparr>) \<and>
     pnq_map m = sentPackets b |` {k..}"
proof -
  have "pnq_inv (connectionStateMap b)" using assms(1) by (simp add: sp_inv_def)
  from RemoveUpTo_map [OF this, of connectionState_zero k] obtain m where
    m: "RemoveUpTo connectionState_zero k (connectionStateMap b) = Inr m" "pnq_inv m"
      "pnq_map m = sentPackets b |` {k..}" by blast
  have "\<forall>c \<in> ran (pnq_map m). cs_ok c"
    using assms(1) by (auto simp: m(3) sp_inv_def ran_def restrict_map_def split: if_splits)
  with m assms(1) show ?thesis by (auto simp: RemoveObsoletePackets_def sp_inv_def)
qed

lemma OnAppLimited_inv [simp]: "sp_inv now (OnAppLimited b) = sp_inv now b"
  by (simp add: OnAppLimited_def sp_inv_def)

subsection \<open>Acknowledgements\<close>

lemma inner_simps [simp]:
  "connectionStateMap (onPacketAcknowledgedInner t k c b) = connectionStateMap b"
  "a0Candidates (onPacketAcknowledgedInner t k c b) = a0Candidates b"
  "heightTracker (onPacketAcknowledgedInner t k c b) = heightTracker b"
  "totalBytesAcked (onPacketAcknowledgedInner t k c b) = i64 (totalBytesAcked b + cs_size c)"
  "totalBytesLost (onPacketAcknowledgedInner t k c b) = totalBytesLost b"
  "totalBytesSent (onPacketAcknowledgedInner t k c b) = totalBytesSent b"
  "lastAckedPacketSentTime (onPacketAcknowledgedInner t k c b) = cs_sentTime c"
  "overestimateAvoidance (onPacketAcknowledgedInner t k c b) = overestimateAvoidance b"
  "endOfAppLimitedPhase (onPacketAcknowledgedInner t k c b) = endOfAppLimitedPhase b"
  "sp_lastSentPacket (onPacketAcknowledgedInner t k c b) = sp_lastSentPacket b"
  "totalBytesAckedAfterLastAckEvent (onPacketAcknowledgedInner t k c b) = totalBytesAckedAfterLastAckEvent b"
  "isAppLimited (onPacketAcknowledgedInner t k c b) \<longleftrightarrow>
     isAppLimited b \<and> endOfAppLimitedPhase b \<noteq> invalidPacketNumber \<and> k \<le> endOfAppLimitedPhase b"
  by (auto simp: onPacketAcknowledgedInner_def Let_def)

text \<open>
  The start of the ack-rate slope for the packet \<open>c\<close>, and the sample its acknowledgement
  gives: none when no packet had been acknowledged when it was sent, or when no time has
  passed since that start.
\<close>

definition a0_for :: "bandwidthSampler \<Rightarrow> connectionStateOnSentPacket \<Rightarrow> ackPoint" where
  "a0_for b c =
     (case (if overestimateAvoidance b
            then fst (a0_choice (st_totalBytesAcked (cs_sendTimeState c)) (rb_list (a0Candidates b))) else None) of
        Some a \<Rightarrow> a
      | None \<Rightarrow> \<lparr>ap_ackTime = cs_lastAckedPacketAckTime c,
                 ap_totalBytesAcked = st_totalBytesAcked (cs_sendTimeState c)\<rparr>)"

definition has_sample :: "mtime \<Rightarrow> bandwidthSampler \<Rightarrow> connectionStateOnSentPacket \<Rightarrow> bool" where
  "has_sample t b c \<longleftrightarrow> \<not> IsZero (cs_lastAckedPacketSentTime c) \<and> 0 < Sub t (ap_ackTime (a0_for b c))"

definition is_sample ::
  "mtime \<Rightarrow> int \<Rightarrow> ackPoint \<Rightarrow> connectionStateOnSentPacket \<Rightarrow> bandwidthSample \<Rightarrow> bool"
where
  "is_sample t acked a0 c s \<longleftrightarrow>
     (\<exists>ackRate. BandwidthFromDelta (i64 (acked - ap_totalBytesAcked a0)) (Sub t (ap_ackTime a0)) = Inr ackRate \<and>
        (if After (cs_sentTime c) (cs_lastAckedPacketSentTime c)
         then BandwidthFromDelta (i64 (st_totalBytesSent (cs_sendTimeState c) - cs_totalBytesSentAtLastAckedPacket c))
                (Sub (cs_sentTime c) (cs_lastAckedPacketSentTime c)) = Inr (bs_sendRate s)
         else bs_sendRate s = infBandwidth) \<and>
        bs_bandwidth s = min (bs_sendRate s) ackRate) \<and>
     bs_rtt s = Sub t (cs_sentTime c) \<and> bs_stateAtSend s = sentPacketToSendTimeState c"

lemma onPacketAcknowledged_unknown:
  assumes "sp_inv now b" "in_i64 k" "sentPackets b k = None"
  shows "onPacketAcknowledged t k b = Inr (newBandwidthSample, b\<lparr>lastAckedPacket := k\<rparr>)"
  using assms GetEntry_map [of "connectionStateMap b" k] by (simp add: onPacketAcknowledged_def sp_inv_def)

lemma onPacketAcknowledged_known:
  assumes "sp_inv now b" "in_i64 k" "sentPackets b k = Some c"
  shows "\<exists>s q. onPacketAcknowledged t k b =
       Inr (s, (onPacketAcknowledgedInner t k c (b\<lparr>lastAckedPacket := k\<rparr>))\<lparr>a0Candidates := q\<rparr>) \<and> rb_inv q \<and>
     (if has_sample t b c then is_sample t (i64 (totalBytesAcked b + cs_size c)) (a0_for b c) c s
      else s = newBandwidthSample)"
proof -
  let ?b = "onPacketAcknowledgedInner t k c (b\<lparr>lastAckedPacket := k\<rparr>)"
  let ?tot = "st_totalBytesAcked (cs_sendTimeState c)"
  have g: "GetEntry k (connectionStateMap b) = Inr (Some c)" and rb: "rb_inv (a0Candidates b)"
    using assms GetEntry_map [of "connectionStateMap b" k] by (simp_all add: sp_inv_def)
  have c: "cs_ok c" using assms(1,3) by (auto simp: sp_inv_def ran_def)
  show ?thesis
  proof (cases "IsZero (cs_lastAckedPacketSentTime c)")
    case True
    then show ?thesis using g rb
      by (intro exI [of _ newBandwidthSample] exI [of _ "a0Candidates b"])
        (simp add: onPacketAcknowledged_def has_sample_def)
  next
    case False
    define sr where "sr = (if After (cs_sentTime c) (cs_lastAckedPacketSentTime c)
      then BandwidthFromDelta (i64 (st_totalBytesSent (cs_sendTimeState c) - cs_totalBytesSentAtLastAckedPacket c))
             (Sub (cs_sentTime c) (cs_lastAckedPacketSentTime c)) else Inr infBandwidth)"
    have "\<exists>r. sr = Inr r"
    proof (cases "After (cs_sentTime c) (cs_lastAckedPacketSentTime c)")
      case True
      then have "Sub (cs_sentTime c) (cs_lastAckedPacketSentTime c) \<noteq> 0"
        using c by (intro Sub_After) (simp_all add: cs_ok_def)
      then show ?thesis using BandwidthFromDelta_safe [of "Sub (cs_sentTime c) (cs_lastAckedPacketSentTime c)"] True
        by (auto simp: sr_def Sub_def)
    qed (simp add: sr_def)
    then obtain sendRate where sr: "sr = Inr sendRate" by blast
    from chooseA0Point_list [of ?b ?tot] rb obtain q where
      q: "chooseA0Point ?tot ?b = Inr (fst (a0_choice ?tot (rb_list (a0Candidates b))), ?b\<lparr>a0Candidates := q\<rparr>)"
      "rb_inv q" by auto
    define q' where "q' = (if overestimateAvoidance b then q else a0Candidates b)"
    have ch: "(if overestimateAvoidance ?b then chooseA0Point ?tot ?b else Inr (None, ?b)) =
        Inr (if overestimateAvoidance b then fst (a0_choice ?tot (rb_list (a0Candidates b))) else None,
             ?b\<lparr>a0Candidates := q'\<rparr>)" "rb_inv q'"
      using q rb by (auto simp: q'_def)
    show ?thesis
    proof (cases "Sub t (ap_ackTime (a0_for b c)) \<le> 0")
      case True
      then show ?thesis using g False sr ch
        by (intro exI [of _ newBandwidthSample] exI [of _ q'])
          (simp add: onPacketAcknowledged_def has_sample_def Let_def sr_def [symmetric] a0_for_def)
    next
      case pos: False
      from BandwidthFromDelta_safe [of "Sub t (ap_ackTime (a0_for b c))"] pos obtain r where
        r: "BandwidthFromDelta (i64 (i64 (totalBytesAcked b + cs_size c) - ap_totalBytesAcked (a0_for b c)))
              (Sub t (ap_ackTime (a0_for b c))) = Inr r" by (force simp: Sub_def)
      let ?s = "\<lparr>bs_bandwidth = min sendRate r, bs_rtt = Sub t (cs_sentTime c), bs_sendRate = sendRate,
        bs_stateAtSend = sentPacketToSendTimeState c\<rparr>"
      have "is_sample t (i64 (totalBytesAcked b + cs_size c)) (a0_for b c) c ?s"
        using r sr by (auto simp: is_sample_def sr_def split: if_splits)
      moreover have "onPacketAcknowledged t k b = Inr (?s, ?b\<lparr>a0Candidates := q'\<rparr>)"
        using g False sr ch pos r
        by (simp add: onPacketAcknowledged_def Let_def sr_def [symmetric] a0_for_def)
      ultimately show ?thesis using ch(2) False pos by (auto simp: has_sample_def)
    qed
  qed
qed

lemma onPacketAcknowledged_inv:
  assumes "sp_inv now b" "sentPackets b k = Some c" "rb_inv q"
  shows "sp_inv now ((onPacketAcknowledgedInner t k c (b\<lparr>lastAckedPacket := k\<rparr>))\<lparr>a0Candidates := q\<rparr>)"
proof -
  have "cs_ok c" using assms(1,2) by (auto simp: sp_inv_def ran_def)
  then show ?thesis using assms(1,3) by (simp add: sp_inv_def cs_ok_def)
qed

subsection \<open>Congestion events\<close>

text \<open>What an acknowledgement leaves alone, and the bytes it counts.\<close>

definition frame where
  "frame b = (totalBytesSent b, totalBytesLost b, sp_lastSentPacket b, connectionStateMap b, heightTracker b,
     overestimateAvoidance b, endOfAppLimitedPhase b, totalBytesAckedAfterLastAckEvent b)"

definition ackedSize :: "bandwidthSampler \<Rightarrow> packetInfo \<Rightarrow> int" where
  "ackedSize b p = (case sentPackets b (fst p) of None \<Rightarrow> 0 | Some c \<Rightarrow> cs_size c)"

definition packets_ok :: "packetInfo list \<Rightarrow> bool" where
  "packets_ok ps \<longleftrightarrow> (\<forall>p \<in> set ps. in_i64 (fst p))"

lemma packets_ok_Cons [simp]: "packets_ok (p # ps) \<longleftrightarrow> in_i64 (fst p) \<and> packets_ok ps"
  by (simp add: packets_ok_def)

lemma onPacketAcknowledged_ok:
  assumes "sp_inv now b" "in_i64 (fst p)"
  shows "\<exists>s b'. onPacketAcknowledged t (fst p) b = Inr (s, b') \<and> sp_inv now b' \<and> frame b' = frame b \<and>
     totalBytesAcked b' = i64 (totalBytesAcked b + ackedSize b p) \<and> in_i64 (bs_rtt s)"
proof (cases "sentPackets b (fst p)")
  case None
  then show ?thesis
    using onPacketAcknowledged_unknown [OF assms None] assms(1) sp_invD [OF assms(1)]
    by (simp add: ackedSize_def frame_def i64_id newBandwidthSample_def in_i64_def)
next
  case (Some c)
  from onPacketAcknowledged_known [OF assms Some, of t] obtain s q where
    s: "onPacketAcknowledged t (fst p) b =
       Inr (s, (onPacketAcknowledgedInner t (fst p) c (b\<lparr>lastAckedPacket := fst p\<rparr>))\<lparr>a0Candidates := q\<rparr>)" "rb_inv q"
    "if has_sample t b c then is_sample t (i64 (totalBytesAcked b + cs_size c)) (a0_for b c) c s
     else s = newBandwidthSample" by blast
  then have "in_i64 (bs_rtt s)"
    by (auto simp: is_sample_def Sub_def newBandwidthSample_def in_i64_def split: if_splits
        intro: i64_bounds [THEN conjunct1] i64_bounds [THEN conjunct2])
  then show ?thesis using Some s(1) onPacketAcknowledged_inv [OF assms(1) Some s(2), of t]
    by (simp add: ackedSize_def frame_def)
qed

lemma ackedSize_frame: "frame b' = frame b \<Longrightarrow> ackedSize b' = ackedSize b"
  by (simp add: fun_eq_iff ackedSize_def frame_def)

lemma lossLoop_ok:
  "sp_inv now b \<Longrightarrow> packets_ok ps \<Longrightarrow>
   \<exists>st. lossLoop ps l b = Inr (st, b\<lparr>totalBytesLost := i64 (totalBytesLost b + sum_list (map snd ps))\<rparr>) \<and>
        (ps = [] \<longrightarrow> st = l)"
proof (induction ps arbitrary: l b)
  case Nil
  then show ?case using sp_invD(2) [OF Nil(1)] by (simp add: i64_id)
next
  case (Cons p ps)
  let ?b = "b\<lparr>totalBytesLost := i64 (totalBytesLost b + snd p)\<rparr>"
  have "sp_inv now ?b" using Cons.prems(1) by (simp add: sp_inv_def)
  from Cons.IH [OF this] Cons.prems have
    "\<And>l. \<exists>st. lossLoop ps l ?b = Inr (st, b\<lparr>totalBytesLost := i64 (totalBytesLost b + sum_list (map snd (p # ps)))\<rparr>)"
    by (force simp: i64_add_i64 add.assoc)
  with Cons.prems(2) spOnPacketLost_eq [OF Cons.prems(1), of "fst p" "snd p"] show ?case by simp
qed

lemma addSample_rtt:
  "in_i64 (ev_sampleRtt ev) \<Longrightarrow> in_i64 (bs_rtt s) \<Longrightarrow> in_i64 (ev_sampleRtt (addSample s b ev))"
  by (simp add: addSample_def Let_def in_i64_min)

lemma ackLoop_ok:
  "sp_inv now b \<Longrightarrow> packets_ok ps \<Longrightarrow> in_i64 (ev_sampleRtt (fst acc)) \<Longrightarrow>
   \<exists>acc' b'. ackLoop t ps acc b = Inr (acc', b') \<and> sp_inv now b' \<and> frame b' = frame b \<and> in_i64 (ev_sampleRtt (fst acc')) \<and>
     totalBytesAcked b' = i64 (totalBytesAcked b + sum_list (map (ackedSize b) ps))"
proof (induction ps arbitrary: acc b)
  case Nil
  then show ?case using sp_invD(1) [OF Nil(1)] by (cases acc) (simp add: i64_id)
next
  case (Cons p ps)
  from onPacketAcknowledged_ok [OF Cons.prems(1), of p t] Cons.prems(2) obtain s b1 where
    b1: "onPacketAcknowledged t (fst p) b = Inr (s, b1)" "sp_inv now b1" "frame b1 = frame b"
      "totalBytesAcked b1 = i64 (totalBytesAcked b + ackedSize b p)" "in_i64 (bs_rtt s)" by auto
  have "\<exists>acc'. ackLoop t (p # ps) acc b = ackLoop t ps acc' b1 \<and> in_i64 (ev_sampleRtt (fst acc'))"
    using b1(1) addSample_rtt [OF _ b1(5)] Cons.prems(3) by (cases acc) force
  then obtain acc1 where a: "ackLoop t (p # ps) acc b = ackLoop t ps acc1 b1" "in_i64 (ev_sampleRtt (fst acc1))" by blast
  from Cons.IH [OF b1(2) _ a(2)] Cons.prems(2) obtain acc' b' where
    "ackLoop t ps acc1 b1 = Inr (acc', b')" "sp_inv now b'" "frame b' = frame b1" "in_i64 (ev_sampleRtt (fst acc'))"
    "totalBytesAcked b' = i64 (totalBytesAcked b1 + sum_list (map (ackedSize b1) ps))" by auto
  then show ?case using a b1 ackedSize_frame [OF b1(3)]
    by (intro exI [of _ acc'] exI [of _ b']) (simp add: i64_add_i64 add.assoc)
qed

lemma onAckEventEnd_ok:
  assumes "sp_inv now b" "now \<le> t" "in_u64 t"
  shows "\<exists>x b'. onAckEventEnd bw isNew t b = Inr (x, b') \<and> sp_inv t b' \<and>
     totalBytesAcked b' = totalBytesAcked b \<and> totalBytesLost b' = totalBytesLost b \<and>
     totalBytesSent b' = totalBytesSent b \<and> connectionStateMap b' = connectionStateMap b \<and>
     reduces b' = reduces b"
proof (cases "i64 (totalBytesAcked b - totalBytesAckedAfterLastAckEvent b) = 0")
  case True
  then show ?thesis using sp_inv_mono [OF assms] by (simp add: onAckEventEnd_def)
next
  case False
  obtain x m where u: "mahUpdate bw isNew t (sp_lastSentPacket b) (lastAckedPacket b) (lastAckedPacketAckTime b)
      (i64 (totalBytesAcked b - totalBytesAckedAfterLastAckEvent b)) (heightTracker b) = (x, m)" by fastforce
  have m: "mah_inv t m" using mahUpdate_inv [OF sp_invD(4) [OF assms(1)] assms(2,3) u] .
  from PushBack_list [OF sp_invD(5) [OF assms(1)], of ackPoint_zero "LessRecentPoint (recentPoints b)"] obtain q where
    q: "PushBack ackPoint_zero (LessRecentPoint (recentPoints b)) (a0Candidates b) = Inr q" "rb_inv q" by blast
  from False u q m assms(1) mahUpdate_flag [OF u] show ?thesis by (auto simp: onAckEventEnd_def Let_def sp_inv_def)
qed

lemma spOnCongestionEvent_ok:
  assumes "sp_inv now b" "packets_ok acked" "packets_ok lost" "now \<le> t" "in_u64 t"
  shows "\<exists>ev b'. spOnCongestionEvent time acked lost bw ub t b = Inr (ev, b') \<and> sp_inv t b' \<and>
     totalBytesAcked b' = i64 (totalBytesAcked b + sum_list (map (ackedSize b) acked)) \<and>
     totalBytesLost b' = i64 (totalBytesLost b + sum_list (map snd lost)) \<and>
     totalBytesSent b' = totalBytesSent b \<and> sentPackets b' = sentPackets b \<and> reduces b' = reduces b \<and>
     in_i64 (ev_sampleRtt ev)"
proof -
  let ?b = "b\<lparr>totalBytesLost := i64 (totalBytesLost b + sum_list (map snd lost))\<rparr>"
  from lossLoop_ok [OF assms(1,3), of sendTimeState_zero] obtain st where
    l: "lossLoop lost sendTimeState_zero b = Inr (st, ?b)" "lost = [] \<longrightarrow> st = sendTimeState_zero" by blast
  have b: "sp_inv now ?b" using assms(1) by (simp add: sp_inv_def)
  show ?thesis
  proof (cases "acked = []")
    case True
    then show ?thesis using l sp_inv_mono [OF b assms(4,5)] sp_invD(1) [OF assms(1)]
      by (simp add: spOnCongestionEvent_def i64_id newCongestionEventSample_def infRTT_def in_i64_def)
  next
    case False
    have "in_i64 (ev_sampleRtt (fst (newCongestionEventSample, sendTimeState_zero, 0 :: int)))"
      by (simp add: newCongestionEventSample_def infRTT_def in_i64_def)
    from ackLoop_ok [OF b assms(2) this, of time] obtain ev la ms b1 where
      a: "ackLoop time acked (newCongestionEventSample, sendTimeState_zero, 0) ?b = Inr ((ev, la, ms), b1)"
      "sp_inv now b1" "frame b1 = frame ?b"
      "totalBytesAcked b1 = i64 (totalBytesAcked b + sum_list (map (ackedSize ?b) acked))"
      "in_i64 (ev_sampleRtt ev)" by (auto simp: prod_eq_iff)
    have z: "ackedSize ?b = ackedSize b" by (simp add: fun_eq_iff ackedSize_def)
    have "\<exists>x. lastSendState acked lost la st = Inr x"
      using l(2) False by (auto simp: lastSendState_def lastNumber_def sendTimeState_zero_def)
    then obtain x where x: "lastSendState acked lost la st = Inr x" ..
    from onAckEventEnd_ok [OF a(2) assms(4,5)] obtain y b2 where
      e: "onAckEventEnd (min ub (if limitMaxAckHeightTrackerBySendRate b1
              then max (max bw (ev_sampleMaxBandwidth ev)) ms else max bw (ev_sampleMaxBandwidth ev)))
            (bw < ev_sampleMaxBandwidth ev) t b1 = Inr (y, b2)" "sp_inv t b2"
        "totalBytesAcked b2 = totalBytesAcked b1" "totalBytesLost b2 = totalBytesLost b1"
        "totalBytesSent b2 = totalBytesSent b1" "connectionStateMap b2 = connectionStateMap b1"
        "reduces b2 = reduces b1" by blast
    have "spOnCongestionEvent time acked lost bw ub t b =
        Inr (ev\<lparr>ev_lastPacketSendState := x, ev_extraAcked := y\<rparr>, b2)"
      using False l(1) a(1) x e(1) by (simp add: spOnCongestionEvent_def Let_def split: if_splits)
    then show ?thesis using e a z by (simp add: frame_def)
  qed
qed

section \<open>Sequences of operations\<close>

text \<open>The calls the sender makes, in any order.\<close>

datatype sampler_op =
    Sent mtime int int int bool
  | CongestionEvent mtime "packetInfo list" "packetInfo list" int int int
  | Neutered int
  | AppLimited
  | Obsolete int

fun sp_exec :: "sampler_op \<Rightarrow> bandwidthSampler \<Rightarrow> bandwidthSampler res" where
  "sp_exec (Sent t k bytes inflight retr) b = spOnPacketSent t k bytes inflight retr b"
| "sp_exec (CongestionEvent t acked lost bw ub rtc) b =
     bindR (spOnCongestionEvent t acked lost bw ub rtc b) (\<lambda>(_, b). Inr b)"
| "sp_exec (Neutered k) b = OnPacketNeutered k b"
| "sp_exec AppLimited b = Inr (OnAppLimited b)"
| "sp_exec (Obsolete k) b = RemoveObsoletePackets k b"

primrec sp_run :: "sampler_op list \<Rightarrow> bandwidthSampler \<Rightarrow> bandwidthSampler res" where
  "sp_run [] b = Inr b"
| "sp_run (x # xs) b = bindR (sp_exec x b) (sp_run xs)"

text \<open>
  Arguments fit their types, packet numbers of sent packets are below the protocol's limit,
  and round-trip counts do not go back.
\<close>

fun op_ok :: "int \<Rightarrow> sampler_op \<Rightarrow> bool" where
  "op_ok now (Sent t k bytes inflight retr) \<longleftrightarrow> in_i64 t \<and> 0 \<le> k \<and> k < pn_limit"
| "op_ok now (CongestionEvent t acked lost bw ub rtc) \<longleftrightarrow>
     packets_ok acked \<and> packets_ok lost \<and> now \<le> rtc \<and> in_u64 rtc"
| "op_ok now (Neutered k) \<longleftrightarrow> in_i64 k"
| "op_ok now AppLimited \<longleftrightarrow> True"
| "op_ok now (Obsolete k) \<longleftrightarrow> True"

fun op_round :: "int \<Rightarrow> sampler_op \<Rightarrow> int" where
  "op_round now (CongestionEvent t acked lost bw ub rtc) = rtc"
| "op_round now x = now"

primrec ops_ok :: "int \<Rightarrow> sampler_op list \<Rightarrow> bool" where
  "ops_ok now [] \<longleftrightarrow> True"
| "ops_ok now (x # xs) \<longleftrightarrow> op_ok now x \<and> ops_ok (op_round now x) xs"

lemma sp_exec_ok:
  assumes "sp_inv now b" "op_ok now x"
  shows "\<exists>b'. sp_exec x b = Inr b' \<and> sp_inv (op_round now x) b'"
proof (cases x)
  case (Sent t k bytes inflight retr)
  then show ?thesis
    using assms spOnPacketSent_ok [OF assms(1), of t k bytes inflight]
    by (cases retr) (auto simp: spOnPacketSent_uncounted)
next
  case (CongestionEvent t acked lost bw ub rtc)
  then show ?thesis
    using assms spOnCongestionEvent_ok [OF assms(1), of acked lost rtc t bw ub] by auto
next
  case (Neutered k)
  then show ?thesis using assms OnPacketNeutered_ok [OF assms(1), of k] by auto
next
  case (Obsolete k)
  then show ?thesis using assms RemoveObsoletePackets_ok [OF assms(1), of k] by auto
qed (use assms in simp)

lemma sp_run_ok:
  "sp_inv now b \<Longrightarrow> ops_ok now xs \<Longrightarrow> \<exists>b' now'. sp_run xs b = Inr b' \<and> sp_inv now' b'"
proof (induction xs arbitrary: now b)
  case (Cons x xs)
  from sp_exec_ok [of now b x] Cons.prems obtain b1 where
    "sp_exec x b = Inr b1" "sp_inv (op_round now x) b1" by auto
  with Cons.IH [of "op_round now x" b1] Cons.prems(2) show ?case by auto
qed auto

section \<open>Properties\<close>

text \<open>
  (C6) Whatever sequence of sends, congestion events, neutered packets, app-limited marks and
  clean-ups the sender makes, the sampler never panics (no empty ring is popped, no rate is
  divided by a zero time, no list is indexed out of range) and its invariant holds after
  every one of them.
\<close>

theorem sampler_runs:
  assumes "sp_inv now b" "ops_ok now xs"
  shows "\<exists>b' now'. sp_run xs b = Inr b' \<and> sp_inv now' b'"
  using assms by (rule sp_run_ok)

theorem sampler_runs_witness:
  "\<exists>b' now'. sp_run [Sent 1000 1 1200 0 True, Sent 2000 2 1200 1200 True,
       CongestionEvent 900000 [(1, 1200)] [] 0 100 1, AppLimited, Neutered 2, Obsolete 5]
       (newBandwidthSampler 10) = Inr b' \<and> sp_inv now' b'"
  by (rule sampler_runs [OF new_sp_inv]) (simp_all add: in_u64_def in_i64_def packets_ok_def)

text \<open>
  A congestion event counts every byte once: the acknowledged total grows by the sizes
  recorded for the acknowledged packets (a packet that was never recorded counts nothing), the
  lost total by the bytes reported lost; the bytes sent and the recorded packets stay.
\<close>

theorem congestion_event_totals:
  assumes "sp_inv now b" "packets_ok acked" "packets_ok lost" "now \<le> rtc" "in_u64 rtc"
  shows "\<exists>ev b'. spOnCongestionEvent t acked lost bw ub rtc b = Inr (ev, b') \<and>
     totalBytesAcked b' = i64 (totalBytesAcked b + sum_list (map (ackedSize b) acked)) \<and>
     totalBytesLost b' = i64 (totalBytesLost b + sum_list (map snd lost)) \<and>
     totalBytesSent b' = totalBytesSent b \<and> sentPackets b' = sentPackets b"
  using spOnCongestionEvent_ok [OF assms] by blast

theorem congestion_event_totals_witness:
  "\<exists>ev b'. spOnCongestionEvent 900000 [(1, 1200)] [(2, 700), (3, 800)] 0 100 1 (newBandwidthSampler 10) = Inr (ev, b') \<and>
     totalBytesAcked b' = 0 \<and> totalBytesLost b' = 1500"
  using congestion_event_totals [OF new_sp_inv, of 10 "[(1, 1200)]" "[(2, 700), (3, 800)]" 1 900000 0 100]
  by (auto simp: packets_ok_def in_i64_def in_u64_def ackedSize_def newBandwidthSampler_def new_map i64_small)

text \<open>
  The app-limited phase: once entered, acknowledging a recorded packet leaves it exactly
  when that packet was sent after the one that was the last sent when the phase was (re-)entered
  (or when no packet had been sent then), and a packet sent during the phase is recorded as
  app-limited.
\<close>

theorem app_limited_phase:
  assumes "sp_inv now b" "in_i64 k" "sentPackets b k = Some c" "onPacketAcknowledged t k (OnAppLimited b) = Inr (s, b')"
    and "in_i64 t'" "0 \<le> j" "j < pn_limit" "LastPacket (connectionStateMap b) < j"
    and "spOnPacketSent t' j bytes inflight True (OnAppLimited b) = Inr b''"
  shows "(isAppLimited b' \<longleftrightarrow> sp_lastSentPacket b \<noteq> invalidPacketNumber \<and> k \<le> sp_lastSentPacket b) \<and>
     (\<exists>c'. sentPackets b'' j = Some c' \<and> st_isAppLimited (cs_sendTimeState c'))"
proof -
  have i: "sp_inv now (OnAppLimited b)" and c: "sentPackets (OnAppLimited b) k = Some c"
    using assms(1,3) by (simp, simp add: OnAppLimited_def)
  from onPacketAcknowledged_known [OF i assms(2) c, of t] assms(4)
  have "isAppLimited b' \<longleftrightarrow> sp_lastSentPacket b \<noteq> invalidPacketNumber \<and> k \<le> sp_lastSentPacket b"
    by (auto simp: OnAppLimited_def)
  moreover have "LastPacket (connectionStateMap (OnAppLimited b)) < j" using assms(8) by (simp add: OnAppLimited_def)
  with spOnPacketSent_ok [OF i assms(5-7), of bytes inflight] assms(9)
  have "\<exists>c'. sentPackets b'' j = Some c' \<and> st_isAppLimited (cs_sendTimeState c')"
    by (auto simp: sent_record_def newSendTimeState_def OnAppLimited_def)
  ultimately show ?thesis by blast
qed

definition example_sampler :: bandwidthSampler where
  "example_sampler = projr (spOnPacketSent 1000 1 1200 0 True (newBandwidthSampler 10))"

lemma example_sampler_inv: "sp_inv 0 example_sampler"
  using spOnPacketSent_ok [OF new_sp_inv, of 10 1000 1 1200 0]
  by (auto simp: example_sampler_def in_u64_def in_i64_def)

theorem app_limited_phase_witness:
  "\<exists>s b' b''. onPacketAcknowledged 5000 1 (OnAppLimited example_sampler) = Inr (s, b') \<and> isAppLimited b' \<and>
     spOnPacketSent 6000 2 1200 0 True (OnAppLimited example_sampler) = Inr b'' \<and>
     (\<exists>c'. sentPackets b'' 2 = Some c' \<and> st_isAppLimited (cs_sendTimeState c'))"
proof -
  let ?b = "OnAppLimited example_sampler"
  have i: "sp_inv 0 ?b" using example_sampler_inv by simp
  have e: "sentPackets example_sampler 1 \<noteq> None" "LastPacket (connectionStateMap example_sampler) < 2"
    "sp_lastSentPacket example_sampler = 1" by code_simp+
  then obtain c where c: "sentPackets example_sampler 1 = Some c" by auto
  from onPacketAcknowledged_ok [OF i, of "(1, 0)" 5000] obtain s b' where
    b': "onPacketAcknowledged 5000 1 ?b = Inr (s, b')" by (auto simp: in_i64_def)
  from spOnPacketSent_ok [OF i, of 6000 2 1200 0] obtain b'' where
    b'': "spOnPacketSent 6000 2 1200 0 True ?b = Inr b''" by (auto simp: in_i64_def)
  from app_limited_phase [OF example_sampler_inv _ c b' _ _ _ e(2) b''] e(3) b' b'' show ?thesis
    by (auto simp: in_i64_def invalidPacketNumber_def)
qed

text \<open>A rate is the slope, rounded down to a multiple of 8 bits per second.\<close>

lemma BandwidthFromDelta_slope:
  fixes B d :: int
  assumes "0 \<le> B" "0 < d" "B * Second < 2 ^ 60" "d < 2 ^ 62" "BandwidthFromDelta B d = Inr x"
  shows "x * d \<le> 8 * Second * B \<and> 8 * Second * B < (x + 8) * d"
proof -
  let ?q = "B * Second div d"
  have lo: "?q * d \<le> B * Second" using assms(2) by (rule div_mult_le_self)
  have hi: "B * Second < (?q + 1) * d"
    using div_mult_mod_eq [of "B * Second" d] pos_mod_bound [OF assms(2), of "B * Second"]
    unfolding distrib_right by linarith
  have q: "0 \<le> ?q" using assms(1,2) by (simp add: pos_imp_zdiv_nonneg_iff)
  then have "?q * 1 \<le> ?q * d" using assms(2) by (intro mult_left_mono) auto
  with lo q assms(3) have "u64 (?q * 8) = ?q * 8" by (intro u64_small) simp_all
  then have x: "x = ?q * 8" using BandwidthFromDelta_ok [of B d] assms by simp
  from lo hi show ?thesis unfolding x by (simp add: algebra_simps)
qed

text \<open>
  (C7) The bandwidth of a sample is the smaller of the two slopes, to within the 8 bits per
  second of the integer division: it exceeds neither the bytes acknowledged since the chosen
  A0 point over the time since then, nor the bytes sent over the sending time, and it is within
  8 bits per second of one of the two.  The round-trip time is measured from the sending.
\<close>

theorem ack_sample_slope:
  assumes "sp_inv now b" "in_i64 k" "sentPackets b k = Some c" "has_sample t b c"
    and "onPacketAcknowledged t k b = Inr (s, b')"
    and "a0 = a0_for b c" "A = totalBytesAcked b + cs_size c - ap_totalBytesAcked a0"
    and "S = st_totalBytesSent (cs_sendTimeState c) - cs_totalBytesSentAtLastAckedPacket c"
    and "0 \<le> A" "A * Second < 2 ^ 60" "0 \<le> S" "S * Second < 2 ^ 60"
    and "in_i64 (totalBytesAcked b + cs_size c)"
    and "\<bar>t\<bar> < 2 ^ 61" "\<bar>ap_ackTime a0\<bar> < 2 ^ 61" "\<bar>cs_sentTime c\<bar> < 2 ^ 61" "\<bar>cs_lastAckedPacketSentTime c\<bar> < 2 ^ 61"
    and "cs_lastAckedPacketSentTime c < cs_sentTime c"
  shows "bs_bandwidth s * (t - ap_ackTime a0) \<le> 8 * Second * A \<and>
     bs_bandwidth s * (cs_sentTime c - cs_lastAckedPacketSentTime c) \<le> 8 * Second * S \<and>
     (8 * Second * A < (bs_bandwidth s + 8) * (t - ap_ackTime a0) \<or>
      8 * Second * S < (bs_bandwidth s + 8) * (cs_sentTime c - cs_lastAckedPacketSentTime c)) \<and>
     bs_rtt s = t - cs_sentTime c \<and> st_isValid (bs_stateAtSend s)"
proof -
  have sub: "Sub t (ap_ackTime a0) = t - ap_ackTime a0" "Sub t (cs_sentTime c) = t - cs_sentTime c"
    "Sub (cs_sentTime c) (cs_lastAckedPacketSentTime c) = cs_sentTime c - cs_lastAckedPacketSentTime c"
    using assms(14-17) by (auto simp: Sub_def abs_less_iff intro!: i64_small)
  have w: "i64 (totalBytesAcked b + cs_size c) = totalBytesAcked b + cs_size c" "i64 A = A" "i64 S = S"
    using assms(9-13) by (auto simp: i64_id intro!: i64_small)
  have "is_sample t (i64 (totalBytesAcked b + cs_size c)) a0 c s"
    using onPacketAcknowledged_known [OF assms(1-3), of t] assms(4,5,6) by auto
  then obtain ar where ar: "BandwidthFromDelta A (t - ap_ackTime a0) = Inr ar"
    "BandwidthFromDelta S (cs_sentTime c - cs_lastAckedPacketSentTime c) = Inr (bs_sendRate s)"
    and s: "bs_bandwidth s = min (bs_sendRate s) ar" "bs_rtt s = t - cs_sentTime c"
      "bs_stateAtSend s = sentPacketToSendTimeState c"
    using assms(7,8,18) w sub unfolding is_sample_def by (auto simp: After_def)
  have d: "0 < t - ap_ackTime a0" "t - ap_ackTime a0 < 2 ^ 62" "cs_sentTime c - cs_lastAckedPacketSentTime c < 2 ^ 62"
    using assms(4,6,14-17) sub(1) by (auto simp: has_sample_def)
  note 1 = BandwidthFromDelta_slope [OF assms(9) d(1) assms(10) d(2) ar(1)]
  have "0 < cs_sentTime c - cs_lastAckedPacketSentTime c" using assms(18) by simp
  note 2 = BandwidthFromDelta_slope [OF assms(11) this assms(12) d(3) ar(2)]
  have "bs_bandwidth s * (t - ap_ackTime a0) \<le> ar * (t - ap_ackTime a0)"
    "bs_bandwidth s * (cs_sentTime c - cs_lastAckedPacketSentTime c)
       \<le> bs_sendRate s * (cs_sentTime c - cs_lastAckedPacketSentTime c)"
    using d assms(18) s(1) by (intro mult_right_mono; simp)+
  moreover have "bs_bandwidth s = ar \<or> bs_bandwidth s = bs_sendRate s" using s(1) by (simp add: min_def)
  ultimately show ?thesis using 1 2 s(2,3) by (auto simp: sentPacketToSendTimeState_def)
qed

theorem ack_sample_slope_witness:
  "\<exists>b c s b'. sentPackets b 2 = Some c \<and> onPacketAcknowledged 60000000 2 b = Inr (s, b') \<and>
     bs_bandwidth s * 50000000 \<le> 8 * Second * 1200 \<and> bs_rtt s = 40000000"
proof -
  let ?r = "sp_run [Sent 10000000 1 1200 0 True, Sent 20000000 2 1200 1200 True] (newBandwidthSampler 10)"
  let ?c = "\<lparr>cs_sentTime = 20000000, cs_size = 1200, cs_totalBytesSentAtLastAckedPacket = 1200,
    cs_lastAckedPacketSentTime = 10000000, cs_lastAckedPacketAckTime = 10000000,
    cs_sendTimeState = newSendTimeState False 2400 0 0 2400\<rparr>"
  have "\<exists>b' now'. ?r = Inr b' \<and> sp_inv now' b'"
    by (rule sp_run_ok [OF new_sp_inv]) (simp_all add: in_u64_def in_i64_def)
  then obtain b now where b: "?r = Inr b" "sp_inv now b" by blast
  have "(case ?r of Inl _ \<Rightarrow> False | Inr b \<Rightarrow> sentPackets b 2 = Some ?c \<and> totalBytesAcked b = 0 \<and> \<not> overestimateAvoidance b)"
    by code_simp
  then have c: "sentPackets b 2 = Some ?c" "totalBytesAcked b = 0" "\<not> overestimateAvoidance b" using b(1) by simp_all
  have a0: "a0_for b ?c = \<lparr>ap_ackTime = 10000000, ap_totalBytesAcked = 0\<rparr>"
    using c(3) by (simp add: a0_for_def newSendTimeState_def)
  have h: "has_sample 60000000 b ?c" by (simp add: has_sample_def a0 time_defs i64_small)
  have 2: "in_i64 2" by (simp add: in_i64_def)
  from onPacketAcknowledged_known [OF b(2) 2 c(1), of 60000000] obtain s b' where
    s: "onPacketAcknowledged 60000000 2 b = Inr (s, b')" by blast
  from ack_sample_slope [OF b(2) 2 c(1) h s a0 [symmetric] refl refl] c(2) c(1) s show ?thesis
    by (auto simp: newSendTimeState_def in_i64_def)
qed

text \<open>
  The start of the ack-rate slope, with overestimate avoidance and at least two candidate
  points: the candidate just before the first one (after the oldest) whose acknowledged total
  is beyond the packet's, and then only the candidates older than it are discarded; when there
  is none, the newest candidate.  In that last case the discarding loop evaluates its bound
  again after every pop, so it discards only half of the candidates.
\<close>

theorem a0_point_choice:
  assumes "rb_inv (a0Candidates b)" "xs = rb_list (a0Candidates b)" "2 \<le> length xs"
  shows "\<exists>a q. chooseA0Point tot b = Inr (Some a, b\<lparr>a0Candidates := q\<rparr>) \<and> rb_inv q \<and>
     ((\<exists>i. 1 \<le> i \<and> i < length xs \<and> tot < ap_totalBytesAcked (xs ! i) \<and>
           (\<forall>j. 1 \<le> j \<and> j < i \<longrightarrow> ap_totalBytesAcked (xs ! j) \<le> tot) \<and>
           a = xs ! (i - 1) \<and> rb_list q = drop (i - 1) xs) \<or>
      ((\<forall>j. 1 \<le> j \<and> j < length xs \<longrightarrow> ap_totalBytesAcked (xs ! j) \<le> tot) \<and>
           a = last xs \<and> rb_list q = drop (length xs div 2) xs))"
proof -
  from chooseA0Point_list [OF assms(1), of tot] obtain q where
    q: "chooseA0Point tot b = Inr (fst (a0_choice tot xs), b\<lparr>a0Candidates := q\<rparr>)" "rb_inv q"
      "rb_list q = snd (a0_choice tot xs)" using assms(2) by auto
  have n: "xs \<noteq> []" "length xs \<noteq> 1" using assms(3) by auto
  show ?thesis
  proof (cases "find (\<lambda>i. tot < ap_totalBytesAcked (xs ! i)) [1..<length xs]")
    case None
    then have "\<forall>j. 1 \<le> j \<and> j < length xs \<longrightarrow> ap_totalBytesAcked (xs ! j) \<le> tot"
      by (auto simp: find_None_iff not_less)
    with None n q show ?thesis by (auto simp: a0_choice_def)
  next
    case (Some i)
    then obtain l where l: "l < length [1..<length xs]" "tot < ap_totalBytesAcked (xs ! i)" "i = [1..<length xs] ! l"
      "\<And>j. j < l \<Longrightarrow> \<not> tot < ap_totalBytesAcked (xs ! ([1..<length xs] ! j))"
      by (auto simp: find_Some_iff)
    then have i: "i = Suc l" "i < length xs" by auto
    have "ap_totalBytesAcked (xs ! j) \<le> tot" if "1 \<le> j" "j < i" for j
      using l(1) l(4) [of "j - 1"] that i by (auto simp: not_less)
    moreover have "a0_choice tot xs = (Some (xs ! (i - 1)), drop (i - 1) xs)" using Some n by (simp add: a0_choice_def)
    ultimately have "1 \<le> i \<and> i < length xs \<and> tot < ap_totalBytesAcked (xs ! i) \<and>
        (\<forall>j. 1 \<le> j \<and> j < i \<longrightarrow> ap_totalBytesAcked (xs ! j) \<le> tot) \<and> rb_list q = drop (i - 1) xs"
      "chooseA0Point tot b = Inr (Some (xs ! (i - 1)), b\<lparr>a0Candidates := q\<rparr>)"
      using q i l(2) by simp_all
    then show ?thesis using q(2) by blast
  qed
qed

theorem a0_point_choice_witness:
  "let p = (\<lambda>t n. \<lparr>ap_ackTime = t, ap_totalBytesAcked = n\<rparr>);
       b = (newBandwidthSampler 10)\<lparr>a0Candidates :=
              \<lparr>ring = [p 1 10, p 2 20, p 3 30, p 4 40], headPos = 0, tailPos = 0, full = True\<rparr>\<rparr>
   in \<exists>q. chooseA0Point 50 b = Inr (Some (p 4 40), b\<lparr>a0Candidates := q\<rparr>) \<and> rb_list q = [p 3 30, p 4 40]"
proof -
  let ?p = "\<lambda>t n. \<lparr>ap_ackTime = t, ap_totalBytesAcked = n\<rparr>"
  let ?r = "\<lparr>ring = [?p 1 10, ?p 2 20, ?p 3 30, ?p 4 40], headPos = 0, tailPos = 0, full = True\<rparr>"
  let ?b = "(newBandwidthSampler 10)\<lparr>a0Candidates := ?r\<rparr>"
  let ?xs = "[?p 1 10, ?p 2 20, ?p 3 30, ?p 4 40]"
  have r: "rb_inv ?r" "rb_list ?r = ?xs" by code_simp+
  have n: "\<And>i. i < 4 \<Longrightarrow> \<not> 50 < ap_totalBytesAcked (?xs ! i)"
    by (auto simp: less_Suc_eq numeral_eq_Suc)
  have "rb_inv (a0Candidates ?b)" "?xs = rb_list (a0Candidates ?b)" "2 \<le> length ?xs" using r by simp_all
  from a0_point_choice [OF this, of 50] n obtain a q where
    q: "chooseA0Point 50 ?b = Inr (Some a, ?b\<lparr>a0Candidates := q\<rparr>)"
    and h: "(\<exists>i. i < length ?xs \<and> 50 < ap_totalBytesAcked (?xs ! i)) \<or>
            a = last ?xs \<and> rb_list q = drop (length ?xs div 2) ?xs" by blast
  then have h: "a = last ?xs" "rb_list q = drop (length ?xs div 2) ?xs" using n by auto
  from h have "a = ?p 4 40" "rb_list q = [?p 3 30, ?p 4 40]" by simp_all
  with q show ?thesis unfolding Let_def by blast
qed

end
