(* ===== verification/Pacer.thy ===== *)
theory Pacer
  imports Prelude
begin

text \<open>
  \<^verbatim>\<open>h3frontend/internal/congestion/common/pacer.go\<close>: the token bucket that spaces packets.
  The closure \<^verbatim>\<open>getBandwidth\<close> is evaluated at each call; its value, in bytes per second, is the
  argument \<open>bw\<close>.  The theorems bound the budget, show that the timer the pacer asks for is
  late enough for one datagram, and bound what a paced sender emits over time.
\<close>

section \<open>Data and operations\<close>

definition maxBurstPackets :: int where
  "maxBurstPackets = 10"

definition maxBurstPacingDelayMultiplier :: int where
  "maxBurstPacingDelayMultiplier = 4"

record pacer =
  budgetAtLastSent :: int
  pc_maxDatagramSize :: int
  lastSentTime :: mtime

definition NewPacer :: "quic_params \<Rightarrow> pacer" where
  "NewPacer q =
     \<lparr>budgetAtLastSent = i64 (maxBurstPackets * InitialPacketSize q),
      pc_maxDatagramSize = InitialPacketSize q, lastSentTime = 0\<rparr>"

definition maxBurstSize :: "quic_params \<Rightarrow> int \<Rightarrow> pacer \<Rightarrow> int" where
  "maxBurstSize q bw p =
     max (i64 (i64 (maxBurstPacingDelayMultiplier * MinPacingDelay q) * bw) sdiv 1000000000)
         (i64 (maxBurstPackets * pc_maxDatagramSize p))"

definition Budget :: "quic_params \<Rightarrow> int \<Rightarrow> mtime \<Rightarrow> pacer \<Rightarrow> int" where
  "Budget q bw now p =
     (if IsZero (lastSentTime p) then maxBurstSize q bw p
      else let budget = i64 (budgetAtLastSent p +
                             i64 (bw * Sub now (lastSentTime p)) sdiv 1000000000);
               budget = (if budget < 0 then 4611686018427387903 else budget)
           in min (maxBurstSize q bw p) budget)"

definition SentPacket :: "quic_params \<Rightarrow> int \<Rightarrow> mtime \<Rightarrow> int \<Rightarrow> pacer \<Rightarrow> pacer" where
  "SentPacket q bw sendTime sz p =
     (let budget = Budget q bw sendTime p;
          p = (if sz > budget then p\<lparr>budgetAtLastSent := 0\<rparr>
               else p\<lparr>budgetAtLastSent := i64 (budget - sz)\<rparr>)
      in p\<lparr>lastSentTime := sendTime\<rparr>)"

definition TimeUntilSend :: "quic_params \<Rightarrow> int \<Rightarrow> pacer \<Rightarrow> mtime res" where
  "TimeUntilSend q bw p =
     (if budgetAtLastSent p \<ge> pc_maxDatagramSize p then Inr 0
      else let diff = u64 (1000000000 * u64 (i64 (pc_maxDatagramSize p - budgetAtLastSent p)));
               bw = u64 bw
           in if bw = 0 then Inl DivideByZero
              else let d = diff div bw;
                       d = (if diff mod bw > 0 then u64 (d + 1) else d)
                   in Inr (Add (lastSentTime p) (max (MinPacingDelay q) (i64 d))))"

definition pacerSetMaxDatagramSize :: "int \<Rightarrow> pacer \<Rightarrow> pacer" where
  "pacerSetMaxDatagramSize s p = p\<lparr>pc_maxDatagramSize := s\<rparr>"

section \<open>Invariant\<close>

definition pacer_inv :: "pacer \<Rightarrow> bool" where
  "pacer_inv p \<longleftrightarrow>
     0 \<le> budgetAtLastSent p \<and> budgetAtLastSent p < 9223372036854775808 \<and>
     0 < pc_maxDatagramSize p \<and> pc_maxDatagramSize p \<le> 65535"

lemma maxBurstSize_ge:
  "pacer_inv p \<Longrightarrow> 10 * pc_maxDatagramSize p \<le> maxBurstSize q bw p"
  by (simp add: pacer_inv_def maxBurstSize_def maxBurstPackets_def i64_small)

lemma sdiv_billion_bounds:
  assumes "in_i64 x"
  shows "- 9223372037 < x sdiv 1000000000" "x sdiv 1000000000 < 9223372037"
  using assms by (auto simp: signed_divide_int_def sgn_if in_i64_def)

lemma maxBurstSize_i64: "pacer_inv p \<Longrightarrow> in_i64 (maxBurstSize q bw p)"
  using sdiv_billion_bounds [OF in_i64_i64, of "i64 (maxBurstPacingDelayMultiplier * MinPacingDelay q) * bw"]
  by (auto simp: maxBurstSize_def in_i64_def max_def
      intro: order_trans i64_bounds [THEN conjunct1] i64_bounds [THEN conjunct2])

lemma Budget_bounds:
  assumes "pacer_inv p"
  shows "0 \<le> Budget q bw now p" "Budget q bw now p \<le> maxBurstSize q bw p"
  using maxBurstSize_ge [OF assms, of q bw] assms
  by (auto simp: Budget_def Let_def pacer_inv_def)

lemma new_pacer_inv: "quic_ok q \<Longrightarrow> pacer_inv (NewPacer q)"
  by (simp add: quic_ok_def pacer_inv_def NewPacer_def maxBurstPackets_def i64_small)

lemma SentPacket_budget:
  assumes "pacer_inv p" "0 \<le> sz"
  shows "budgetAtLastSent (SentPacket q bw t sz p) = max 0 (Budget q bw t p - sz)"
proof -
  have "in_i64 (Budget q bw t p)"
    using Budget_bounds [OF assms(1), of q bw t] maxBurstSize_i64 [OF assms(1), of q bw]
    by (auto simp: in_i64_def)
  then have "sz \<le> Budget q bw t p \<Longrightarrow> i64 (Budget q bw t p - sz) = Budget q bw t p - sz"
    using assms(2) by (intro i64_small) (auto simp: in_i64_def)
  then show ?thesis by (simp add: SentPacket_def Let_def)
qed

lemma SentPacket_inv:
  assumes "pacer_inv p" "0 \<le> sz"
  shows "pacer_inv (SentPacket q bw t sz p)"
proof -
  have "budgetAtLastSent (SentPacket q bw t sz p) < 9223372036854775808"
    using SentPacket_budget [OF assms, of q bw t] Budget_bounds(2) [OF assms(1), of q bw t]
      maxBurstSize_i64 [OF assms(1), of q bw] assms(2) by (auto simp: in_i64_def)
  then show ?thesis
    using SentPacket_budget [OF assms, of q bw t] assms(1)
    by (simp add: pacer_inv_def) (simp add: SentPacket_def Let_def)
qed

text \<open>
  The pacing budget is never negative and never exceeds one burst, whatever the clock and
  the bandwidth are (the guard against overflow included), and sending a packet of any
  size leaves a non-negative remainder.
\<close>

theorem pacer_budget_bounds:
  assumes "pacer_inv p" "0 \<le> sz"
  shows "0 \<le> Budget q bw now p \<and> Budget q bw now p \<le> maxBurstSize q bw p \<and>
         pacer_inv (SentPacket q bw now sz p) \<and>
         budgetAtLastSent (SentPacket q bw now sz p) = max 0 (Budget q bw now p - sz)"
  using Budget_bounds [OF assms(1)] SentPacket_inv [OF assms] SentPacket_budget [OF assms] by blast

theorem pacer_budget_bounds_witness:
  "0 \<le> Budget quic_example 125000 5 (NewPacer quic_example) \<and>
   pacer_inv (SentPacket quic_example 125000 5 1280 (NewPacer quic_example))"
  using pacer_budget_bounds [OF new_pacer_inv [OF quic_example_ok], of 1280 quic_example 125000 5] by simp

section \<open>The send timer\<close>

text \<open>The region in which none of the products of the pacer overflows.\<close>

definition pacer_time_ok :: "int \<Rightarrow> mtime \<Rightarrow> pacer \<Rightarrow> bool" where
  "pacer_time_ok bw now p \<longleftrightarrow>
     0 < lastSentTime p \<and> lastSentTime p \<le> now \<and> now < 4611686018427387904 \<and>
     0 < bw \<and> bw * (now - lastSentTime p) < 9223372036854775808 \<and>
     budgetAtLastSent p < 4611686018427387904"

lemma Budget_eq:
  assumes "pacer_inv p" "pacer_time_ok bw now p"
  shows "Budget q bw now p =
     min (maxBurstSize q bw p) (budgetAtLastSent p + bw * (now - lastSentTime p) div 1000000000)"
proof -
  let ?e = "now - lastSentTime p"
  have e: "Sub now (lastSentTime p) = ?e"
    using assms(2) by (simp add: Sub_def pacer_time_ok_def i64_small)
  have m: "0 \<le> bw * ?e" "bw * ?e < 9223372036854775808"
    using assms(2) by (auto simp: pacer_time_ok_def)
  then have d: "i64 (bw * ?e) sdiv 1000000000 = bw * ?e div 1000000000"
    by (simp add: i64_small sdiv_nonneg)
  have b: "0 \<le> bw * ?e div 1000000000" "bw * ?e div 1000000000 < 9223372037"
    using m by auto
  have "0 \<le> budgetAtLastSent p" using assms(1) by (simp add: pacer_inv_def)
  then have "i64 (budgetAtLastSent p + bw * ?e div 1000000000) = budgetAtLastSent p + bw * ?e div 1000000000"
    using b assms(2) by (intro i64_small) (auto simp: pacer_time_ok_def)
  then show ?thesis
    using b \<open>0 \<le> budgetAtLastSent p\<close> assms(2)
    by (simp add: Budget_def e d IsZero_def pacer_time_ok_def)
qed

lemma ceil_div_mult:
  assumes "0 < (b::int)"
  shows "a \<le> b * (a div b + (if a mod b > 0 then 1 else 0))"
proof (cases "a mod b > 0")
  case True
  have "a mod b \<le> b" using assms by (simp add: less_imp_le)
  with mult_div_mod_eq [of b a] have "a \<le> b * (a div b) + b" by linarith
  with True show ?thesis by (simp add: distrib_left)
next
  case False
  moreover have "0 \<le> a mod b" using assms by simp
  ultimately have "b * (a div b) = a" using mult_div_mod_eq [of b a] by linarith
  with False show ?thesis by simp
qed

lemma TimeUntilSend_eq:
  assumes "pacer_inv p" "0 < bw" "bw < 9223372036854775808"
    "budgetAtLastSent p < pc_maxDatagramSize p"
  shows "\<exists>d. TimeUntilSend q bw p = Inr (Add (lastSentTime p) (max (MinPacingDelay q) d)) \<and>
     (pc_maxDatagramSize p - budgetAtLastSent p) * 1000000000 \<le> bw * d \<and> 0 \<le> d \<and> d < 131072000000001"
proof -
  let ?m = "pc_maxDatagramSize p - budgetAtLastSent p"
  have m: "0 < ?m" "?m \<le> 65535" using assms by (auto simp: pacer_inv_def)
  let ?diff = "1000000000 * ?m"
  let ?d = "?diff div bw + (if ?diff mod bw > 0 then 1 else 0)"
  have "?diff div bw \<le> ?diff div 1" using m assms(2) by (intro zdiv_mono2) auto
  then have d: "0 \<le> ?diff div bw" "?diff div bw \<le> 65535000000000"
    using m assms(2) by (auto simp: pos_imp_zdiv_nonneg_iff)
  have u: "u64 (1000000000 * u64 (i64 ?m)) = ?diff" "u64 bw = bw"
    using m assms by (simp_all add: i64_small u64_small)
  have "TimeUntilSend q bw p = Inr (Add (lastSentTime p) (max (MinPacingDelay q) ?d))"
    using assms(2,4) d by (simp add: TimeUntilSend_def u Let_def i64_small u64_small)
  moreover have "?m * 1000000000 \<le> bw * ?d"
    using ceil_div_mult [OF assms(2), of ?diff] by (simp only: mult.commute)
  ultimately show ?thesis using d by (intro exI [of _ ?d]) auto
qed

lemma pacer_timer_enough:
  assumes "pacer_inv p" "pacer_time_ok bw now p" "bw < 9223372036854775808" "quic_ok q"
    and "TimeUntilSend q bw p = Inr t" "t \<le> now"
  shows "pc_maxDatagramSize p \<le> Budget q bw now p"
proof (cases "budgetAtLastSent p \<ge> pc_maxDatagramSize p")
  case True
  have "0 \<le> bw * (now - lastSentTime p)" using assms(2) by (simp add: pacer_time_ok_def)
  then have "0 \<le> bw * (now - lastSentTime p) div 1000000000" by simp
  then show ?thesis
    using True maxBurstSize_ge [OF assms(1), of q bw] assms(1)
    by (simp add: Budget_eq [OF assms(1,2)] pacer_inv_def)
next
  case False
  have bw: "0 < bw" using assms(2) by (simp add: pacer_time_ok_def)
  obtain d where t: "t = Add (lastSentTime p) (max (MinPacingDelay q) d)"
    and d: "(pc_maxDatagramSize p - budgetAtLastSent p) * 1000000000 \<le> bw * d" "0 \<le> d" "d < 131072000000001"
    using TimeUntilSend_eq [OF assms(1) bw assms(3), of q] False assms(5) by auto
  have "t = lastSentTime p + max (MinPacingDelay q) d"
    unfolding t Add_def using assms(2,4) d(2,3)
    by (intro i64_small) (auto simp: pacer_time_ok_def quic_ok_def)
  then have "d \<le> now - lastSentTime p" using assms(6) by simp
  then have "bw * d \<le> bw * (now - lastSentTime p)" using bw by (simp add: mult_left_mono)
  with d(1) have "(pc_maxDatagramSize p - budgetAtLastSent p) * 1000000000 \<le> bw * (now - lastSentTime p)"
    by linarith
  then have "pc_maxDatagramSize p - budgetAtLastSent p \<le> bw * (now - lastSentTime p) div 1000000000"
    by (metis zdiv_mono1 nonzero_mult_div_cancel_right zero_less_numeral zero_neq_numeral)
  then show ?thesis
    using maxBurstSize_ge [OF assms(1), of q bw] assms(1)
    by (simp add: Budget_eq [OF assms(1,2)] pacer_inv_def)
qed

text \<open>
  The send timer is not early: at the time \<^verbatim>\<open>TimeUntilSend\<close> names, and at any later time
  (when it names none, at any time), the budget covers a full datagram.  So a sender that
  waits for the timer can always send when it fires, and the rounding of the division
  never leaves it a fraction of a datagram short.
\<close>

theorem pacer_timer_sound:
  assumes "pacer_inv p" "pacer_time_ok bw now p" "bw < 9223372036854775808" "quic_ok q"
    and "TimeUntilSend q bw p = Inr t" "t \<le> now"
  shows "pc_maxDatagramSize p \<le> Budget q bw now p"
  by (rule pacer_timer_enough [OF assms])

theorem pacer_timer_sound_witness:
  "let p = \<lparr>budgetAtLastSent = 100, pc_maxDatagramSize = 1280, lastSentTime = 5000\<rparr>
   in TimeUntilSend quic_example 65536 p = Inr 18010372 \<and> 1280 \<le> Budget quic_example 65536 18010372 p"
proof -
  let ?p = "\<lparr>budgetAtLastSent = 100, pc_maxDatagramSize = 1280, lastSentTime = 5000\<rparr>"
  have t: "TimeUntilSend quic_example 65536 ?p = Inr 18010372"
    by code_simp
  have "1280 \<le> Budget quic_example 65536 18010372 ?p"
    using pacer_timer_sound [OF _ _ _ quic_example_ok t, of 18010372]
    by (simp add: pacer_inv_def pacer_time_ok_def)
  with t show ?thesis by (simp add: Let_def)
qed

section \<open>The token bucket\<close>

text \<open>
  A run of sends, each with the bandwidth, the time and the size at that moment.  A send is
  admitted when its size is within the budget, as the connection checks with
  \<^verbatim>\<open>HasPacingBudget\<close> for a full datagram.
\<close>

fun paced :: "quic_params \<Rightarrow> int \<Rightarrow> pacer \<Rightarrow> (int \<times> mtime \<times> int) list \<Rightarrow> bool" where
  "paced q B p [] = True"
| "paced q B p ((bw, t, sz) # xs) =
     (pacer_time_ok bw t p \<and> bw \<le> B \<and> 0 \<le> sz \<and> sz \<le> Budget q bw t p \<and>
      paced q B (SentPacket q bw t sz p) xs)"

definition sent_bytes :: "(int \<times> mtime \<times> int) list \<Rightarrow> int" where
  "sent_bytes xs = (\<Sum>(bw, t, sz) \<leftarrow> xs. sz)"

definition last_time :: "pacer \<Rightarrow> (int \<times> mtime \<times> int) list \<Rightarrow> mtime" where
  "last_time p xs = (if xs = [] then lastSentTime p else fst (snd (last xs)))"

lemma div_add_le: "0 < (c::int) \<Longrightarrow> a div c + b div c \<le> (a + b) div c"
  by (simp add: div_add1_eq [of a b c] pos_imp_zdiv_nonneg_iff)

lemma paced_sent_bytes:
  assumes "pacer_inv p" "paced q B p xs"
  shows "sent_bytes xs \<le> budgetAtLastSent p + B * (last_time p xs - lastSentTime p) div 1000000000"
  using assms
proof (induction xs arbitrary: p)
  case (Cons x xs)
  obtain bw t sz where x: "x = (bw, t, sz)" by (cases x)
  let ?p = "SentPacket q bw t sz p"
  from Cons.prems x have ok: "pacer_time_ok bw t p" and B: "bw \<le> B" and sz: "0 \<le> sz" "sz \<le> Budget q bw t p"
    and rest: "paced q B ?p xs" by auto
  have lt: "lastSentTime ?p = t" by (simp add: SentPacket_def Let_def)
  have "last_time ?p xs = last_time p (x # xs)" by (simp add: last_time_def lt x)
  with Cons.IH [OF SentPacket_inv [OF Cons.prems(1) sz(1)] rest]
  have 1: "sent_bytes xs \<le> budgetAtLastSent ?p + B * (last_time p (x # xs) - t) div 1000000000"
    by (simp add: lt)
  have "bw * (t - lastSentTime p) \<le> B * (t - lastSentTime p)"
    using B ok by (intro mult_right_mono) (auto simp: pacer_time_ok_def)
  then have 2: "Budget q bw t p \<le> budgetAtLastSent p + B * (t - lastSentTime p) div 1000000000"
    using Budget_eq [OF Cons.prems(1) ok, of q] zdiv_mono1 [of _ _ 1000000000] by (simp add: min.coboundedI2)
  have 3: "budgetAtLastSent ?p = Budget q bw t p - sz"
    using SentPacket_budget [OF Cons.prems(1) sz(1)] sz(2) by simp
  have "B * (t - lastSentTime p) div 1000000000 + B * (last_time p (x # xs) - t) div 1000000000
      \<le> B * (last_time p (x # xs) - lastSentTime p) div 1000000000"
    using div_add_le [of 1000000000 "B * (t - lastSentTime p)" "B * (last_time p (x # xs) - t)"]
    by (simp add: algebra_simps)
  moreover have "sent_bytes (x # xs) = sz + sent_bytes xs" by (simp add: sent_bytes_def x)
  ultimately show ?case using 1 2 3 by linarith
qed (simp add: sent_bytes_def last_time_def pacer_inv_def)

text \<open>
  (C31) Token bucket: however the sends are spaced, a sender that only sends within the budget
  emits, over any stretch of time, at most the budget it starts with plus what the
  largest bandwidth in that stretch delivers in that time.
\<close>

theorem pacer_rate_limit:
  assumes "pacer_inv p" "paced q B p xs"
  shows "sent_bytes xs \<le> budgetAtLastSent p + B * (last_time p xs - lastSentTime p) div 1000000000"
  by (rule paced_sent_bytes [OF assms])

theorem pacer_rate_limit_witness:
  "let p = \<lparr>budgetAtLastSent = 2560, pc_maxDatagramSize = 1280, lastSentTime = 1000\<rparr>;
       xs = [(1000000, 1000, 1280), (1000000, 2001000, 1280), (1000000, 2001000, 1280)]
   in sent_bytes xs \<le> 2560 + 1000000 * (2001000 - 1000) div 1000000000"
proof -
  let ?p = "\<lparr>budgetAtLastSent = 2560, pc_maxDatagramSize = 1280, lastSentTime = 1000\<rparr>"
  let ?xs = "[(1000000, 1000, 1280), (1000000, 2001000, 1280), (1000000, 2001000, 1280 :: int)] ::
    (int \<times> mtime \<times> int) list"
  have "pacer_inv ?p" by (simp add: pacer_inv_def)
  moreover have "paced quic_example 1000000 ?p ?xs" by code_simp
  ultimately show ?thesis
    using pacer_rate_limit [of ?p quic_example 1000000 ?xs] by (simp add: Let_def last_time_def)
qed

text \<open>
  The guard against overflow in \<^verbatim>\<open>Budget\<close> only catches a sum that turns negative.  After an
  idle time for which bandwidth times nanoseconds is a multiple of \<open>2 ^ 64\<close> the product
  wraps to zero: at \<open>2 ^ 30\<close> bytes per second, \<open>2 ^ 34\<close> nanoseconds (17 seconds) after an
  emptied budget, the budget is still empty although the timer expired long ago.
\<close>

theorem pacer_budget_wraps:
  "let p = \<lparr>budgetAtLastSent = 0, pc_maxDatagramSize = 1280, lastSentTime = 1000\<rparr>;
       now = 1000 + 2 ^ 34; bw = 2 ^ 30
   in Budget quic_example bw now p = 0 \<and>
      (\<exists>t. TimeUntilSend quic_example bw p = Inr t \<and> t < now)"
proof -
  have b: "Budget quic_example 1073741824 17179870184
      \<lparr>budgetAtLastSent = 0, pc_maxDatagramSize = 1280, lastSentTime = 1000\<rparr> = 0" by code_simp
  have t: "TimeUntilSend quic_example 1073741824
      \<lparr>budgetAtLastSent = 0, pc_maxDatagramSize = 1280, lastSentTime = 1000\<rparr> = Inr 1001000" by code_simp
  show ?thesis using b t by (simp add: Let_def)
qed

end
