(* ===== verification/Bytes.thy ===== *)
theory Bytes
  imports Prelude "HOL-Library.Word"
begin

text \<open>
  Byte slices as the packet codecs use them: checked slicing, the big-endian reads and writes
  of \<^verbatim>\<open>encoding/binary\<close>, \<^verbatim>\<open>strings.Join\<close>, and the IP addresses of \<^verbatim>\<open>net\<close>.
  A byte is an \<open>8 word\<close>, a \<^verbatim>\<open>uint16\<close> a \<open>16 word\<close>, a \<^verbatim>\<open>uint32\<close> a \<open>32 word\<close>.  Offsets
  (\<^verbatim>\<open>int\<close> in the code) are natural numbers: they start at a constant, grow by at most
  a 16-bit length per step and are compared with the length of a slice after every step, so they stay
  far from \<open>2 ^ 63\<close>.
\<close>

unbundle bit_operations_syntax

type_synonym byte = "8 word"
type_synonym uint16 = "16 word"
type_synonym uint32 = "32 word"

section \<open>Slices\<close>

text \<open>\<^verbatim>\<open>b[lo:hi]\<close>, refused outside the length of \<open>b\<close>.\<close>

definition slice :: "'a list \<Rightarrow> nat \<Rightarrow> nat \<Rightarrow> 'a list res" where
  "slice b lo hi = (if lo \<le> hi \<and> hi \<le> length b then Inr (take (hi - lo) (drop lo b)) else Inl IndexOutOfRange)"

lemma slice_ok [simp]: "lo \<le> hi \<Longrightarrow> hi \<le> length b \<Longrightarrow> slice b lo hi = Inr (take (hi - lo) (drop lo b))"
  by (simp add: slice_def)

lemma take_drop_prefix: "take m xs = take m ys \<Longrightarrow> j \<le> m \<Longrightarrow> take (j - i) (drop i xs) = take (j - i) (drop i ys)"
  by (subst (1 2) drop_take [symmetric]) (metis min.absorb1 take_take)

lemma nth_prefix: "take m xs = take m ys \<Longrightarrow> i < m \<Longrightarrow> xs ! i = ys ! i"
  by (metis nth_take)

section \<open>Big-endian integers\<close>

definition be16 :: "uint16 \<Rightarrow> byte list" where
  "be16 v = [ucast (drop_bit 8 v), ucast v]"

definition be32 :: "uint32 \<Rightarrow> byte list" where
  "be32 v = [ucast (drop_bit 24 v), ucast (drop_bit 16 v), ucast (drop_bit 8 v), ucast v]"

text \<open>\<^verbatim>\<open>binary.BigEndian.Uint16(b[off:])\<close>\<close>

definition Uint16 :: "byte list \<Rightarrow> nat \<Rightarrow> uint16 res" where
  "Uint16 b off =
     (if off + 1 < length b then Inr (ucast (b ! (off + 1)) OR push_bit 8 (ucast (b ! off)))
      else Inl IndexOutOfRange)"

text \<open>\<^verbatim>\<open>binary.BigEndian.PutUint16(b[off:], v)\<close> and \<^verbatim>\<open>PutUint32\<close>\<close>

definition PutUint16 :: "byte list \<Rightarrow> nat \<Rightarrow> uint16 \<Rightarrow> byte list res" where
  "PutUint16 b off v =
     (if off + 1 < length b then Inr (take off b @ be16 v @ drop (off + 2) b) else Inl IndexOutOfRange)"

definition PutUint32 :: "byte list \<Rightarrow> nat \<Rightarrow> uint32 \<Rightarrow> byte list res" where
  "PutUint32 b off v =
     (if off + 3 < length b then Inr (take off b @ be32 v @ drop (off + 4) b) else Inl IndexOutOfRange)"

lemma length_be [simp]: "length (be16 v) = 2" "length (be32 w) = 4"
  by (simp_all add: be16_def be32_def)

lemma word_of_be16 [simp]:
  "ucast (ucast (v :: uint16) :: byte) OR push_bit 8 (ucast (ucast (drop_bit 8 v) :: byte)) = v"
  by (rule bit_word_eqI)
    (auto simp: bit_or_iff bit_ucast_iff bit_push_bit_iff bit_drop_bit_eq)

lemma Uint16_safe: "off + 1 < length b \<Longrightarrow> safe (Uint16 b off)"
  by (simp add: Uint16_def)

lemma Uint16_prefix:
  assumes "take m b = take m b'" "off + 1 < m" "m \<le> length b" "m \<le> length b'"
  shows "Uint16 b off = Uint16 b' off"
  using assms nth_prefix [OF assms(1), of off] nth_prefix [OF assms(1), of "off + 1"]
  by (simp add: Uint16_def)

text \<open>Reading back what was written.\<close>

lemma Uint16_be16: "Uint16 (xs @ be16 v @ ys) (length xs) = Inr v"
  by (simp add: Uint16_def be16_def nth_append)

lemma Uint16_at: "off = length xs \<Longrightarrow> Uint16 (xs @ be16 v @ ys) off = Inr v"
  by (simp add: Uint16_be16)

section \<open>IP addresses\<close>

text \<open>\<^verbatim>\<open>net.IP\<close> is a byte slice; \<^verbatim>\<open>To4\<close> and \<^verbatim>\<open>To16\<close> return nil for one of another length.\<close>

type_synonym ip = "byte list"

definition v4InV6Prefix :: "byte list" where
  "v4InV6Prefix = replicate 10 0 @ [0xff, 0xff]"

definition To4 :: "ip \<Rightarrow> ip option" where
  "To4 a = (if length a = 4 then Some a
            else if length a = 16 \<and> take 12 a = v4InV6Prefix then Some (drop 12 a)
            else None)"

definition To16 :: "ip \<Rightarrow> ip option" where
  "To16 a = (if length a = 4 then Some (v4InV6Prefix @ a) else if length a = 16 then Some a else None)"

lemma To4_length: "To4 a = Some b \<Longrightarrow> length b = 4"
  by (auto simp: To4_def split: if_splits)

lemma To16_length: "To16 a = Some b \<Longrightarrow> length b = 16"
  by (auto simp: To16_def v4InV6Prefix_def split: if_splits)

text \<open>\<^verbatim>\<open>strings.Join\<close>\<close>

fun Join :: "byte list list \<Rightarrow> byte list \<Rightarrow> byte list" where
  "Join [] sep = []"
| "Join [s] sep = s"
| "Join (s # t # ss) sep = s @ sep @ Join (t # ss) sep"

end
