(* ===== verification/GoStrings.thy ===== *)
theory GoStrings
  imports Bytes
begin

text \<open>
  The functions of Go's standard library on strings that the program uses: \<^verbatim>\<open>strings\<close>, \<^verbatim>\<open>strconv\<close>, the
  host and port functions of \<^verbatim>\<open>net\<close>, and the hexadecimal and base64 codecs.  A Go string is a
  sequence of bytes: here a list of characters, each one byte.
\<close>

section \<open>Bytes and characters\<close>

definition charByte :: "char \<Rightarrow> byte" where
  "charByte c = of_nat (of_char c)"

definition byteChar :: "byte \<Rightarrow> char" where
  "byteChar b = char_of (unat b)"

definition toBytes :: "string \<Rightarrow> byte list" where
  "toBytes = map charByte"

definition ofBytes :: "byte list \<Rightarrow> string" where
  "ofBytes = map byteChar"

lemma charByte_byteChar [simp]: "charByte (byteChar b) = b"
proof -
  have "unat b < 256" by (rule order.strict_trans2 [OF unsigned_less]) simp
  then show ?thesis by (simp add: charByte_def byteChar_def)
qed

lemma of_char_less: "(of_char c :: nat) < 256"
proof -
  have "of_char c mod (256 :: nat) = of_char c"
    using of_char_mod_256 by blast
  then show ?thesis using mod_less_divisor [of 256 "of_char c"] by simp
qed

lemma byteChar_charByte [simp]: "byteChar (charByte c) = c"
  using of_char_less [of c] by (simp add: charByte_def byteChar_def unat_of_nat)

lemma bytes_inverse [simp]: "toBytes (ofBytes b) = b" "ofBytes (toBytes s) = s"
  by (simp_all add: toBytes_def ofBytes_def comp_def)

lemma bytes_length [simp]: "length (toBytes s) = length s" "length (ofBytes b) = length b"
  by (simp_all add: toBytes_def ofBytes_def)

lemma bytes_append [simp]: "toBytes (s @ t) = toBytes s @ toBytes t" "ofBytes (a @ b) = ofBytes a @ ofBytes b"
  by (simp_all add: toBytes_def ofBytes_def)

section \<open>Searching\<close>

fun indexByte :: "char \<Rightarrow> string \<Rightarrow> nat option" where
  "indexByte c [] = None"
| "indexByte c (x # s) = (if x = c then Some 0 else map_option Suc (indexByte c s))"

definition lastIndexByte :: "char \<Rightarrow> string \<Rightarrow> nat option" where
  "lastIndexByte c s = map_option (\<lambda>i. length s - 1 - i) (indexByte c (rev s))"

definition ContainsAny :: "string \<Rightarrow> string \<Rightarrow> bool" where
  "ContainsAny s chars \<longleftrightarrow> list_ex (\<lambda>c. c \<in> set chars) s"

definition HasPrefix :: "string \<Rightarrow> string \<Rightarrow> bool" where
  "HasPrefix s p \<longleftrightarrow> take (length p) s = p"

text \<open>\<^verbatim>\<open>strings.Cut\<close> at a one-byte separator.\<close>

definition Cut :: "string \<Rightarrow> char \<Rightarrow> (string \<times> string) option" where
  "Cut s c = map_option (\<lambda>i. (take i s, drop (i + 1) s)) (indexByte c s)"

lemma indexByte_None [simp]: "indexByte c s = None \<longleftrightarrow> c \<notin> set s"
  by (induction s) auto

lemma indexByte_append: "c \<notin> set s \<Longrightarrow> indexByte c (s @ c # t) = Some (length s)"
  by (induction s) auto

lemma lastIndexByte_append: "c \<notin> set t \<Longrightarrow> lastIndexByte c (s @ c # t) = Some (length s)"
  using indexByte_append [of c "rev t" "rev s"] by (simp add: lastIndexByte_def)

lemma lastIndexByte_None [simp]: "lastIndexByte c s = None \<longleftrightarrow> c \<notin> set s"
  by (simp add: lastIndexByte_def)

lemma Cut_append: "c \<notin> set s \<Longrightarrow> Cut (s @ c # t) c = Some (s, t)"
  by (simp add: Cut_def indexByte_append)

section \<open>Case and white space\<close>

text \<open>
  \<^verbatim>\<open>strings.ToLower\<close> on the bytes of a string.  Two non-ASCII letters have an ASCII lower case:
  the dotted capital I (bytes C4 B0) and the Kelvin sign (E2 84 AA).  All other non-ASCII
  characters are left as they are here: their lower case is not ASCII either, so comparing
  with an ASCII literal gives the same answer.
\<close>

definition lowerByte :: "char \<Rightarrow> char" where
  "lowerByte c = (if 65 \<le> (of_char c :: nat) \<and> (of_char c :: nat) \<le> 90 then char_of (of_char c + 32 :: nat) else c)"

fun ToLower :: "string \<Rightarrow> string" where
  "ToLower [] = []"
| "ToLower (a # b # c # s) =
     (if a = CHR 0xE2 \<and> b = CHR 0x84 \<and> c = CHR 0xAA then CHR ''k'' # ToLower s
      else if a = CHR 0xC4 \<and> b = CHR 0xB0 then CHR ''i'' # ToLower (c # s)
      else lowerByte a # ToLower (b # c # s))"
| "ToLower [a, b] = (if a = CHR 0xC4 \<and> b = CHR 0xB0 then ''i'' else [lowerByte a, lowerByte b])"
| "ToLower [a] = [lowerByte a]"

text \<open>
  \<^verbatim>\<open>strings.EqualFold\<close>: two non-ASCII letters fold to an ASCII one, the Kelvin sign and the long s (bytes C5 BF).  Other
  non-ASCII characters never equal an ASCII one, so this is exact when one of the arguments is ASCII.
\<close>

fun foldCase :: "string \<Rightarrow> string" where
  "foldCase [] = []"
| "foldCase (a # b # c # s) =
     (if a = CHR 0xE2 \<and> b = CHR 0x84 \<and> c = CHR 0xAA then CHR ''k'' # foldCase s
      else if a = CHR 0xC5 \<and> b = CHR 0xBF then CHR ''s'' # foldCase (c # s)
      else lowerByte a # foldCase (b # c # s))"
| "foldCase [a, b] = (if a = CHR 0xC5 \<and> b = CHR 0xBF then ''s'' else [lowerByte a, lowerByte b])"
| "foldCase [a] = [lowerByte a]"

definition EqualFold :: "string \<Rightarrow> string \<Rightarrow> bool" where
  "EqualFold s t \<longleftrightarrow> foldCase s = foldCase t"

text \<open>
  \<^verbatim>\<open>strings.TrimSpace\<close> cuts the characters of \<^verbatim>\<open>unicode.IsSpace\<close> off both ends: six ASCII bytes, two
  characters of two bytes in UTF-8 and the rest of three.
\<close>

definition asciiSpace :: "char \<Rightarrow> bool" where
  "asciiSpace c \<longleftrightarrow> c \<in> set [CHR 0x09, CHR 0x0A, CHR 0x0B, CHR 0x0C, CHR 0x0D, CHR 0x20]"

definition space2 :: "string list" where
  "space2 = [[CHR 0xC2, CHR 0x85], [CHR 0xC2, CHR 0xA0]]"

definition space3 :: "string list" where
  "space3 = [CHR 0xE1, CHR 0x9A, CHR 0x80] # [CHR 0xE2, CHR 0x81, CHR 0x9F] # [CHR 0xE3, CHR 0x80, CHR 0x80] #
     map (\<lambda>c. [CHR 0xE2, CHR 0x80, c])
       [CHR 0x80, CHR 0x81, CHR 0x82, CHR 0x83, CHR 0x84, CHR 0x85, CHR 0x86, CHR 0x87, CHR 0x88, CHR 0x89, CHR 0x8A,
        CHR 0xA8, CHR 0xA9, CHR 0xAF]"

definition spacePrefix :: "string \<Rightarrow> nat" where
  "spacePrefix s =
     (if s \<noteq> [] \<and> asciiSpace (hd s) then 1
      else if take 2 s \<in> set space2 then 2
      else if take 3 s \<in> set space3 then 3 else 0)"

definition spaceSuffix :: "string \<Rightarrow> nat" where
  "spaceSuffix s =
     (if s \<noteq> [] \<and> asciiSpace (last s) then 1
      else if drop (length s - 2) s \<in> set space2 then 2
      else if drop (length s - 3) s \<in> set space3 then 3 else 0)"

lemma space_lengths: "w \<in> set space2 \<Longrightarrow> length w = 2" "w \<in> set space3 \<Longrightarrow> length w = 3"
  by (auto simp: space2_def space3_def)

lemma spacePrefix_le: "spacePrefix s \<le> length s"
proof -
  have "take 2 s \<in> set space2 \<Longrightarrow> 2 \<le> length s" using space_lengths(1) [of "take 2 s"] by simp
  moreover have "take 3 s \<in> set space3 \<Longrightarrow> 3 \<le> length s" using space_lengths(2) [of "take 3 s"] by simp
  ultimately show ?thesis by (cases s) (auto simp: spacePrefix_def)
qed

lemma spaceSuffix_le: "spaceSuffix s \<le> length s"
proof -
  have "drop (length s - 2) s \<in> set space2 \<Longrightarrow> 2 \<le> length s" using space_lengths(1) [of "drop (length s - 2) s"] by simp
  moreover have "drop (length s - 3) s \<in> set space3 \<Longrightarrow> 3 \<le> length s" using space_lengths(2) [of "drop (length s - 3) s"] by simp
  ultimately show ?thesis by (cases s) (auto simp: spaceSuffix_def)
qed

lemma trimLeft_shorter: "spacePrefix s \<noteq> 0 \<Longrightarrow> length (drop (spacePrefix s) s) < length s"
  unfolding length_drop using spacePrefix_le [of s] by linarith

lemma trimRight_shorter: "spaceSuffix s \<noteq> 0 \<Longrightarrow> length (take (length s - spaceSuffix s) s) < length s"
  unfolding length_take using spaceSuffix_le [of s] by linarith

function trimLeft :: "string \<Rightarrow> string" where
  "trimLeft s = (if spacePrefix s = 0 then s else trimLeft (drop (spacePrefix s) s))"
  by pat_completeness auto
termination
  by (relation "measure length") (simp, rule in_measure [THEN iffD2], rule trimLeft_shorter)

function trimRight :: "string \<Rightarrow> string" where
  "trimRight s = (if spaceSuffix s = 0 then s else trimRight (take (length s - spaceSuffix s) s))"
  by pat_completeness auto
termination
  by (relation "measure length") (simp, rule in_measure [THEN iffD2], rule trimRight_shorter)

declare trimLeft.simps [simp del] trimRight.simps [simp del]

definition TrimSpace :: "string \<Rightarrow> string" where
  "TrimSpace s = trimRight (trimLeft s)"

lemma trimLeft_done: "spacePrefix (trimLeft s) = 0"
proof (induction s rule: trimLeft.induct)
  case (1 s)
  then show ?case by (cases "spacePrefix s = 0") (simp_all add: trimLeft.simps [of s])
qed

lemma trimRight_done: "spaceSuffix (trimRight s) = 0"
proof (induction s rule: trimRight.induct)
  case (1 s)
  then show ?case by (cases "spaceSuffix s = 0") (simp_all add: trimRight.simps [of s])
qed

lemma trimRight_prefix: "\<exists>n. trimRight s = take n s"
proof (induction s rule: trimRight.induct)
  case (1 s)
  show ?case
  proof (cases "spaceSuffix s = 0")
    case True
    then have "trimRight s = take (length s) s" by (simp add: trimRight.simps [of s])
    then show ?thesis by blast
  next
    case False
    then obtain n where "trimRight (take (length s - spaceSuffix s) s) = take n (take (length s - spaceSuffix s) s)"
      using 1 by blast
    then show ?thesis using False by (auto simp: trimRight.simps [of s])
  qed
qed

lemma spacePrefix_take: "spacePrefix s = 0 \<Longrightarrow> spacePrefix (take n s) = 0"
proof -
  assume z: "spacePrefix s = 0"
  have h: "take n s \<noteq> [] \<Longrightarrow> hd (take n s) = hd s \<and> s \<noteq> []" by (cases s; cases n) auto
  have t: "take k (take n s) = take k s" if "take k (take n s) \<in> A" "\<And>w. w \<in> A \<Longrightarrow> length w = k" for k A
    using that by (metis length_take min.absorb_iff1 min.cobounded2 take_take min.commute)
  have e: "[] \<notin> set space2" "[] \<notin> set space3" by (simp_all add: space2_def space3_def)
  show ?thesis using z h e t [of 2 "set space2"] t [of 3 "set space3"] space_lengths
    by (auto simp: spacePrefix_def split: if_splits)
qed

lemma TrimSpace_idem: "TrimSpace (TrimSpace s) = TrimSpace s"
proof -
  obtain n where n: "trimRight (trimLeft s) = take n (trimLeft s)" using trimRight_prefix by blast
  have "spacePrefix (trimRight (trimLeft s)) = 0" unfolding n by (rule spacePrefix_take [OF trimLeft_done])
  then show ?thesis using trimRight_done [of "trimLeft s"]
    by (simp add: TrimSpace_def trimLeft.simps [of "trimRight (trimLeft s)"] trimRight.simps [of "trimRight (trimLeft s)"])
qed

section \<open>Numbers\<close>

text \<open>\<^verbatim>\<open>strconv.Itoa\<close> and \<^verbatim>\<open>strconv.Atoi\<close> (an \<^verbatim>\<open>int\<close> has 64 bits).\<close>

definition digitChar :: "nat \<Rightarrow> char" where
  "digitChar d = char_of (48 + d)"

definition isDigit :: "char \<Rightarrow> bool" where
  "isDigit c \<longleftrightarrow> 48 \<le> (of_char c :: nat) \<and> (of_char c :: nat) \<le> 57"

definition digitVal :: "char \<Rightarrow> nat" where
  "digitVal c = of_char c - 48"

fun utoa :: "nat \<Rightarrow> string" where
  "utoa n = (if n < 10 then [digitChar n] else utoa (n div 10) @ [digitChar (n mod 10)])"

declare utoa.simps [simp del]

definition Itoa :: "int \<Rightarrow> string" where
  "Itoa n = (if n < 0 then CHR ''-'' # utoa (nat (- n)) else utoa (nat n))"

definition decVal :: "string \<Rightarrow> nat" where
  "decVal = foldl (\<lambda>a c. 10 * a + digitVal c) 0"

definition Atoi :: "string \<Rightarrow> int option" where
  "Atoi s =
     (let neg = (s \<noteq> [] \<and> hd s = CHR ''-'');
          ds = (if s \<noteq> [] \<and> (hd s = CHR ''-'' \<or> hd s = CHR ''+'') then tl s else s) in
      if ds = [] \<or> \<not> list_all isDigit ds then None
      else let v = (if neg then - int (decVal ds) else int (decVal ds)) in
        if in_i64 v then Some v else None)"

lemma digitChar_props: "d < 10 \<Longrightarrow> isDigit (digitChar d) \<and> digitVal (digitChar d) = d"
  by (simp add: isDigit_def digitVal_def digitChar_def)

lemma utoa_digits: "list_all isDigit (utoa n)"
proof (induction n rule: utoa.induct)
  case (1 n)
  then show ?case by (simp add: utoa.simps [of n] digitChar_props)
qed

lemma utoa_val: "decVal (utoa n) = n"
proof (induction n rule: utoa.induct)
  case (1 n)
  then show ?case by (simp add: utoa.simps [of n] decVal_def digitChar_props)
qed

lemma utoa_nonempty [simp]: "utoa n \<noteq> []"
  by (simp add: utoa.simps [of n])

lemma digit_not: "isDigit c \<Longrightarrow> c \<notin> {CHR '':'', CHR ''-'', CHR ''+'', CHR ''['', CHR '']'', CHR ''.''}"
  by (auto simp: isDigit_def)

lemma utoa_chars: "c \<in> set (utoa n) \<Longrightarrow> c \<notin> {CHR '':'', CHR ''-'', CHR ''+'', CHR ''['', CHR '']'', CHR ''.''}"
  using utoa_digits [of n] digit_not by (auto simp: list_all_iff)

lemma Atoi_Itoa: "in_i64 n \<Longrightarrow> Atoi (Itoa n) = Some n"
proof -
  assume r: "in_i64 n"
  have h: "hd (utoa k) \<notin> {CHR ''-'', CHR ''+''}" for k using utoa_chars [of "hd (utoa k)" k] by simp
  show ?thesis
  proof (cases "n < 0")
    case True
    then have "Itoa n = CHR ''-'' # utoa (nat (- n))" by (simp add: Itoa_def)
    then show ?thesis using True r by (simp add: Atoi_def Let_def utoa_digits utoa_val)
  next
    case False
    then have "Itoa n = utoa (nat n)" by (simp add: Itoa_def)
    then show ?thesis using False r h [of "nat n"] by (simp add: Atoi_def Let_def utoa_digits utoa_val)
  qed
qed

section \<open>Host and port\<close>

datatype addr_error = MissingPort | TooManyColons | MissingBracket | UnexpectedOpen | UnexpectedClose

definition SplitHostPort :: "string \<Rightarrow> addr_error + string \<times> string" where
  "SplitHostPort hp =
     (case lastIndexByte CHR '':'' hp of
        None \<Rightarrow> Inl MissingPort
      | Some i \<Rightarrow>
          let checks = (\<lambda>host j k.
                if CHR ''['' \<in> set (drop j hp) then Inl UnexpectedOpen
                else if CHR '']'' \<in> set (drop k hp) then Inl UnexpectedClose
                else Inr (host, drop (i + 1) hp)) in
          if hd hp = CHR ''['' then
            (case indexByte CHR '']'' hp of
               None \<Rightarrow> Inl MissingBracket
             | Some e \<Rightarrow>
                 if e + 1 = length hp then Inl MissingPort
                 else if e + 1 = i then checks (take (e - 1) (drop 1 hp)) 1 (e + 1)
                 else if hp ! (e + 1) = CHR '':'' then Inl TooManyColons
                 else Inl MissingPort)
          else if CHR '':'' \<in> set (take i hp) then Inl TooManyColons
          else checks (take i hp) 0 0)"

definition JoinHostPort :: "string \<Rightarrow> string \<Rightarrow> string" where
  "JoinHostPort host port =
     (if CHR '':'' \<in> set host then ''['' @ host @ '']:'' @ port else host @ '':'' @ port)"

lemma split_bracketed:
  assumes "CHR '']'' \<notin> set host" "CHR ''['' \<notin> set host" "set port \<inter> {CHR '':'', CHR ''['', CHR '']''} = {}"
  shows "SplitHostPort (''['' @ host @ '']:'' @ port) = Inr (host, port)"
proof -
  let ?s = "''['' @ host @ '']:'' @ port"
  have l: "lastIndexByte CHR '':'' ?s = Some (length host + 2)"
    using lastIndexByte_append [of "CHR '':''" port "''['' @ host @ '']''"] assms(3) by simp
  have e: "indexByte CHR '']'' ?s = Some (length host + 1)"
    using indexByte_append [of "CHR '']''" "''['' @ host" "'':'' @ port"] assms(1) by simp
  show ?thesis using assms l e by (auto simp: SplitHostPort_def Let_def)
qed

lemma split_plain:
  assumes "set host \<inter> {CHR '':'', CHR ''['', CHR '']''} = {}" "set port \<inter> {CHR '':'', CHR ''['', CHR '']''} = {}"
  shows "SplitHostPort (host @ '':'' @ port) = Inr (host, port)"
proof -
  have l: "lastIndexByte CHR '':'' (host @ '':'' @ port) = Some (length host)"
    using lastIndexByte_append [of "CHR '':''" port host] assms(2) by simp
  have "hd (host @ '':'' @ port) \<noteq> CHR ''[''" using assms(1) by (cases host) auto
  then show ?thesis using assms l by (auto simp: SplitHostPort_def Let_def)
qed

text \<open>Splitting undoes joining, unless the host itself has a bracket.\<close>

lemma SplitHostPort_JoinHostPort:
  assumes "set host \<inter> {CHR ''['', CHR '']''} = {}" "set port \<inter> {CHR '':'', CHR ''['', CHR '']''} = {}"
  shows "SplitHostPort (JoinHostPort host port) = Inr (host, port)"
  using assms split_bracketed [of host port] split_plain [of host port] by (auto simp: JoinHostPort_def)

section \<open>Hexadecimal and base64\<close>

definition hexVal :: "char \<Rightarrow> nat option" where
  "hexVal c =
     (let n = of_char c in
      if 48 \<le> n \<and> n \<le> 57 then Some (n - 48)
      else if 97 \<le> n \<and> n \<le> 102 then Some (n - 87)
      else if 65 \<le> n \<and> n \<le> 70 then Some (n - 55) else None)"

text \<open>\<^verbatim>\<open>hex.DecodeString\<close>, without the part decoded before an error.\<close>

fun hexDecode :: "string \<Rightarrow> byte list option" where
  "hexDecode [] = Some []"
| "hexDecode [c] = None"
| "hexDecode (a # b # s) =
     (case (hexVal a, hexVal b, hexDecode s) of
        (Some x, Some y, Some bs) \<Rightarrow> Some (of_nat (16 * x + y) # bs)
      | _ \<Rightarrow> None)"

lemma hexDecode_length: "hexDecode s = Some bs \<Longrightarrow> length s = 2 * length bs"
  by (induction s arbitrary: bs rule: hexDecode.induct) (auto split: option.splits)

text \<open>The two alphabets; \<open>url\<close> selects the one with minus and underscore.\<close>

definition b64Val :: "bool \<Rightarrow> char \<Rightarrow> nat option" where
  "b64Val url c =
     (let n = of_char c in
      if 65 \<le> n \<and> n \<le> 90 then Some (n - 65)
      else if 97 \<le> n \<and> n \<le> 122 then Some (n - 71)
      else if 48 \<le> n \<and> n \<le> 57 then Some (n + 4)
      else if c = (if url then CHR ''-'' else CHR ''+'') then Some 62
      else if c = (if url then CHR ''_'' else CHR ''/'') then Some 63 else None)"

definition b64Char :: "bool \<Rightarrow> nat \<Rightarrow> char" where
  "b64Char url v =
     (if v < 26 then char_of (v + 65) else if v < 52 then char_of (v + 71) else if v < 62 then char_of (v - 4)
      else if v = 62 then (if url then CHR ''-'' else CHR ''+'') else (if url then CHR ''_'' else CHR ''/''))"

definition bytes2 :: "nat \<Rightarrow> nat \<Rightarrow> byte list" where
  "bytes2 a b = [of_nat (4 * a + b div 16)]"

definition bytes3 :: "nat \<Rightarrow> nat \<Rightarrow> nat \<Rightarrow> byte list" where
  "bytes3 a b c = [of_nat (4 * a + b div 16), of_nat (16 * (b mod 16) + c div 4)]"

definition bytes4 :: "nat \<Rightarrow> nat \<Rightarrow> nat \<Rightarrow> nat \<Rightarrow> byte list" where
  "bytes4 a b c d = [of_nat (4 * a + b div 16), of_nat (16 * (b mod 16) + c div 4), of_nat (64 * (c mod 4) + d)]"

text \<open>
  \<^verbatim>\<open>RawURLEncoding\<close> (\<open>pad\<close> false) and \<^verbatim>\<open>StdEncoding\<close> (\<open>pad\<close> true): quanta of four characters, the last one
  shorter or padded.  Spare bits of the last character are not checked.
\<close>

fun b64Quanta :: "bool \<Rightarrow> bool \<Rightarrow> string \<Rightarrow> byte list option" where
  "b64Quanta url pad [] = Some []"
| "b64Quanta url pad [a] = None"
| "b64Quanta url pad [a, b] =
     (if pad then None
      else case (b64Val url a, b64Val url b) of (Some x, Some y) \<Rightarrow> Some (bytes2 x y) | _ \<Rightarrow> None)"
| "b64Quanta url pad [a, b, c] =
     (if pad then None
      else case (b64Val url a, b64Val url b, b64Val url c) of
             (Some x, Some y, Some z) \<Rightarrow> Some (bytes3 x y z) | _ \<Rightarrow> None)"
| "b64Quanta url pad (a # b # c # d # s) =
     (if pad \<and> s = [] \<and> d = CHR ''='' then
        (if c = CHR ''='' then
           (case (b64Val url a, b64Val url b) of (Some x, Some y) \<Rightarrow> Some (bytes2 x y) | _ \<Rightarrow> None)
         else (case (b64Val url a, b64Val url b, b64Val url c) of
                 (Some x, Some y, Some z) \<Rightarrow> Some (bytes3 x y z) | _ \<Rightarrow> None))
      else case (b64Val url a, b64Val url b, b64Val url c, b64Val url d, b64Quanta url pad s) of
             (Some x, Some y, Some z, Some w, Some bs) \<Rightarrow> Some (bytes4 x y z w @ bs)
           | _ \<Rightarrow> None)"

text \<open>Line breaks are skipped wherever they are.\<close>

definition b64Decode :: "bool \<Rightarrow> bool \<Rightarrow> string \<Rightarrow> byte list option" where
  "b64Decode url pad s = b64Quanta url pad (filter (\<lambda>c. c \<noteq> CHR 0x0A \<and> c \<noteq> CHR 0x0D) s)"

fun b64Encode :: "bool \<Rightarrow> bool \<Rightarrow> byte list \<Rightarrow> string" where
  "b64Encode url pad [] = []"
| "b64Encode url pad [a] =
     (let x = unat a in
      [b64Char url (x div 4), b64Char url (16 * (x mod 4))] @ (if pad then ''=='' else []))"
| "b64Encode url pad [a, b] =
     (let x = unat a; y = unat b in
      [b64Char url (x div 4), b64Char url (16 * (x mod 4) + y div 16), b64Char url (4 * (y mod 16))] @ (if pad then ''='' else []))"
| "b64Encode url pad (a # b # c # s) =
     (let x = unat a; y = unat b; z = unat c in
      [b64Char url (x div 4), b64Char url (16 * (x mod 4) + y div 16), b64Char url (4 * (y mod 16) + z div 64),
       b64Char url (z mod 64)] @ b64Encode url pad s)"

lemma b64_inverse: "v < 64 \<Longrightarrow> b64Val url (b64Char url v) = Some v"
proof -
  assume "v < 64"
  then consider "v < 26" | "26 \<le> v" "v < 52" | "52 \<le> v" "v < 62" | "v = 62" | "v = 63" by linarith
  then show ?thesis by cases (simp_all add: b64Val_def b64Char_def Let_def, linarith)
qed

lemma b64Char_not: "v < 64 \<Longrightarrow> b64Char url v \<notin> {CHR ''='', CHR 0x0A, CHR 0x0D}"
proof
  assume v: "v < 64" "b64Char url v \<in> {CHR ''='', CHR 0x0A, CHR 0x0D}"
  have "b64Val url CHR ''='' = None" "b64Val url CHR 0x0A = None" "b64Val url CHR 0x0D = None"
    by (simp_all add: b64Val_def)
  with b64_inverse [OF v(1), of url] v(2) show False by auto
qed

lemma unat_byte_less [simp]: "unat (b :: byte) < 256"
  by (rule order.strict_trans2 [OF unsigned_less]) simp

lemma b64_bounds:
  fixes a b c :: byte
  shows "unat a div 4 < 64" "16 * (unat a mod 4) < 64" "16 * (unat a mod 4) + unat b div 16 < 64"
    "4 * (unat b mod 16) < 64" "4 * (unat b mod 16) + unat c div 64 < 64" "unat c mod 64 < 64"
proof -
  show "unat a div 4 < 64" using unat_byte_less [of a] by (simp add: div_less_iff_less_mult)
  have "unat b div 16 < 16" using unat_byte_less [of b] by (simp add: div_less_iff_less_mult)
  moreover have "unat a mod 4 < 4" by simp
  ultimately show "16 * (unat a mod 4) + unat b div 16 < 64" "16 * (unat a mod 4) < 64" by linarith+
  have "unat c div 64 < 4" using unat_byte_less [of c] by (simp add: div_less_iff_less_mult)
  moreover have "unat b mod 16 < 16" by simp
  ultimately show "4 * (unat b mod 16) + unat c div 64 < 64" "4 * (unat b mod 16) < 64" by linarith+
  show "unat c mod 64 < 64" by simp
qed

lemma bytes_of_b64:
  fixes a b c :: byte
  shows "bytes2 (unat a div 4) (16 * (unat a mod 4)) = [a]"
    "bytes3 (unat a div 4) (16 * (unat a mod 4) + unat b div 16) (4 * (unat b mod 16)) = [a, b]"
    "bytes4 (unat a div 4) (16 * (unat a mod 4) + unat b div 16) (4 * (unat b mod 16) + unat c div 64) (unat c mod 64) = [a, b, c]"
proof -
  have d: "(16 * x + y) div 16 = x" "(16 * x + y) mod 16 = y" if "y < 16" for x y :: nat using that by simp_all
  have q: "(4 * x + y) div 4 = x" "(4 * x + y) mod 4 = y" if "y < 4" for x y :: nat using that by simp_all
  have b: "unat b div 16 < 16" using unat_byte_less [of b] by (simp add: div_less_iff_less_mult)
  have c: "unat c div 64 < 4" using unat_byte_less [of c] by (simp add: div_less_iff_less_mult)
  have w: "of_nat (4 * (unat x div 4) + unat x mod 4) = x" "of_nat (16 * (unat x div 16) + unat x mod 16) = x"
    "of_nat (64 * (unat x div 64) + unat x mod 64) = x" for x :: byte by simp_all
  show "bytes2 (unat a div 4) (16 * (unat a mod 4)) = [a]" by (simp add: bytes2_def)
  show "bytes3 (unat a div 4) (16 * (unat a mod 4) + unat b div 16) (4 * (unat b mod 16)) = [a, b]"
    unfolding bytes3_def d [OF b] using w(1) [of a] w(2) [of b] by simp
  show "bytes4 (unat a div 4) (16 * (unat a mod 4) + unat b div 16) (4 * (unat b mod 16) + unat c div 64) (unat c mod 64) = [a, b, c]"
    unfolding bytes4_def d [OF b] q [OF c] using w(1) [of a] w(2) [of b] w(3) [of c] by simp
qed

lemma b64Quanta_Encode: "b64Quanta url pad (b64Encode url pad bs) = Some bs"
proof (induction url pad bs rule: b64Encode.induct)
  case (2 url pad a)
  then show ?case by (cases pad) (simp_all add: Let_def b64_inverse b64_bounds bytes_of_b64)
next
  case (3 url pad a b)
  have "b64Char url (4 * (unat b mod 16)) \<noteq> CHR ''=''" using b64Char_not [OF b64_bounds(4)] by blast
  then show ?case by (cases pad) (simp_all add: Let_def b64_inverse b64_bounds bytes_of_b64)
next
  case (4 url pad a b c s)
  have "b64Char url (unat c mod 64) \<noteq> CHR ''=''" using b64Char_not [OF b64_bounds(6)] by blast
  then show ?case using 4 by (simp add: Let_def b64_inverse b64_bounds bytes_of_b64)
qed simp

lemma b64Encode_clean: "c \<in> set (b64Encode url pad bs) \<Longrightarrow> c \<noteq> CHR 0x0A \<and> c \<noteq> CHR 0x0D"
proof (induction url pad bs rule: b64Encode.induct)
  case (2 url pad a)
  then show ?case using b64Char_not [OF b64_bounds(1)] b64Char_not [OF b64_bounds(2)] by (auto simp: Let_def split: if_splits)
next
  case (3 url pad a b)
  then show ?case using b64Char_not [OF b64_bounds(1)] b64Char_not [OF b64_bounds(3)] b64Char_not [OF b64_bounds(4)]
    by (auto simp: Let_def split: if_splits)
next
  case (4 url pad a b c s)
  then show ?case using b64Char_not [OF b64_bounds(1)] b64Char_not [OF b64_bounds(3)] b64Char_not [OF b64_bounds(5)]
      b64Char_not [OF b64_bounds(6)]
    by (auto simp: Let_def)
qed simp

lemma b64Decode_Encode: "b64Decode url pad (b64Encode url pad bs) = Some bs"
proof -
  have "filter (\<lambda>c. c \<noteq> CHR 0x0A \<and> c \<noteq> CHR 0x0D) (b64Encode url pad bs) = b64Encode url pad bs"
    using b64Encode_clean by (intro filter_True) blast
  then show ?thesis by (simp add: b64Decode_def b64Quanta_Encode)
qed

section \<open>The interface of an encoding\<close>

text \<open>
  An encoding with a decoder that undoes it on the values that are \<open>fit\<close>: such values have different texts, and a text decodes to a value it encodes if it
  encodes one at all.
\<close>

locale encoding =
  fixes enc :: "'a \<Rightarrow> 'b" and dec :: "'b \<Rightarrow> 'a option" and fit :: "'a \<Rightarrow> bool"
  assumes dec_enc: "fit x \<Longrightarrow> dec (enc x) = Some x"
begin

lemma enc_eq_iff: "fit x \<Longrightarrow> fit y \<Longrightarrow> enc x = enc y \<longleftrightarrow> x = y"
  using dec_enc by (metis option.inject)

lemma dec_iff: "t \<in> enc ` Collect fit \<Longrightarrow> fit x \<Longrightarrow> dec t = Some x \<longleftrightarrow> t = enc x"
  by (auto simp: dec_enc enc_eq_iff)

end

interpretation b64: encoding "b64Encode url pad" "b64Decode url pad" "\<lambda>_. True" for url pad
  by unfold_locales (rule b64Decode_Encode)

interpretation itoa: encoding Itoa Atoi in_i64
  by unfold_locales (rule Atoi_Itoa)

end
