(* ===== verification/BbrSender.thy ===== *)
theory BbrSender
  imports BandwidthSampler Pacer GoStrings
begin

text \<open>
  \<^verbatim>\<open>h3frontend/internal/congestion/bbr/bbr_sender.go\<close>: the BBR congestion controller.  Every
  method of the sender is one definition on the record \<open>bbrSender\<close>, in the order of the file.

  What the code gets from outside is an argument: \<open>q\<close> the constants of the QUIC library,
  \<open>minRTT\<close> the value the RTT provider's \<^verbatim>\<open>MinRTT()\<close> returns during the call (a call without
  a provider is the panic \<open>NilPointer\<close>), \<open>rnd\<close> the result of \<^verbatim>\<open>rand.Int31n\<close>, and the event
  times.  Debug output is left out.
\<close>

section \<open>Constants and types\<close>

definition minBps :: int where "minBps = 65536"
definition initialCongestionWindowPackets :: int where "initialCongestionWindowPackets = 32"
definition minCongestionWindowPackets :: int where "minCongestionWindowPackets = 4"
definition defaultHighGain :: f64 where "defaultHighGain = f64_lit 2885 1000"
definition derivedHighCWNDGain :: f64 where "derivedHighCWNDGain = F64 2 0"

text \<open>The cycle of gains: 1.25, 0.75, and six times 1.\<close>

definition pacingGainCycle :: "f64 list" where
  "pacingGainCycle =
     [F64 5 (- 2), F64 3 (- 2), F64 1 0, F64 1 0, F64 1 0, F64 1 0, F64 1 0, F64 1 0]"

definition gainCycleLength :: int where "gainCycleLength = 8"
definition bandwidthWindowSize :: int where "bandwidthWindowSize = gainCycleLength + 2"
definition minRttExpiry :: int where "minRttExpiry = 10 * Second"
definition probeRttTime :: int where "probeRttTime = 200 * Millisecond"
definition startupGrowthTarget :: f64 where "startupGrowthTarget = F64 5 (- 2)"
definition roundTripsWithoutGrowthBeforeExitingStartup :: int where
  "roundTripsWithoutGrowthBeforeExitingStartup = 3"
definition defaultStartupFullLossCount :: int where "defaultStartupFullLossCount = 8"
definition quicBbr2DefaultLossThreshold :: f64 where "quicBbr2DefaultLossThreshold = f64_lit 2 100"

datatype bbrMode = bbrModeStartup | bbrModeDrain | bbrModeProbeBw | bbrModeProbeRtt

datatype bbrRecoveryState =
  bbrRecoveryStateNotInRecovery | bbrRecoveryStateConservation | bbrRecoveryStateGrowth

section \<open>Profiles\<close>

type_synonym Profile = string

definition ProfileConservative :: Profile where "ProfileConservative = ''conservative''"
definition ProfileStandard :: Profile where "ProfileStandard = ''standard''"
definition ProfileAggressive :: Profile where "ProfileAggressive = ''aggressive''"

record profileConfig =
  cfg_highGain :: f64
  cfg_highCwndGain :: f64
  cfg_congestionWindowGainConstant :: f64
  cfg_numStartupRtts :: int
  cfg_drainToTarget :: bool
  cfg_detectOvershooting :: bool
  cfg_bytesLostMultiplier :: int
  cfg_enableAckAggregationStartup :: bool
  cfg_expireAckAggregationStartup :: bool
  cfg_enableOverestimateAvoidance :: bool
  cfg_reduceExtraAckedOnBandwidthIncrease :: bool

datatype congestion_error = UnsupportedProfile string | UnsupportedCongestionType string

definition ParseProfile :: "string \<Rightarrow> congestion_error + Profile" where
  "ParseProfile profile =
     (let normalized = ToLower profile in
      if normalized = [] \<or> normalized = ProfileStandard then Inr ProfileStandard
      else if normalized = ProfileConservative then Inr ProfileConservative
      else if normalized = ProfileAggressive then Inr ProfileAggressive
      else Inl (UnsupportedProfile profile))"

definition configForProfile :: "Profile \<Rightarrow> profileConfig" where
  "configForProfile p =
     (if p = ProfileConservative then
        \<lparr>cfg_highGain = F64 9 (- 2), cfg_highCwndGain = F64 7 (- 2), cfg_congestionWindowGainConstant = F64 7 (- 2),
         cfg_numStartupRtts = 2, cfg_drainToTarget = True, cfg_detectOvershooting = True,
         cfg_bytesLostMultiplier = 1, cfg_enableAckAggregationStartup = False,
         cfg_expireAckAggregationStartup = False, cfg_enableOverestimateAvoidance = True,
         cfg_reduceExtraAckedOnBandwidthIncrease = True\<rparr>
      else if p = ProfileAggressive then
        \<lparr>cfg_highGain = F64 3 0, cfg_highCwndGain = F64 9 (- 2), cfg_congestionWindowGainConstant = F64 5 (- 1),
         cfg_numStartupRtts = 4, cfg_drainToTarget = False, cfg_detectOvershooting = False,
         cfg_bytesLostMultiplier = 2, cfg_enableAckAggregationStartup = True,
         cfg_expireAckAggregationStartup = True, cfg_enableOverestimateAvoidance = False,
         cfg_reduceExtraAckedOnBandwidthIncrease = False\<rparr>
      else
        \<lparr>cfg_highGain = defaultHighGain, cfg_highCwndGain = derivedHighCWNDGain,
         cfg_congestionWindowGainConstant = F64 2 0,
         cfg_numStartupRtts = roundTripsWithoutGrowthBeforeExitingStartup, cfg_drainToTarget = False,
         cfg_detectOvershooting = False, cfg_bytesLostMultiplier = 2,
         cfg_enableAckAggregationStartup = False, cfg_expireAckAggregationStartup = False,
         cfg_enableOverestimateAvoidance = False, cfg_reduceExtraAckedOnBandwidthIncrease = False\<rparr>)"

section \<open>The sender's state\<close>

record bbrSender =
  rttStats :: bool                  \<comment> \<open>a provider has been set\<close>
  snd_pacer :: pacer
  mode :: bbrMode
  sampler :: bandwidthSampler
  roundTripCount :: int
  lastSentPacket :: int
  currentRoundTripEnd :: int
  numLossEventsInRound :: int
  bytesLostInRound :: int
  maxBandwidth :: "int windowedFilter"
  minRtt :: int
  minRttTimestamp :: mtime
  congestionWindow :: int
  initialCongestionWindow :: int
  maxCongestionWindow :: int
  minCongestionWindow :: int
  profile :: Profile
  highGain :: f64
  highCwndGain :: f64
  drainGain :: f64
  pacingRate :: int
  pacingGain :: f64
  congestionWindowGain :: f64
  congestionWindowGainConstant :: f64
  numStartupRtts :: int
  cycleCurrentOffset :: int
  lastCycleStart :: mtime
  isAtFullBandwidth :: bool
  roundsWithoutBandwidthGain :: int
  bandwidthAtLastRound :: int
  exitingQuiescence :: bool
  exitProbeRttAt :: mtime
  probeRttRoundPassed :: bool
  lastSampleIsAppLimited :: bool
  hasNoAppLimitedSample :: bool
  recoveryState :: bbrRecoveryState
  endRecoveryAt :: int
  recoveryWindow :: int
  enableAckAggregationDuringStartup :: bool
  expireAckAggregationInStartup :: bool
  drainToTarget :: bool
  detectOvershooting :: bool
  bytesLostWhileDetectingOvershooting :: int
  bytesLostMultiplierWhileDetectingOvershooting :: int
  cwndToCalculateMinPacingRate :: int
  maxCongestionWindowWithNetworkParametersAdjusted :: int
  maxDatagramSize :: int
  bytesInFlight :: int

definition minCongestionWindowForMaxDatagramSize :: "int \<Rightarrow> int" where
  "minCongestionWindowForMaxDatagramSize s = i64 (minCongestionWindowPackets * s)"

definition applyProfile :: "Profile \<Rightarrow> bbrSender \<Rightarrow> bbrSender" where
  "applyProfile prof b =
     (let prof = (if prof = [] then ProfileStandard else prof);
          cfg = configForProfile prof;
          b = b\<lparr>profile := prof, highGain := cfg_highGain cfg, highCwndGain := cfg_highCwndGain cfg,
                drainGain := f64_div (F64 1 0) (cfg_highGain cfg),
                congestionWindowGainConstant := cfg_congestionWindowGainConstant cfg,
                numStartupRtts := cfg_numStartupRtts cfg, drainToTarget := cfg_drainToTarget cfg,
                detectOvershooting := cfg_detectOvershooting cfg,
                bytesLostMultiplierWhileDetectingOvershooting := cfg_bytesLostMultiplier cfg,
                enableAckAggregationDuringStartup := cfg_enableAckAggregationStartup cfg,
                expireAckAggregationInStartup := cfg_expireAckAggregationStartup cfg\<rparr>;
          b = (if cfg_enableOverestimateAvoidance cfg
               then b\<lparr>sampler := EnableOverestimateAvoidance (sampler b)\<rparr> else b)
      in b\<lparr>sampler := SetReduceExtraAckedOnBandwidthIncrease
             (cfg_reduceExtraAckedOnBandwidthIncrease cfg) (sampler b)\<rparr>)"

definition enterStartupMode :: "mtime \<Rightarrow> bbrSender \<Rightarrow> bbrSender" where
  "enterStartupMode now b =
     b\<lparr>mode := bbrModeStartup, pacingGain := highGain b, congestionWindowGain := highCwndGain b\<rparr>"

definition newBbrSender ::
  "quic_params \<Rightarrow> mtime \<Rightarrow> int \<Rightarrow> int \<Rightarrow> int \<Rightarrow> Profile \<Rightarrow> bbrSender"
where
  "newBbrSender q now initialMaxDatagramSize initialCwnd initialMaxCwnd prof =
     (let b = \<lparr>rttStats = False, snd_pacer = NewPacer q, mode = bbrModeStartup,
        sampler = newBandwidthSampler (u64 bandwidthWindowSize), roundTripCount = 0,
        lastSentPacket = invalidPacketNumber, currentRoundTripEnd = invalidPacketNumber,
        numLossEventsInRound = 0, bytesLostInRound = 0,
        maxBandwidth = NewWindowedFilter 0 (u64 bandwidthWindowSize),
        minRtt = 0, minRttTimestamp = 0, congestionWindow = initialCwnd,
        initialCongestionWindow = initialCwnd, maxCongestionWindow = initialMaxCwnd,
        minCongestionWindow = minCongestionWindowForMaxDatagramSize initialMaxDatagramSize,
        profile = ProfileStandard, highGain = defaultHighGain, highCwndGain = derivedHighCWNDGain,
        drainGain = f64_div (F64 1 0) defaultHighGain, pacingRate = 0, pacingGain = F64 1 0,
        congestionWindowGain = F64 1 0, congestionWindowGainConstant = F64 2 0,
        numStartupRtts = roundTripsWithoutGrowthBeforeExitingStartup, cycleCurrentOffset = 0,
        lastCycleStart = 0, isAtFullBandwidth = False, roundsWithoutBandwidthGain = 0,
        bandwidthAtLastRound = 0, exitingQuiescence = False, exitProbeRttAt = 0,
        probeRttRoundPassed = False, lastSampleIsAppLimited = False, hasNoAppLimitedSample = False,
        recoveryState = bbrRecoveryStateNotInRecovery, endRecoveryAt = invalidPacketNumber,
        recoveryWindow = initialMaxCwnd, enableAckAggregationDuringStartup = False,
        expireAckAggregationInStartup = False, drainToTarget = False, detectOvershooting = False,
        bytesLostWhileDetectingOvershooting = 0, bytesLostMultiplierWhileDetectingOvershooting = 2,
        cwndToCalculateMinPacingRate = initialCwnd,
        maxCongestionWindowWithNetworkParametersAdjusted = initialMaxCwnd,
        maxDatagramSize = initialMaxDatagramSize, bytesInFlight = 0\<rparr>
      in enterStartupMode now (applyProfile prof b))"

definition NewBbrSender :: "quic_params \<Rightarrow> mtime \<Rightarrow> int \<Rightarrow> Profile \<Rightarrow> bbrSender" where
  "NewBbrSender q now initialMaxDatagramSize prof =
     newBbrSender q now initialMaxDatagramSize
       (i64 (initialCongestionWindowPackets * initialMaxDatagramSize))
       (i64 (MaxCongestionWindowPackets q * initialMaxDatagramSize)) prof"

definition SetRTTStatsProvider :: "bbrSender \<Rightarrow> bbrSender" where
  "SetRTTStatsProvider b = b\<lparr>rttStats := True\<rparr>"

definition MinRTT :: "int \<Rightarrow> bbrSender \<Rightarrow> int res" where
  "MinRTT minRTT b = (if rttStats b then Inr minRTT else Inl NilPointer)"

section \<open>Estimates\<close>

definition bdpFromRttAndBandwidth :: "int \<Rightarrow> int \<Rightarrow> int" where
  "bdpFromRttAndBandwidth rtt bandwidth = i64 (rtt * i64 bandwidth) sdiv BytesPerSecond sdiv Second"

definition bandwidthEstimate :: "bbrSender \<Rightarrow> int" where
  "bandwidthEstimate b = GetBest (maxBandwidth b)"

definition getMinRtt :: "int \<Rightarrow> bbrSender \<Rightarrow> int res" where
  "getMinRtt minRTT b =
     (if minRtt b \<noteq> 0 then Inr (minRtt b)
      else bindR (MinRTT minRTT b) (\<lambda>m. Inr (if m = 0 then 100 * Millisecond else m)))"

definition getTargetCongestionWindow :: "int \<Rightarrow> f64 \<Rightarrow> bbrSender \<Rightarrow> int res" where
  "getTargetCongestionWindow minRTT gain b =
     bindR (getMinRtt minRTT b) (\<lambda>rtt.
     let bdp = bdpFromRttAndBandwidth rtt (bandwidthEstimate b);
         cwnd = f64_to_i64 (f64_mul gain (f64_of_int bdp));
         cwnd = (if cwnd = 0 then f64_to_i64 (f64_mul gain (f64_of_int (initialCongestionWindow b))) else cwnd)
     in Inr (max cwnd (minCongestionWindow b)))"

definition probeRttCongestionWindow :: "bbrSender \<Rightarrow> int" where
  "probeRttCongestionWindow b = minCongestionWindow b"

definition PacingRate :: "int \<Rightarrow> bbrSender \<Rightarrow> int res" where
  "PacingRate minRTT b =
     (if pacingRate b = 0
      then bindR (getMinRtt minRTT b) (\<lambda>rtt.
           bindR (BandwidthFromDelta (initialCongestionWindow b) rtt) (\<lambda>bw.
           Inr (f64_to_u64 (f64_mul (highGain b) (f64_of_int bw)))))
      else Inr (pacingRate b))"

definition bandwidthForPacer :: "int \<Rightarrow> bbrSender \<Rightarrow> int res" where
  "bandwidthForPacer minRTT b =
     bindR (PacingRate minRTT b) (\<lambda>pr.
     let bps = f64_to_i64 (f64_div (f64_of_int pr) (f64_of_int BytesPerSecond))
     in Inr (if bps < minBps then minBps else bps))"

definition setHighCwndGain :: "f64 \<Rightarrow> bbrSender \<Rightarrow> bbrSender" where
  "setHighCwndGain g b =
     (let b = b\<lparr>highCwndGain := g\<rparr>
      in if mode b = bbrModeStartup then b\<lparr>congestionWindowGain := g\<rparr> else b)"

section \<open>The send algorithm's interface\<close>

text \<open>The pacer calls \<^verbatim>\<open>getBandwidth\<close> only after its early return.\<close>

definition sndTimeUntilSend :: "quic_params \<Rightarrow> int \<Rightarrow> bbrSender \<Rightarrow> mtime res" where
  "sndTimeUntilSend q minRTT b =
     (if budgetAtLastSent (snd_pacer b) \<ge> pc_maxDatagramSize (snd_pacer b) then Inr 0
      else bindR (bandwidthForPacer minRTT b) (\<lambda>bw. TimeUntilSend q bw (snd_pacer b)))"

definition HasPacingBudget :: "quic_params \<Rightarrow> int \<Rightarrow> mtime \<Rightarrow> bbrSender \<Rightarrow> bool res" where
  "HasPacingBudget q minRTT now b =
     bindR (bandwidthForPacer minRTT b) (\<lambda>bw.
     Inr (Budget q bw now (snd_pacer b) \<ge> maxDatagramSize b))"

definition OnPacketSent ::
  "quic_params \<Rightarrow> int \<Rightarrow> mtime \<Rightarrow> int \<Rightarrow> int \<Rightarrow> int \<Rightarrow> bool \<Rightarrow> bbrSender \<Rightarrow> bbrSender res"
where
  "OnPacketSent q minRTT sentTime inFlight packetNumber bytes isRetransmittable b =
     bindR (bandwidthForPacer minRTT b) (\<lambda>bw.
     let b = b\<lparr>snd_pacer := SentPacket q bw sentTime bytes (snd_pacer b)\<rparr>;
         b = b\<lparr>lastSentPacket := packetNumber, bytesInFlight := inFlight\<rparr>;
         b = (if inFlight = 0 then b\<lparr>exitingQuiescence := True\<rparr> else b)
     in bindR (spOnPacketSent sentTime packetNumber bytes inFlight isRetransmittable (sampler b)) (\<lambda>s.
        Inr (b\<lparr>sampler := s\<rparr>)))"

definition InSlowStart :: "bbrSender \<Rightarrow> bool" where
  "InSlowStart b \<longleftrightarrow> mode b = bbrModeStartup"

definition InRecovery :: "bbrSender \<Rightarrow> bool" where
  "InRecovery b \<longleftrightarrow> recoveryState b \<noteq> bbrRecoveryStateNotInRecovery"

definition GetCongestionWindow :: "bbrSender \<Rightarrow> int" where
  "GetCongestionWindow b =
     (if mode b = bbrModeProbeRtt then probeRttCongestionWindow b
      else if InRecovery b then min (congestionWindow b) (recoveryWindow b)
      else congestionWindow b)"

definition CanSend :: "int \<Rightarrow> bbrSender \<Rightarrow> bool" where
  "CanSend inFlight b \<longleftrightarrow> inFlight < GetCongestionWindow b"

definition scaleByteWindowForDatagramSize :: "int \<Rightarrow> int \<Rightarrow> int \<Rightarrow> int res" where
  "scaleByteWindowForDatagramSize window old new =
     (if old = new then Inr window
      else if u64 old = 0 then Inl DivideByZero
      else Inr (i64 (u64 (u64 window * u64 new) div u64 old)))"

definition rescalePacketSizedWindows :: "int \<Rightarrow> bbrSender \<Rightarrow> bbrSender res" where
  "rescalePacketSizedWindows s b =
     (let old = maxDatagramSize b; b = b\<lparr>maxDatagramSize := s\<rparr> in
      bindR (scaleByteWindowForDatagramSize (initialCongestionWindow b) old s) (\<lambda>w.
      let b = b\<lparr>initialCongestionWindow := w\<rparr> in
      bindR (scaleByteWindowForDatagramSize (maxCongestionWindow b) old s) (\<lambda>w.
      let b = b\<lparr>maxCongestionWindow := w, minCongestionWindow := minCongestionWindowForMaxDatagramSize s\<rparr> in
      bindR (scaleByteWindowForDatagramSize (cwndToCalculateMinPacingRate b) old s) (\<lambda>w.
      let b = b\<lparr>cwndToCalculateMinPacingRate := w\<rparr> in
      bindR (scaleByteWindowForDatagramSize (maxCongestionWindowWithNetworkParametersAdjusted b) old s) (\<lambda>w.
      Inr (b\<lparr>maxCongestionWindowWithNetworkParametersAdjusted := w\<rparr>))))))"

definition rescaledWindow :: "int \<Rightarrow> int \<Rightarrow> bbrSender \<Rightarrow> int" where
  "rescaledWindow oldMin oldInitial b =
     (if congestionWindow b = oldMin then minCongestionWindow b
      else if congestionWindow b = oldInitial then initialCongestionWindow b
      else min (maxCongestionWindow b) (max (congestionWindow b) (minCongestionWindow b)))"

definition SetMaxDatagramSize :: "int \<Rightarrow> bbrSender \<Rightarrow> bbrSender res" where
  "SetMaxDatagramSize s b =
     (if s < maxDatagramSize b then Inl (Panic ''congestion BUG: decreased max datagram size'')
      else
        let oldMin = minCongestionWindow b; oldInitial = initialCongestionWindow b in
        bindR (rescalePacketSizedWindows s b) (\<lambda>b.
        let b = b\<lparr>congestionWindow := rescaledWindow oldMin oldInitial b\<rparr>;
            b = b\<lparr>recoveryWindow := min (maxCongestionWindow b) (max (recoveryWindow b) (minCongestionWindow b))\<rparr>
        in Inr (b\<lparr>snd_pacer := pacerSetMaxDatagramSize s (snd_pacer b)\<rparr>)))"

section \<open>Parts of a congestion event\<close>

definition maybeUpdateMinRtt :: "mtime \<Rightarrow> int \<Rightarrow> bbrSender \<Rightarrow> bool \<times> bbrSender" where
  "maybeUpdateMinRtt now sampleMinRtt b =
     (let minRttExpired = (minRtt b \<noteq> 0 \<and> After now (Add (minRttTimestamp b) minRttExpiry))
      in (minRttExpired,
          if minRttExpired \<or> sampleMinRtt < minRtt b \<or> minRtt b = 0
          then b\<lparr>minRtt := sampleMinRtt, minRttTimestamp := now\<rparr> else b))"

definition gainAt :: "int \<Rightarrow> f64 res" where
  "gainAt i =
     (if 0 \<le> i \<and> i < gainCycleLength then Inr (pacingGainCycle ! nat i) else Inl IndexOutOfRange)"

definition enterProbeBandwidthMode :: "int \<Rightarrow> mtime \<Rightarrow> bbrSender \<Rightarrow> bbrSender res" where
  "enterProbeBandwidthMode rnd now b =
     (let b = b\<lparr>mode := bbrModeProbeBw, congestionWindowGain := congestionWindowGainConstant b,
                cycleCurrentOffset := rnd smod (gainCycleLength - 1)\<rparr>;
          b = (if cycleCurrentOffset b \<ge> 1 then b\<lparr>cycleCurrentOffset := cycleCurrentOffset b + 1\<rparr> else b);
          b = b\<lparr>lastCycleStart := now\<rparr>
      in bindR (gainAt (cycleCurrentOffset b)) (\<lambda>g. Inr (b\<lparr>pacingGain := g\<rparr>)))"

definition updateRoundTripCounter :: "int \<Rightarrow> bbrSender \<Rightarrow> bool \<times> bbrSender" where
  "updateRoundTripCounter lastAcked b =
     (if currentRoundTripEnd b = invalidPacketNumber \<or> lastAcked > currentRoundTripEnd b
      then (True, b\<lparr>roundTripCount := u64 (roundTripCount b + 1), currentRoundTripEnd := lastSentPacket b\<rparr>)
      else (False, b))"

definition shouldAdvanceGainCycling :: "int \<Rightarrow> mtime \<Rightarrow> int \<Rightarrow> bool \<Rightarrow> bbrSender \<Rightarrow> bool res" where
  "shouldAdvanceGainCycling minRTT now priorInFlight hasLosses b =
     bindR (getMinRtt minRTT b) (\<lambda>rtt.
     let advance = After now (Add (lastCycleStart b) rtt) in
     bindR (if f64_less (F64 1 0) (pacingGain b) \<and> \<not> hasLosses
            then bindR (getTargetCongestionWindow minRTT (pacingGain b) b) (\<lambda>w.
                 Inr (if priorInFlight < w then False else advance))
            else Inr advance) (\<lambda>advance.
     if f64_less (pacingGain b) (F64 1 0)
     then bindR (getTargetCongestionWindow minRTT (F64 1 0) b) (\<lambda>w.
          Inr (if bytesInFlight b \<le> w then True else advance))
     else Inr advance))"

text \<open>With \<open>drainToTarget\<close>, the low gain is kept until the bytes in flight are down to the target.\<close>

definition stayInLowGain :: "int \<Rightarrow> bbrSender \<Rightarrow> bool res" where
  "stayInLowGain minRTT b =
     (if drainToTarget b \<and> f64_less (pacingGain b) (F64 1 0)
      then bindR (gainAt (cycleCurrentOffset b)) (\<lambda>g.
           if f64_eq g (F64 1 0)
           then bindR (getTargetCongestionWindow minRTT (F64 1 0) b) (\<lambda>w. Inr (bytesInFlight b > w))
           else Inr False)
      else Inr False)"

definition updateGainCyclePhase :: "int \<Rightarrow> mtime \<Rightarrow> int \<Rightarrow> bool \<Rightarrow> bbrSender \<Rightarrow> bbrSender res" where
  "updateGainCyclePhase minRTT now priorInFlight hasLosses b =
     bindR (shouldAdvanceGainCycling minRTT now priorInFlight hasLosses b) (\<lambda>advance.
     if \<not> advance then Inr b
     else
       let b = b\<lparr>cycleCurrentOffset := (cycleCurrentOffset b + 1) smod gainCycleLength, lastCycleStart := now\<rparr> in
       bindR (stayInLowGain minRTT b) (\<lambda>stay.
       if stay then Inr b
       else bindR (gainAt (cycleCurrentOffset b)) (\<lambda>g. Inr (b\<lparr>pacingGain := g\<rparr>))))"

definition shouldExitStartupDueToLoss :: "sendTimeState \<Rightarrow> bbrSender \<Rightarrow> bool" where
  "shouldExitStartupDueToLoss st b =
     (if numLossEventsInRound b < defaultStartupFullLossCount \<or> \<not> st_isValid st then False
      else let inflightAtSend = st_bytesInFlight st in
        if inflightAtSend > 0 \<and> bytesLostInRound b > 0
        then bytesLostInRound b > f64_to_i64 (f64_mul (f64_of_int inflightAtSend) quicBbr2DefaultLossThreshold)
        else False)"

definition checkIfFullBandwidthReached :: "sendTimeState \<Rightarrow> bbrSender \<Rightarrow> bbrSender" where
  "checkIfFullBandwidthReached st b =
     (if lastSampleIsAppLimited b then b
      else
        let target = f64_to_u64 (f64_mul (f64_of_int (bandwidthAtLastRound b)) startupGrowthTarget) in
        if bandwidthEstimate b \<ge> target
        then let b = b\<lparr>bandwidthAtLastRound := bandwidthEstimate b, roundsWithoutBandwidthGain := 0\<rparr>
             in if expireAckAggregationInStartup b
                then b\<lparr>sampler := ResetMaxAckHeightTracker 0 (roundTripCount b) (sampler b)\<rparr> else b
        else let b = b\<lparr>roundsWithoutBandwidthGain := i64 (roundsWithoutBandwidthGain b + 1)\<rparr>
             in if roundsWithoutBandwidthGain b \<ge> numStartupRtts b \<or> shouldExitStartupDueToLoss st b
                then b\<lparr>isAtFullBandwidth := True\<rparr> else b)"

definition maybeAppLimited :: "int \<Rightarrow> int \<Rightarrow> bbrSender \<Rightarrow> bbrSender res" where
  "maybeAppLimited minRTT inFlight b =
     bindR (getTargetCongestionWindow minRTT (F64 1 0) b) (\<lambda>w.
     Inr (if inFlight < w then b\<lparr>sampler := OnAppLimited (sampler b)\<rparr> else b))"

definition maybeExitStartupOrDrain :: "int \<Rightarrow> int \<Rightarrow> mtime \<Rightarrow> bbrSender \<Rightarrow> bbrSender res" where
  "maybeExitStartupOrDrain minRTT rnd now b =
     (let b = (if mode b = bbrModeStartup \<and> isAtFullBandwidth b
               then b\<lparr>mode := bbrModeDrain, pacingGain := drainGain b, congestionWindowGain := highCwndGain b\<rparr>
               else b)
      in if mode b = bbrModeDrain
         then bindR (getTargetCongestionWindow minRTT (F64 1 0) b) (\<lambda>w.
              if bytesInFlight b \<le> w then enterProbeBandwidthMode rnd now b else Inr b)
         else Inr b)"

definition maybeEnterOrExitProbeRtt ::
  "quic_params \<Rightarrow> int \<Rightarrow> mtime \<Rightarrow> bool \<Rightarrow> bool \<Rightarrow> bbrSender \<Rightarrow> bbrSender res"
where
  "maybeEnterOrExitProbeRtt q rnd now isRoundStart minRttExpired b =
     (let b = (if minRttExpired \<and> \<not> exitingQuiescence b \<and> mode b \<noteq> bbrModeProbeRtt
               then b\<lparr>mode := bbrModeProbeRtt, pacingGain := F64 1 0, exitProbeRttAt := 0\<rparr> else b)
      in bindR
        (if mode b = bbrModeProbeRtt then
           let b = b\<lparr>sampler := OnAppLimited (sampler b)\<rparr> in
           if IsZero (exitProbeRttAt b) then
             Inr (if bytesInFlight b < i64 (probeRttCongestionWindow b + MaxPacketBufferSize q)
                  then b\<lparr>exitProbeRttAt := Add now probeRttTime, probeRttRoundPassed := False\<rparr> else b)
           else
             let b = (if isRoundStart then b\<lparr>probeRttRoundPassed := True\<rparr> else b) in
             if Sub now (exitProbeRttAt b) \<ge> 0 \<and> probeRttRoundPassed b then
               let b = b\<lparr>minRttTimestamp := now\<rparr> in
               if \<not> isAtFullBandwidth b then Inr (enterStartupMode now b)
               else enterProbeBandwidthMode rnd now b
             else Inr b
         else Inr b) (\<lambda>b.
      Inr (b\<lparr>exitingQuiescence := False\<rparr>)))"

definition updateRecoveryState :: "int \<Rightarrow> bool \<Rightarrow> bool \<Rightarrow> bbrSender \<Rightarrow> bbrSender" where
  "updateRecoveryState lastAcked hasLosses isRoundStart b =
     (if \<not> isAtFullBandwidth b then b
      else
        let b = (if hasLosses then b\<lparr>endRecoveryAt := lastSentPacket b\<rparr> else b);
            leave = (\<lambda>b. if \<not> hasLosses \<and> lastAcked > endRecoveryAt b
                         then b\<lparr>recoveryState := bbrRecoveryStateNotInRecovery\<rparr> else b)
        in case recoveryState b of
             bbrRecoveryStateNotInRecovery \<Rightarrow>
               if hasLosses
               then b\<lparr>recoveryState := bbrRecoveryStateConservation, recoveryWindow := 0,
                      currentRoundTripEnd := lastSentPacket b\<rparr>
               else b
           | bbrRecoveryStateConservation \<Rightarrow>
               leave (if isRoundStart then b\<lparr>recoveryState := bbrRecoveryStateGrowth\<rparr> else b)
           | bbrRecoveryStateGrowth \<Rightarrow> leave b)"

definition calculatePacingRate :: "int \<Rightarrow> int \<Rightarrow> bbrSender \<Rightarrow> bbrSender res" where
  "calculatePacingRate minRTT bytesLost b =
     (if bandwidthEstimate b = 0 then Inr b
      else
        let targetRate = f64_to_u64 (f64_mul (pacingGain b) (f64_of_int (bandwidthEstimate b))) in
        if isAtFullBandwidth b then Inr (b\<lparr>pacingRate := targetRate\<rparr>)
        else
          bindR (if pacingRate b = 0 then bindR (MinRTT minRTT b) (\<lambda>m. Inr (m \<noteq> 0)) else Inr False) (\<lambda>first.
          if first
          then bindR (MinRTT minRTT b) (\<lambda>m.
               bindR (BandwidthFromDelta (initialCongestionWindow b) m) (\<lambda>r.
               Inr (b\<lparr>pacingRate := r\<rparr>)))
          else
            bindR (if detectOvershooting b then
                     let b = b\<lparr>bytesLostWhileDetectingOvershooting :=
                                i64 (bytesLostWhileDetectingOvershooting b + bytesLost)\<rparr>
                     in if pacingRate b > targetRate \<and> bytesLostWhileDetectingOvershooting b > 0 \<and>
                           (hasNoAppLimitedSample b \<or>
                            i64 (bytesLostWhileDetectingOvershooting b *
                                 bytesLostMultiplierWhileDetectingOvershooting b) > initialCongestionWindow b)
                        then bindR (MinRTT minRTT b) (\<lambda>m.
                             bindR (BandwidthFromDelta (cwndToCalculateMinPacingRate b) m) (\<lambda>r.
                             Inr (b\<lparr>pacingRate := max targetRate r, bytesLostWhileDetectingOvershooting := 0,
                                    detectOvershooting := False\<rparr>)))
                        else Inr b
                   else Inr b) (\<lambda>b.
            Inr (b\<lparr>pacingRate := max (pacingRate b) targetRate\<rparr>))))"

text \<open>The target with the ack aggregation added, and the step towards it.\<close>

definition aggregatedTarget :: "int \<Rightarrow> int \<Rightarrow> bbrSender \<Rightarrow> int" where
  "aggregatedTarget targetWindow excessAcked b =
     (if isAtFullBandwidth b then i64 (targetWindow + MaxAckHeight (sampler b))
      else if enableAckAggregationDuringStartup b then i64 (targetWindow + excessAcked)
      else targetWindow)"

definition grownWindow :: "int \<Rightarrow> int \<Rightarrow> bbrSender \<Rightarrow> int" where
  "grownWindow targetWindow bytesAcked b =
     (if isAtFullBandwidth b then min targetWindow (i64 (congestionWindow b + bytesAcked))
      else if congestionWindow b < targetWindow \<or> totalBytesAcked (sampler b) < initialCongestionWindow b
      then i64 (congestionWindow b + bytesAcked)
      else congestionWindow b)"

definition calculateCongestionWindow :: "int \<Rightarrow> int \<Rightarrow> int \<Rightarrow> bbrSender \<Rightarrow> bbrSender res" where
  "calculateCongestionWindow minRTT bytesAcked excessAcked b =
     (if mode b = bbrModeProbeRtt then Inr b
      else
        bindR (getTargetCongestionWindow minRTT (congestionWindowGain b) b) (\<lambda>targetWindow.
        let targetWindow = aggregatedTarget targetWindow excessAcked b;
            cwnd = max (grownWindow targetWindow bytesAcked b) (minCongestionWindow b)
        in Inr (b\<lparr>congestionWindow := min cwnd (maxCongestionWindow b)\<rparr>)))"

text \<open>The recovery window without its floor: a fresh one, or the old one less the losses.\<close>

definition nextRecoveryWindow :: "int \<Rightarrow> int \<Rightarrow> bbrSender \<Rightarrow> int" where
  "nextRecoveryWindow bytesAcked bytesLost b =
     (if recoveryWindow b = 0
      then max (minCongestionWindow b) (i64 (bytesInFlight b + bytesAcked))
      else
        let w = (if recoveryWindow b \<ge> bytesLost then i64 (recoveryWindow b - bytesLost) else maxDatagramSize b);
            w = (if recoveryState b = bbrRecoveryStateGrowth then i64 (w + bytesAcked) else w);
            w = max w (i64 (bytesInFlight b + bytesAcked))
        in max (minCongestionWindow b) w)"

definition calculateRecoveryWindow :: "int \<Rightarrow> int \<Rightarrow> int \<Rightarrow> bbrSender \<Rightarrow> bbrSender res" where
  "calculateRecoveryWindow minRTT bytesAcked bytesLost b =
     (if recoveryState b = bbrRecoveryStateNotInRecovery then Inr b
      else
        bindR (getTargetCongestionWindow minRTT (F64 1 0) b) (\<lambda>target.
        let recoveryFloor = target sdiv 2
        in Inr (b\<lparr>recoveryWindow := max (nextRecoveryWindow bytesAcked bytesLost b) recoveryFloor\<rparr>)))"

section \<open>A congestion event\<close>

primrec subtractBytes :: "packetInfo list \<Rightarrow> int \<Rightarrow> int" where
  "subtractBytes [] n = n"
| "subtractBytes (p # ps) n = subtractBytes ps (i64 (n - snd p))"

text \<open>
  The four stages of \<^verbatim>\<open>OnCongestionEventEx\<close>: the bytes in flight, the round and the recovery
  state; the samples; the state machine; the rate and the windows, and the clean-up.
\<close>

definition eventRound ::
  "int \<Rightarrow> int \<Rightarrow> packetInfo list \<Rightarrow> packetInfo list \<Rightarrow> bbrSender \<Rightarrow> (bool \<times> bbrSender) res"
where
  "eventRound minRTT priorInFlight acked lost b =
     bindR (maybeAppLimited minRTT priorInFlight b) (\<lambda>b.
     let b = b\<lparr>bytesInFlight := subtractBytes lost (subtractBytes acked priorInFlight)\<rparr> in
     if acked \<noteq> []
     then bindR (lastNumber acked) (\<lambda>lastAcked.
          let (isRoundStart, b) = updateRoundTripCounter lastAcked b
          in Inr (isRoundStart, updateRecoveryState lastAcked (lost \<noteq> []) isRoundStart b))
     else Inr (False, b))"

definition noteSendState :: "sendTimeState \<Rightarrow> bbrSender \<Rightarrow> bbrSender" where
  "noteSendState st b =
     (if st_isValid st
      then let b = b\<lparr>lastSampleIsAppLimited := st_isAppLimited st\<rparr>
           in b\<lparr>hasNoAppLimitedSample := hasNoAppLimitedSample b \<or> \<not> lastSampleIsAppLimited b\<rparr>
      else b)"

definition updateMaxBandwidth :: "int \<Rightarrow> congestionEventSample \<Rightarrow> bbrSender \<Rightarrow> bbrSender" where
  "updateMaxBandwidth totalBytesAckedBefore sample b =
     (if totalBytesAckedBefore \<noteq> totalBytesAcked (sampler b) \<and>
         (\<not> ev_sampleIsAppLimited sample \<or> ev_sampleMaxBandwidth sample > GetBest (maxBandwidth b))
      then b\<lparr>maxBandwidth := wfUpdate MaxFilter 0 (ev_sampleMaxBandwidth sample) (roundTripCount b) (maxBandwidth b)\<rparr>
      else b)"

definition eventSample ::
  "mtime \<Rightarrow> packetInfo list \<Rightarrow> packetInfo list \<Rightarrow> bbrSender \<Rightarrow> (congestionEventSample \<times> bool \<times> bbrSender) res"
where
  "eventSample eventTime acked lost b =
     bindR (spOnCongestionEvent eventTime acked lost (GetBest (maxBandwidth b)) infBandwidth (roundTripCount b)
              (sampler b)) (\<lambda>(sample, s).
     let b' = updateMaxBandwidth (totalBytesAcked (sampler b)) sample
                (noteSendState (ev_lastPacketSendState sample) (b\<lparr>sampler := s\<rparr>))
     in if ev_sampleRtt sample \<noteq> infRTT
        then let (minRttExpired, b') = maybeUpdateMinRtt eventTime (ev_sampleRtt sample) b'
             in Inr (sample, minRttExpired, b')
        else Inr (sample, False, b'))"

definition eventMode ::
  "quic_params \<Rightarrow> int \<Rightarrow> int \<Rightarrow> int \<Rightarrow> int \<Rightarrow> mtime \<Rightarrow> bool \<Rightarrow> bool \<Rightarrow> bool \<Rightarrow> int \<Rightarrow> sendTimeState \<Rightarrow>
   bbrSender \<Rightarrow> bbrSender res"
where
  "eventMode q minRTT rnd rnd' priorInFlight eventTime hasLosses isRoundStart minRttExpired bytesLost st b =
     (let b = (if hasLosses
               then b\<lparr>numLossEventsInRound := u64 (numLossEventsInRound b + 1),
                      bytesLostInRound := i64 (bytesLostInRound b + bytesLost)\<rparr> else b)
      in bindR (if mode b = bbrModeProbeBw
                then updateGainCyclePhase minRTT eventTime priorInFlight hasLosses b else Inr b) (\<lambda>b.
      let b = (if isRoundStart \<and> \<not> isAtFullBandwidth b then checkIfFullBandwidthReached st b else b) in
      bindR (maybeExitStartupOrDrain minRTT rnd eventTime b)
        (maybeEnterOrExitProbeRtt q rnd' eventTime isRoundStart minRttExpired)))"

definition leastUnacked :: "packetInfo list \<Rightarrow> packetInfo list \<Rightarrow> int res" where
  "leastUnacked acked lost =
     (if acked \<noteq> [] then bindR (lastNumber acked) (\<lambda>n. Inr (i64 (n - 2)))
      else bindR (lastNumber lost) (\<lambda>n. Inr (i64 (n + 1))))"

definition OnCongestionEventEx ::
  "quic_params \<Rightarrow> int \<Rightarrow> int \<Rightarrow> int \<Rightarrow> int \<Rightarrow> mtime \<Rightarrow> packetInfo list \<Rightarrow> packetInfo list \<Rightarrow>
   bbrSender \<Rightarrow> bbrSender res"
where
  "OnCongestionEventEx q minRTT rnd rnd' priorInFlight eventTime acked lost b =
     (let totalBytesAckedBefore = totalBytesAcked (sampler b);
          totalBytesLostBefore = totalBytesLost (sampler b) in
      bindR (eventRound minRTT priorInFlight acked lost b) (\<lambda>(isRoundStart, b).
      bindR (eventSample eventTime acked lost b) (\<lambda>(sample, minRttExpired, b).
      let bytesLost = i64 (totalBytesLost (sampler b) - totalBytesLostBefore) in
      bindR (eventMode q minRTT rnd rnd' priorInFlight eventTime (lost \<noteq> []) isRoundStart minRttExpired bytesLost
               (ev_lastPacketSendState sample) b) (\<lambda>b.
      let bytesAcked = i64 (totalBytesAcked (sampler b) - totalBytesAckedBefore) in
      bindR (calculatePacingRate minRTT bytesLost b) (\<lambda>b.
      bindR (calculateCongestionWindow minRTT bytesAcked (ev_extraAcked sample) b) (\<lambda>b.
      bindR (calculateRecoveryWindow minRTT bytesAcked bytesLost b) (\<lambda>b.
      bindR (leastUnacked acked lost) (\<lambda>least.
      bindR (RemoveObsoletePackets least (sampler b)) (\<lambda>s.
      let b = b\<lparr>sampler := s\<rparr> in
      Inr (if isRoundStart then b\<lparr>numLossEventsInRound := 0, bytesLostInRound := 0\<rparr> else b))))))))))"

end
