(* ===== verification/BbrInvariant.thy ===== *)
theory BbrInvariant
  imports BbrSender
begin

text \<open>
  The invariant of the BBR sender and that every part of a congestion event keeps it: no
  panic, the windows within their bounds, the gains that belong to the mode, and the
  recovery window above its floor.
\<close>

section \<open>The invariant\<close>

definition windows_ok :: "bbrSender \<Rightarrow> bool" where
  "windows_ok b \<longleftrightarrow>
     0 < maxDatagramSize b \<and> maxDatagramSize b \<le> 65535 \<and>
     minCongestionWindow b = 4 * maxDatagramSize b \<and>
     minCongestionWindow b \<le> initialCongestionWindow b \<and> initialCongestionWindow b \<le> maxCongestionWindow b \<and>
     maxCongestionWindow b \<le> 1000000 * maxDatagramSize b \<and>
     minCongestionWindow b \<le> congestionWindow b \<and> congestionWindow b \<le> maxCongestionWindow b"

text \<open>
  What holds between any two parts of an event.  A mode that follows STARTUP is only entered
  at full bandwidth, and so is recovery.
\<close>

definition snd_core :: "bbrSender \<Rightarrow> bool" where
  "snd_core b \<longleftrightarrow>
     rttStats b \<and> windows_ok b \<and> pacer_inv (snd_pacer b) \<and>
     in_u64 (roundTripCount b) \<and> sp_inv (roundTripCount b) (sampler b) \<and>
     wf_inv (\<lambda>x. x) (roundTripCount b) (maxBandwidth b) \<and> in_i64 (minRtt b) \<and>
     (expireAckAggregationInStartup b \<longrightarrow> \<not> reduces (sampler b)) \<and>
     0 \<le> cycleCurrentOffset b \<and> cycleCurrentOffset b < gainCycleLength \<and>
     (InRecovery b \<longrightarrow> isAtFullBandwidth b)"

text \<open>The gains that belong to each mode.\<close>

definition mode_mid :: "bbrSender \<Rightarrow> bool" where
  "mode_mid b \<longleftrightarrow>
     (case mode b of
        bbrModeStartup \<Rightarrow> pacingGain b = highGain b \<and> congestionWindowGain b = highCwndGain b
      | bbrModeDrain \<Rightarrow> isAtFullBandwidth b \<and> pacingGain b = drainGain b \<and> congestionWindowGain b = highCwndGain b
      | bbrModeProbeBw \<Rightarrow> isAtFullBandwidth b \<and> pacingGain b \<in> set pacingGainCycle \<and>
                          congestionWindowGain b = congestionWindowGainConstant b
      | bbrModeProbeRtt \<Rightarrow> pacingGain b = F64 1 0)"

definition mode_ok :: "bbrSender \<Rightarrow> bool" where
  "mode_ok b \<longleftrightarrow> mode_mid b \<and> (mode b = bbrModeStartup \<longrightarrow> \<not> isAtFullBandwidth b)"

text \<open>What the mode changes leave alone: the recovery.\<close>

definition recov where
  "recov b = (recoveryState b, recoveryWindow b, minCongestionWindow b)"

definition snd_inv :: "bbrSender \<Rightarrow> bool" where
  "snd_inv b \<longleftrightarrow> snd_core b \<and> mode_ok b \<and> minCongestionWindow b \<le> recoveryWindow b"

lemma snd_coreD:
  assumes "snd_core b"
  shows "rttStats b" "windows_ok b" "pacer_inv (snd_pacer b)" "in_u64 (roundTripCount b)"
    "sp_inv (roundTripCount b) (sampler b)" "wf_inv (\<lambda>x. x) (roundTripCount b) (maxBandwidth b)"
    "in_i64 (minRtt b)" "expireAckAggregationInStartup b \<Longrightarrow> \<not> reduces (sampler b)"
    "0 \<le> cycleCurrentOffset b" "cycleCurrentOffset b < gainCycleLength"
    "InRecovery b \<Longrightarrow> isAtFullBandwidth b"
  using assms by (simp_all add: snd_core_def)

text \<open>Fields the invariants do not depend on.\<close>

lemma snd_core_fields [simp]:
  "snd_core (b\<lparr>mode := x0\<rparr>) = snd_core b"
  "snd_core (b\<lparr>pacingGain := x1\<rparr>) = snd_core b"
  "snd_core (b\<lparr>congestionWindowGain := x2\<rparr>) = snd_core b"
  "snd_core (b\<lparr>exitingQuiescence := x3\<rparr>) = snd_core b"
  "snd_core (b\<lparr>exitProbeRttAt := x4\<rparr>) = snd_core b"
  "snd_core (b\<lparr>probeRttRoundPassed := x5\<rparr>) = snd_core b"
  "snd_core (b\<lparr>minRttTimestamp := x6\<rparr>) = snd_core b"
  "snd_core (b\<lparr>lastCycleStart := x7\<rparr>) = snd_core b"
  "snd_core (b\<lparr>bytesInFlight := x8\<rparr>) = snd_core b"
  "snd_core (b\<lparr>pacingRate := x9\<rparr>) = snd_core b"
  "snd_core (b\<lparr>detectOvershooting := x10\<rparr>) = snd_core b"
  "snd_core (b\<lparr>bytesLostWhileDetectingOvershooting := x11\<rparr>) = snd_core b"
  "snd_core (b\<lparr>numLossEventsInRound := x12\<rparr>) = snd_core b"
  "snd_core (b\<lparr>bytesLostInRound := x13\<rparr>) = snd_core b"
  "snd_core (b\<lparr>recoveryWindow := x14\<rparr>) = snd_core b"
  "snd_core (b\<lparr>lastSampleIsAppLimited := x15\<rparr>) = snd_core b"
  "snd_core (b\<lparr>hasNoAppLimitedSample := x16\<rparr>) = snd_core b"
  "snd_core (b\<lparr>lastSentPacket := x17\<rparr>) = snd_core b"
  "snd_core (b\<lparr>currentRoundTripEnd := x18\<rparr>) = snd_core b"
  "snd_core (b\<lparr>endRecoveryAt := x19\<rparr>) = snd_core b"
  by (simp_all add: snd_core_def windows_ok_def InRecovery_def)

lemma mode_mid_fields [simp]:
  "mode_mid (b\<lparr>exitingQuiescence := x0\<rparr>) = mode_mid b"
  "mode_mid (b\<lparr>exitProbeRttAt := x1\<rparr>) = mode_mid b"
  "mode_mid (b\<lparr>probeRttRoundPassed := x2\<rparr>) = mode_mid b"
  "mode_mid (b\<lparr>minRttTimestamp := x3\<rparr>) = mode_mid b"
  "mode_mid (b\<lparr>lastCycleStart := x4\<rparr>) = mode_mid b"
  "mode_mid (b\<lparr>bytesInFlight := x5\<rparr>) = mode_mid b"
  "mode_mid (b\<lparr>pacingRate := x6\<rparr>) = mode_mid b"
  "mode_mid (b\<lparr>detectOvershooting := x7\<rparr>) = mode_mid b"
  "mode_mid (b\<lparr>bytesLostWhileDetectingOvershooting := x8\<rparr>) = mode_mid b"
  "mode_mid (b\<lparr>numLossEventsInRound := x9\<rparr>) = mode_mid b"
  "mode_mid (b\<lparr>bytesLostInRound := x10\<rparr>) = mode_mid b"
  "mode_mid (b\<lparr>recoveryWindow := x11\<rparr>) = mode_mid b"
  "mode_mid (b\<lparr>sampler := x12\<rparr>) = mode_mid b"
  "mode_mid (b\<lparr>congestionWindow := x13\<rparr>) = mode_mid b"
  "mode_mid (b\<lparr>lastSampleIsAppLimited := x14\<rparr>) = mode_mid b"
  "mode_mid (b\<lparr>hasNoAppLimitedSample := x15\<rparr>) = mode_mid b"
  "mode_mid (b\<lparr>lastSentPacket := x16\<rparr>) = mode_mid b"
  "mode_mid (b\<lparr>currentRoundTripEnd := x17\<rparr>) = mode_mid b"
  "mode_mid (b\<lparr>endRecoveryAt := x18\<rparr>) = mode_mid b"
  "mode_mid (b\<lparr>recoveryState := x19\<rparr>) = mode_mid b"
  "mode_mid (b\<lparr>roundTripCount := x20\<rparr>) = mode_mid b"
  "mode_mid (b\<lparr>minRtt := x21\<rparr>) = mode_mid b"
  "mode_mid (b\<lparr>maxBandwidth := x22\<rparr>) = mode_mid b"
  "mode_mid (b\<lparr>snd_pacer := x23\<rparr>) = mode_mid b"
  by (simp_all add: mode_mid_def cong: bbrMode.case_cong)

lemma mode_ok_fields [simp]:
  "mode_ok (b\<lparr>exitingQuiescence := x0\<rparr>) = mode_ok b"
  "mode_ok (b\<lparr>exitProbeRttAt := x1\<rparr>) = mode_ok b"
  "mode_ok (b\<lparr>probeRttRoundPassed := x2\<rparr>) = mode_ok b"
  "mode_ok (b\<lparr>minRttTimestamp := x3\<rparr>) = mode_ok b"
  "mode_ok (b\<lparr>lastCycleStart := x4\<rparr>) = mode_ok b"
  "mode_ok (b\<lparr>bytesInFlight := x5\<rparr>) = mode_ok b"
  "mode_ok (b\<lparr>pacingRate := x6\<rparr>) = mode_ok b"
  "mode_ok (b\<lparr>detectOvershooting := x7\<rparr>) = mode_ok b"
  "mode_ok (b\<lparr>bytesLostWhileDetectingOvershooting := x8\<rparr>) = mode_ok b"
  "mode_ok (b\<lparr>numLossEventsInRound := x9\<rparr>) = mode_ok b"
  "mode_ok (b\<lparr>bytesLostInRound := x10\<rparr>) = mode_ok b"
  "mode_ok (b\<lparr>recoveryWindow := x11\<rparr>) = mode_ok b"
  "mode_ok (b\<lparr>sampler := x12\<rparr>) = mode_ok b"
  "mode_ok (b\<lparr>congestionWindow := x13\<rparr>) = mode_ok b"
  "mode_ok (b\<lparr>lastSampleIsAppLimited := x14\<rparr>) = mode_ok b"
  "mode_ok (b\<lparr>hasNoAppLimitedSample := x15\<rparr>) = mode_ok b"
  "mode_ok (b\<lparr>lastSentPacket := x16\<rparr>) = mode_ok b"
  "mode_ok (b\<lparr>currentRoundTripEnd := x17\<rparr>) = mode_ok b"
  "mode_ok (b\<lparr>endRecoveryAt := x18\<rparr>) = mode_ok b"
  "mode_ok (b\<lparr>recoveryState := x19\<rparr>) = mode_ok b"
  "mode_ok (b\<lparr>roundTripCount := x20\<rparr>) = mode_ok b"
  "mode_ok (b\<lparr>minRtt := x21\<rparr>) = mode_ok b"
  "mode_ok (b\<lparr>maxBandwidth := x22\<rparr>) = mode_ok b"
  "mode_ok (b\<lparr>snd_pacer := x23\<rparr>) = mode_ok b"
  by (simp_all add: mode_ok_def)

lemma snd_core_appLimited [simp]: "snd_core b \<Longrightarrow> snd_core (b\<lparr>sampler := OnAppLimited (sampler b)\<rparr>)"
  by (auto simp: snd_core_def windows_ok_def InRecovery_def) (auto simp: OnAppLimited_def)

section \<open>Estimates\<close>

definition rtt_of :: "int \<Rightarrow> bbrSender \<Rightarrow> int" where
  "rtt_of minRTT b =
     (if minRtt b \<noteq> 0 then minRtt b else if minRTT = 0 then 100 * Millisecond else minRTT)"

lemma getMinRtt_eq: "rttStats b \<Longrightarrow> getMinRtt minRTT b = Inr (rtt_of minRTT b)"
  by (simp add: getMinRtt_def MinRTT_def rtt_of_def)

definition target_of :: "int \<Rightarrow> f64 \<Rightarrow> bbrSender \<Rightarrow> int" where
  "target_of minRTT gain b =
     (let bdp = bdpFromRttAndBandwidth (rtt_of minRTT b) (bandwidthEstimate b);
          cwnd = f64_to_i64 (f64_mul gain (f64_of_int bdp));
          cwnd = (if cwnd = 0 then f64_to_i64 (f64_mul gain (f64_of_int (initialCongestionWindow b))) else cwnd)
      in max cwnd (minCongestionWindow b))"

lemma getTarget_eq: "rttStats b \<Longrightarrow> getTargetCongestionWindow minRTT gain b = Inr (target_of minRTT gain b)"
  by (simp add: getTargetCongestionWindow_def getMinRtt_eq target_of_def Let_def)

lemma target_ge: "minCongestionWindow b \<le> target_of minRTT gain b"
  by (simp add: target_of_def Let_def)

lemma target_cong:
  "minRtt b' = minRtt b \<Longrightarrow> maxBandwidth b' = maxBandwidth b \<Longrightarrow>
   initialCongestionWindow b' = initialCongestionWindow b \<Longrightarrow> minCongestionWindow b' = minCongestionWindow b \<Longrightarrow>
   target_of minRTT gain b' = target_of minRTT gain b"
  by (simp add: target_of_def rtt_of_def bandwidthEstimate_def Let_def)

lemma rtt_of_nonzero: "rtt_of minRTT b \<noteq> 0" "in_i64 minRTT \<Longrightarrow> in_i64 (minRtt b) \<Longrightarrow> in_i64 (rtt_of minRTT b)"
  by (auto simp: rtt_of_def in_i64_def)

lemma bandwidthForPacer_ok:
  assumes "rttStats b" "in_i64 (minRtt b)" "in_i64 minRTT"
  shows "\<exists>bw. bandwidthForPacer minRTT b = Inr bw \<and> minBps \<le> bw \<and> in_i64 bw"
proof -
  from BandwidthFromDelta_safe [OF rtt_of_nonzero(2) rtt_of_nonzero(1)] assms
  obtain r where "BandwidthFromDelta (initialCongestionWindow b) (rtt_of minRTT b) = Inr r" by blast
  with assms(1) have "\<exists>pr. PacingRate minRTT b = Inr pr" by (simp add: PacingRate_def getMinRtt_eq)
  moreover have "in_i64 minBps" by (simp add: in_i64_def minBps_def)
  ultimately show ?thesis by (auto simp: bandwidthForPacer_def Let_def)
qed

section \<open>The parts of an event keep the invariant\<close>

lemma gainAt_ok: "0 \<le> i \<Longrightarrow> i < gainCycleLength \<Longrightarrow> \<exists>g. gainAt i = Inr g \<and> g \<in> set pacingGainCycle"
  using nth_mem [of "nat i" pacingGainCycle] by (simp add: gainAt_def gainCycleLength_def pacingGainCycle_def)

lemma enterProbeBandwidthMode_ok:
  assumes "snd_core b" "isAtFullBandwidth b" "0 \<le> rnd"
  shows "\<exists>b'. enterProbeBandwidthMode rnd now b = Inr b' \<and> snd_core b' \<and> mode_ok b' \<and> mode b' = bbrModeProbeBw \<and>
     isAtFullBandwidth b' \<and> recov b' = recov b \<and>
     sampler b' = sampler b \<and> roundTripCount b' = roundTripCount b \<and> cycleCurrentOffset b' \<noteq> 1"
proof -
  let ?r = "rnd smod 7"
  have r: "0 \<le> ?r" "?r < 7" using assms(3) smod_nonneg [of rnd 7] by simp_all
  let ?o = "if ?r \<ge> 1 then ?r + 1 else ?r"
  have "0 \<le> ?o" "?o < gainCycleLength" using r by (simp_all add: gainCycleLength_def)
  from gainAt_ok [OF this] obtain g where g: "gainAt ?o = Inr g" "g \<in> set pacingGainCycle" by blast
  have "enterProbeBandwidthMode rnd now b = Inr (b\<lparr>mode := bbrModeProbeBw,
      congestionWindowGain := congestionWindowGainConstant b, cycleCurrentOffset := ?o, lastCycleStart := now,
      pacingGain := g\<rparr>)"
    using g(1) by (simp add: enterProbeBandwidthMode_def gainCycleLength_def Let_def split: if_splits)
  then show ?thesis using assms(1,2) g(2) r
    by (auto simp: snd_core_def mode_ok_def mode_mid_def windows_ok_def InRecovery_def gainCycleLength_def recov_def)
qed

lemma maybeAppLimited_ok:
  assumes "snd_core b"
  shows "\<exists>s. maybeAppLimited minRTT n b = Inr (b\<lparr>sampler := s\<rparr>) \<and> snd_core (b\<lparr>sampler := s\<rparr>) \<and>
     (s = sampler b \<or> s = OnAppLimited (sampler b))"
proof -
  let ?s = "if n < target_of minRTT (F64 1 0) b then OnAppLimited (sampler b) else sampler b"
  have "maybeAppLimited minRTT n b = Inr (b\<lparr>sampler := ?s\<rparr>)"
    using snd_coreD(1) [OF assms] by (simp add: maybeAppLimited_def getTarget_eq)
  moreover have "snd_core (b\<lparr>sampler := ?s\<rparr>)"
    using assms by (auto simp: snd_core_def windows_ok_def InRecovery_def) (auto simp: OnAppLimited_def)
  ultimately show ?thesis by (intro exI [of _ ?s]) auto
qed

lemma shouldAdvanceGainCycling_ok: "rttStats b \<Longrightarrow> \<exists>a. shouldAdvanceGainCycling minRTT now prior losses b = Inr a"
  by (cases "f64_less f64_one (pacingGain b)"; cases losses; cases "f64_less (pacingGain b) f64_one")
    (simp_all add: shouldAdvanceGainCycling_def getMinRtt_eq getTarget_eq Let_def split del: if_split)

lemma stayInLowGain_ok:
  "rttStats b \<Longrightarrow> gainAt (cycleCurrentOffset b) = Inr g \<Longrightarrow> \<exists>a. stayInLowGain minRTT b = Inr a"
  by (auto simp: stayInLowGain_def getTarget_eq)

lemma updateGainCyclePhase_ok:
  assumes "snd_core b" "mode_mid b" "mode b = bbrModeProbeBw"
  shows "\<exists>b'. updateGainCyclePhase minRTT now prior losses b = Inr b' \<and> snd_core b' \<and> mode_mid b' \<and>
     mode b' = bbrModeProbeBw \<and> isAtFullBandwidth b' = isAtFullBandwidth b \<and>
     recov b' = recov b \<and>
     sampler b' = sampler b \<and> roundTripCount b' = roundTripCount b"
proof -
  let ?o = "(cycleCurrentOffset b + 1) smod gainCycleLength"
  let ?b = "b\<lparr>cycleCurrentOffset := ?o, lastCycleStart := now\<rparr>"
  have o: "0 \<le> ?o" "?o < gainCycleLength"
    using snd_coreD(9) [OF assms(1)] smod_nonneg [of "cycleCurrentOffset b + 1" 8] by (simp_all add: gainCycleLength_def)
  from gainAt_ok [OF o] obtain g where g: "gainAt ?o = Inr g" "g \<in> set pacingGainCycle" by blast
  note r = snd_coreD(1) [OF assms(1)]
  from shouldAdvanceGainCycling_ok [OF r] stayInLowGain_ok [of ?b g minRTT] r g(1) obtain a a' where
    "shouldAdvanceGainCycling minRTT now prior losses b = Inr a" "stayInLowGain minRTT ?b = Inr a'" by force
  then have "updateGainCyclePhase minRTT now prior losses b \<in> {Inr b, Inr ?b, Inr (?b\<lparr>pacingGain := g\<rparr>)}"
    using g(1) by (simp add: updateGainCyclePhase_def Let_def)
  moreover have "snd_core (b\<lparr>cycleCurrentOffset := ?o\<rparr>)"
    using assms(1) o by (simp add: snd_core_def windows_ok_def InRecovery_def)
  then have "snd_core ?b" "snd_core (?b\<lparr>pacingGain := g\<rparr>)" by simp_all
  moreover have "mode_mid ?b" "mode_mid (?b\<lparr>pacingGain := g\<rparr>)"
    using assms(2,3) g(2) by (simp_all add: mode_mid_def)
  ultimately show ?thesis using assms by (auto simp: recov_def)
qed

lemma checkIfFullBandwidthReached_ok:
  assumes "snd_core b" "mode_mid b" "\<not> isAtFullBandwidth b" "b' = checkIfFullBandwidthReached st b"
  shows "snd_core b' \<and> mode_mid b' \<and> mode b' = mode b \<and> recov b' = recov b \<and> roundTripCount b' = roundTripCount b \<and>
    totalBytesAcked (sampler b') = totalBytesAcked (sampler b) \<and> totalBytesLost (sampler b') = totalBytesLost (sampler b)"
proof -
  have m: "mode b = bbrModeStartup \<or> mode b = bbrModeProbeRtt"
    using assms(2,3) by (cases "mode b") (auto simp: mode_mid_def)
  have s: "sp_inv (roundTripCount b) (ResetMaxAckHeightTracker 0 (roundTripCount b) (sampler b))"
    if "expireAckAggregationInStartup b"
    using mahReset_inv [OF sp_invD(4) [OF snd_coreD(5) [OF assms(1)]] snd_coreD(4) [OF assms(1)]]
      snd_coreD(5,8) [OF assms(1)] that by (simp add: sp_inv_def ResetMaxAckHeightTracker_def)
  show ?thesis using assms(1,2,3) m s unfolding assms(4) checkIfFullBandwidthReached_def Let_def
    by (auto simp: snd_core_def mode_mid_def windows_ok_def InRecovery_def ResetMaxAckHeightTracker_def mahReset_def recov_def)
qed

lemma maybeExitStartupOrDrain_ok:
  assumes "snd_core b" "mode_mid b" "0 \<le> rnd"
  shows "\<exists>b'. maybeExitStartupOrDrain minRTT rnd now b = Inr b' \<and> snd_core b' \<and> mode_ok b' \<and>
     isAtFullBandwidth b' = isAtFullBandwidth b \<and>
     recov b' = recov b \<and>
     sampler b' = sampler b \<and> roundTripCount b' = roundTripCount b \<and>
     (mode b' = mode b \<or> mode b = bbrModeStartup \<and> isAtFullBandwidth b \<and> mode b' \<in> {bbrModeDrain, bbrModeProbeBw} \<or>
      mode b = bbrModeDrain \<and> mode b' = bbrModeProbeBw)"
proof -
  define b1 where "b1 = (if mode b = bbrModeStartup \<and> isAtFullBandwidth b
     then b\<lparr>mode := bbrModeDrain, pacingGain := drainGain b, congestionWindowGain := highCwndGain b\<rparr> else b)"
  have b1: "snd_core b1" "mode_ok b1" "isAtFullBandwidth b1 = isAtFullBandwidth b"
    "recov b1 = recov b" "sampler b1 = sampler b"
    "roundTripCount b1 = roundTripCount b" "mode b1 = mode b \<or> mode b = bbrModeStartup \<and> isAtFullBandwidth b \<and> mode b1 = bbrModeDrain"
    using assms(1,2) by (auto simp: b1_def snd_core_def mode_ok_def mode_mid_def windows_ok_def InRecovery_def recov_def)
  have d: "mode b1 = bbrModeDrain \<Longrightarrow> isAtFullBandwidth b1" using b1(2) by (auto simp: mode_ok_def mode_mid_def)
  have e: "maybeExitStartupOrDrain minRTT rnd now b =
     (if mode b1 = bbrModeDrain \<and> bytesInFlight b1 \<le> target_of minRTT (F64 1 0) b1
      then enterProbeBandwidthMode rnd now b1 else Inr b1)"
    using snd_coreD(1) [OF b1(1)] unfolding maybeExitStartupOrDrain_def b1_def [symmetric] Let_def
    by (simp add: getTarget_eq)
  show ?thesis
  proof (cases "mode b1 = bbrModeDrain \<and> bytesInFlight b1 \<le> target_of minRTT (F64 1 0) b1")
    case True
    with d have full: "isAtFullBandwidth b1" by simp
    from enterProbeBandwidthMode_ok [OF b1(1) full assms(3), of now] True full e b1 show ?thesis by auto
  next
    case False
    then show ?thesis using e b1 by auto
  qed
qed

lemma maybeEnterOrExitProbeRtt_ok:
  assumes "snd_core b" "mode_ok b" "0 \<le> rnd"
  shows "\<exists>b'. maybeEnterOrExitProbeRtt q rnd now rs ex b = Inr b' \<and> snd_core b' \<and> mode_ok b' \<and>
     isAtFullBandwidth b' = isAtFullBandwidth b \<and>
     recov b' = recov b \<and>
     totalBytesAcked (sampler b') = totalBytesAcked (sampler b) \<and>
     totalBytesLost (sampler b') = totalBytesLost (sampler b) \<and> roundTripCount b' = roundTripCount b \<and>
     (mode b' = mode b \<or> mode b' = bbrModeProbeRtt \<or>
      mode b = bbrModeProbeRtt \<and> mode b' = (if isAtFullBandwidth b then bbrModeProbeBw else bbrModeStartup))"
proof -
  define b1 where "b1 = (if ex \<and> \<not> exitingQuiescence b \<and> mode b \<noteq> bbrModeProbeRtt
     then b\<lparr>mode := bbrModeProbeRtt, pacingGain := F64 1 0, exitProbeRttAt := 0\<rparr> else b)"
  define b2 where "b2 = b1\<lparr>sampler := OnAppLimited (sampler b1)\<rparr>"
  define b3 where "b3 = (if rs then b2\<lparr>probeRttRoundPassed := True\<rparr> else b2)\<lparr>minRttTimestamp := now\<rparr>"
  have b1: "snd_core b1" "mode_ok b1" using assms(1,2) by (simp_all add: b1_def mode_ok_def mode_mid_def)
  then have b2: "snd_core b2" "mode_ok b2" by (simp_all add: b2_def)
  then have b3: "snd_core b3" "mode_ok b3" by (simp_all add: b3_def)
  have f: "isAtFullBandwidth b3 = isAtFullBandwidth b" "mode b3 = mode b1"
    "recov b3 = recov b"
    "totalBytesAcked (sampler b3) = totalBytesAcked (sampler b)"
    "totalBytesLost (sampler b3) = totalBytesLost (sampler b)" "roundTripCount b3 = roundTripCount b"
    by (simp_all add: b3_def b2_def b1_def OnAppLimited_def recov_def)
  have su: "snd_core (enterStartupMode now b3)" "\<not> isAtFullBandwidth b3 \<Longrightarrow> mode_ok (enterStartupMode now b3)"
    using b3 by (simp_all add: enterStartupMode_def mode_ok_def mode_mid_def)
  consider "mode b1 \<noteq> bbrModeProbeRtt"
    | "mode b1 = bbrModeProbeRtt" "IsZero (exitProbeRttAt b2)"
    | "mode b1 = bbrModeProbeRtt" "\<not> IsZero (exitProbeRttAt b2)" "Sub now (exitProbeRttAt b3) \<ge> 0 \<and> probeRttRoundPassed b3"
    | "mode b1 = bbrModeProbeRtt" "\<not> IsZero (exitProbeRttAt b2)" "\<not> (Sub now (exitProbeRttAt b3) \<ge> 0 \<and> probeRttRoundPassed b3)"
    by blast
  then show ?thesis
  proof cases
    case 1
    then show ?thesis using b1 assms unfolding maybeEnterOrExitProbeRtt_def b1_def [symmetric] Let_def
      by (auto simp: b1_def recov_def)
  next
    case 2
    then show ?thesis using b1 b2 unfolding maybeEnterOrExitProbeRtt_def b1_def [symmetric] Let_def b2_def [symmetric]
      by (auto simp: b2_def b1_def OnAppLimited_def recov_def)
  next
    case 3
    have e: "mode b1 \<noteq> mode b \<Longrightarrow> exitProbeRttAt b2 = 0" by (auto simp: b2_def b1_def)
    then have m: "mode b = bbrModeProbeRtt" using 3(1,2) by (cases "mode b1 = mode b") (auto simp: IsZero_def)
    have "maybeEnterOrExitProbeRtt q rnd now rs ex b = bindR (if \<not> isAtFullBandwidth b3 then Inr (enterStartupMode now b3)
        else enterProbeBandwidthMode rnd now b3) (\<lambda>b. Inr (b\<lparr>exitingQuiescence := False\<rparr>))"
      using 3 unfolding maybeEnterOrExitProbeRtt_def b1_def [symmetric] Let_def b2_def [symmetric]
      by (auto simp: b3_def b2_def)
    then show ?thesis
      using f m b3 su enterProbeBandwidthMode_ok [OF b3(1) _ assms(3), of now]
      by (cases "isAtFullBandwidth b3") (auto simp: enterStartupMode_def recov_def)
  next
    case 4
    then show ?thesis using b1 b2 unfolding maybeEnterOrExitProbeRtt_def b1_def [symmetric] Let_def b2_def [symmetric]
      by (auto simp: b3_def b2_def b1_def OnAppLimited_def recov_def)
  qed
qed

text \<open>
  While the recovery window is being rebuilt it may be zero; outside recovery it never is.
\<close>

definition rec_mid :: "bbrSender \<Rightarrow> bool" where
  "rec_mid b \<longleftrightarrow> (\<not> InRecovery b \<longrightarrow> minCongestionWindow b \<le> recoveryWindow b)"

text \<open>What one part of an event leaves alone.\<close>

definition kept where
  "kept b = (totalBytesAcked (sampler b), totalBytesLost (sampler b), minCongestionWindow b, maxDatagramSize b,
             highGain b, drainGain b, congestionWindowGainConstant b, snd_pacer b)"

lemma updateRoundTripCounter_ok:
  assumes "snd_core b" "mode_ok b" "roundTripCount b < 18446744073709551615"
    and "updateRoundTripCounter n b = (rs, b')"
  shows "snd_core b' \<and> mode_ok b' \<and> mode b' = mode b \<and> isAtFullBandwidth b' = isAtFullBandwidth b \<and>
    kept b' = kept b \<and> recov b' = recov b"
proof -
  let ?t = "u64 (roundTripCount b + 1)"
  have t: "?t = roundTripCount b + 1" "roundTripCount b \<le> ?t" "in_u64 ?t"
    using assms(3) snd_coreD(4) [OF assms(1)] by (auto simp: in_u64_def u64_small)
  have "sp_inv ?t (sampler b)" "wf_inv (\<lambda>x. x) ?t (maxBandwidth b)"
    using sp_inv_mono [OF snd_coreD(5) [OF assms(1)] t(2,3)] wf_inv_mono [OF snd_coreD(6) [OF assms(1)] t(2,3)] by simp_all
  then have "snd_core (b\<lparr>roundTripCount := ?t\<rparr>)"
    using assms(1) t(3) by (simp add: snd_core_def windows_ok_def InRecovery_def)
  with assms(1,2,4) show ?thesis by (auto simp: updateRoundTripCounter_def kept_def recov_def split: if_splits)
qed

lemma snd_core_recovery: "snd_core b \<Longrightarrow> isAtFullBandwidth b \<Longrightarrow> snd_core (b\<lparr>recoveryState := r\<rparr>)"
  by (simp add: snd_core_def windows_ok_def InRecovery_def)

lemma updateRecoveryState_ok:
  assumes "snd_core b" "mode_ok b" "minCongestionWindow b \<le> recoveryWindow b"
    and "b' = updateRecoveryState n losses rs b"
  shows "snd_core b' \<and> mode_ok b' \<and> rec_mid b' \<and> mode b' = mode b \<and> isAtFullBandwidth b' = isAtFullBandwidth b \<and> kept b' = kept b"
proof (cases "isAtFullBandwidth b")
  case False
  then show ?thesis using assms by (simp add: updateRecoveryState_def rec_mid_def)
next
  case True
  show ?thesis
    using True assms(1-3) snd_core_recovery [OF assms(1) True] unfolding assms(4)
    by (cases "recoveryState b")
      (simp_all add: updateRecoveryState_def Let_def rec_mid_def InRecovery_def kept_def snd_core_recovery)
qed

lemma eventRound_ok:
  assumes "snd_core b" "mode_ok b" "minCongestionWindow b \<le> recoveryWindow b"
    "roundTripCount b < 18446744073709551615"
  shows "\<exists>rs b'. eventRound minRTT prior acked lost b = Inr (rs, b') \<and> snd_core b' \<and> mode_ok b' \<and> rec_mid b' \<and>
     mode b' = mode b \<and> isAtFullBandwidth b' = isAtFullBandwidth b \<and> kept b' = kept b"
proof -
  from maybeAppLimited_ok [OF assms(1), of minRTT prior] obtain s where
    s: "maybeAppLimited minRTT prior b = Inr (b\<lparr>sampler := s\<rparr>)" "snd_core (b\<lparr>sampler := s\<rparr>)"
      "s = sampler b \<or> s = OnAppLimited (sampler b)" by blast
  define b1 where "b1 = b\<lparr>sampler := s, bytesInFlight := subtractBytes lost (subtractBytes acked prior)\<rparr>"
  have b1: "snd_core b1" "mode_ok b1" "minCongestionWindow b1 \<le> recoveryWindow b1" "kept b1 = kept b"
    "mode b1 = mode b" "isAtFullBandwidth b1 = isAtFullBandwidth b" "roundTripCount b1 < 18446744073709551615"
    using s(2,3) assms(2-4) by (auto simp: b1_def kept_def OnAppLimited_def)
  show ?thesis
  proof (cases "acked = []")
    case True
    then have "eventRound minRTT prior acked lost b = Inr (False, b1)" using s(1) by (simp add: eventRound_def b1_def)
    then show ?thesis using b1 by (intro exI [of _ False] exI [of _ b1]) (simp add: rec_mid_def)
  next
    case False
    obtain rs b2 where u: "updateRoundTripCounter (fst (last acked)) b1 = (rs, b2)" by fastforce
    note b2 = updateRoundTripCounter_ok [OF b1(1,2,7) u]
    have "minCongestionWindow b2 \<le> recoveryWindow b2" using b2 b1(3) by (simp add: recov_def)
    note b3 = updateRecoveryState_ok [OF _ _ this refl, of "fst (last acked)" "lost \<noteq> []" rs]
    have "eventRound minRTT prior acked lost b = Inr (rs, updateRecoveryState (fst (last acked)) (lost \<noteq> []) rs b2)"
      using s(1) False u by (simp add: eventRound_def b1_def [symmetric] lastNumber_def)
    then show ?thesis using b2 b3 b1 by simp
  qed
qed

lemma maybeUpdateMinRtt_ok:
  assumes "snd_core b" "in_i64 r" "maybeUpdateMinRtt now r b = (x, b')"
  shows "snd_core b' \<and> (b' = b \<or> b' = b\<lparr>minRtt := r, minRttTimestamp := now\<rparr>)"
proof -
  have "snd_core (b\<lparr>minRtt := r\<rparr>)" using assms(1,2) by (simp add: snd_core_def windows_ok_def InRecovery_def)
  then show ?thesis using assms(1,3) by (auto simp: maybeUpdateMinRtt_def Let_def split: if_splits)
qed

lemma snd_core_sampler:
  "snd_core b \<Longrightarrow> sp_inv (roundTripCount b) s \<Longrightarrow> reduces s = reduces (sampler b) \<Longrightarrow> snd_core (b\<lparr>sampler := s\<rparr>)"
  by (simp add: snd_core_def windows_ok_def InRecovery_def)

lemma snd_core_maxBandwidth:
  "snd_core b \<Longrightarrow> snd_core (b\<lparr>maxBandwidth := wfUpdate MaxFilter 0 x (roundTripCount b) (maxBandwidth b)\<rparr>)"
  using wfUpdate_inv [OF MaxFilter_keyed, of "roundTripCount b" "maxBandwidth b" "roundTripCount b" 0 x]
  by (simp add: snd_core_def windows_ok_def InRecovery_def)

text \<open>The fields the sampling part does not touch.\<close>

definition modal where
  "modal b = (mode b, isAtFullBandwidth b, pacingGain b, congestionWindowGain b, recoveryState b, recoveryWindow b,
     minCongestionWindow b, congestionWindow b, highGain b, highCwndGain b, drainGain b, congestionWindowGainConstant b)"

lemma modalD:
  assumes "modal b' = modal b"
  shows "mode_ok b' = mode_ok b" "rec_mid b' = rec_mid b" "mode b' = mode b" "isAtFullBandwidth b' = isAtFullBandwidth b"
    "recov b' = recov b"
proof -
  show "mode_ok b' = mode_ok b"
    using assms by (cases "mode b") (simp_all add: modal_def mode_ok_def mode_mid_def)
qed (use assms in \<open>simp_all add: modal_def rec_mid_def InRecovery_def recov_def\<close>)

lemma rec_mid_recov: "recov b' = recov b \<Longrightarrow> rec_mid b' = rec_mid b"
  by (simp add: recov_def rec_mid_def InRecovery_def)

lemma noteSendState_ok: "snd_core (noteSendState st b) = snd_core b \<and> modal (noteSendState st b) = modal b"
  by (simp add: noteSendState_def Let_def modal_def)

lemma updateMaxBandwidth_ok:
  "snd_core b \<Longrightarrow> snd_core (updateMaxBandwidth n ev b) \<and> modal (updateMaxBandwidth n ev b) = modal b"
  using snd_core_maxBandwidth by (simp add: updateMaxBandwidth_def modal_def)

lemma eventSample_ok:
  assumes "snd_core b" "packets_ok acked" "packets_ok lost"
  shows "\<exists>ev x b'. eventSample now acked lost b = Inr (ev, x, b') \<and> snd_core b' \<and> modal b' = modal b"
proof -
  from spOnCongestionEvent_ok [OF snd_coreD(5) [OF assms(1)] assms(2,3) order_refl snd_coreD(4) [OF assms(1)]]
  obtain ev s where s: "spOnCongestionEvent now acked lost (GetBest (maxBandwidth b)) infBandwidth (roundTripCount b) (sampler b)
      = Inr (ev, s)" "sp_inv (roundTripCount b) s" "reduces s = reduces (sampler b)" "in_i64 (ev_sampleRtt ev)" by blast
  define b3 where "b3 = updateMaxBandwidth (totalBytesAcked (sampler b)) ev
     (noteSendState (ev_lastPacketSendState ev) (b\<lparr>sampler := s\<rparr>))"
  have "modal (b\<lparr>sampler := s\<rparr>) = modal b" by (simp add: modal_def)
  with snd_core_sampler [OF assms(1) s(2,3)] have b3: "snd_core b3" "modal b3 = modal b"
    by (simp_all add: b3_def updateMaxBandwidth_ok noteSendState_ok)
  obtain x b4 where b4: "maybeUpdateMinRtt now (ev_sampleRtt ev) b3 = (x, b4)" by fastforce
  from maybeUpdateMinRtt_ok [OF b3(1) s(4) b4] b3(2) have "snd_core b4" "modal b4 = modal b"
    by (auto simp: modal_def)
  moreover have "eventSample now acked lost b = (if ev_sampleRtt ev \<noteq> infRTT then Inr (ev, x, b4) else Inr (ev, False, b3))"
    using s(1) b4 by (simp add: eventSample_def b3_def [symmetric])
  ultimately show ?thesis using b3 by (cases "ev_sampleRtt ev \<noteq> infRTT") auto
qed

lemma eventMode_ok:
  assumes "snd_core b" "mode_ok b" "rec_mid b" "0 \<le> rnd" "0 \<le> rnd'"
  shows "\<exists>b'. eventMode q minRTT rnd rnd' prior now losses rs ex bytesLost st b = Inr b' \<and>
     snd_core b' \<and> mode_ok b' \<and> rec_mid b' \<and> recoveryState b' = recoveryState b \<and>
     (isAtFullBandwidth b \<longrightarrow> isAtFullBandwidth b') \<and>
     (mode b' = mode b \<or> mode b' = bbrModeProbeRtt \<or>
      mode b = bbrModeProbeRtt \<and> mode b' = (if isAtFullBandwidth b' then bbrModeProbeBw else bbrModeStartup) \<or>
      mode b = bbrModeStartup \<and> isAtFullBandwidth b' \<and> mode b' \<in> {bbrModeDrain, bbrModeProbeBw} \<or>
      mode b = bbrModeDrain \<and> mode b' = bbrModeProbeBw)"
proof -
  define b1 where "b1 = (if losses then b\<lparr>numLossEventsInRound := u64 (numLossEventsInRound b + 1),
     bytesLostInRound := i64 (bytesLostInRound b + bytesLost)\<rparr> else b)"
  have b1: "snd_core b1" "mode_mid b1" "recov b1 = recov b" "mode b1 = mode b" "isAtFullBandwidth b1 = isAtFullBandwidth b"
    using assms(1-2) by (simp_all add: b1_def mode_ok_def recov_def)
  have "\<exists>b2. (if mode b1 = bbrModeProbeBw then updateGainCyclePhase minRTT now prior losses b1 else Inr b1) = Inr b2 \<and>
      snd_core b2 \<and> mode_mid b2 \<and> recov b2 = recov b1 \<and> mode b2 = mode b1 \<and> isAtFullBandwidth b2 = isAtFullBandwidth b1"
    using updateGainCyclePhase_ok [OF b1(1,2), of minRTT now prior losses] b1(1,2) by fastforce
  then obtain b2 where b2: "(if mode b1 = bbrModeProbeBw then updateGainCyclePhase minRTT now prior losses b1 else Inr b1) = Inr b2"
      "snd_core b2" "mode_mid b2" "recov b2 = recov b" "mode b2 = mode b" "isAtFullBandwidth b2 = isAtFullBandwidth b"
    using b1 by auto
  define b3 where "b3 = (if rs \<and> \<not> isAtFullBandwidth b2 then checkIfFullBandwidthReached st b2 else b2)"
  have b3: "snd_core b3" "mode_mid b3" "recov b3 = recov b" "mode b3 = mode b" "isAtFullBandwidth b \<longrightarrow> isAtFullBandwidth b3"
    using checkIfFullBandwidthReached_ok [OF b2(2,3) _ refl, of st] b2 by (auto simp: b3_def)
  from maybeExitStartupOrDrain_ok [OF b3(1,2) assms(4), of minRTT now] obtain b4 where
    b4: "maybeExitStartupOrDrain minRTT rnd now b3 = Inr b4" "snd_core b4" "mode_ok b4"
      "isAtFullBandwidth b4 = isAtFullBandwidth b3" "recov b4 = recov b3"
      "mode b4 = mode b3 \<or> mode b3 = bbrModeStartup \<and> isAtFullBandwidth b3 \<and> mode b4 \<in> {bbrModeDrain, bbrModeProbeBw} \<or>
       mode b3 = bbrModeDrain \<and> mode b4 = bbrModeProbeBw" by blast
  from maybeEnterOrExitProbeRtt_ok [OF b4(2,3) assms(5), of q now rs ex] obtain b5 where
    b5: "maybeEnterOrExitProbeRtt q rnd' now rs ex b4 = Inr b5" "snd_core b5" "mode_ok b5"
      "isAtFullBandwidth b5 = isAtFullBandwidth b4" "recov b5 = recov b4"
      "mode b5 = mode b4 \<or> mode b5 = bbrModeProbeRtt \<or>
       mode b4 = bbrModeProbeRtt \<and> mode b5 = (if isAtFullBandwidth b4 then bbrModeProbeBw else bbrModeStartup)" by blast
  have "eventMode q minRTT rnd rnd' prior now losses rs ex bytesLost st b = Inr b5"
    using b2(1) b4(1) b5(1) unfolding eventMode_def Let_def b1_def [symmetric] by (simp add: b3_def [symmetric])
  moreover have "rec_mid b5" using rec_mid_recov [of b5 b] b5(5) b4(5) b3(3) assms(3) by simp
  moreover have "recoveryState b5 = recoveryState b" using b5(5) b4(5) b3(3) by (simp add: recov_def)
  moreover have "mode b5 = mode b \<or> mode b5 = bbrModeProbeRtt \<or>
      mode b = bbrModeProbeRtt \<and> mode b5 = (if isAtFullBandwidth b5 then bbrModeProbeBw else bbrModeStartup) \<or>
      mode b = bbrModeStartup \<and> isAtFullBandwidth b5 \<and> mode b5 \<in> {bbrModeDrain, bbrModeProbeBw} \<or>
      mode b = bbrModeDrain \<and> mode b5 = bbrModeProbeBw"
    using b5(4,6) b4(4,6) b3(4) by auto
  ultimately show ?thesis using b5(2,3,4) b4(4) b3(5) by blast
qed

text \<open>
  The pacing rate: full bandwidth follows the estimate; in startup the rate does not fall,
  except when overshooting was detected, and then not below the target.
\<close>

lemma calculatePacingRate_ok:
  assumes "snd_core b" "in_i64 minRTT" "minRTT \<noteq> 0 \<or> \<not> detectOvershooting b"
  shows "\<exists>r d n. calculatePacingRate minRTT bytesLost b =
       Inr (b\<lparr>pacingRate := r, detectOvershooting := d, bytesLostWhileDetectingOvershooting := n\<rparr>) \<and>
     (bandwidthEstimate b \<noteq> 0 \<longrightarrow> isAtFullBandwidth b \<longrightarrow>
        r = f64_to_u64 (f64_mul (pacingGain b) (f64_of_int (bandwidthEstimate b)))) \<and>
     (\<not> isAtFullBandwidth b \<longrightarrow> \<not> detectOvershooting b \<longrightarrow> 0 \<le> pacingRate b \<longrightarrow> pacingRate b \<le> r)"
proof -
  let ?target = "f64_to_u64 (f64_mul (pacingGain b) (f64_of_int (bandwidthEstimate b)))"
  let ?n = "i64 (bytesLostWhileDetectingOvershooting b + bytesLost)"
  note r = snd_coreD(1) [OF assms(1)]
  have id: "b = b\<lparr>pacingRate := pacingRate b, detectOvershooting := detectOvershooting b,
      bytesLostWhileDetectingOvershooting := bytesLostWhileDetectingOvershooting b\<rparr>" by simp
  have B: "\<exists>x. BandwidthFromDelta y minRTT = Inr x \<and> in_u64 x" if "minRTT \<noteq> 0" for y
    using BandwidthFromDelta_safe [OF assms(2) that] .
  consider "bandwidthEstimate b = 0" | "bandwidthEstimate b \<noteq> 0" "isAtFullBandwidth b"
    | "bandwidthEstimate b \<noteq> 0" "\<not> isAtFullBandwidth b" "pacingRate b = 0" "minRTT \<noteq> 0"
    | "bandwidthEstimate b \<noteq> 0" "\<not> isAtFullBandwidth b" "pacingRate b \<noteq> 0 \<or> minRTT = 0" "\<not> detectOvershooting b"
    | "bandwidthEstimate b \<noteq> 0" "\<not> isAtFullBandwidth b" "pacingRate b \<noteq> 0 \<or> minRTT = 0" "detectOvershooting b" by blast
  then show ?thesis
  proof cases
    case 1
    then have "calculatePacingRate minRTT bytesLost b = Inr b" by (simp add: calculatePacingRate_def)
    with 1 id show ?thesis by (metis order_refl)
  next
    case 2
    then have "calculatePacingRate minRTT bytesLost b = Inr (b\<lparr>pacingRate := ?target,
        detectOvershooting := detectOvershooting b,
        bytesLostWhileDetectingOvershooting := bytesLostWhileDetectingOvershooting b\<rparr>)"
      by (simp add: calculatePacingRate_def)
    with 2 show ?thesis by blast
  next
    case 3
    from B [OF 3(4)] obtain x where x: "BandwidthFromDelta (initialCongestionWindow b) minRTT = Inr x" "in_u64 x" by blast
    with 3 r have "calculatePacingRate minRTT bytesLost b = Inr (b\<lparr>pacingRate := x,
        detectOvershooting := detectOvershooting b,
        bytesLostWhileDetectingOvershooting := bytesLostWhileDetectingOvershooting b\<rparr>)"
      by (simp add: calculatePacingRate_def MinRTT_def)
    with 3 x(2) show ?thesis unfolding in_u64_def by metis
  next
    case 4
    with r have "calculatePacingRate minRTT bytesLost b = Inr (b\<lparr>pacingRate := max (pacingRate b) ?target,
        detectOvershooting := detectOvershooting b,
        bytesLostWhileDetectingOvershooting := bytesLostWhileDetectingOvershooting b\<rparr>)"
      by (auto simp: calculatePacingRate_def MinRTT_def)
    with 4 show ?thesis by (metis max.cobounded1)
  next
    case 5
    with assms(3) have "minRTT \<noteq> 0" by simp
    from B [OF this] obtain x where x: "BandwidthFromDelta (cwndToCalculateMinPacingRate b) minRTT = Inr x" by blast
    have "calculatePacingRate minRTT bytesLost b \<in>
       {Inr (b\<lparr>pacingRate := max (max ?target x) ?target, detectOvershooting := False, bytesLostWhileDetectingOvershooting := 0\<rparr>),
        Inr (b\<lparr>pacingRate := max (pacingRate b) ?target, detectOvershooting := True, bytesLostWhileDetectingOvershooting := ?n\<rparr>)}"
      using 5 r x \<open>minRTT \<noteq> 0\<close> by (simp add: calculatePacingRate_def MinRTT_def Let_def)
    with 5 show ?thesis by blast
  qed
qed

lemma calculateCongestionWindow_ok:
  assumes "snd_core b"
  shows "\<exists>w. calculateCongestionWindow minRTT acked excess b = Inr (b\<lparr>congestionWindow := w\<rparr>) \<and>
     snd_core (b\<lparr>congestionWindow := w\<rparr>) \<and>
     (mode b = bbrModeProbeRtt \<longrightarrow> w = congestionWindow b) \<and>
     (mode b \<noteq> bbrModeProbeRtt \<longrightarrow> isAtFullBandwidth b \<longrightarrow> 0 \<le> MaxAckHeight (sampler b) \<longrightarrow>
        in_i64 (target_of minRTT (congestionWindowGain b) b + MaxAckHeight (sampler b)) \<longrightarrow>
        w \<le> target_of minRTT (congestionWindowGain b) b + MaxAckHeight (sampler b))"
proof (cases "mode b = bbrModeProbeRtt")
  case True
  with assms show ?thesis by (intro exI [of _ "congestionWindow b"]) (simp add: calculateCongestionWindow_def)
next
  case False
  let ?t = "target_of minRTT (congestionWindowGain b) b" and ?h = "MaxAckHeight (sampler b)"
  let ?w0 = "grownWindow (aggregatedTarget ?t excess b) acked b"
  let ?w = "min (max ?w0 (minCongestionWindow b)) (maxCongestionWindow b)"
  have "calculateCongestionWindow minRTT acked excess b = Inr (b\<lparr>congestionWindow := ?w\<rparr>)"
    using False snd_coreD(1) [OF assms] by (simp add: calculateCongestionWindow_def getTarget_eq)
  moreover have "windows_ok (b\<lparr>congestionWindow := ?w\<rparr>)"
    using snd_coreD(2) [OF assms] by (simp add: windows_ok_def)
  then have "snd_core (b\<lparr>congestionWindow := ?w\<rparr>)" using assms by (simp add: snd_core_def InRecovery_def)
  moreover have "?w \<le> ?t + ?h" if "isAtFullBandwidth b" "0 \<le> ?h" "in_i64 (?t + ?h)"
  proof -
    have "grownWindow (aggregatedTarget ?t excess b) acked b \<le> ?t + ?h"
      using that by (simp add: grownWindow_def aggregatedTarget_def i64_id)
    moreover have "minCongestionWindow b \<le> ?t + ?h"
      using target_ge [of b minRTT "congestionWindowGain b"] that(2) by simp
    ultimately show ?thesis by (intro min.coboundedI1 max.boundedI)
  qed
  ultimately show ?thesis using False by blast
qed

lemma nextRecoveryWindow_ge:
  "minCongestionWindow b \<le> nextRecoveryWindow acked bytesLost b"
  "i64 (bytesInFlight b + acked) \<le> nextRecoveryWindow acked bytesLost b"
  by (simp_all add: nextRecoveryWindow_def Let_def le_max_iff_disj)

lemma calculateRecoveryWindow_ok:
  assumes "snd_core b" "rec_mid b"
  shows "\<exists>w. calculateRecoveryWindow minRTT acked bytesLost b = Inr (b\<lparr>recoveryWindow := w\<rparr>) \<and>
     minCongestionWindow b \<le> w \<and>
     (InRecovery b \<longrightarrow> target_of minRTT (F64 1 0) b sdiv 2 \<le> w \<and> i64 (bytesInFlight b + acked) \<le> w)"
proof (cases "recoveryState b = bbrRecoveryStateNotInRecovery")
  case True
  with assms show ?thesis
    by (intro exI [of _ "recoveryWindow b"]) (simp add: calculateRecoveryWindow_def rec_mid_def InRecovery_def)
next
  case False
  let ?w = "max (nextRecoveryWindow acked bytesLost b) (target_of minRTT (F64 1 0) b sdiv 2)"
  have "calculateRecoveryWindow minRTT acked bytesLost b = Inr (b\<lparr>recoveryWindow := ?w\<rparr>)"
    using False snd_coreD(1) [OF assms(1)] by (simp add: calculateRecoveryWindow_def getTarget_eq)
  moreover have "minCongestionWindow b \<le> ?w" "i64 (bytesInFlight b + acked) \<le> ?w"
    using nextRecoveryWindow_ge [of b acked bytesLost] by (simp_all add: le_max_iff_disj)
  ultimately show ?thesis by auto
qed

section \<open>A whole congestion event\<close>

text \<open>
  What the code relies on: at least one packet is acknowledged or lost, packet numbers fit
  their type, \<^verbatim>\<open>rand.Int31n\<close> is not negative, and the RTT provider has a minimum RTT while
  overshooting is being detected (an acknowledged packet has given it one).
\<close>

definition event_env :: "int \<Rightarrow> int \<Rightarrow> int \<Rightarrow> packetInfo list \<Rightarrow> packetInfo list \<Rightarrow> bbrSender \<Rightarrow> bool" where
  "event_env minRTT rnd rnd' acked lost b \<longleftrightarrow>
     packets_ok acked \<and> packets_ok lost \<and> 0 \<le> rnd \<and> 0 \<le> rnd' \<and>
     in_i64 minRTT \<and> minRTT \<noteq> 0 \<and> roundTripCount b < 18446744073709551615"

definition event_ok :: "int \<Rightarrow> int \<Rightarrow> int \<Rightarrow> packetInfo list \<Rightarrow> packetInfo list \<Rightarrow> bbrSender \<Rightarrow> bool" where
  "event_ok minRTT rnd rnd' acked lost b \<longleftrightarrow>
     event_env minRTT rnd rnd' acked lost b \<and> (acked \<noteq> [] \<or> lost \<noteq> [])"

definition mode_step :: "bbrSender \<Rightarrow> bbrSender \<Rightarrow> bool" where
  "mode_step b b' \<longleftrightarrow>
     mode b' = mode b \<or> mode b' = bbrModeProbeRtt \<or>
     mode b = bbrModeProbeRtt \<and> mode b' = (if isAtFullBandwidth b' then bbrModeProbeBw else bbrModeStartup) \<or>
     mode b = bbrModeStartup \<and> isAtFullBandwidth b' \<and> mode b' \<in> {bbrModeDrain, bbrModeProbeBw} \<or>
     mode b = bbrModeDrain \<and> mode b' = bbrModeProbeBw"

lemma leastUnacked_ok: "acked \<noteq> [] \<or> lost \<noteq> [] \<Longrightarrow> \<exists>n. leastUnacked acked lost = Inr n"
  by (auto simp: leastUnacked_def lastNumber_def)

text \<open>The last steps: the rate, the windows and the clean-up.\<close>

lemma eventWindows_ok:
  assumes "snd_core b" "mode_ok b" "rec_mid b" "in_i64 minRTT" "minRTT \<noteq> 0"
  shows "\<exists>b1 b2 b3. calculatePacingRate minRTT bytesLost b = Inr b1 \<and>
     calculateCongestionWindow minRTT acked excess b1 = Inr b2 \<and>
     calculateRecoveryWindow minRTT acked bytesLost b2 = Inr b3 \<and> snd_inv b3 \<and>
     mode b3 = mode b \<and> isAtFullBandwidth b3 = isAtFullBandwidth b \<and> sampler b3 = sampler b \<and>
     recoveryState b3 = recoveryState b \<and>
     (InRecovery b3 \<longrightarrow> target_of minRTT (F64 1 0) b3 sdiv 2 \<le> recoveryWindow b3)"
proof -
  from calculatePacingRate_ok [OF assms(1,4)] assms(5) obtain r d n where
    p: "calculatePacingRate minRTT bytesLost b =
       Inr (b\<lparr>pacingRate := r, detectOvershooting := d, bytesLostWhileDetectingOvershooting := n\<rparr>)"
    (is "_ = Inr ?b1") by blast
  have b1: "snd_core ?b1" "mode_ok ?b1" "rec_mid ?b1"
    using assms(1-3) by (simp_all add: rec_mid_def InRecovery_def)
  from calculateCongestionWindow_ok [OF b1(1)] obtain w where
    w: "calculateCongestionWindow minRTT acked excess ?b1 = Inr (?b1\<lparr>congestionWindow := w\<rparr>)"
      "snd_core (?b1\<lparr>congestionWindow := w\<rparr>)" by blast
  let ?b2 = "?b1\<lparr>congestionWindow := w\<rparr>"
  have b2: "mode_ok ?b2" "rec_mid ?b2" using b1(2,3) by (simp_all add: rec_mid_def InRecovery_def)
  from calculateRecoveryWindow_ok [OF w(2) b2(2), of minRTT acked bytesLost] obtain v where
    v: "calculateRecoveryWindow minRTT acked bytesLost ?b2 = Inr (?b2\<lparr>recoveryWindow := v\<rparr>)"
      "minCongestionWindow ?b2 \<le> v" "InRecovery ?b2 \<longrightarrow> target_of minRTT (F64 1 0) ?b2 sdiv 2 \<le> v" by blast
  let ?b3 = "?b2\<lparr>recoveryWindow := v\<rparr>"
  have "snd_inv ?b3" using w(2) b2(1) v(2) by (simp add: snd_inv_def)
  moreover have "target_of minRTT (F64 1 0) ?b3 = target_of minRTT (F64 1 0) ?b2" by (rule target_cong) simp_all
  then have "InRecovery ?b3 \<longrightarrow> target_of minRTT (F64 1 0) ?b3 sdiv 2 \<le> recoveryWindow ?b3"
    using v(3) by (simp add: InRecovery_def)
  ultimately show ?thesis using p w(1) v(1) by (intro exI [of _ ?b1] exI [of _ ?b2] exI [of _ ?b3]) simp
qed

text \<open>Everything up to the clean-up, whatever the lists of packets are.\<close>

lemma OnCongestionEventEx_until_cleanup:
  assumes "snd_inv b" "event_env minRTT rnd rnd' acked lost b"
  shows "\<exists>rs b1 b'. eventRound minRTT prior acked lost b = Inr (rs, b1) \<and> recoveryState b' = recoveryState b1 \<and>
     OnCongestionEventEx q minRTT rnd rnd' prior now acked lost b =
       bindR (leastUnacked acked lost) (\<lambda>least.
       bindR (RemoveObsoletePackets least (sampler b')) (\<lambda>s.
       Inr (if rs then b'\<lparr>sampler := s, numLossEventsInRound := 0, bytesLostInRound := 0\<rparr> else b'\<lparr>sampler := s\<rparr>))) \<and>
     snd_inv b' \<and> (isAtFullBandwidth b \<longrightarrow> isAtFullBandwidth b') \<and> mode_step b b' \<and>
     (InRecovery b' \<longrightarrow> target_of minRTT (F64 1 0) b' sdiv 2 \<le> recoveryWindow b')"
proof -
  have i: "snd_core b" "mode_ok b" "minCongestionWindow b \<le> recoveryWindow b" using assms(1) by (simp_all add: snd_inv_def)
  have e: "packets_ok acked" "packets_ok lost" "0 \<le> rnd" "0 \<le> rnd'" "in_i64 minRTT"
    "minRTT \<noteq> 0" "roundTripCount b < 18446744073709551615" using assms(2) by (simp_all add: event_env_def)
  from eventRound_ok [OF i e(7), of minRTT prior acked lost] obtain rs b1 where
    b1: "eventRound minRTT prior acked lost b = Inr (rs, b1)" "snd_core b1" "mode_ok b1" "rec_mid b1"
      "mode b1 = mode b" "isAtFullBandwidth b1 = isAtFullBandwidth b" by blast
  from eventSample_ok [OF b1(2) e(1,2), of now] obtain ev x b2 where
    b2: "eventSample now acked lost b1 = Inr (ev, x, b2)" "snd_core b2" "modal b2 = modal b1" by blast
  note m2 = modalD [OF b2(3)]
  have m2': "mode_ok b2" "rec_mid b2" using m2(1,2) b1(3,4) by simp_all
  define bl where "bl = i64 (totalBytesLost (sampler b2) - totalBytesLost (sampler b))"
  from eventMode_ok [OF b2(2) m2' e(3,4)] obtain b3 where
    b3: "eventMode q minRTT rnd rnd' prior now (lost \<noteq> []) rs x bl (ev_lastPacketSendState ev) b2 = Inr b3"
      "snd_core b3" "mode_ok b3" "rec_mid b3" "isAtFullBandwidth b2 \<longrightarrow> isAtFullBandwidth b3" "mode_step b2 b3"
      "recoveryState b3 = recoveryState b2"
    unfolding mode_step_def by blast
  define ba where "ba = i64 (totalBytesAcked (sampler b3) - totalBytesAcked (sampler b))"
  from eventWindows_ok [OF b3(2-4) e(5,6)] obtain b4 b5 b6 where
    b6: "calculatePacingRate minRTT bl b3 = Inr b4" "calculateCongestionWindow minRTT ba (ev_extraAcked ev) b4 = Inr b5"
      "calculateRecoveryWindow minRTT ba bl b5 = Inr b6" "snd_inv b6" "mode b6 = mode b3"
      "isAtFullBandwidth b6 = isAtFullBandwidth b3" "recoveryState b6 = recoveryState b3"
      "InRecovery b6 \<longrightarrow> target_of minRTT (F64 1 0) b6 sdiv 2 \<le> recoveryWindow b6" by blast
  have "OnCongestionEventEx q minRTT rnd rnd' prior now acked lost b =
      bindR (leastUnacked acked lost) (\<lambda>least.
      bindR (RemoveObsoletePackets least (sampler b6)) (\<lambda>s.
      Inr (if rs then b6\<lparr>sampler := s, numLossEventsInRound := 0, bytesLostInRound := 0\<rparr> else b6\<lparr>sampler := s\<rparr>)))"
    using b1(1) b2(1) b3(1) b6(1-3)
    by (simp add: OnCongestionEventEx_def bl_def [symmetric] ba_def [symmetric] Let_def cong: if_cong)
  moreover have "isAtFullBandwidth b \<longrightarrow> isAtFullBandwidth b6" using b6(6) b3(5) m2(4) b1(6) by simp
  moreover have "mode_step b b6" using b3(6) b6(5,6) m2(3) b1(5) by (simp add: mode_step_def)
  moreover have "recoveryState b6 = recoveryState b1" using b6(7) b3(7) m2(5) by (simp add: recov_def)
  ultimately show ?thesis using b1(1) b6(4,8) by blast
qed

text \<open>At full bandwidth, an event with losses enters recovery or stays in it.\<close>

lemma eventRound_recovery:
  assumes "rttStats b" "isAtFullBandwidth b" "acked \<noteq> []" "lost \<noteq> []"
    and "eventRound minRTT prior acked lost b = Inr (rs, b1)"
  shows "InRecovery b1"
proof -
  let ?s = "if prior < target_of minRTT (F64 1 0) b then b\<lparr>sampler := OnAppLimited (sampler b)\<rparr> else b"
  let ?b = "?s\<lparr>bytesInFlight := subtractBytes lost (subtractBytes acked prior)\<rparr>"
  obtain b2 where u: "updateRoundTripCounter (fst (last acked)) ?b = (rs, b2)"
    and b1: "b1 = updateRecoveryState (fst (last acked)) True rs b2"
    using assms by (auto simp: eventRound_def maybeAppLimited_def getTarget_eq lastNumber_def split: prod.splits)
  have "isAtFullBandwidth b2"
    using u assms(2) by (auto simp: updateRoundTripCounter_def split: if_splits)
  then show ?thesis unfolding b1
    by (cases "recoveryState b2") (simp_all add: updateRecoveryState_def InRecovery_def Let_def)
qed

lemma OnCongestionEventEx_ok:
  assumes "snd_inv b" "event_ok minRTT rnd rnd' acked lost b"
  shows "\<exists>b'. OnCongestionEventEx q minRTT rnd rnd' prior now acked lost b = Inr b' \<and> snd_inv b' \<and>
     (InRecovery b' \<longrightarrow> target_of minRTT (F64 1 0) b' sdiv 2 \<le> recoveryWindow b') \<and>
     (isAtFullBandwidth b \<longrightarrow> isAtFullBandwidth b') \<and> mode_step b b' \<and>
     (isAtFullBandwidth b \<longrightarrow> acked \<noteq> [] \<longrightarrow> lost \<noteq> [] \<longrightarrow> InRecovery b')"
proof -
  have e: "event_env minRTT rnd rnd' acked lost b" "acked \<noteq> [] \<or> lost \<noteq> []" using assms(2) by (simp_all add: event_ok_def)
  from OnCongestionEventEx_until_cleanup [OF assms(1) e(1), where q = q and prior = prior and now = now] obtain rs b1 b6 where
    r: "eventRound minRTT prior acked lost b = Inr (rs, b1)" "recoveryState b6 = recoveryState b1" and
    o: "OnCongestionEventEx q minRTT rnd rnd' prior now acked lost b =
       bindR (leastUnacked acked lost) (\<lambda>least.
       bindR (RemoveObsoletePackets least (sampler b6)) (\<lambda>s.
       Inr (if rs then b6\<lparr>sampler := s, numLossEventsInRound := 0, bytesLostInRound := 0\<rparr> else b6\<lparr>sampler := s\<rparr>)))"
    and b6: "snd_inv b6" "isAtFullBandwidth b \<longrightarrow> isAtFullBandwidth b6" "mode_step b b6"
      "InRecovery b6 \<longrightarrow> target_of minRTT (F64 1 0) b6 sdiv 2 \<le> recoveryWindow b6" by blast
  from leastUnacked_ok [OF e(2)] obtain n where n: "leastUnacked acked lost = Inr n" by blast
  have c6: "snd_core b6" using b6(1) by (simp add: snd_inv_def)
  from RemoveObsoletePackets_ok [OF snd_coreD(5) [OF c6], of n] obtain mp where
    mp: "RemoveObsoletePackets n (sampler b6) = Inr ((sampler b6)\<lparr>connectionStateMap := mp\<rparr>)"
      "sp_inv (roundTripCount b6) ((sampler b6)\<lparr>connectionStateMap := mp\<rparr>)" by blast
  let ?s = "(sampler b6)\<lparr>connectionStateMap := mp\<rparr>"
  have c7: "snd_core (b6\<lparr>sampler := ?s\<rparr>)" by (rule snd_core_sampler [OF c6 mp(2)]) simp
  define b7 where "b7 = (if rs then b6\<lparr>sampler := ?s, numLossEventsInRound := 0, bytesLostInRound := 0\<rparr> else b6\<lparr>sampler := ?s\<rparr>)"
  have b7: "snd_inv b7" "mode b7 = mode b6" "isAtFullBandwidth b7 = isAtFullBandwidth b6" "InRecovery b7 = InRecovery b6"
    "recoveryWindow b7 = recoveryWindow b6"
    using c7 b6(1) by (simp_all add: b7_def snd_inv_def InRecovery_def)
  have t7: "target_of minRTT (F64 1 0) b7 = target_of minRTT (F64 1 0) b6" by (rule target_cong) (simp_all add: b7_def)
  have "OnCongestionEventEx q minRTT rnd rnd' prior now acked lost b = Inr b7"
    using o n mp(1) by (simp add: b7_def)
  moreover have "mode_step b b7" using b6(3) b7(2,3) by (simp add: mode_step_def)
  moreover have "InRecovery b7" if "isAtFullBandwidth b" "acked \<noteq> []" "lost \<noteq> []"
    using eventRound_recovery [OF _ that r(1)] assms(1) r(2) b7(4) by (auto simp: snd_inv_def snd_core_def InRecovery_def)
  ultimately show ?thesis using b7 t7 b6(2,4) by auto
qed

end
