(* ===== verification/BbrProperties.thy ===== *)
theory BbrProperties
  imports BbrInvariant
begin

text \<open>
  The life of a BBR sender as a state machine: a fresh sender, then packets sent, congestion
  events and growing datagram sizes in any order.  Every reachable sender satisfies the
  invariant, and the properties of the controller follow from it.
\<close>

section \<open>The other operations keep the invariant\<close>

lemma OnPacketSent_ok:
  assumes "snd_inv b" "in_i64 minRTT" "in_i64 t" "0 \<le> k" "k < pn_limit" "0 \<le> bytes"
  shows "\<exists>b'. OnPacketSent q minRTT t inFlight k bytes retr b = Inr b' \<and> snd_inv b' \<and> modal b' = modal b \<and>
     lastSentPacket b' = k \<and> bytesInFlight b' = inFlight"
proof -
  have c: "snd_core b" using assms(1) by (simp add: snd_inv_def)
  from bandwidthForPacer_ok [OF snd_coreD(1,7) [OF c] assms(2)] obtain bw where
    bw: "bandwidthForPacer minRTT b = Inr bw" by blast
  have "\<exists>s. spOnPacketSent t k bytes inFlight retr (sampler b) = Inr s \<and> sp_inv (roundTripCount b) s \<and>
      reduces s = reduces (sampler b)"
    using spOnPacketSent_ok [OF snd_coreD(5) [OF c] assms(3-5), of bytes inFlight] snd_coreD(5) [OF c]
    by (cases retr) (auto simp: spOnPacketSent_uncounted)
  then obtain s where s: "spOnPacketSent t k bytes inFlight retr (sampler b) = Inr s" "sp_inv (roundTripCount b) s"
    "reduces s = reduces (sampler b)" by blast
  let ?p = "SentPacket q bw t bytes (snd_pacer b)"
  let ?b = "b\<lparr>snd_pacer := ?p, lastSentPacket := k, bytesInFlight := inFlight,
    exitingQuiescence := (inFlight = 0 \<or> exitingQuiescence b), sampler := s\<rparr>"
  have "pacer_inv ?p" using SentPacket_inv [OF snd_coreD(3) [OF c] assms(6)] .
  then have "snd_core (b\<lparr>sampler := s, snd_pacer := ?p\<rparr>)"
    using snd_core_sampler [OF c s(2,3)] by (simp add: snd_core_def windows_ok_def InRecovery_def)
  then have "snd_core ?b" by (simp add: snd_core_def windows_ok_def InRecovery_def)
  moreover have "modal ?b = modal b" by (simp add: modal_def)
  moreover have "OnPacketSent q minRTT t inFlight k bytes retr b = Inr ?b"
    using bw s(1) by (cases "inFlight = 0") (simp_all add: OnPacketSent_def)
  ultimately show ?thesis using assms(1) modalD(1) [of ?b b]
    by (intro exI [of _ ?b]) (simp add: snd_inv_def)
qed

lemma scale_eq:
  assumes "0 \<le> w" "w \<le> 65535000000" "0 < old" "old \<le> 65535" "0 < new" "new \<le> 65535"
  shows "scaleByteWindowForDatagramSize w old new = Inr (w * new div old)"
proof -
  have "w * new \<le> 65535000000 * 65535" using assms by (intro mult_mono) auto
  then have m: "0 \<le> w * new" "w * new < 4611686018427387904" using assms by simp_all
  then have d: "0 \<le> w * new div old" "w * new div old \<le> w * new"
    using assms(3) div_mult_le_self [OF assms(3), of "w * new"]
    by (simp_all add: pos_imp_zdiv_nonneg_iff)
      (metis div_by_1 int_one_le_iff_zero_less zdiv_mono2 zero_less_one)
  from m d assms show ?thesis
    by (simp add: scaleByteWindowForDatagramSize_def u64_small i64_small)
qed

lemma scale_safe: "0 < old \<Longrightarrow> old \<le> 65535 \<Longrightarrow> \<exists>v. scaleByteWindowForDatagramSize w old new = Inr v"
  by (simp add: scaleByteWindowForDatagramSize_def u64_small)

lemma scale_mono:
  assumes "0 < (old :: int)" "0 < new" "a \<le> b"
  shows "a * new div old \<le> b * new div old"
  using assms by (intro zdiv_mono1 mult_right_mono) auto

lemma rescale_ok:
  assumes "windows_ok b" "maxDatagramSize b \<le> s" "s \<le> 65535"
  shows "\<exists>x y. rescalePacketSizedWindows s b = Inr (b\<lparr>maxDatagramSize := s,
     initialCongestionWindow := initialCongestionWindow b * s div maxDatagramSize b,
     maxCongestionWindow := maxCongestionWindow b * s div maxDatagramSize b,
     minCongestionWindow := 4 * s, cwndToCalculateMinPacingRate := x,
     maxCongestionWindowWithNetworkParametersAdjusted := y\<rparr>)"
proof -
  note w = assms(1) [unfolded windows_ok_def]
  have i: "scaleByteWindowForDatagramSize (initialCongestionWindow b) (maxDatagramSize b) s =
      Inr (initialCongestionWindow b * s div maxDatagramSize b)"
    "scaleByteWindowForDatagramSize (maxCongestionWindow b) (maxDatagramSize b) s =
      Inr (maxCongestionWindow b * s div maxDatagramSize b)"
    using w assms(2,3) by (intro scale_eq; linarith)+
  from scale_safe [of "maxDatagramSize b"] w obtain x y where
    "scaleByteWindowForDatagramSize (cwndToCalculateMinPacingRate b) (maxDatagramSize b) s = Inr x"
    "scaleByteWindowForDatagramSize (maxCongestionWindowWithNetworkParametersAdjusted b) (maxDatagramSize b) s = Inr y"
    by meson
  with i w assms(2,3) show ?thesis
    by (intro exI [of _ x] exI [of _ y]) (simp add: rescalePacketSizedWindows_def minCongestionWindowForMaxDatagramSize_def
        minCongestionWindowPackets_def Let_def i64_small)
qed

lemma SetMaxDatagramSize_ok:
  assumes "snd_inv b" "maxDatagramSize b \<le> s" "s \<le> 65535"
  shows "\<exists>b'. SetMaxDatagramSize s b = Inr b' \<and> snd_inv b' \<and> maxDatagramSize b' = s \<and> mode b' = mode b \<and>
     isAtFullBandwidth b' = isAtFullBandwidth b \<and>
     initialCongestionWindow b' = initialCongestionWindow b * s div maxDatagramSize b \<and>
     maxCongestionWindow b' = maxCongestionWindow b * s div maxDatagramSize b"
proof -
  have c: "snd_core b" using assms(1) by (simp add: snd_inv_def)
  note W = snd_coreD(2) [OF c] and w = snd_coreD(2) [OF c, unfolded windows_ok_def]
  let ?m = "maxDatagramSize b"
  define im where "im = initialCongestionWindow b * s div ?m"
  define mm where "mm = maxCongestionWindow b * s div ?m"
  have s: "0 < ?m" "0 < s" using w assms(2) by linarith+
  have b1: "4 * s \<le> im" "im \<le> mm" "mm \<le> 1000000 * s"
    using scale_mono [OF s, of "4 * ?m" "initialCongestionWindow b"] scale_mono [OF s, of "maxCongestionWindow b" "1000000 * ?m"]
      scale_mono [OF s, of "initialCongestionWindow b" "maxCongestionWindow b"] w s
    by (simp_all add: im_def mm_def mult.assoc mult.left_commute [of _ ?m])
  from rescale_ok [OF W assms(2,3)] obtain x y where
    r: "rescalePacketSizedWindows s b = Inr (b\<lparr>maxDatagramSize := s, initialCongestionWindow := im,
      maxCongestionWindow := mm, minCongestionWindow := 4 * s, cwndToCalculateMinPacingRate := x,
      maxCongestionWindowWithNetworkParametersAdjusted := y\<rparr>)" unfolding im_def mm_def by blast
  let ?r = "b\<lparr>maxDatagramSize := s, initialCongestionWindow := im,
      maxCongestionWindow := mm, minCongestionWindow := 4 * s, cwndToCalculateMinPacingRate := x,
      maxCongestionWindowWithNetworkParametersAdjusted := y\<rparr>"
  define cw where "cw = rescaledWindow (minCongestionWindow b) (initialCongestionWindow b) ?r"
  have cw: "4 * s \<le> cw" "cw \<le> mm" using b1 by (auto simp: cw_def rescaledWindow_def)
  define b' where "b' = b\<lparr>maxDatagramSize := s, initialCongestionWindow := im,
      maxCongestionWindow := mm, minCongestionWindow := 4 * s, cwndToCalculateMinPacingRate := x,
      maxCongestionWindowWithNetworkParametersAdjusted := y, congestionWindow := cw,
      recoveryWindow := min mm (max (recoveryWindow b) (4 * s)),
      snd_pacer := pacerSetMaxDatagramSize s (snd_pacer b)\<rparr>"
  have "SetMaxDatagramSize s b = Inr b'"
    using assms(2) r by (simp add: SetMaxDatagramSize_def Let_def b'_def cw_def [symmetric])
  moreover have "windows_ok b'" using b1 cw s assms(3) by (simp add: windows_ok_def b'_def)
  moreover have "pacer_inv (snd_pacer b')"
    using snd_coreD(3) [OF c] s assms(3) by (simp add: b'_def pacer_inv_def pacerSetMaxDatagramSize_def)
  ultimately have "snd_core b'" using c by (simp add: snd_core_def b'_def InRecovery_def)
  moreover have "mode_ok b'" using assms(1) unfolding snd_inv_def b'_def
    by (cases "mode b") (simp_all add: mode_ok_def mode_mid_def)
  moreover have "minCongestionWindow b' \<le> recoveryWindow b'" using b1 by (simp add: b'_def)
  ultimately show ?thesis using \<open>SetMaxDatagramSize s b = Inr b'\<close>
    by (intro exI [of _ b']) (simp add: snd_inv_def b'_def im_def mm_def)
qed

section \<open>A fresh sender\<close>

lemma fresh_sampler_inv:
  assumes "in_u64 w" "b = newBandwidthSampler w \<or> b = EnableOverestimateAvoidance (newBandwidthSampler w)"
  shows "sp_inv 0 (SetReduceExtraAckedOnBandwidthIncrease v b)"
proof -
  let ?m = "mahSetReduceExtraAckedOnBandwidthIncrease v (newMaxAckHeightTracker w)"
  have "mah_inv 0 ?m" "mah_inv 0 (SetAckAggregationBandwidthThreshold (F64 2 0) ?m)"
    using reduce_mah_inv [OF assms(1), of v] by (simp_all add: mah_inv_def SetAckAggregationBandwidthThreshold_def)
  moreover have "mahSetReduceExtraAckedOnBandwidthIncrease v (SetAckAggregationBandwidthThreshold t m) =
      SetAckAggregationBandwidthThreshold t (mahSetReduceExtraAckedOnBandwidthIncrease v m)" for t m
    by (simp add: mahSetReduceExtraAckedOnBandwidthIncrease_def SetAckAggregationBandwidthThreshold_def)
  ultimately show ?thesis using assms(2) new_sp_inv [OF assms(1)]
    by (auto simp: sp_inv_def SetReduceExtraAckedOnBandwidthIncrease_def EnableOverestimateAvoidance_def newBandwidthSampler_def)
qed

lemmas fresh_defs = SetRTTStatsProvider_def NewBbrSender_def newBbrSender_def enterStartupMode_def
  applyProfile_def Let_def

lemma NewBbrSender_ok:
  assumes "quic_ok q" "0 < s" "s \<le> 65535"
  shows "snd_inv (SetRTTStatsProvider (NewBbrSender q now s prof))"
proof -
  define b where "b = SetRTTStatsProvider (NewBbrSender q now s prof)"
  have m: "32 * s \<le> MaxCongestionWindowPackets q * s" "MaxCongestionWindowPackets q * s \<le> 1000000 * s"
    using assms by (auto simp: quic_ok_def)
  then have n: "i64 (32 * s) = 32 * s" "i64 (4 * s) = 4 * s"
    "i64 (MaxCongestionWindowPackets q * s) = MaxCongestionWindowPackets q * s"
    using assms by (intro i64_small; linarith)+
  have W: "windows_ok b" and R: "minCongestionWindow b \<le> recoveryWindow b"
    using n m assms(2,3)
    by (simp_all add: b_def windows_ok_def fresh_defs initialCongestionWindowPackets_def
        minCongestionWindowForMaxDatagramSize_def minCongestionWindowPackets_def)
  have w: "in_u64 (u64 bandwidthWindowSize)" by simp
  have S: "sp_inv 0 (sampler b)" using fresh_sampler_inv [OF w] by (simp add: b_def fresh_defs)
  have X: "expireAckAggregationInStartup b \<longrightarrow> \<not> reduces (sampler b)"
    by (simp add: b_def fresh_defs configForProfile_def SetReduceExtraAckedOnBandwidthIncrease_def
        mahSetReduceExtraAckedOnBandwidthIncrease_def)
  have f: "rttStats b" "snd_pacer b = NewPacer q" "roundTripCount b = 0" "cycleCurrentOffset b = 0" "minRtt b = 0"
    "maxBandwidth b = NewWindowedFilter 0 (u64 bandwidthWindowSize)" "\<not> InRecovery b" "mode b = bbrModeStartup"
    "\<not> isAtFullBandwidth b" "pacingGain b = highGain b" "congestionWindowGain b = highCwndGain b"
    by (simp_all add: b_def fresh_defs InRecovery_def)
  show ?thesis unfolding b_def [symmetric]
    using W R S X f new_pacer_inv [OF assms(1)] new_wf_inv [OF w, of "\<lambda>x. x" 0]
    by (simp add: snd_inv_def snd_core_def mode_ok_def mode_mid_def in_u64_def in_i64_def gainCycleLength_def)
qed

section \<open>Reachable senders\<close>

text \<open>
  One call of the QUIC stack.  Before \<^verbatim>\<open>SetMaxDatagramSize\<close> the stack has checked that the
  size grows (\<^verbatim>\<open>s\<close> is at most the largest UDP payload).
\<close>

inductive sender_step :: "quic_params \<Rightarrow> bbrSender \<Rightarrow> bbrSender \<Rightarrow> bool" for q where
  sent: "OnPacketSent q minRTT t inFlight k bytes retr b = Inr b' \<Longrightarrow>
     in_i64 minRTT \<Longrightarrow> in_i64 t \<Longrightarrow> 0 \<le> k \<Longrightarrow> k < pn_limit \<Longrightarrow> 0 \<le> bytes \<Longrightarrow> sender_step q b b'"
| event: "OnCongestionEventEx q minRTT rnd rnd' prior now acked lost b = Inr b' \<Longrightarrow>
     event_ok minRTT rnd rnd' acked lost b \<Longrightarrow> sender_step q b b'"
| mtu: "SetMaxDatagramSize s b = Inr b' \<Longrightarrow> s \<le> 65535 \<Longrightarrow> sender_step q b b'"

inductive_cases sender_stepE: "sender_step q b b'"

inductive reachable :: "quic_params \<Rightarrow> bbrSender \<Rightarrow> bool" for q where
  start: "0 < s \<Longrightarrow> s \<le> 65535 \<Longrightarrow> reachable q (SetRTTStatsProvider (NewBbrSender q now s prof))"
| step: "reachable q b \<Longrightarrow> sender_step q b b' \<Longrightarrow> reachable q b'"

lemma SetMaxDatagramSize_grows: "SetMaxDatagramSize s b = Inr b' \<Longrightarrow> maxDatagramSize b \<le> s"
  by (simp add: SetMaxDatagramSize_def split: if_splits)

lemma sender_step_inv:
  assumes "sender_step q b b'" "snd_inv b"
  shows "snd_inv b' \<and> (isAtFullBandwidth b \<longrightarrow> isAtFullBandwidth b')"
  using assms(1)
proof cases
  case (sent minRTT t inFlight k bytes retr)
  with OnPacketSent_ok [OF assms(2), of minRTT t k bytes q inFlight retr] modalD(4) [of b' b] show ?thesis by auto
next
  case (event minRTT rnd rnd' prior now acked lost)
  with OnCongestionEventEx_ok [OF assms(2) event(2), of q prior now] show ?thesis by auto
next
  case (mtu s)
  with SetMaxDatagramSize_ok [OF assms(2) SetMaxDatagramSize_grows] show ?thesis by auto
qed

lemma reachable_inv:
  assumes "reachable q b" "quic_ok q"
  shows "snd_inv b"
  using assms(1)
proof induction
  case (start s now prof)
  then show ?case using NewBbrSender_ok [OF assms(2)] by blast
next
  case (step b b')
  then show ?case using sender_step_inv by blast
qed

section \<open>Properties\<close>

text \<open>A fresh sender with the standard profile, for the examples.\<close>

abbreviation example_sender :: bbrSender where
  "example_sender \<equiv> SetRTTStatsProvider (NewBbrSender quic_example 0 1280 ''standard'')"

lemma example_reachable: "reachable quic_example example_sender"
  by (rule reachable.start) simp_all

lemma example_facts:
  "maxDatagramSize example_sender = 1280" "mode example_sender = bbrModeStartup"
  by (simp_all add: fresh_defs)

lemma example_event_ok: "event_ok 50000000 3 5 [(1, 1200)] [(2, 1200)] example_sender"
  by (simp add: event_ok_def event_env_def packets_ok_def in_i64_def fresh_defs)



text \<open>
  (C2) The congestion window of a reachable sender: what \<open>GetCongestionWindow\<close> returns, in every
  mode and in recovery, lies between four datagrams and the maximum window; with less than four
  datagrams in flight the sender may always send.
\<close>

theorem congestion_window_bounds:
  assumes "quic_ok q" "reachable q b"
  shows "4 * maxDatagramSize b \<le> GetCongestionWindow b \<and> GetCongestionWindow b \<le> maxCongestionWindow b \<and>
     (\<forall>n. n < 4 * maxDatagramSize b \<longrightarrow> CanSend n b)"
proof -
  have "windows_ok b" "minCongestionWindow b \<le> recoveryWindow b"
    using reachable_inv [OF assms(2,1)] by (simp_all add: snd_inv_def snd_core_def)
  then have "4 * maxDatagramSize b \<le> GetCongestionWindow b \<and> GetCongestionWindow b \<le> maxCongestionWindow b"
    by (auto simp: windows_ok_def GetCongestionWindow_def probeRttCongestionWindow_def)
  then show ?thesis by (auto simp: CanSend_def)
qed

theorem congestion_window_bounds_witness:
  "4 * 1280 \<le> GetCongestionWindow example_sender \<and> CanSend 1280 example_sender"
  using congestion_window_bounds [OF quic_example_ok example_reachable] unfolding example_facts(1) by simp

text \<open>
  The modes of a reachable sender and their gains.  STARTUP is only kept while full bandwidth
  has not been reached and paces with the profile's high gain; DRAIN and PROBE\_BW only follow
  full bandwidth, DRAIN with the inverse gain, PROBE\_BW with a gain of the eight-phase cycle and
  a phase index inside it; PROBE\_RTT paces with gain one.  Recovery only follows full bandwidth.
\<close>

theorem mode_gains:
  assumes "quic_ok q" "reachable q b"
  shows "(mode b = bbrModeStartup \<longrightarrow> \<not> isAtFullBandwidth b \<and> pacingGain b = highGain b \<and>
            congestionWindowGain b = highCwndGain b) \<and>
     (mode b = bbrModeDrain \<longrightarrow> isAtFullBandwidth b \<and> pacingGain b = drainGain b \<and>
            congestionWindowGain b = highCwndGain b) \<and>
     (mode b = bbrModeProbeBw \<longrightarrow> isAtFullBandwidth b \<and> pacingGain b \<in> set pacingGainCycle \<and>
            congestionWindowGain b = congestionWindowGainConstant b) \<and>
     (mode b = bbrModeProbeRtt \<longrightarrow> pacingGain b = F64 1 0) \<and>
     0 \<le> cycleCurrentOffset b \<and> cycleCurrentOffset b < 8 \<and>
     (InRecovery b \<longrightarrow> isAtFullBandwidth b)"
  using reachable_inv [OF assms(2,1)]
  by (auto simp: snd_inv_def snd_core_def mode_ok_def mode_mid_def gainCycleLength_def)

theorem mode_gains_witness:
  "pacingGain example_sender = highGain example_sender \<and> \<not> isAtFullBandwidth example_sender"
  using mode_gains [OF quic_example_ok example_reachable] example_facts(2) by blast

text \<open>
  (C5) The transitions of one congestion event.  From STARTUP the sender goes to DRAIN or directly
  to PROBE\_BW, and only at full bandwidth; from DRAIN to PROBE\_BW; from any mode to PROBE\_RTT,
  and from there back to PROBE\_BW at full bandwidth, else to STARTUP.  Full bandwidth, once
  reached, is never forgotten, so that STARTUP and DRAIN are not entered again from PROBE\_BW.
\<close>

theorem mode_transitions:
  assumes "quic_ok q" "reachable q b" "event_ok minRTT rnd rnd' acked lost b"
    and "OnCongestionEventEx q minRTT rnd rnd' prior now acked lost b = Inr b'"
  shows "(isAtFullBandwidth b \<longrightarrow> isAtFullBandwidth b' \<and> mode b' \<noteq> bbrModeStartup) \<and>
     (mode b = bbrModeStartup \<longrightarrow> mode b' = bbrModeStartup \<or> mode b' = bbrModeProbeRtt \<or>
        isAtFullBandwidth b' \<and> (mode b' = bbrModeDrain \<or> mode b' = bbrModeProbeBw)) \<and>
     (mode b = bbrModeDrain \<longrightarrow> mode b' \<noteq> bbrModeStartup) \<and>
     (mode b = bbrModeProbeBw \<longrightarrow> mode b' = bbrModeProbeBw \<or> mode b' = bbrModeProbeRtt) \<and>
     (mode b = bbrModeProbeRtt \<longrightarrow> mode b' = bbrModeProbeRtt \<or>
        mode b' = (if isAtFullBandwidth b' then bbrModeProbeBw else bbrModeStartup))"
proof -
  note i = reachable_inv [OF assms(2,1)]
  have m: "mode b = bbrModeDrain \<longrightarrow> isAtFullBandwidth b" "mode b = bbrModeProbeBw \<longrightarrow> isAtFullBandwidth b"
    using i by (auto simp: snd_inv_def mode_ok_def mode_mid_def)
  from OnCongestionEventEx_ok [OF i assms(3), of q prior now] assms(4)
  have "snd_inv b'" "isAtFullBandwidth b \<longrightarrow> isAtFullBandwidth b'" "mode_step b b'" by auto
  moreover from this have "isAtFullBandwidth b' \<longrightarrow> mode b' \<noteq> bbrModeStartup"
    by (auto simp: snd_inv_def mode_ok_def)
  ultimately show ?thesis using m unfolding mode_step_def by (cases "mode b") auto
qed

theorem mode_transitions_witness:
  "\<exists>b'. OnCongestionEventEx quic_example 50000000 3 5 2400 90000000 [(1, 1200)] [(2, 1200)] example_sender = Inr b' \<and>
     (mode b' = bbrModeStartup \<or> mode b' = bbrModeProbeRtt \<or>
      isAtFullBandwidth b' \<and> (mode b' = bbrModeDrain \<or> mode b' = bbrModeProbeBw))"
proof -
  note i = reachable_inv [OF example_reachable quic_example_ok]
  from OnCongestionEventEx_ok [OF i example_event_ok, of quic_example 2400 90000000] obtain b' where
    b': "OnCongestionEventEx quic_example 50000000 3 5 2400 90000000 [(1, 1200)] [(2, 1200)] example_sender = Inr b'" by blast
  with mode_transitions [OF quic_example_ok example_reachable example_event_ok b'] example_facts(2) show ?thesis by blast
qed

text \<open>
  (C3) The floor of the recovery window: after every congestion event that leaves the sender in
  recovery, the recovery window is at least half of the current target window (the estimated
  bandwidth-delay product) and at least four datagrams, whatever was lost.
\<close>

theorem recovery_window_floor:
  assumes "snd_inv b" "event_ok minRTT rnd rnd' acked lost b"
    and "OnCongestionEventEx q minRTT rnd rnd' prior now acked lost b = Inr b'" "InRecovery b'"
  shows "\<exists>w. getTargetCongestionWindow minRTT (F64 1 0) b' = Inr w \<and> w sdiv 2 \<le> recoveryWindow b' \<and>
     4 * maxDatagramSize b' \<le> recoveryWindow b'"
proof -
  from OnCongestionEventEx_ok [OF assms(1,2), of q prior now] assms(3,4)
  have i: "snd_inv b'" and f: "target_of minRTT (F64 1 0) b' sdiv 2 \<le> recoveryWindow b'" by auto
  from i have "rttStats b'" "minCongestionWindow b' \<le> recoveryWindow b'" "minCongestionWindow b' = 4 * maxDatagramSize b'"
    by (simp_all add: snd_inv_def snd_core_def windows_ok_def)
  with f show ?thesis by (simp add: getTarget_eq)
qed

definition example_full :: bbrSender where
  "example_full = example_sender\<lparr>mode := bbrModeProbeBw, isAtFullBandwidth := True, pacingGain := F64 1 0,
     congestionWindowGain := congestionWindowGainConstant example_sender, lastSentPacket := 9, minRtt := 100000000,
     maxBandwidth := wfUpdate MaxFilter 0 1000000 0 (maxBandwidth example_sender)\<rparr>"

lemma example_full_inv: "snd_inv example_full"
proof -
  have i: "snd_inv example_sender" using reachable_inv [OF example_reachable quic_example_ok] .
  then have "snd_core (example_sender\<lparr>maxBandwidth := wfUpdate MaxFilter 0 1000000 (roundTripCount example_sender) (maxBandwidth example_sender)\<rparr>)"
    by (intro snd_core_maxBandwidth) (simp add: snd_inv_def)
  moreover have "roundTripCount example_sender = 0" by (simp add: fresh_defs)
  ultimately have "snd_core example_full"
    by (simp add: snd_core_def example_full_def windows_ok_def InRecovery_def in_i64_def)
  with i show ?thesis by (simp add: snd_inv_def mode_ok_def mode_mid_def example_full_def pacingGainCycle_def)
qed

theorem recovery_window_floor_witness:
  "\<exists>b' w. OnCongestionEventEx quic_example 50000000 3 5 2400 90000000 [(1, 1200)] [(2, 1200)] example_full = Inr b' \<and>
     InRecovery b' \<and> getTargetCongestionWindow 50000000 (F64 1 0) b' = Inr w \<and> w sdiv 2 \<le> recoveryWindow b'"
proof -
  have e: "event_ok 50000000 3 5 [(1, 1200)] [(2, 1200)] example_full"
    by (simp add: event_ok_def event_env_def packets_ok_def in_i64_def example_full_def fresh_defs)
  have f: "isAtFullBandwidth example_full" by (simp add: example_full_def)
  from OnCongestionEventEx_ok [OF example_full_inv e, of quic_example 2400 90000000] f obtain b' where
    b': "OnCongestionEventEx quic_example 50000000 3 5 2400 90000000 [(1, 1200)] [(2, 1200)] example_full = Inr b'"
      "InRecovery b'" by auto
  from recovery_window_floor [OF example_full_inv e b'] b' show ?thesis by blast
qed



text \<open>
  The pacing rate after a congestion event's rate calculation: at full bandwidth it is the
  gain times the bandwidth estimate; before, without overshoot detection, it does not decrease.
\<close>

theorem pacing_rate_rule:
  assumes "snd_inv b" "in_i64 minRTT" "minRTT \<noteq> 0 \<or> \<not> detectOvershooting b"
    and "0 \<le> pacingRate b" "bandwidthEstimate b \<noteq> 0"
  shows "\<exists>b'. calculatePacingRate minRTT bytesLost b = Inr b' \<and>
     (isAtFullBandwidth b \<longrightarrow> pacingRate b' = f64_to_u64 (f64_mul (pacingGain b) (f64_of_int (bandwidthEstimate b)))) \<and>
     (\<not> isAtFullBandwidth b \<and> \<not> detectOvershooting b \<longrightarrow> pacingRate b \<le> pacingRate b')"
proof -
  have "snd_core b" using assms(1) by (simp add: snd_inv_def)
  from calculatePacingRate_ok [OF this assms(2,3), of bytesLost] assms(4,5) obtain r d n where
    "calculatePacingRate minRTT bytesLost b =
       Inr (b\<lparr>pacingRate := r, detectOvershooting := d, bytesLostWhileDetectingOvershooting := n\<rparr>)"
    "isAtFullBandwidth b \<longrightarrow> r = f64_to_u64 (f64_mul (pacingGain b) (f64_of_int (bandwidthEstimate b)))"
    "\<not> isAtFullBandwidth b \<longrightarrow> \<not> detectOvershooting b \<longrightarrow> pacingRate b \<le> r" by blast
  then show ?thesis by simp
qed

theorem pacing_rate_rule_witness:
  "\<exists>b'. calculatePacingRate 50000000 0 example_full = Inr b' \<and> pacingRate b' = 1000000"
proof -
  have f: "isAtFullBandwidth example_full" "pacingGain example_full = F64 1 0" "pacingRate example_full = 0"
    by (simp_all add: example_full_def fresh_defs)
  have e: "bandwidthEstimate example_full = 1000000"
    by (simp add: bandwidthEstimate_def example_full_def fresh_defs wfUpdate_def GetBest_def NewWindowedFilter_def MaxFilter_def)
  have "f64_to_u64 (f64_mul (F64 1 0) (f64_of_int 1000000)) = 1000000" by code_simp
  with pacing_rate_rule [OF example_full_inv, of 50000000 0] f e show ?thesis by (auto simp: in_i64_def)
qed

text \<open>
  A larger datagram size (path MTU discovery) rescales a reachable sender: the windows that
  are multiples of the datagram size grow with it and keep their order, the congestion window and
  the recovery window stay inside the new bounds.  A smaller size is a panic.
\<close>

theorem datagram_size_change:
  assumes "quic_ok q" "reachable q b" "s \<le> 65535"
  shows "if s < maxDatagramSize b then SetMaxDatagramSize s b = Inl (Panic ''congestion BUG: decreased max datagram size'')
     else \<exists>b'. SetMaxDatagramSize s b = Inr b' \<and> reachable q b' \<and> maxDatagramSize b' = s \<and>
       minCongestionWindow b' = 4 * s \<and>
       initialCongestionWindow b' = initialCongestionWindow b * s div maxDatagramSize b \<and>
       maxCongestionWindow b' = maxCongestionWindow b * s div maxDatagramSize b \<and>
       4 * s \<le> congestionWindow b' \<and> congestionWindow b' \<le> maxCongestionWindow b' \<and> 4 * s \<le> recoveryWindow b'"
proof (cases "s < maxDatagramSize b")
  case True
  then show ?thesis by (simp add: SetMaxDatagramSize_def)
next
  case False
  then have "maxDatagramSize b \<le> s" by simp
  from SetMaxDatagramSize_ok [OF reachable_inv [OF assms(2,1)] this assms(3)] obtain b' where
    b': "SetMaxDatagramSize s b = Inr b'" "snd_inv b'" "maxDatagramSize b' = s"
      "initialCongestionWindow b' = initialCongestionWindow b * s div maxDatagramSize b"
      "maxCongestionWindow b' = maxCongestionWindow b * s div maxDatagramSize b" by blast
  have "reachable q b'" using reachable.step [OF assms(2) sender_step.mtu [OF b'(1) assms(3)]] .
  with False b' show ?thesis by (auto simp: snd_inv_def snd_core_def windows_ok_def)
qed

theorem datagram_size_change_witness:
  "\<exists>b'. SetMaxDatagramSize 1452 example_sender = Inr b' \<and> minCongestionWindow b' = 5808 \<and> reachable quic_example b'"
  using datagram_size_change [OF quic_example_ok example_reachable, of 1452] unfolding example_facts(1) by auto

text \<open>
  A congestion event with neither an acknowledged nor a lost packet panics: after all its
  work it indexes the empty list of lost packets.
\<close>

theorem empty_event_panics:
  assumes "quic_ok q" "reachable q b" "event_env minRTT rnd rnd' [] [] b"
  shows "OnCongestionEventEx q minRTT rnd rnd' prior now [] [] b = Inl IndexOutOfRange"
  using OnCongestionEventEx_until_cleanup [OF reachable_inv [OF assms(2,1)] assms(3), where q = q and prior = prior and now = now]
  by (auto simp: leastUnacked_def lastNumber_def)

theorem empty_event_panics_witness:
  "OnCongestionEventEx quic_example 50000000 3 5 0 90000000 [] [] example_sender = Inl IndexOutOfRange"
  by (rule empty_event_panics [OF quic_example_ok example_reachable])
    (simp add: event_env_def packets_ok_def in_i64_def fresh_defs)

text \<open>
  Profile names: what \<open>ParseProfile\<close> accepts is one of the three profiles, whatever the case
  of the letters, the empty string means the standard profile, and a profile is its own name.
\<close>

theorem parse_profile:
  "(\<forall>s p. ParseProfile s = Inr p \<longrightarrow>
       p \<in> {ProfileConservative, ProfileStandard, ProfileAggressive} \<and> ParseProfile p = Inr p \<and>
       (ToLower s = p \<or> s = [])) \<and>
   ParseProfile [] = Inr ProfileStandard \<and>
   ParseProfile ''AGGRESSIVE'' = Inr ProfileAggressive \<and>
   (\<forall>s e. ParseProfile s = Inl e \<longrightarrow> e = UnsupportedProfile s \<and>
       ToLower s \<notin> {[], ProfileConservative, ProfileStandard, ProfileAggressive})"
proof -
  have p: "ParseProfile p = Inr p" if "p \<in> {ProfileConservative, ProfileStandard, ProfileAggressive}" for p
  proof -
    have "ParseProfile ProfileConservative = Inr ProfileConservative" "ParseProfile ProfileStandard = Inr ProfileStandard"
      "ParseProfile ProfileAggressive = Inr ProfileAggressive" by code_simp+
    with that show ?thesis by auto
  qed
  have n: "ToLower s = [] \<Longrightarrow> s = []" for s by (cases s rule: ToLower.cases) (auto split: if_splits)
  have u: "ParseProfile [] = Inr ProfileStandard" "ParseProfile ''AGGRESSIVE'' = Inr ProfileAggressive" by code_simp+
  have "p \<in> {ProfileConservative, ProfileStandard, ProfileAggressive} \<and> (ToLower s = p \<or> s = [])"
    if "ParseProfile s = Inr p" for s p
    using that n by (auto simp: ParseProfile_def Let_def split: if_splits)
  moreover have "e = UnsupportedProfile s \<and> ToLower s \<notin> {[], ProfileConservative, ProfileStandard, ProfileAggressive}"
    if "ParseProfile s = Inl e" for s e
    using that by (auto simp: ParseProfile_def Let_def split: if_splits)
  ultimately show ?thesis using p u by blast
qed

text \<open>A profile name other than the one that is parsed.\<close>

theorem parse_profile_witness:
  "ToLower ''AGGRESSIVE'' = ProfileAggressive \<and> ParseProfile ''fast'' = Inl (UnsupportedProfile ''fast'')"
proof -
  have "ParseProfile ''AGGRESSIVE'' = Inr ProfileAggressive" "\<exists>e. ParseProfile ''fast'' = Inl e"
    by (code_simp, simp add: ParseProfile_def lowerByte_def ProfileStandard_def ProfileConservative_def ProfileAggressive_def)
  with parse_profile show ?thesis by fastforce
qed

text \<open>
  The gains of every profile make sense: the startup pacing gain and both window gains are
  above one, the drain gain is between zero and one, at least one round is waited for, and the
  expiry of ack heights in startup is never combined with their reduction.
\<close>

theorem profile_gains:
  "let cfg = configForProfile p in
     f64_less (F64 1 0) (cfg_highGain cfg) \<and> f64_less (F64 1 0) (cfg_highCwndGain cfg) \<and>
     f64_less (F64 1 0) (cfg_congestionWindowGainConstant cfg) \<and>
     f64_less (f64_div (F64 1 0) (cfg_highGain cfg)) (F64 1 0) \<and>
     f64_less (F64 0 0) (f64_div (F64 1 0) (cfg_highGain cfg)) \<and>
     0 < cfg_numStartupRtts cfg \<and>
     \<not> (cfg_expireAckAggregationStartup cfg \<and> cfg_reduceExtraAckedOnBandwidthIncrease cfg)"
proof -
  let ?P = "\<lambda>cfg. f64_less (F64 1 0) (cfg_highGain cfg) \<and> f64_less (F64 1 0) (cfg_highCwndGain cfg) \<and>
     f64_less (F64 1 0) (cfg_congestionWindowGainConstant cfg) \<and>
     f64_less (f64_div (F64 1 0) (cfg_highGain cfg)) (F64 1 0) \<and>
     f64_less (F64 0 0) (f64_div (F64 1 0) (cfg_highGain cfg)) \<and>
     0 < cfg_numStartupRtts cfg \<and>
     \<not> (cfg_expireAckAggregationStartup cfg \<and> cfg_reduceExtraAckedOnBandwidthIncrease cfg)"
  have "?P (configForProfile ProfileConservative)" "?P (configForProfile ProfileAggressive)" "?P (configForProfile [])"
    by code_simp+
  moreover have "configForProfile p \<in> {configForProfile ProfileConservative, configForProfile ProfileAggressive, configForProfile []}"
    by (auto simp: configForProfile_def ProfileConservative_def ProfileAggressive_def)
  ultimately show ?thesis unfolding Let_def by auto
qed

lemma growth_target_above:
  assumes "4 \<le> n" "n < 2 ^ 50"
  shows "n < f64_to_u64 (f64_mul (f64_of_int n) startupGrowthTarget)"
proof -
  have "f64_mul (f64_of_int n) startupGrowthTarget = F64 (n * 5) (- 2)"
    using assms by (simp add: f64_of_int_exact f64_mul_def startupGrowthTarget_def f64_round_exact)
  moreover have "f64_trunc (F64 (n * 5) (- 2)) = n * 5 div 4"
    using assms(1) by (simp add: f64_trunc_def)
  moreover have "n < n * 5 div 4" "in_u64 (n * 5 div 4)" using assms by (auto simp: in_u64_def)
  ultimately show ?thesis by (simp add: f64_to_u64_def)
qed

lemma stagnant_round:
  assumes "bandwidthEstimate b = n" "bandwidthAtLastRound b = n" "4 \<le> n" "n < 2 ^ 50"
    and "\<not> lastSampleIsAppLimited b" "0 \<le> roundsWithoutBandwidthGain b" "roundsWithoutBandwidthGain b < 100"
  shows "checkIfFullBandwidthReached st b =
     b\<lparr>roundsWithoutBandwidthGain := roundsWithoutBandwidthGain b + 1,
       isAtFullBandwidth := (isAtFullBandwidth b \<or> numStartupRtts b \<le> roundsWithoutBandwidthGain b + 1 \<or>
                             shouldExitStartupDueToLoss st b)\<rparr>"
proof -
  have "\<not> f64_to_u64 (f64_mul (f64_of_int n) startupGrowthTarget) \<le> n" using growth_target_above [OF assms(3,4)] by simp
  moreover have "i64 (roundsWithoutBandwidthGain b + 1) = roundsWithoutBandwidthGain b + 1" using assms(6,7) by (simp add: i64_small)
  moreover have "shouldExitStartupDueToLoss st (b\<lparr>roundsWithoutBandwidthGain := r\<rparr>) = shouldExitStartupDueToLoss st b" for r
    by (simp add: shouldExitStartupDueToLoss_def)
  ultimately show ?thesis using assms(1,2,5) by (simp add: checkIfFullBandwidthReached_def Let_def)
qed

lemma stagnant_rounds:
  assumes "bandwidthEstimate b = n" "bandwidthAtLastRound b = n" "4 \<le> n" "n < 2 ^ 50"
    and "\<not> lastSampleIsAppLimited b" "\<not> isAtFullBandwidth b" "\<not> shouldExitStartupDueToLoss st b"
    and "roundsWithoutBandwidthGain b = 0" "0 < numStartupRtts b" "k \<le> 100"
  shows "(checkIfFullBandwidthReached st ^^ k) b =
     b\<lparr>roundsWithoutBandwidthGain := int k, isAtFullBandwidth := (numStartupRtts b \<le> int k)\<rparr>"
  using assms(10)
proof (induction k)
  case 0
  then show ?case using assms(6,8,9) by simp
next
  case (Suc k)
  let ?b = "b\<lparr>roundsWithoutBandwidthGain := int k, isAtFullBandwidth := (numStartupRtts b \<le> int k)\<rparr>"
  have o: "(numStartupRtts b \<le> int k \<or> numStartupRtts b \<le> 1 + int k) = (numStartupRtts b \<le> 1 + int k)" by linarith
  have s: "shouldExitStartupDueToLoss st ?b = shouldExitStartupDueToLoss st b" "bandwidthEstimate ?b = bandwidthEstimate b"
    by (simp_all add: shouldExitStartupDueToLoss_def bandwidthEstimate_def)
  have "checkIfFullBandwidthReached st ?b = b\<lparr>roundsWithoutBandwidthGain := int (Suc k),
      isAtFullBandwidth := (numStartupRtts b \<le> int (Suc k))\<rparr>"
    using stagnant_round [of ?b n st] assms(1-5,7) s Suc.prems o by (simp add: add.commute)
  with Suc show ?case by simp
qed



text \<open>
  The bandwidth-delay product is computed in 64-bit integers without a guard: where round-trip
  time (in nanoseconds) times bandwidth (in bits per second) is between \<open>2 ^ 63\<close> and \<open>2 ^ 64\<close>
  (one second at 9.3 Gbit/s, say) the product is negative and the target window collapses to four
  datagrams instead of growing.
\<close>

theorem target_window_overflow:
  assumes "rttStats b" "rtt_of minRTT b * bandwidthEstimate b \<ge> 2 ^ 63"
    and "rtt_of minRTT b * bandwidthEstimate b \<le> 2 ^ 64 - 8 * Second"
    and "0 \<le> bandwidthEstimate b" "bandwidthEstimate b < 2 ^ 63" "0 \<le> minCongestionWindow b"
  shows "getTargetCongestionWindow minRTT (F64 1 0) b = Inr (minCongestionWindow b)"
proof -
  let ?x = "rtt_of minRTT b * bandwidthEstimate b"
  let ?n = "18446744073709551616 - ?x"
  have n: "8000000000 \<le> ?n" "?n \<le> 9223372036854775808" using assms(2,3) by simp_all
  have "i64 ?x = - ?n"
  proof -
    have "(?x + 9223372036854775808) mod 18446744073709551616 = ?x - 9223372036854775808"
      using n mod_pos_pos_trivial [of "?x - 9223372036854775808" 18446744073709551616]
        mod_add_self2 [of "?x - 9223372036854775808" 18446744073709551616]
      by (simp add: add.commute)
    then show ?thesis by (simp add: i64_def)
  qed
  moreover have "i64 (bandwidthEstimate b) = bandwidthEstimate b" using assms(4,5) by (simp add: i64_small)
  ultimately have e: "bdpFromRttAndBandwidth (rtt_of minRTT b) (bandwidthEstimate b) = - (?n div 8 div Second)"
    using n by (simp add: bdpFromRttAndBandwidth_def BytesPerSecond_def signed_divide_int_def sgn_if)
  let ?m = "?n div 8 div Second"
  have m: "1 \<le> ?m" "?m < 2 ^ 53" using n by (auto simp: div_int_pos_iff zdiv_zmult2_eq [symmetric])
  have "f64_to_i64 (f64_mul (F64 1 0) (f64_of_int (- ?m))) = - ?m"
    using m f64_mul_one [of "- ?m"] by (simp add: f64_to_i64_int in_i64_def)
  with e m assms(1,6) show ?thesis by (simp add: getTarget_eq target_of_def)
qed

theorem target_window_overflow_witness:
  "let b = example_full\<lparr>minRtt := 1000000000,
             maxBandwidth := wfUpdate MaxFilter 0 10000000000 0 (NewWindowedFilter 0 10)\<rparr>
   in getTargetCongestionWindow 0 (F64 1 0) b = Inr 5120"
proof -
  let ?b = "example_full\<lparr>minRtt := 1000000000, maxBandwidth := wfUpdate MaxFilter 0 10000000000 0 (NewWindowedFilter 0 10)\<rparr>"
  have "bandwidthEstimate ?b = 10000000000"
    by (simp add: bandwidthEstimate_def wfUpdate_def GetBest_def NewWindowedFilter_def MaxFilter_def)
  moreover have "rtt_of 0 ?b = 1000000000" by (simp add: rtt_of_def)
  moreover have "rttStats ?b" "minCongestionWindow ?b = 5120"
    by (simp_all add: example_full_def fresh_defs minCongestionWindowForMaxDatagramSize_def minCongestionWindowPackets_def i64_small)
  ultimately show ?thesis unfolding Let_def using target_window_overflow [of ?b 0] by simp
qed

text \<open>
  Entering PROBE\_BW picks the phase of the gain cycle at random out of 0 and 2 to 7, never
  phase 1: whatever \<^verbatim>\<open>rand.Int31n\<close> returned, the draining phase is not the first one, and every
  one of the other seven phases is picked for some value.
\<close>

theorem probe_bw_phase:
  assumes "0 \<le> rnd"
  shows "\<exists>b'. enterProbeBandwidthMode rnd now b = Inr b' \<and> mode b' = bbrModeProbeBw \<and>
     cycleCurrentOffset b' \<in> {0, 2, 3, 4, 5, 6, 7} \<and> pacingGain b' = pacingGainCycle ! nat (cycleCurrentOffset b') \<and>
     cycleCurrentOffset b' = (if rnd mod 7 = 0 then 0 else rnd mod 7 + 1)"
proof -
  have r: "rnd smod 7 = rnd mod 7" using assms smod_nonneg [of rnd 7] by simp
  have "rnd mod 7 \<in> {0, 1, 2, 3, 4, 5, 6}" by auto
  then show ?thesis
    by (auto simp: enterProbeBandwidthMode_def gainCycleLength_def r Let_def gainAt_def)
qed

theorem probe_bw_phase_witness:
  "\<exists>b'. enterProbeBandwidthMode 8 5000 example_sender = Inr b' \<and> cycleCurrentOffset b' = 2"
  using probe_bw_phase [of 8 5000 example_sender] by auto

end
