(* ===== verification/Congestion.thy ===== *)
theory Congestion
  imports BbrProperties
begin

text \<open>
  \<^verbatim>\<open>h3frontend/internal/congestion/congestion.go\<close>: the choice of the congestion controller and
  the size a BBR sender is seeded with.  The QUIC connection is what \<^verbatim>\<open>UseBBR\<close> reads of it: its
  initial packet size and whether its remote address is a UDP address; the sender that is
  installed is the result.
\<close>

definition NormalizeType :: "string \<Rightarrow> congestion_error + string" where
  "NormalizeType s =
     (let t = ToLower s in
      if t = [] \<or> t = ''bbr'' then Inr ''bbr'' else Inl (UnsupportedCongestionType s))"

definition GetInitialPacketSize :: "quic_params \<Rightarrow> bool \<Rightarrow> int" where
  "GetInitialPacketSize q isUDPAddr = (if isUDPAddr then InitialPacketSize q else MinInitialPacketSize q)"

definition seedPacketSize :: "int \<Rightarrow> int \<Rightarrow> int" where
  "seedPacketSize quicSize byAddr = (if quicSize \<le> 0 then byAddr else min quicSize byAddr)"

definition UseBBR :: "quic_params \<Rightarrow> mtime \<Rightarrow> int \<Rightarrow> bool \<Rightarrow> string \<Rightarrow> congestion_error + bbrSender" where
  "UseBBR q now connInitialPacketSize isUDPAddr prof =
     (case ParseProfile prof of
        Inl e \<Rightarrow> Inl e
      | Inr p \<Rightarrow> Inr (NewBbrSender q now
                        (seedPacketSize connInitialPacketSize (GetInitialPacketSize q isUDPAddr)) p))"

section \<open>Properties\<close>

lemma seedPacketSize_bounds:
  assumes "quic_ok q"
  shows "0 < seedPacketSize n (GetInitialPacketSize q u)" "seedPacketSize n (GetInitialPacketSize q u) \<le> InitialPacketSize q"
  using assms by (auto simp: seedPacketSize_def GetInitialPacketSize_def quic_ok_def)

text \<open>
  A controller installed by \<open>UseBBR\<close> is a valid starting point, whatever the connection says:
  once the stack has set its RTT provider it is a reachable sender, its datagram size is never
  above the pacer's nor above the size QUIC starts at, and its first window is 32 datagrams.
\<close>

theorem use_bbr_installs_valid_sender:
  assumes "quic_ok q" "UseBBR q now n u prof = Inr b"
  shows "reachable q (SetRTTStatsProvider b) \<and> maxDatagramSize b \<le> pc_maxDatagramSize (snd_pacer b) \<and>
     (0 < n \<longrightarrow> maxDatagramSize b \<le> n) \<and> GetCongestionWindow b = 32 * maxDatagramSize b"
proof -
  let ?s = "seedPacketSize n (GetInitialPacketSize q u)"
  note s = seedPacketSize_bounds [OF assms(1), of n u]
  obtain p where b: "b = NewBbrSender q now ?s p" using assms(2) by (auto simp: UseBBR_def split: sum.splits)
  have s': "?s \<le> 65535" using s(2) assms(1) by (simp add: quic_ok_def)
  have f: "maxDatagramSize b = ?s" "snd_pacer b = NewPacer q" "mode b = bbrModeStartup"
    "recoveryState b = bbrRecoveryStateNotInRecovery" "congestionWindow b = i64 (32 * ?s)"
    by (simp_all add: b fresh_defs initialCongestionWindowPackets_def)
  have "i64 (32 * ?s) = 32 * ?s" using s s' by (intro i64_small; linarith)
  then show ?thesis
    using f s s' reachable.start [OF s(1) s', of q now p] b
    by (auto simp: NewPacer_def GetCongestionWindow_def InRecovery_def seedPacketSize_def)
qed

theorem use_bbr_installs_valid_sender_witness:
  "\<exists>b. UseBBR quic_example 0 1200 True ''Standard'' = Inr b \<and> reachable quic_example (SetRTTStatsProvider b) \<and>
     maxDatagramSize b \<le> 1200"
proof -
  have "ParseProfile ''Standard'' = Inr ProfileStandard" by code_simp
  then obtain b where "UseBBR quic_example 0 1200 True ''Standard'' = Inr b" by (simp add: UseBBR_def)
  with use_bbr_installs_valid_sender [OF quic_example_ok this] show ?thesis by simp
qed

end
