(* ===== verification/Dns.thy ===== *)
theory Dns
  imports Bytes
begin

text \<open>
  \<^verbatim>\<open>tui/internal/tun/dns.go\<close>: the DNS codec and the DNS-over-HTTPS resolver of the tunnel, and the
  handler of a DNS datagram in \<^verbatim>\<open>tun_windows.go\<close> that joins them.  Every read of a packet is a checked
  one, so an operation returns \<open>panic + (error + value)\<close>; the loops over labels and records
  are total functions.  The HTTP exchange is a parameter: the function \<open>client\<close> of the resolver.
\<close>

section \<open>Messages\<close>

definition flagQR :: uint16 where "flagQR = 0x8000"
definition flagRD :: uint16 where "flagRD = 0x0100"
definition flagRA :: uint16 where "flagRA = 0x0080"
definition qtypeA :: uint16 where "qtypeA = 1"
definition qtypeAAAA :: uint16 where "qtypeAAAA = 28"

lemmas dns_consts = flagQR_def flagRD_def flagRA_def qtypeA_def qtypeAAAA_def

record dnsHeader =
  ID :: uint16
  Flags :: uint16
  QDCount :: uint16
  ANCount :: uint16
  NSCount :: uint16
  ARCount :: uint16

datatype dns_error =
    PacketTooShort | NotOneQuestion | NameOverruns | CompressedName | LabelOverruns | QuestionOverruns
  | ResponseTooShort | ResponseOverruns | NoAnswers

text \<open>A value or an error of the Go function, inside the panic-or-value result.\<close>

abbreviation ok :: "'a \<Rightarrow> (dns_error + 'a) res" where "ok x \<equiv> Inr (Inr x)"
abbreviation err :: "dns_error \<Rightarrow> (dns_error + 'a) res" where "err e \<equiv> Inr (Inl e)"

definition bindE :: "('e + 'a) res \<Rightarrow> ('a \<Rightarrow> ('e + 'b) res) \<Rightarrow> ('e + 'b) res" where
  "bindE m f = bindR m (\<lambda>r. case r of Inl e \<Rightarrow> Inr (Inl e) | Inr x \<Rightarrow> f x)"

lemma bindE_simps [simp]: "bindE (Inl p) f = Inl p" "bindE (Inr (Inl e)) f = Inr (Inl e)"
  "bindE (Inr (Inr x)) f = f x"
  by (simp_all add: bindE_def)

lemma bindE_ok [res_simps]: "bindE m f = Inr (Inr y) \<longleftrightarrow> (\<exists>x. m = Inr (Inr x) \<and> f x = Inr (Inr y))"
  by (auto simp: bindE_def bindR_def split: sum.splits)

lemma safe_bindE: "safe m \<Longrightarrow> (\<And>x. m = Inr (Inr x) \<Longrightarrow> safe (f x)) \<Longrightarrow> safe (bindE m f)"
  by (auto simp: safe_def bindE_def split: sum.splits)

section \<open>Queries\<close>

text \<open>The loop of \<^verbatim>\<open>parseQueryWithEnd\<close> over the labels of the name.\<close>

function parseLabels :: "byte list \<Rightarrow> nat \<Rightarrow> byte list list \<Rightarrow> (dns_error + byte list list \<times> nat) res" where
  "parseLabels pkt off labels =
     (if length pkt \<le> off then err NameOverruns
      else bindR (index pkt off) (\<lambda>b.
        let l = unat b; off = off + 1 in
        if l = 0 then ok (labels, off)
        else if b AND 0xC0 = 0xC0 then err CompressedName
        else if length pkt < off + l then err LabelOverruns
        else bindR (slice pkt off (off + l)) (\<lambda>s. parseLabels pkt (off + l) (labels @ [s]))))"
  by pat_completeness auto
termination by (relation "measure (\<lambda>(pkt, off, labels). length pkt - off)") auto

declare parseLabels.simps [simp del]

definition parseQueryWithEnd ::
  "byte list \<Rightarrow> (dns_error + dnsHeader \<times> byte list \<times> uint16 \<times> nat) res" where
  "parseQueryWithEnd pkt =
     (if length pkt < 12 then err PacketTooShort
      else bindR (Uint16 pkt 0) (\<lambda>i. bindR (Uint16 pkt 2) (\<lambda>f.
           bindR (Uint16 pkt 4) (\<lambda>q. bindR (Uint16 pkt 6) (\<lambda>a.
           let h = \<lparr>ID = i, Flags = f, QDCount = q, ANCount = a, NSCount = 0, ARCount = 0\<rparr> in
           if QDCount h \<noteq> 1 then err NotOneQuestion
           else bindE (parseLabels pkt 12 []) (\<lambda>(labels, off).
             if length pkt < off + 4 then err QuestionOverruns
             else bindR (Uint16 pkt off) (\<lambda>qtype.
               ok (h, Join labels [0x2E], qtype, off + 4))))))))"

definition parseQuery :: "byte list \<Rightarrow> (dns_error + dnsHeader \<times> byte list \<times> uint16) res" where
  "parseQuery pkt = bindE (parseQueryWithEnd pkt) (\<lambda>(h, name, qtype, questionEnd). ok (h, name, qtype))"

section \<open>Responses\<close>

definition answersType :: "uint16 \<Rightarrow> ip \<Rightarrow> bool" where
  "answersType qtype a \<longleftrightarrow>
     (qtype = qtypeA \<and> To4 a \<noteq> None) \<or> (qtype = qtypeAAAA \<and> To4 a = None \<and> To16 a \<noteq> None)"

definition recordType :: "ip \<Rightarrow> uint16" where
  "recordType a = (case To4 a of Some v4 \<Rightarrow> qtypeA | None \<Rightarrow> qtypeAAAA)"

text \<open>A nil slice, the value of \<^verbatim>\<open>To16\<close> on a malformed address, is empty.\<close>

definition rdata :: "ip \<Rightarrow> byte list" where
  "rdata a = (case To4 a of Some v4 \<Rightarrow> v4 | None \<Rightarrow> (case To16 a of Some v6 \<Rightarrow> v6 | None \<Rightarrow> []))"

fun appendRecords :: "uint32 \<Rightarrow> ip list \<Rightarrow> byte list \<Rightarrow> byte list res" where
  "appendRecords ttl [] resp = Inr resp"
| "appendRecords ttl (a # ips) resp =
     (let resp = resp @ [0xC0, 0x0C]; rr = replicate 10 0 in
      bindR (PutUint16 rr 0 (recordType a)) (\<lambda>rr.
      bindR (PutUint16 rr 2 1) (\<lambda>rr.
      bindR (PutUint32 rr 4 ttl) (\<lambda>rr.
      bindR (PutUint16 rr 8 (of_nat (length (rdata a)))) (\<lambda>rr.
        appendRecords ttl ips (resp @ rr @ rdata a))))))"

definition responseFlags :: "uint16 \<Rightarrow> bool \<Rightarrow> uint16" where
  "responseFlags f noAnswer =
     (let flags = flagQR OR flagRA OR (f AND flagRD) OR (f AND 0x7800) in
      if noAnswer then flags OR 3 else flags)"

definition buildResponse :: "byte list \<Rightarrow> ip list \<Rightarrow> uint32 \<Rightarrow> (dns_error + byte list) res" where
  "buildResponse query ips ttl =
     bindE (parseQueryWithEnd query) (\<lambda>(h, name, qtype, questionEnd).
       let ips = filter (answersType qtype) ips in
       bindR (slice query 0 12) (\<lambda>resp.
       bindR (PutUint16 resp 2 (responseFlags (Flags h) (ips = []))) (\<lambda>resp.
       bindR (slice query 12 questionEnd) (\<lambda>question.
       let resp = resp @ question in
       bindR (PutUint16 resp 8 0) (\<lambda>resp.
       bindR (PutUint16 resp 10 0) (\<lambda>resp.
       if ips = [] then bindR (PutUint16 resp 6 0) (\<lambda>resp. ok resp)
       else bindR (PutUint16 resp 6 (of_nat (length ips))) (\<lambda>resp.
              bindR (appendRecords ttl ips resp) (\<lambda>resp. ok resp))))))))"

section \<open>Answers\<close>

text \<open>The loop of \<^verbatim>\<open>parseAnswers\<close> over the name of the question.\<close>

function skipQuestionName :: "byte list \<Rightarrow> nat \<Rightarrow> (dns_error + nat) res" where
  "skipQuestionName pkt off =
     (if length pkt \<le> off then err ResponseOverruns
      else bindR (index pkt off) (\<lambda>b.
        let l = unat b; off = off + 1 in
        if l = 0 then ok off
        else if b AND 0xC0 = 0xC0 then ok (off + 1)
        else skipQuestionName pkt (off + l)))"
  by pat_completeness auto
termination by (relation "measure (\<lambda>(pkt, off). length pkt - off)") auto

text \<open>The inner loop over the name of a record that does not start with a pointer.\<close>

function skipLabels :: "byte list \<Rightarrow> nat \<Rightarrow> nat res" where
  "skipLabels pkt off =
     (if off < length pkt then
        bindR (index pkt off) (\<lambda>b. if b \<noteq> 0 then skipLabels pkt (off + unat b + 1) else Inr off)
      else Inr off)"
  by pat_completeness auto
termination by (relation "measure (\<lambda>(pkt, off). length pkt - off)") auto

declare skipQuestionName.simps [simp del] skipLabels.simps [simp del]

definition skipRecordName :: "byte list \<Rightarrow> nat \<Rightarrow> nat res" where
  "skipRecordName pkt off =
     bindR (index pkt off) (\<lambda>b.
       if b AND 0xC0 = 0xC0 then Inr (off + 2)
       else bindR (skipLabels pkt off) (\<lambda>off. Inr (off + 1)))"

definition addAddress :: "byte list \<Rightarrow> nat \<Rightarrow> uint16 \<Rightarrow> nat \<Rightarrow> ip list \<Rightarrow> ip list res" where
  "addAddress pkt off typ rdlen ips =
     (if typ = qtypeA \<and> rdlen = 4 then bindR (slice pkt off (off + 4)) (\<lambda>a. Inr (ips @ [a]))
      else if typ = qtypeAAAA \<and> rdlen = 16 then bindR (slice pkt off (off + 16)) (\<lambda>a. Inr (ips @ [a]))
      else Inr ips)"

text \<open>The loop over the records; the first argument counts those that are left.\<close>

fun answersLoop :: "nat \<Rightarrow> byte list \<Rightarrow> nat \<Rightarrow> ip list \<Rightarrow> ip list res" where
  "answersLoop 0 pkt off ips = Inr ips"
| "answersLoop (Suc n) pkt off ips =
     (if length pkt < off + 10 then Inr ips
      else if length pkt \<le> off then Inr ips
      else bindR (skipRecordName pkt off) (\<lambda>off.
        if length pkt < off + 10 then Inr ips
        else bindR (Uint16 pkt off) (\<lambda>typ. bindR (Uint16 pkt (off + 8)) (\<lambda>len.
          let rdlen = unat len; off = off + 10 in
          if length pkt < off + rdlen then Inr ips
          else bindR (addAddress pkt off typ rdlen ips) (\<lambda>ips.
            answersLoop n pkt (off + rdlen) ips)))))"

definition parseAnswers :: "byte list \<Rightarrow> (dns_error + ip list) res" where
  "parseAnswers pkt =
     (if length pkt < 12 then err ResponseTooShort
      else bindR (Uint16 pkt 6) (\<lambda>anCount.
           bindE (skipQuestionName pkt 12) (\<lambda>off.
           bindR (answersLoop (unat anCount) pkt (off + 4) []) (\<lambda>ips.
             if ips = [] then err NoAnswers else ok ips))))"

section \<open>The resolver\<close>

text \<open>
  An HTTP response: the bytes its body delivers and, if reading it fails afterwards, that failure.
  \<open>client\<close> stands for \<^verbatim>\<open>http.NewRequest\<close> followed by \<^verbatim>\<open>client.Do\<close>: the failure of either, or
  the response.
\<close>

record httpResponse =
  StatusCode :: int
  BodyBytes :: "byte list"
  BodyError :: "string option"

datatype lookup_error = HttpError string | DohStatus int | DnsError dns_error

record dohResolver =
  endpoints :: "string list"
  client :: "string \<Rightarrow> byte list \<Rightarrow> string + httpResponse"

definition newDoHResolver :: "(string \<Rightarrow> byte list \<Rightarrow> string + httpResponse) \<Rightarrow> string list \<Rightarrow> dohResolver" where
  "newDoHResolver cl eps =
     \<lparr>endpoints = (if eps = [] then [''https://1.1.1.1/dns-query'', ''https://8.8.8.8/dns-query''] else eps),
      client = cl\<rparr>"

text \<open>\<^verbatim>\<open>io.ReadAll(io.LimitReader(body, n))\<close>: a failure past the limit is never reached.\<close>

definition readLimited :: "nat \<Rightarrow> httpResponse \<Rightarrow> string + byte list" where
  "readLimited n r =
     (if n \<le> length (BodyBytes r) then Inr (take n (BodyBytes r))
      else case BodyError r of Some e \<Rightarrow> Inl e | None \<Rightarrow> Inr (BodyBytes r))"

definition lookupOnce :: "dohResolver \<Rightarrow> string \<Rightarrow> byte list \<Rightarrow> (lookup_error + ip list) res" where
  "lookupOnce r ep query =
     (case client r ep query of
        Inl e \<Rightarrow> Inr (Inl (HttpError e))
      | Inr resp \<Rightarrow>
          if StatusCode resp \<noteq> 200 then Inr (Inl (DohStatus (StatusCode resp)))
          else (case readLimited 65536 resp of
                 Inl e \<Rightarrow> Inr (Inl (HttpError e))
               | Inr body \<Rightarrow> bindR (parseAnswers body) (\<lambda>res.
                   case res of Inl e \<Rightarrow> Inr (Inl (DnsError e)) | Inr ips \<Rightarrow> Inr (Inr ips))))"

text \<open>The result of \<^verbatim>\<open>lookup\<close> is the pair of Go: addresses and a possibly nil error.\<close>

fun lookupLoop :: "dohResolver \<Rightarrow> string list \<Rightarrow> byte list \<Rightarrow> lookup_error option \<Rightarrow> (ip list \<times> lookup_error option) res" where
  "lookupLoop r [] query lastErr = Inr ([], lastErr)"
| "lookupLoop r (ep # eps) query lastErr =
     bindR (lookupOnce r ep query) (\<lambda>res.
       case res of Inr ips \<Rightarrow> Inr (ips, None) | Inl e \<Rightarrow> lookupLoop r eps query (Some e))"

definition lookup :: "dohResolver \<Rightarrow> byte list \<Rightarrow> (ip list \<times> lookup_error option) res" where
  "lookup r query = lookupLoop r (endpoints r) query None"

text \<open>
  The answer of \<^verbatim>\<open>handleUDP\<close> to the datagram it has read: the bytes it writes back, or nothing.
\<close>

definition answerDatagram :: "dohResolver \<Rightarrow> byte list \<Rightarrow> byte list option res" where
  "answerDatagram r buf =
     bindR (lookup r buf) (\<lambda>(ips, lerr).
       let ips = (if lerr \<noteq> None then [] else ips) in
       bindR (buildResponse buf ips 300) (\<lambda>resp.
         case resp of Inl berr \<Rightarrow> Inr None | Inr bytes \<Rightarrow> Inr (Some bytes)))"

text \<open>
  \<^verbatim>\<open>handleUDP\<close>: whether a flow to \<open>port\<close> is taken, and the answer to its first datagram; \<open>created\<close> is whether the stack gives an endpoint, and \<open>datagram\<close> what
  is read from it.
\<close>

definition handleUDP :: "dohResolver \<Rightarrow> int \<Rightarrow> bool \<Rightarrow> byte list option \<Rightarrow> (bool \<times> byte list option) res" where
  "handleUDP r port created datagram =
     (if port \<noteq> 53 \<or> \<not> created then Inr (False, None)
      else case datagram of
        None \<Rightarrow> Inr (True, None)
      | Some buf \<Rightarrow> bindR (answerDatagram r buf) (\<lambda>answer. Inr (True, answer)))"

section \<open>Safety and the extent of the question\<close>

lemma parseLabels_step:
  "off < length pkt \<Longrightarrow>
   parseLabels pkt off labels =
     (let l = unat (pkt ! off) in
      if l = 0 then ok (labels, off + 1)
      else if pkt ! off AND 0xC0 = 0xC0 then err CompressedName
      else if length pkt < off + 1 + l then err LabelOverruns
      else parseLabels pkt (off + 1 + l) (labels @ [take l (drop (off + 1) pkt)]))"
  by (subst parseLabels.simps) (simp add: Let_def)

lemma parseLabels_end: "length pkt \<le> off \<Longrightarrow> parseLabels pkt off labels = err NameOverruns"
  by (subst parseLabels.simps) simp

lemma skipQuestionName_step:
  "off < length pkt \<Longrightarrow>
   skipQuestionName pkt off =
     (let l = unat (pkt ! off) in
      if l = 0 then ok (off + 1)
      else if pkt ! off AND 0xC0 = 0xC0 then ok (off + 2)
      else skipQuestionName pkt (off + 1 + l))"
  by (subst skipQuestionName.simps) (simp add: Let_def)

lemma measure_induct_off [case_names step]:
  fixes len :: nat
  assumes "\<And>off x. (\<And>off' y. off < off' \<Longrightarrow> off < len \<Longrightarrow> P off' y) \<Longrightarrow> P off x"
  shows "P off x"
  using assms
proof (induction "len - off" arbitrary: off x rule: less_induct)
  case less
  show ?case
  proof (rule less.prems)
    fix off' y assume "off < off'" "off < len"
    with less.hyps [of off' y] less.prems show "P off' y" by simp
  qed
qed

lemma parseLabels_safe: "safe (parseLabels pkt off labels)"
proof (induction off labels rule: measure_induct_off [where len = "length pkt"])
  case (step off labels)
  show ?case
    by (cases "off < length pkt") (auto simp: parseLabels_step parseLabels_end Let_def step)
qed

lemma parseLabels_range: "parseLabels pkt off labels = ok (ls, e) \<Longrightarrow> off < e \<and> e \<le> length pkt"
proof (induction off labels rule: measure_induct_off [where len = "length pkt"])
  case (step off labels)
  then have o: "off < length pkt" by (metis Inl_Inr_False Inr_inject leI parseLabels_end)
  show ?case
  proof (cases "pkt ! off = 0")
    case True
    then show ?thesis using step.prems o by (simp add: parseLabels_step)
  next
    case False
    then have "parseLabels pkt (off + 1 + unat (pkt ! off)) (labels @ [take (unat (pkt ! off)) (drop (off + 1) pkt)]) = ok (ls, e)"
      using step.prems o by (simp add: parseLabels_step Let_def unat_eq_0 split: if_splits)
    from step.IH [OF _ o this] show ?thesis by simp
  qed
qed

text \<open>The parse looks at the bytes of the name only, and the answer parser skips the same bytes.\<close>

lemma parseLabels_local:
  assumes "parseLabels pkt off labels = ok (ls, e)" "\<And>i. off \<le> i \<Longrightarrow> i < e \<Longrightarrow> pkt' ! i = pkt ! i" "e \<le> length pkt'"
  shows "parseLabels pkt' off labels = ok (ls, e) \<and> skipQuestionName pkt' off = ok e"
  using assms
proof (induction off labels rule: measure_induct_off [where len = "length pkt"])
  case (step off labels)
  note r = parseLabels_range [OF step.prems(1)]
  from r have o: "off < length pkt" "off < length pkt'" "pkt' ! off = pkt ! off"
    using step.prems(2,3) by auto
  let ?l = "unat (pkt ! off)"
  show ?case
  proof (cases "pkt ! off = 0")
    case True
    then show ?thesis using step.prems(1) o by (simp add: parseLabels_step skipQuestionName_step)
  next
    case False
    then have p: "pkt ! off AND 0xC0 \<noteq> 0xC0" "off + 1 + ?l \<le> length pkt"
      "parseLabels pkt (off + 1 + ?l) (labels @ [take ?l (drop (off + 1) pkt)]) = ok (ls, e)"
      using step.prems(1) o by (auto simp: parseLabels_step Let_def unat_eq_0 split: if_splits)
    note r' = parseLabels_range [OF p(3)]
    have "take ?l (drop (off + 1) pkt) = take ?l (drop (off + 1) pkt')"
      using r' step.prems(2,3) by (intro nth_equalityI) auto
    with step.IH [OF _ o(1) p(3) step.prems(2,3)] r' step.prems(3) o p False show ?thesis
      by (simp add: parseLabels_step [OF o(2)] skipQuestionName_step [OF o(2)] Let_def unat_eq_0)
  qed
qed

lemma Uint16_safe' [simp, intro]: "off + 1 < length b \<Longrightarrow> safe (Uint16 b off)"
  by (rule Uint16_safe)

lemma parseQueryWithEnd_safe: "safe (parseQueryWithEnd pkt)"
  unfolding parseQueryWithEnd_def Let_def
  by (auto intro!: safe_bindR safe_bindE parseLabels_safe split: prod.splits)

text \<open>What a successful parse has read.\<close>

lemma parseQueryWithEnd_ok:
  "parseQueryWithEnd pkt = ok (h, name, qtype, e) \<longleftrightarrow>
     12 \<le> length pkt \<and> 16 < e \<and> e \<le> length pkt \<and> NSCount h = 0 \<and> ARCount h = 0 \<and>
     Uint16 pkt 0 = Inr (ID h) \<and> Uint16 pkt 2 = Inr (Flags h) \<and> Uint16 pkt 4 = Inr 1 \<and> QDCount h = 1 \<and>
     Uint16 pkt 6 = Inr (ANCount h) \<and> Uint16 pkt (e - 4) = Inr qtype \<and>
     (\<exists>ls. parseLabels pkt 12 [] = ok (ls, e - 4) \<and> name = Join ls [0x2E])"
  (is "?l \<longleftrightarrow> ?r")
proof
  assume ?l
  then show ?r
    using parseLabels_range [of pkt 12 "[]"]
    by (cases h) (fastforce simp: parseQueryWithEnd_def Let_def res_simps split: if_splits)
next
  assume r: ?r
  then obtain ls where "parseLabels pkt 12 [] = ok (ls, e - 4)" "name = Join ls [0x2E]" by auto
  with r show ?l by (cases h) (simp add: parseQueryWithEnd_def)
qed

section \<open>The bytes of a response\<close>

definition recordBytes :: "uint32 \<Rightarrow> ip \<Rightarrow> byte list" where
  "recordBytes ttl a =
     [0xC0, 0x0C] @ be16 (recordType a) @ be16 1 @ be32 ttl @ be16 (of_nat (length (rdata a))) @ rdata a"

lemma appendRecords_bytes: "appendRecords ttl ips resp = Inr (resp @ concat (map (recordBytes ttl) ips))"
  by (induction ips arbitrary: resp)
    (simp_all add: recordBytes_def PutUint16_def PutUint32_def be16_def be32_def eval_nat_numeral)

lemma length_ge_12E:
  assumes "12 \<le> length xs"
  obtains a b c d e f g h i j k l ys where "xs = a # b # c # d # e # f # g # h # i # j # k # l # ys"
proof -
  have "length (take 12 xs) = 12" using assms by simp
  then obtain a b c d e f g h i j k l where "take 12 xs = [a, b, c, d, e, f, g, h, i, j, k, l]"
    by (auto simp: eval_nat_numeral length_Suc_conv simp del: length_take)
  with append_take_drop_id [of 12 xs] have "xs = a # b # c # d # e # f # g # h # i # j # k # l # drop 12 xs"
    by (metis append_Cons append_Nil)
  then show thesis by (rule that)
qed

definition responseHeader :: "dnsHeader \<Rightarrow> nat \<Rightarrow> byte list" where
  "responseHeader h n = be16 (ID h) @ be16 (responseFlags (Flags h) (n = 0)) @ be16 1 @ be16 (of_nat n) @ be16 0 @ be16 0"

lemma be16_of_pair: "Uint16 (x # y # ys) 0 = Inr v \<Longrightarrow> be16 v = [x, y]"
proof -
  assume "Uint16 (x # y # ys) 0 = Inr v"
  then have v: "v = ucast y OR push_bit 8 (ucast x)" by (simp add: Uint16_def)
  have y: "\<not> bit y (8 + n)" for n using bit_imp_le_length [of y "8 + n"] by auto
  have "ucast (drop_bit 8 v) = x" "ucast v = y"
    unfolding v by (auto intro!: bit_word_eqI simp: y bit_or_iff bit_ucast_iff bit_push_bit_iff bit_drop_bit_eq)
  then show ?thesis by (simp add: be16_def)
qed

lemma Uint16_Cons2: "Uint16 (x # y # ys) (Suc (Suc n)) = Uint16 ys n"
  by (simp add: Uint16_def)

lemma buildResponse_bytes:
  assumes "parseQueryWithEnd q = ok (h, name, qt, e)"
  defines "fs \<equiv> \<lambda>ips. filter (answersType qt) ips"
  shows "buildResponse q ips ttl =
    ok (responseHeader h (length (fs ips)) @ take (e - 12) (drop 12 q) @ concat (map (recordBytes ttl) (fs ips)))"
proof -
  from assms(1) have p: "12 \<le> length q" "16 < e" "e \<le> length q"
    "Uint16 q 0 = Inr (ID h)" "Uint16 q 4 = Inr 1"
    by (simp_all add: parseQueryWithEnd_ok)
  obtain b0 b1 b2 b3 b4 b5 b6 b7 b8 b9 b10 b11 r
    where q: "q = b0 # b1 # b2 # b3 # b4 # b5 # b6 # b7 # b8 # b9 # b10 # b11 # r"
    using length_ge_12E [OF p(1)] .
  have "be16 (ID h) = [b0, b1]" using p(4) be16_of_pair unfolding q by blast
  moreover have "be16 1 = [b4, b5]"
    using p(5) be16_of_pair [of b4 b5] unfolding q by (simp add: Uint16_Cons2 eval_nat_numeral)
  ultimately show ?thesis
    using p assms(1)
    by (simp add: buildResponse_def fs_def [symmetric] Let_def appendRecords_bytes PutUint16_def responseHeader_def q
        be16_def numeral_eq_Suc)
qed

text \<open>The answer parser reads the records back.\<close>

lemma rdata_length: "answersType qt a \<Longrightarrow> length (rdata a) = (if recordType a = qtypeA then 4 else 16)"
  by (auto simp: answersType_def rdata_def recordType_def dns_consts dest: To4_length To16_length split: option.splits)

lemma recordType_cases: "recordType a = qtypeA \<or> recordType a = qtypeAAAA"
  by (simp add: recordType_def split: option.splits)

lemma answersLoop_record:
  assumes "answersType qt a"
  shows "answersLoop (Suc n) (xs @ recordBytes ttl a @ ys) (length xs) acc =
         answersLoop n (xs @ recordBytes ttl a @ ys) (length (xs @ recordBytes ttl a)) (acc @ [rdata a])"
proof -
  let ?pkt = "xs @ recordBytes ttl a @ ys" and ?m = "length (rdata a)" and ?o = "length xs"
  have m: "?m < 65536" "unat (of_nat ?m :: uint16) = ?m"
    using rdata_length [OF assms] by (auto simp: unat_of_nat split: if_splits)
  have pkt: "?pkt = (xs @ [0xC0, 0x0C]) @ be16 (recordType a) @ (be16 1 @ be32 ttl @ be16 (of_nat ?m) @ rdata a @ ys)"
    "?pkt = (xs @ [0xC0, 0x0C] @ be16 (recordType a) @ be16 1 @ be32 ttl) @ be16 (of_nat ?m) @ (rdata a @ ys)"
    "?pkt = (xs @ [0xC0, 0x0C] @ be16 (recordType a) @ be16 1 @ be32 ttl @ be16 (of_nat ?m)) @ rdata a @ ys"
    by (simp_all add: recordBytes_def)
  have len: "length ?pkt = ?o + 12 + ?m + length ys" "length (xs @ recordBytes ttl a) = ?o + 12 + ?m"
    by (simp_all add: recordBytes_def)
  have "?pkt ! ?o = 0xC0" by (simp add: recordBytes_def)
  then have nm: "skipRecordName ?pkt ?o = Inr (?o + 2)" using len(1) by (simp add: skipRecordName_def)
  have t: "Uint16 ?pkt (?o + 2) = Inr (recordType a)" unfolding pkt(1) by (rule Uint16_at) simp
  have l: "Uint16 ?pkt (?o + 2 + 8) = Inr (of_nat ?m)" unfolding pkt(2) by (rule Uint16_at) simp
  have d: "take ?m (drop (?o + 12) ?pkt) = rdata a" unfolding pkt(3) by simp
  have "addAddress ?pkt (?o + 12) (recordType a) ?m acc = Inr (acc @ [rdata a])"
    using rdata_length [OF assms] recordType_cases [of a] d len(1)
    by (auto simp: addAddress_def dns_consts)
  then show ?thesis using nm t l m len by (simp add: Let_def ac_simps)
qed

lemma answersLoop_records:
  assumes "\<forall>a \<in> set as. answersType qt a"
  shows "answersLoop n (xs @ concat (map (recordBytes ttl) as)) (length xs) acc = Inr (acc @ map rdata (take n as))"
  using assms
proof (induction as arbitrary: n xs acc)
  case Nil
  then show ?case by (cases n) auto
next
  case (Cons a as)
  show ?case
  proof (cases n)
    case (Suc k)
    have "answersLoop n (xs @ concat (map (recordBytes ttl) (a # as))) (length xs) acc =
          answersLoop k ((xs @ recordBytes ttl a) @ concat (map (recordBytes ttl) as)) (length (xs @ recordBytes ttl a)) (acc @ [rdata a])"
      using answersLoop_record [of qt a k xs ttl "concat (map (recordBytes ttl) as)" acc] Cons.prems Suc by simp
    also have "\<dots> = Inr (acc @ map rdata (take n (a # as)))"
      using Cons.IH [of k "xs @ recordBytes ttl a" "acc @ [rdata a]"] Cons.prems Suc by simp
    finally show ?thesis .
  qed simp
qed

text \<open>
  The response starts with the bytes the query has from its question on: it parses again, and the
  answer parser finds the records behind the question.
\<close>

lemma length_responseHeader [simp]: "length (responseHeader h n) = 12"
  by (simp add: responseHeader_def)

lemma Uint16_local: "b ! off = b' ! off \<Longrightarrow> b ! (off + 1) = b' ! (off + 1) \<Longrightarrow> off + 1 < length b \<Longrightarrow> off + 1 < length b' \<Longrightarrow>
   Uint16 b off = Uint16 b' off"
  by (simp add: Uint16_def)

lemma responseHeader_fields:
  "Uint16 (responseHeader h n @ ys) 0 = Inr (ID h)"
  "Uint16 (responseHeader h n @ ys) 2 = Inr (responseFlags (Flags h) (n = 0))"
  "Uint16 (responseHeader h n @ ys) 4 = Inr 1"
  "Uint16 (responseHeader h n @ ys) 6 = Inr (of_nat n)"
  using Uint16_at [of 0 "[]" "ID h"] Uint16_at [of 2 "be16 (ID h)"]
    Uint16_at [of 4 "be16 (ID h) @ be16 (responseFlags (Flags h) (n = 0))" 1]
    Uint16_at [of 6 "be16 (ID h) @ be16 (responseFlags (Flags h) (n = 0)) @ be16 1"]
  by (simp_all add: responseHeader_def)

lemma response_question:
  assumes "parseQueryWithEnd q = ok (h, name, qt, e)"
  shows "parseQueryWithEnd (responseHeader h n @ take (e - 12) (drop 12 q) @ ys) =
     ok (h\<lparr>Flags := responseFlags (Flags h) (n = 0), ANCount := of_nat n\<rparr>, name, qt, e)"
    and "skipQuestionName (responseHeader h n @ take (e - 12) (drop 12 q) @ ys) 12 = ok (e - 4)"
proof -
  let ?r = "responseHeader h n @ take (e - 12) (drop 12 q) @ ys"
  from assms obtain ls where p: "12 \<le> length q" "16 < e" "e \<le> length q" "NSCount h = 0" "ARCount h = 0"
    "QDCount h = 1" "Uint16 q (e - 4) = Inr qt" "parseLabels q 12 [] = ok (ls, e - 4)" "name = Join ls [0x2E]"
    unfolding parseQueryWithEnd_ok by blast
  have same: "?r ! i = q ! i" if "12 \<le> i" "i < e" for i
    using that p by (auto simp: nth_append)
  have len: "e \<le> length ?r" using p by simp
  have "parseLabels ?r 12 [] = ok (ls, e - 4) \<and> skipQuestionName ?r 12 = ok (e - 4)"
    using len by (intro parseLabels_local [OF p(8)]) (auto simp: same)
  moreover have "Uint16 ?r (e - 4) = Inr qt"
    using p(7) Uint16_local [of ?r "e - 4" q] same [of "e - 4"] same [of "e - 4 + 1"] p(2,3) len by simp
  ultimately show "parseQueryWithEnd ?r =
     ok (h\<lparr>Flags := responseFlags (Flags h) (n = 0), ANCount := of_nat n\<rparr>, name, qt, e)"
    "skipQuestionName ?r 12 = ok (e - 4)"
    using p len responseHeader_fields [of h n "take (e - 12) (drop 12 q) @ ys"]
    by (auto simp: parseQueryWithEnd_ok)
qed

lemma skipQuestionName_safe: "safe (skipQuestionName pkt off)"
proof (induction off "()" rule: measure_induct_off [where len = "length pkt"])
  case (step off)
  show ?case
    by (subst skipQuestionName.simps) (auto simp: Let_def step)
qed

lemma skipLabels_safe: "safe (skipLabels pkt off)"
proof (induction off "()" rule: measure_induct_off [where len = "length pkt"])
  case (step off)
  show ?case
    by (subst skipLabels.simps) (auto simp: Let_def step)
qed

lemma skipRecordName_safe: "off < length pkt \<Longrightarrow> safe (skipRecordName pkt off)"
  unfolding skipRecordName_def by (auto intro!: safe_bindR skipLabels_safe)

lemma answersLoop_safe: "safe (answersLoop n pkt off ips)"
proof (induction n arbitrary: off ips)
  case (Suc n)
  show ?case
    by (auto simp: Let_def addAddress_def intro!: safe_bindR skipRecordName_safe Suc)
qed simp

lemma parseAnswers_safe: "safe (parseAnswers pkt)"
  unfolding parseAnswers_def
  by (auto intro!: safe_bindR safe_bindE skipQuestionName_safe answersLoop_safe)

lemma buildResponse_safe: "safe (buildResponse q ips ttl)"
proof -
  from parseQueryWithEnd_safe [of q] obtain x where x: "parseQueryWithEnd q = Inr x" by (auto simp: safe_def)
  show ?thesis
  proof (cases x)
    case (Inr y)
    then show ?thesis using x buildResponse_bytes [of q] by (cases y) auto
  qed (simp add: buildResponse_def x)
qed

lemma lookupOnce_safe: "safe (lookupOnce r ep q)"
  unfolding lookupOnce_def by (auto intro!: safe_bindR parseAnswers_safe split: sum.splits)

lemma lookupLoop_safe: "safe (lookupLoop r eps q e)"
  by (induction eps arbitrary: e) (auto intro!: safe_bindR lookupOnce_safe split: sum.splits)

section \<open>The form of a question\<close>

definition encodeName :: "byte list list \<Rightarrow> byte list" where
  "encodeName ls = concat (map (\<lambda>l. of_nat (length l) # l) ls) @ [0]"

definition labels_ok :: "byte list list \<Rightarrow> bool" where
  "labels_ok = list_all (\<lambda>l. 0 < length l \<and> length l < 192)"

lemma byte_less: "unat (b :: byte) < 256"
  by (rule order.strict_trans2 [OF unsigned_less]) simp

lemma pointer_byte: "(b :: byte) AND 0xC0 = 0xC0 \<longleftrightarrow> 192 \<le> unat b"
proof -
  have "\<forall>n < 256. (of_nat n :: byte) AND 0xC0 = 0xC0 \<longleftrightarrow> 192 \<le> n" by code_simp
  from this [rule_format, of "unat b"] show ?thesis using byte_less [of b] by simp
qed

lemma parseLabels_encode:
  assumes "labels_ok ls"
  shows "parseLabels (xs @ encodeName ls @ ys) (length xs) acc = ok (acc @ ls, length xs + length (encodeName ls))"
  using assms
proof (induction ls arbitrary: xs acc)
  case Nil
  then show ?case by (simp add: parseLabels_step encodeName_def)
next
  case (Cons l ls)
  then have l: "0 < length l" "length l < 192" "labels_ok ls" by (simp_all add: labels_ok_def)
  then have u: "unat (of_nat (length l) :: byte) = length l" by (simp add: unat_of_nat)
  let ?xs = "xs @ of_nat (length l) # l"
  have "parseLabels (xs @ encodeName (l # ls) @ ys) (length xs) acc =
        parseLabels (?xs @ encodeName ls @ ys) (length ?xs) (acc @ [l])"
    using l u by (subst parseLabels_step) (simp_all add: pointer_byte encodeName_def Let_def)
  also have "\<dots> = ok (acc @ l # ls, length ?xs + length (encodeName ls))" using Cons.IH [OF l(3), of ?xs "acc @ [l]"] by simp
  finally show ?case by (simp add: encodeName_def)
qed

lemma parseLabels_decode:
  assumes "parseLabels pkt off acc = ok (ls', e)"
  shows "\<exists>ls. ls' = acc @ ls \<and> labels_ok ls \<and> take (e - off) (drop off pkt) = encodeName ls"
  using assms
proof (induction off acc rule: measure_induct_off [where len = "length pkt"])
  case (step off acc)
  note r = parseLabels_range [OF step.prems]
  then have o: "off < length pkt" by simp
  let ?l = "unat (pkt ! off)"
  show ?case
  proof (cases "pkt ! off = 0")
    case True
    then show ?thesis using step.prems o
      by (intro exI [of _ "[]"]) (auto simp: parseLabels_step labels_ok_def encodeName_def take_Suc_conv_app_nth)
  next
    case False
    let ?s = "take ?l (drop (off + 1) pkt)"
    have p: "?l < 192" "off + 1 + ?l \<le> length pkt" "parseLabels pkt (off + 1 + ?l) (acc @ [?s]) = ok (ls', e)"
      using step.prems o False by (auto simp: parseLabels_step pointer_byte Let_def unat_eq_0 split: if_splits)
    from step.IH [OF _ o p(3)] obtain ls where ls: "ls' = (acc @ [?s]) @ ls" "labels_ok ls"
      "take (e - (off + 1 + ?l)) (drop (off + 1 + ?l) pkt) = encodeName ls" by auto
    have s: "length ?s = ?l" "0 < ?l" using p False by (auto simp: unat_gt_0)
    have e: "e - off = Suc (?l + (e - (off + 1 + ?l)))" using parseLabels_range [OF p(3)] by arith
    have "take (e - off) (drop off pkt) = pkt ! off # ?s @ encodeName ls"
      using o ls(3) unfolding e Cons_nth_drop_Suc [OF o, symmetric] take_Suc_Cons take_add by (simp add: ac_simps)
    then show ?thesis using ls s p(1)
      by (intro exI [of _ "?s # ls"]) (simp add: labels_ok_def encodeName_def)
  qed
qed

lemma be16_of_Uint16: "Uint16 b off = Inr v \<Longrightarrow> take 2 (drop off b) = be16 v"
proof -
  assume u: "Uint16 b off = Inr v"
  then have o: "off + 1 < length b" by (simp add: Uint16_def split: if_splits)
  then have d: "drop off b = b ! off # b ! (off + 1) # drop (off + 2) b"
    by (metis Cons_nth_drop_Suc Suc_eq_plus1 add_2_eq_Suc' add_lessD1)
  have "Uint16 (drop off b) 0 = Inr v" using u o by (simp add: Uint16_def)
  from be16_of_pair [OF this [unfolded d]] show ?thesis by (simp add: d)
qed

lemma question_split:
  assumes "16 < e" "e \<le> length pkt" "Uint16 pkt (e - 4) = Inr qt" "take (e - 16) (drop 12 pkt) = n"
  shows "pkt = take 12 pkt @ n @ be16 qt @ take 2 (drop (e - 2) pkt) @ drop e pkt"
proof -
  obtain k where k: "e = 16 + k" using assms(1) by (metis le_Suc_ex less_imp_le)
  have split: "drop i pkt = take m (drop i pkt) @ drop (m + i) pkt" for i m
    by (metis append_take_drop_id drop_drop)
  have "pkt = take 12 pkt @ drop 12 pkt" by simp
  also have "drop 12 pkt = n @ drop (12 + k) pkt" using split [of 12 k] assms(4) k by (simp add: add.commute)
  also have "drop (12 + k) pkt = be16 qt @ drop (14 + k) pkt"
    using split [of "12 + k" 2] be16_of_Uint16 [OF assms(3)] k by simp
  also have "drop (14 + k) pkt = take 2 (drop (14 + k) pkt) @ drop (16 + k) pkt"
    using split [of "14 + k" 2] by simp
  finally show ?thesis by (simp add: k)
qed

lemma responseHeader_counts:
  "Uint16 (responseHeader h n @ ys) 8 = Inr 0" "Uint16 (responseHeader h n @ ys) 10 = Inr 0"
  by (simp_all add: responseHeader_def Uint16_def be16_def)

lemma responseFlags_bits:
  "responseFlags f z AND flagQR = flagQR" "responseFlags f z AND flagRA = flagRA"
  "responseFlags f z AND flagRD = f AND flagRD" "responseFlags f z AND 0x7800 = f AND 0x7800"
  "responseFlags f z AND 0xF = (if z then 3 else 0)"
  by (simp_all add: responseFlags_def dns_consts Let_def bit.conj_disj_distrib2 and.assoc)

text \<open>The addresses a resolver returns.\<close>

lemma parseAnswers_nonempty: "parseAnswers pkt = ok ips \<Longrightarrow> ips \<noteq> []"
  by (auto simp: parseAnswers_def res_simps split: if_splits)

lemma lookupOnce_nonempty: "lookupOnce r ep q = Inr (Inr ips) \<Longrightarrow> ips \<noteq> []"
  by (fastforce simp: lookupOnce_def bindR_def dest: parseAnswers_nonempty split: sum.splits if_splits)

lemma lookupLoop_spec:
  assumes "eps \<noteq> []"
  shows "\<exists>ips lerr. lookupLoop r eps q e0 = Inr (ips, lerr) \<and>
     (lerr = None \<longrightarrow> ips \<noteq> [] \<and> (\<exists>pre ep post. eps = pre @ ep # post \<and> lookupOnce r ep q = Inr (Inr ips) \<and>
        (\<forall>ep' \<in> set pre. \<exists>e. lookupOnce r ep' q = Inr (Inl e)))) \<and>
     (\<forall>e. lerr = Some e \<longrightarrow> ips = [] \<and> lookupOnce r (last eps) q = Inr (Inl e) \<and>
        (\<forall>ep' \<in> set eps. \<exists>e. lookupOnce r ep' q = Inr (Inl e)))"
  using assms
proof (induction eps arbitrary: e0 rule: list_nonempty_induct)
  case (single ep)
  obtain res where res: "lookupOnce r ep q = Inr res" using lookupOnce_safe [of r ep q] by (auto simp: safe_def)
  then show ?case using lookupOnce_nonempty [of r ep q] by (cases res) (auto simp: Cons_eq_append_conv)
next
  case (cons ep eps)
  obtain res where res: "lookupOnce r ep q = Inr res" using lookupOnce_safe [of r ep q] by (auto simp: safe_def)
  show ?case
  proof (cases res)
    case (Inr ips)
    then show ?thesis using res lookupOnce_nonempty [of r ep q] append_Nil [of "ep # eps", symmetric] by fastforce
  next
    case (Inl e)
    obtain ips lerr where ih: "lookupLoop r eps q (Some e) = Inr (ips, lerr)"
      "lerr = None \<Longrightarrow> ips \<noteq> []"
      "lerr = None \<Longrightarrow> \<exists>pre ep post. eps = pre @ ep # post \<and> lookupOnce r ep q = Inr (Inr ips) \<and>
         (\<forall>ep' \<in> set pre. \<exists>e. lookupOnce r ep' q = Inr (Inl e))"
      "\<And>e. lerr = Some e \<Longrightarrow> ips = [] \<and> lookupOnce r (last eps) q = Inr (Inl e) \<and>
        (\<forall>ep' \<in> set eps. \<exists>e. lookupOnce r ep' q = Inr (Inl e))"
      using cons.IH [of "Some e"] by blast
    have "\<exists>pre ep' post. ep # eps = pre @ ep' # post \<and> lookupOnce r ep' q = Inr (Inr ips) \<and>
         (\<forall>ep' \<in> set pre. \<exists>e. lookupOnce r ep' q = Inr (Inl e))" if n: "lerr = None"
    proof -
      obtain pre ep' post where "eps = pre @ ep' # post" "lookupOnce r ep' q = Inr (Inr ips)"
        "\<forall>ep' \<in> set pre. \<exists>e. lookupOnce r ep' q = Inr (Inl e)" using ih(3) [OF n] by blast
      then show ?thesis using res Inl by (intro exI [of _ "ep # pre"] exI [of _ ep'] exI [of _ post]) auto
    qed
    then show ?thesis using ih res Inl cons.hyps by auto
  qed
qed

text \<open>The answers of a built response.\<close>

lemma response_answers:
  assumes "parseQueryWithEnd q = ok (h, name, qt, e)"
  shows "\<exists>resp. buildResponse q ips ttl = ok resp \<and>
     parseAnswers resp =
       (let fs = filter (answersType qt) ips; as = map rdata (take (length fs mod 65536) fs) in
        if as = [] then err NoAnswers else ok as)"
proof -
  let ?fs = "filter (answersType qt) ips"
  let ?x = "responseHeader h (length ?fs) @ take (e - 12) (drop 12 q)"
  let ?r = "?x @ concat (map (recordBytes ttl) ?fs)"
  have b: "buildResponse q ips ttl = ok ?r" using buildResponse_bytes [OF assms] by simp
  have len: "length ?x = e" using assms by (auto simp: parseQueryWithEnd_ok)
  have "Uint16 ?r 6 = Inr (of_nat (length ?fs))" "skipQuestionName ?r 12 = ok (e - 4)"
    using responseHeader_fields(4) [of h "length ?fs"] response_question(2) [OF assms] by simp_all
  moreover have "answersLoop n ?r e [] = Inr (map rdata (take n ?fs))" for n
    using answersLoop_records [of ?fs qt n ?x ttl "[]"] len by simp
  moreover have "16 < e" using assms by (simp add: parseQueryWithEnd_ok)
  ultimately have "parseAnswers ?r = (let as = map rdata (take (length ?fs mod 65536) ?fs) in if as = [] then err NoAnswers else ok as)"
    using len by (simp add: parseAnswers_def unat_of_nat Let_def)
  with b show ?thesis by (simp add: Let_def)
qed

section \<open>Properties\<close>

text \<open>
  (C19) No packet, however malformed, makes the codec or the datagram handler panic: parsing a query,
  parsing an answer, building a response and answering a datagram all return, whatever the HTTP
  server sends.
\<close>

theorem dns_never_panics:
  "safe (parseQueryWithEnd pkt) \<and> safe (parseAnswers pkt) \<and> safe (buildResponse pkt ips ttl) \<and>
   safe (lookup r pkt) \<and> safe (answerDatagram r pkt)"
  unfolding lookup_def answerDatagram_def
  by (auto intro!: parseQueryWithEnd_safe parseAnswers_safe buildResponse_safe lookupLoop_safe safe_bindR
      split: sum.splits)

text \<open>
  (C17) A query parses exactly if, behind a twelve-byte header that announces one question, it has
  a sequence of labels of 1 to 191 bytes ended by a zero byte, a type and a class; the result is the
  header, the labels joined by dots, the type, and the offset just behind the class.
\<close>

theorem dns_query_grammar:
  "parseQueryWithEnd pkt = ok (h, name, qt, e) \<longleftrightarrow>
     (\<exists>hdr ls cls rest. pkt = hdr @ encodeName ls @ be16 qt @ cls @ rest \<and> length hdr = 12 \<and> length cls = 2 \<and>
        h = \<lparr>ID = ID h, Flags = Flags h, QDCount = 1, ANCount = ANCount h, NSCount = 0, ARCount = 0\<rparr> \<and>
        Uint16 hdr 0 = Inr (ID h) \<and> Uint16 hdr 2 = Inr (Flags h) \<and> Uint16 hdr 4 = Inr 1 \<and> Uint16 hdr 6 = Inr (ANCount h) \<and>
        labels_ok ls \<and> name = Join ls [0x2E] \<and> e = 16 + length (encodeName ls))"
  (is "?l \<longleftrightarrow> (\<exists>hdr ls cls rest. ?r hdr ls cls rest)")
proof
  assume ?l
  then obtain ls where p: "16 < e" "e \<le> length pkt" "Uint16 pkt (e - 4) = Inr qt" "name = Join ls [0x2E]"
    "parseLabels pkt 12 [] = ok (ls, e - 4)" and hd: "Uint16 pkt 0 = Inr (ID h)" "Uint16 pkt 2 = Inr (Flags h)"
    "Uint16 pkt 4 = Inr 1" "Uint16 pkt 6 = Inr (ANCount h)" "NSCount h = 0" "ARCount h = 0" "QDCount h = 1"
    unfolding parseQueryWithEnd_ok by blast
  have ls: "labels_ok ls" "take (e - 16) (drop 12 pkt) = encodeName ls"
    using parseLabels_decode [OF p(5)] by auto
  have "length (encodeName ls) = e - 16" unfolding ls(2) [symmetric] using p(1,2) by simp
  moreover have "pkt = take 12 pkt @ encodeName ls @ be16 qt @ take 2 (drop (e - 2) pkt) @ drop e pkt"
    by (rule question_split [OF p(1,2,3) ls(2)])
  ultimately show "\<exists>hdr ls cls rest. ?r hdr ls cls rest"
    using p ls hd
    by (intro exI [of _ "take 12 pkt"] exI [of _ ls] exI [of _ "take 2 (drop (e - 2) pkt)"] exI [of _ "drop e pkt"] conjI)
      (auto simp: Uint16_def)
next
  assume "\<exists>hdr ls cls rest. ?r hdr ls cls rest"
  then obtain hdr ls cls rest where r: "?r hdr ls cls rest" by blast
  have "parseLabels pkt 12 [] = ok (ls, e - 4)"
    using parseLabels_encode [of ls hdr "be16 qt @ cls @ rest" "[]"] r by auto
  moreover have "Uint16 pkt (e - 4) = Inr qt"
    using r Uint16_at [of "e - 4" "hdr @ encodeName ls" qt "cls @ rest"] by simp
  moreover have "Uint16 pkt k = Uint16 hdr k" if "k + 1 < 12" for k
    using that r by (simp add: Uint16_def nth_append)
  ultimately show ?l using r by (cases h) (auto simp: parseQueryWithEnd_ok encodeName_def)
qed

theorem dns_query_grammar_witness:
  "parseQueryWithEnd ([0x12, 0x34, 1, 0, 0, 1, 0, 0, 0, 0, 0, 0] @ encodeName [[0x61], [0x62, 0x63]] @ be16 1 @ [0, 1] @ [9]) =
     ok (\<lparr>ID = 0x1234, Flags = 0x100, QDCount = 1, ANCount = 0, NSCount = 0, ARCount = 0\<rparr>, [0x61, 0x2E, 0x62, 0x63], 1, 22)"
  unfolding dns_query_grammar
  by (intro exI [of _ "[0x12, 0x34, 1, 0, 0, 1, 0, 0, 0, 0, 0, 0]"] exI [of _ "[[0x61], [0x62, 0x63]]"]
      exI [of _ "[0, 1]"] exI [of _ "[9]"]) (simp add: Uint16_def labels_ok_def encodeName_def)

text \<open>
  (C18) Round trip: the answers read from a built response are the given addresses of the queried type,
  in their order and in their canonical form.  The count field has 16 bits: of more than 65535
  addresses only the remainder is announced, and none at a multiple of 65536.
\<close>

theorem dns_response_roundtrip:
  assumes "parseQueryWithEnd q = ok (h, name, qt, e)"
  shows "\<exists>resp. buildResponse q ips ttl = ok resp \<and>
     parseAnswers resp =
       (let fs = filter (answersType qt) ips; as = map rdata (take (length fs mod 65536) fs) in
        if as = [] then err NoAnswers else ok as)"
  by (rule response_answers [OF assms])

text \<open>The query of the tests: the name \<^verbatim>\<open>a.bc\<close>, type A, recursion desired.\<close>

definition exampleQuery :: "byte list" where
  "exampleQuery = [0x12, 0x34, 1, 0, 0, 1, 0, 0, 0, 0, 0, 0, 1, 0x61, 2, 0x62, 0x63, 0, 0, 1, 0, 1]"

lemma exampleQuery_name: "parseLabels exampleQuery 12 [] = ok ([[0x61], [0x62, 0x63]], 18)"
  using parseLabels_encode [of "[[0x61], [0x62, 0x63]]" "[0x12, 0x34, 1, 0, 0, 1, 0, 0, 0, 0, 0, 0]" "[0, 1, 0, 1]" "[]"]
  by (simp add: exampleQuery_def encodeName_def labels_ok_def numeral_eq_Suc)

lemma exampleQuery_fields:
  "length exampleQuery = 22" "Uint16 exampleQuery 0 = Inr 0x1234" "Uint16 exampleQuery 2 = Inr 0x100"
  "Uint16 exampleQuery 4 = Inr 1" "Uint16 exampleQuery 6 = Inr 0" "Uint16 exampleQuery 18 = Inr 1"
  by (simp_all add: exampleQuery_def Uint16_def)

lemma exampleQuery_parse:
  "parseQueryWithEnd exampleQuery =
     ok (\<lparr>ID = 0x1234, Flags = 0x100, QDCount = 1, ANCount = 0, NSCount = 0, ARCount = 0\<rparr>, [0x61, 0x2E, 0x62, 0x63], 1, 22)"
  by (simp add: parseQueryWithEnd_ok exampleQuery_name exampleQuery_fields)

lemma example_addresses:
  "filter (answersType 1) [[93, 184, 216, 34], replicate 16 7] = [[93, 184, 216, 34]]" "rdata [93, 184, 216, 34] = [93, 184, 216, 34]"
  by code_simp+

theorem dns_response_roundtrip_witness:
  "\<exists>resp. buildResponse exampleQuery [[93, 184, 216, 34], replicate 16 7] 300 = ok resp \<and>
     parseAnswers resp = ok [[93, 184, 216, 34]]"
  using dns_response_roundtrip [OF exampleQuery_parse, of "[[93, 184, 216, 34], replicate 16 7]" 300]
  unfolding example_addresses(1) by (simp add: example_addresses(2))

text \<open>
  The header of a response: same identifier, question and opcode, recursion-desired copied, response and
  recursion-available set, no authority or additional records, the number of answers, and return
  code 3 (no such name) exactly if there is no answer, else 0.
\<close>

theorem dns_response_header:
  assumes "parseQueryWithEnd q = ok (h, name, qt, e)" "buildResponse q ips ttl = ok resp"
  shows "\<exists>f. parseQueryWithEnd resp =
       ok (h\<lparr>Flags := f, ANCount := of_nat (length (filter (answersType qt) ips))\<rparr>, name, qt, e) \<and>
     Uint16 resp 8 = Inr 0 \<and> Uint16 resp 10 = Inr 0 \<and>
     f AND flagQR = flagQR \<and> f AND flagRA = flagRA \<and> f AND flagRD = Flags h AND flagRD \<and>
     f AND 0x7800 = Flags h AND 0x7800 \<and>
     f AND 0xF = (if filter (answersType qt) ips = [] then 3 else 0)"
proof -
  let ?n = "length (filter (answersType qt) ips)"
  let ?f = "responseFlags (Flags h) (?n = 0)"
  let ?ys = "take (e - 12) (drop 12 q) @ concat (map (recordBytes ttl) (filter (answersType qt) ips))"
  have r: "resp = responseHeader h ?n @ ?ys" using assms(2) buildResponse_bytes [OF assms(1)] by simp
  have "parseQueryWithEnd resp = ok (h\<lparr>Flags := ?f, ANCount := of_nat ?n\<rparr>, name, qt, e)"
    unfolding r by (rule response_question(1) [OF assms(1)])
  moreover have "Uint16 resp 8 = Inr 0 \<and> Uint16 resp 10 = Inr 0"
    unfolding r by (simp add: responseHeader_counts)
  ultimately show ?thesis using responseFlags_bits [of "Flags h" "?n = 0"] by (intro exI [of _ ?f]) auto
qed

theorem dns_response_header_witness:
  "\<exists>resp f. buildResponse exampleQuery [] 300 = ok resp \<and>
     parseQuery resp = ok (\<lparr>ID = 0x1234, Flags = f, QDCount = 1, ANCount = 0, NSCount = 0, ARCount = 0\<rparr>, [0x61, 0x2E, 0x62, 0x63], 1) \<and>
     f AND 0xF = 3"
proof -
  obtain resp where r: "buildResponse exampleQuery [] 300 = ok resp"
    using buildResponse_bytes [OF exampleQuery_parse] by blast
  from dns_response_header [OF exampleQuery_parse r] show ?thesis using r by (auto simp: parseQuery_def)
qed

text \<open>
  A resolver made by \<open>newDoHResolver\<close> asks its endpoints in order and returns the addresses of the first
  one that answers; if none does it returns the error of the last.  It never returns neither addresses
  nor an error.
\<close>

theorem doh_lookup_order:
  assumes "r = newDoHResolver cl eps"
  shows "\<exists>ips lerr. lookup r q = Inr (ips, lerr) \<and>
     (lerr = None \<longrightarrow> ips \<noteq> [] \<and> (\<exists>pre ep post. endpoints r = pre @ ep # post \<and> lookupOnce r ep q = Inr (Inr ips) \<and>
        (\<forall>ep' \<in> set pre. \<exists>e. lookupOnce r ep' q = Inr (Inl e)))) \<and>
     (\<forall>e. lerr = Some e \<longrightarrow> ips = [] \<and> lookupOnce r (last (endpoints r)) q = Inr (Inl e) \<and>
        (\<forall>ep' \<in> set (endpoints r). \<exists>e. lookupOnce r ep' q = Inr (Inl e)))"
proof -
  have "endpoints r \<noteq> []" by (simp add: assms newDoHResolver_def)
  from lookupLoop_spec [OF this, of r q None] show ?thesis by (simp add: lookup_def)
qed

text \<open>Two endpoints of which the first refuses the connection.\<close>

definition exampleClient :: "string \<Rightarrow> byte list \<Rightarrow> string + httpResponse" where
  "exampleClient ep q =
     (if ep = ''https://1.1.1.1/dns-query'' then Inl ''refused''
      else Inr \<lparr>StatusCode = 200, BodyBytes = [0x12, 0x34, 0x81, 0x80, 0, 0, 0, 1, 0, 0, 0, 0] @ [0] @ [0, 1, 0, 1] @
                  [0xC0, 0x0C, 0, 1, 0, 1, 0, 0, 0, 60, 0, 4, 9, 9, 9, 9], BodyError = None\<rparr>)"

theorem doh_lookup_order_witness:
  "lookup (newDoHResolver exampleClient []) exampleQuery = Inr ([[9, 9, 9, 9]], None)"
proof -
  let ?r = "newDoHResolver exampleClient []"
  have eps: "endpoints ?r = [''https://1.1.1.1/dns-query'', ''https://8.8.8.8/dns-query'']"
    by (simp add: newDoHResolver_def)
  have o: "lookupOnce ?r ''https://1.1.1.1/dns-query'' exampleQuery = Inr (Inl (HttpError ''refused''))"
    "lookupOnce ?r ''https://8.8.8.8/dns-query'' exampleQuery = Inr (Inr [[9, 9, 9, 9]])"
    by (simp_all add: lookupOnce_def newDoHResolver_def exampleClient_def readLimited_def parseAnswers_def
        skipQuestionName_step Uint16_def Let_def skipRecordName_def addAddress_def qtypeA_def)
  from doh_lookup_order [of ?r exampleClient "[]" exampleQuery] obtain ips lerr where
    l: "lookup ?r exampleQuery = Inr (ips, lerr)" and
    n: "lerr = None \<Longrightarrow> \<exists>pre ep post. endpoints ?r = pre @ ep # post \<and> lookupOnce ?r ep exampleQuery = Inr (Inr ips)" and
    s: "\<And>e. lerr = Some e \<Longrightarrow> lookupOnce ?r (last (endpoints ?r)) exampleQuery = Inr (Inl e)" by blast
  have "lerr = None" using s o(2) eps by (cases lerr) auto
  with n obtain ep where "ep \<in> set (endpoints ?r)" "lookupOnce ?r ep exampleQuery = Inr (Inr ips)"
    by fastforce
  then show ?thesis using l o \<open>lerr = None\<close> by (auto simp: eps)
qed

text \<open>
  The answer to a DNS datagram: a malformed query gets none; a well-formed one gets the addresses of its type
  that the resolver found; and where the resolver fails, for instance because no endpoint can be
  reached, the client is told with return code 3 that the name does not exist.
\<close>

theorem dns_datagram_answer:
  assumes "lookup r q = Inr (ips, lerr)"
  shows "(\<forall>er. parseQueryWithEnd q = err er \<longrightarrow> answerDatagram r q = Inr None) \<and>
    (\<forall>h name qt e. parseQueryWithEnd q = ok (h, name, qt, e) \<longrightarrow>
       (\<exists>resp h'. answerDatagram r q = Inr (Some resp) \<and> parseQueryWithEnd resp = ok (h', name, qt, e) \<and> ID h' = ID h \<and>
          (lerr = None \<longrightarrow> length ips < 65536 \<longrightarrow> filter (answersType qt) ips \<noteq> [] \<longrightarrow>
             parseAnswers resp = ok (map rdata (filter (answersType qt) ips))) \<and>
          (lerr \<noteq> None \<longrightarrow> parseAnswers resp = err NoAnswers \<and> Flags h' AND 0xF = 3)))"
proof (intro conjI allI impI)
  fix er assume "parseQueryWithEnd q = err er"
  then show "answerDatagram r q = Inr None" by (simp add: answerDatagram_def assms buildResponse_def)
next
  fix h name qt e
  assume p: "parseQueryWithEnd q = ok (h, name, qt, e)"
  define ips' where "ips' = (if lerr \<noteq> None then [] else ips)"
  let ?fs = "filter (answersType qt) ips'"
  obtain resp where r: "buildResponse q ips' 300 = ok resp"
    and a: "parseAnswers resp = (let as = map rdata (take (length ?fs mod 65536) ?fs) in if as = [] then err NoAnswers else ok as)"
    using response_answers [OF p, of ips' 300] by (auto simp: Let_def)
  have f: "responseFlags x True AND 0xF = 3" for x using responseFlags_bits [of x True] by simp
  have h: "parseQueryWithEnd resp = ok (h\<lparr>Flags := responseFlags (Flags h) (?fs = []), ANCount := of_nat (length ?fs)\<rparr>, name, qt, e)"
    using r buildResponse_bytes [OF p, of ips' 300] response_question(1) [OF p, of "length ?fs"] by auto
  have m: "length (filter P ips) mod 65536 = length (filter P ips)" if "length ips < 65536" for P
    using le_less_trans [OF length_filter_le that] by simp
  have "answerDatagram r q = Inr (Some resp)" using r by (simp add: answerDatagram_def assms ips'_def)
  with h a f m show "\<exists>resp h'. answerDatagram r q = Inr (Some resp) \<and> parseQueryWithEnd resp = ok (h', name, qt, e) \<and> ID h' = ID h \<and>
      (lerr = None \<longrightarrow> length ips < 65536 \<longrightarrow> filter (answersType qt) ips \<noteq> [] \<longrightarrow>
         parseAnswers resp = ok (map rdata (filter (answersType qt) ips))) \<and>
      (lerr \<noteq> None \<longrightarrow> parseAnswers resp = err NoAnswers \<and> Flags h' AND 0xF = 3)"
    by (intro exI [of _ resp] exI [of _ "h\<lparr>Flags := responseFlags (Flags h) (?fs = []), ANCount := of_nat (length ?fs)\<rparr>"] conjI)
      (auto simp: Let_def ips'_def)
qed

theorem dns_datagram_answer_witness:
  "\<exists>resp. answerDatagram (newDoHResolver (\<lambda>ep q. Inl ''unreachable'') []) exampleQuery = Inr (Some resp) \<and>
     parseAnswers resp = err NoAnswers"
proof -
  let ?r = "newDoHResolver (\<lambda>ep q. Inl ''unreachable'') []"
  have l: "lookup ?r exampleQuery = Inr ([], Some (HttpError ''unreachable''))"
    by (simp add: lookup_def newDoHResolver_def lookupOnce_def)
  from dns_datagram_answer [OF l] exampleQuery_parse show ?thesis by fastforce
qed

text \<open>Only flows to the DNS port are answered, and none of them can panic.\<close>

lemma answerDatagram_safe: "safe (answerDatagram r buf)"
  unfolding lookup_def answerDatagram_def by (auto intro!: buildResponse_safe lookupLoop_safe parseQueryWithEnd_safe safe_bindR split: sum.splits)

lemma handleUDP_dns_only:
  "\<exists>taken answer. handleUDP r port created datagram = Inr (taken, answer) \<and> (taken \<longleftrightarrow> port = 53 \<and> created) \<and> (answer \<noteq> None \<longrightarrow> taken)"
  using answerDatagram_safe [of r] by (cases datagram) (auto simp: handleUDP_def safe_def res_simps)

end
