(* ===== verification/CoreManager.thy ===== *)
theory CoreManager
  imports Prelude
begin

text \<open>
  \<^verbatim>\<open>tui/internal/coremgr/coremgr.go\<close>: the manager that runs the client core and restarts it.  Its
  state is what the mutex protects (\<^verbatim>\<open>running\<close>, \<^verbatim>\<open>generation\<close>, \<^verbatim>\<open>cmd\<close>) and the two
  channels; around it are the goroutines that \<^verbatim>\<open>Start\<close> spawns (the supervisors), each with its
  program counter, and the processes they run.  Every critical section and every blocking call is
  one operation; the step relation interleaves them in any order.  The texts of the log lines are shortened to their
  fixed parts.
\<close>

section \<open>State\<close>

datatype procState = NotStarted | Alive | Killed | Exited

text \<open>
  Where a supervisor is: at the head of its loop, between the unlock and the start of the
  process, waiting for the process, after \<^verbatim>\<open>cmd.Run\<close>, in the back-off, returning (the deferred
  function is still to run), gone.
\<close>

datatype svPc = PcLoop | PcSpawn nat | PcRun nat | PcAfter string | PcBackoff | PcReturn | PcGone

record supervisor =
  sv_generation :: int
  sv_backoff :: int
  sv_cancelled :: bool      \<comment> \<open>whether the context of its Start call is cancelled\<close>
  sv_pc :: svPc

record Manager =
  running :: bool
  generation :: int
  cmd :: "nat option"       \<comment> \<open>the command, as an index into procs\<close>
  Logs :: "string list"
  Exits :: "string list"
  sups :: "supervisor list"
  procs :: "procState list"
  starting :: nat           \<comment> \<open>calls of Start between their two critical sections\<close>

definition NewManager :: Manager where
  "NewManager = \<lparr>running = False, generation = 0, cmd = None, Logs = [], Exits = [], sups = [], procs = [], starting = 0\<rparr>"

definition emit :: "string \<Rightarrow> Manager \<Rightarrow> Manager" where
  "emit line m = (if length (Logs m) < 512 then m\<lparr>Logs := Logs m @ [line]\<rparr> else m)"

definition sendExit :: "string \<Rightarrow> Manager \<Rightarrow> Manager" where
  "sendExit reason m = (if length (Exits m) < 4 then m\<lparr>Exits := Exits m @ [reason]\<rparr> else m)"

abbreviation setSup :: "nat \<Rightarrow> supervisor \<Rightarrow> Manager \<Rightarrow> Manager" where
  "setSup i v m \<equiv> m\<lparr>sups := (sups m)[i := v]\<rparr>"

section \<open>Start and Stop\<close>

datatype start_error = AlreadyRunning | StartIO string

text \<open>The first critical section of \<^verbatim>\<open>Start\<close>, then the writing of the configuration file.\<close>

definition startCheck :: "Manager \<Rightarrow> start_error + Manager" where
  "startCheck m = (if running m then Inl AlreadyRunning else Inr (m\<lparr>starting := starting m + 1\<rparr>))"

definition startAbort :: "Manager \<Rightarrow> Manager" where
  "startAbort m = m\<lparr>starting := starting m - 1\<rparr>"

text \<open>The second critical section and the spawn of the supervisor.\<close>

definition startCommit :: "Manager \<Rightarrow> start_error + Manager" where
  "startCommit m =
     (if running m then Inl AlreadyRunning
      else let g = u64 (generation m + 1) in
        Inr (m\<lparr>generation := g, running := True, starting := starting m - 1,
               sups := sups m @ [\<lparr>sv_generation = g, sv_backoff = Second, sv_cancelled = False, sv_pc = PcLoop\<rparr>]\<rparr>))"

text \<open>A call of \<^verbatim>\<open>Start\<close> that is not interleaved with others; \<open>io\<close> is the failure of writing the configuration.\<close>

definition Start :: "string option \<Rightarrow> Manager \<Rightarrow> start_error option \<times> Manager" where
  "Start io m =
     (case startCheck m of
        Inl e \<Rightarrow> (Some e, m)
      | Inr m1 \<Rightarrow>
          (case io of
             Some e \<Rightarrow> (Some (StartIO e), startAbort m1)
           | None \<Rightarrow> (case startCommit m1 of Inl e \<Rightarrow> (Some e, startAbort m1) | Inr m2 \<Rightarrow> (None, m2))))"

definition kill :: "nat option \<Rightarrow> procState list \<Rightarrow> procState list" where
  "kill c ps = (case c of
      Some p \<Rightarrow> if p < length ps \<and> ps ! p = Alive then ps[p := Killed] else ps
    | None \<Rightarrow> ps)"

definition Stop :: "Manager \<Rightarrow> Manager" where
  "Stop m = m\<lparr>generation := u64 (generation m + 1), running := False, procs := kill (cmd m) (procs m)\<rparr>"

section \<open>The supervisor\<close>

text \<open>The head of the loop: give up if stopped, else make the next command.\<close>

definition svLoop :: "nat \<Rightarrow> Manager \<Rightarrow> Manager" where
  "svLoop i m =
     (let v = sups m ! i in
      if \<not> running m \<or> generation m \<noteq> sv_generation v then setSup i (v\<lparr>sv_pc := PcReturn\<rparr>) m
      else setSup i (v\<lparr>sv_pc := PcSpawn (length (procs m))\<rparr>)
             (m\<lparr>cmd := Some (length (procs m)), procs := procs m @ [NotStarted]\<rparr>))"

text \<open>
  \<^verbatim>\<open>cmd.Run\<close> up to the start of the process: a cancelled context or an error of the operating system
  (\<open>fail\<close>) ends it at once.
\<close>

definition svSpawn :: "string option \<Rightarrow> nat \<Rightarrow> Manager \<Rightarrow> Manager" where
  "svSpawn fail i m =
     (let v = sups m ! i; m = emit ''core: starting'' m in
      case sv_pc v of
        PcSpawn c \<Rightarrow>
          if sv_cancelled v then setSup i (v\<lparr>sv_pc := PcAfter ''context canceled''\<rparr>) m
          else (case fail of
                  Some e \<Rightarrow> setSup i (v\<lparr>sv_pc := PcAfter e\<rparr>) m
                | None \<Rightarrow> setSup i (v\<lparr>sv_pc := PcRun c\<rparr>) (m\<lparr>procs := (procs m)[c := Alive]\<rparr>))
      | _ \<Rightarrow> m)"

text \<open>The process ends, for whatever reason.\<close>

definition svExit :: "string \<Rightarrow> nat \<Rightarrow> Manager \<Rightarrow> Manager" where
  "svExit reason i m =
     (let v = sups m ! i in
      case sv_pc v of
        PcRun c \<Rightarrow> setSup i (v\<lparr>sv_pc := PcAfter reason\<rparr>) (m\<lparr>procs := (procs m)[c := Exited]\<rparr>)
      | _ \<Rightarrow> m)"

text \<open>The critical section after \<^verbatim>\<open>cmd.Run\<close>, and the report of an unexpected exit.\<close>

definition svAfter :: "nat \<Rightarrow> Manager \<Rightarrow> Manager" where
  "svAfter i m =
     (let v = sups m ! i in
      case sv_pc v of
        PcAfter reason \<Rightarrow>
          (let m1 = (if generation m = sv_generation v then m\<lparr>cmd := None\<rparr> else m);
               stopping = (\<not> running m1 \<or> generation m1 \<noteq> sv_generation v) in
           if stopping \<or> sv_cancelled v then setSup i (v\<lparr>sv_pc := PcReturn\<rparr>) m1
           else setSup i (v\<lparr>sv_pc := PcBackoff\<rparr>) (emit (''core exited ('' @ reason @ '')'') (sendExit reason m1)))
      | _ \<Rightarrow> m)"

definition nextBackoff :: "int \<Rightarrow> int" where
  "nextBackoff b = (if b < 30 * Second then i64 (b * 2) else b)"

text \<open>The end of the back-off: by the context, or by the timer.\<close>

definition svWake :: "bool \<Rightarrow> nat \<Rightarrow> Manager \<Rightarrow> Manager" where
  "svWake byContext i m =
     (let v = sups m ! i in
      if byContext then setSup i (v\<lparr>sv_pc := PcReturn\<rparr>) m
      else setSup i (v\<lparr>sv_backoff := nextBackoff (sv_backoff v), sv_pc := PcLoop\<rparr>) m)"

text \<open>The deferred function.\<close>

definition svDefer :: "nat \<Rightarrow> Manager \<Rightarrow> Manager" where
  "svDefer i m =
     (let v = sups m ! i; m1 = setSup i (v\<lparr>sv_pc := PcGone\<rparr>) m in
      if generation m = sv_generation v then m1\<lparr>running := False, cmd := None\<rparr> else m1)"

text \<open>
  The cancellation of the context of supervisor \<open>i\<close>: \<^verbatim>\<open>exec.CommandContext\<close> kills its process.
\<close>

definition cancelCtx :: "nat \<Rightarrow> Manager \<Rightarrow> Manager" where
  "cancelCtx i m =
     (let v = sups m ! i in
      setSup i (v\<lparr>sv_cancelled := True\<rparr>)
        (case sv_pc v of PcRun c \<Rightarrow> m\<lparr>procs := kill (Some c) (procs m)\<rparr> | _ \<Rightarrow> m))"

section \<open>Output of the core\<close>

text \<open>\<^verbatim>\<open>lineWriter.Write\<close>: the buffer of the writer, the bytes, and the manager that gets the lines.\<close>

fun lineWrite :: "string \<Rightarrow> string \<Rightarrow> Manager \<Rightarrow> string \<times> Manager" where
  "lineWrite buf [] m = (buf, m)"
| "lineWrite buf (b # p) m =
     (if b = CHR 0x0A then lineWrite [] p (emit buf m) else lineWrite (buf @ [b]) p m)"

section \<open>Interleavings\<close>

text \<open>The steps that happen between the calls: those of the supervisors, output, and the reading of the channels.\<close>

inductive core_step :: "Manager \<Rightarrow> Manager \<Rightarrow> bool" where
  loop: "i < length (sups m) \<Longrightarrow> sv_pc (sups m ! i) = PcLoop \<Longrightarrow> core_step m (svLoop i m)"
| spawn: "i < length (sups m) \<Longrightarrow> sv_pc (sups m ! i) = PcSpawn c \<Longrightarrow> core_step m (svSpawn fail i m)"
| exit: "i < length (sups m) \<Longrightarrow> sv_pc (sups m ! i) = PcRun c \<Longrightarrow> core_step m (svExit r i m)"
| after: "i < length (sups m) \<Longrightarrow> sv_pc (sups m ! i) = PcAfter r \<Longrightarrow> core_step m (svAfter i m)"
| wake: "i < length (sups m) \<Longrightarrow> sv_pc (sups m ! i) = PcBackoff \<Longrightarrow>
    (byContext \<longrightarrow> sv_cancelled (sups m ! i)) \<Longrightarrow> core_step m (svWake byContext i m)"
| return: "i < length (sups m) \<Longrightarrow> sv_pc (sups m ! i) = PcReturn \<Longrightarrow> core_step m (svDefer i m)"
| logged: "core_step m (snd (lineWrite buf p m))"
| drain: "core_step m (m\<lparr>Logs := drop a (Logs m), Exits := drop b (Exits m)\<rparr>)"

text \<open>
  The states that calls and steps reach from a new manager.  The parameter counts the calls of
  \<^verbatim>\<open>Stop\<close> and the successful calls of \<^verbatim>\<open>Start\<close>.
\<close>

inductive reached :: "nat \<Rightarrow> Manager \<Rightarrow> bool" where
  new: "reached 0 NewManager"
| check: "reached n m \<Longrightarrow> startCheck m = Inr m' \<Longrightarrow> reached n m'"
| abort: "reached n m \<Longrightarrow> 0 < starting m \<Longrightarrow> reached n (startAbort m)"
| commit: "reached n m \<Longrightarrow> 0 < starting m \<Longrightarrow> startCommit m = Inr m' \<Longrightarrow> reached (Suc n) m'"
| stop: "reached n m \<Longrightarrow> reached (Suc n) (Stop m)"
| cancel: "reached n m \<Longrightarrow> i < length (sups m) \<Longrightarrow> reached n (cancelCtx i m)"
| step: "reached n m \<Longrightarrow> core_step m m' \<Longrightarrow> reached n m'"

section \<open>Invariant\<close>

text \<open>
  A supervisor is current if its generation is the manager's.  \<open>owns c v\<close>: the supervisor has
  made the command \<open>c\<close> and not yet seen its end.
\<close>

definition current :: "Manager \<Rightarrow> supervisor \<Rightarrow> bool" where
  "current m v \<longleftrightarrow> sv_generation v = generation m"

definition owns :: "nat \<Rightarrow> supervisor \<Rightarrow> bool" where
  "owns c v \<longleftrightarrow> sv_pc v = PcSpawn c \<or> sv_pc v = PcRun c"

definition backoffs :: "int set" where
  "backoffs = {Second, 2 * Second, 4 * Second, 8 * Second, 16 * Second, 32 * Second}"

definition sup_ok :: "int \<Rightarrow> nat option \<Rightarrow> procState list \<Rightarrow> supervisor \<Rightarrow> bool" where
  "sup_ok g cm ps v \<longleftrightarrow>
     sv_generation v \<le> g \<and> sv_backoff v \<in> backoffs \<and>
     (case sv_pc v of
        PcSpawn c \<Rightarrow> c < length ps \<and> ps ! c = NotStarted \<and> (sv_generation v = g \<longrightarrow> cm = Some c)
      | PcRun c \<Rightarrow> c < length ps \<and> ps ! c \<in> {Alive, Killed} \<and> (sv_cancelled v \<longrightarrow> ps ! c = Killed) \<and>
                   (sv_generation v = g \<longrightarrow> cm = Some c)
      | _ \<Rightarrow> True)"

definition sups_ok :: "Manager \<Rightarrow> bool" where
  "sups_ok m \<longleftrightarrow> (\<forall>v \<in> set (sups m). sup_ok (generation m) (cmd m) (procs m) v)"

definition one_owner :: "Manager \<Rightarrow> bool" where
  "one_owner m \<longleftrightarrow> (\<forall>i j c. i < length (sups m) \<longrightarrow> j < length (sups m) \<longrightarrow>
     owns c (sups m ! i) \<longrightarrow> owns c (sups m ! j) \<longrightarrow> i = j)"

definition alive_owned :: "Manager \<Rightarrow> bool" where
  "alive_owned m \<longleftrightarrow> (\<forall>c < length (procs m). procs m ! c = Alive \<longrightarrow> (\<exists>v \<in> set (sups m). sv_pc v = PcRun c))"

definition supervised :: "Manager \<Rightarrow> bool" where
  "supervised m \<longleftrightarrow> (running m \<longleftrightarrow> (\<exists>v \<in> set (sups m). current m v \<and> sv_pc v \<noteq> PcGone))"

definition core_inv :: "nat \<Rightarrow> Manager \<Rightarrow> bool" where
  "core_inv n m \<longleftrightarrow> generation m = int n \<and> distinct (map sv_generation (sups m)) \<and>
     sups_ok m \<and> one_owner m \<and> alive_owned m \<and> supervised m"

lemmas core_inv_defs = core_inv_def sups_ok_def one_owner_def alive_owned_def supervised_def

lemma nextBackoff_ok: "b \<in> backoffs \<Longrightarrow> nextBackoff b \<in> backoffs"
  by (auto simp: backoffs_def nextBackoff_def i64_def)

lemma emit_fields [simp]:
  "running (emit l m) = running m" "generation (emit l m) = generation m" "cmd (emit l m) = cmd m"
  "sups (emit l m) = sups m" "procs (emit l m) = procs m" "starting (emit l m) = starting m"
  by (simp_all add: emit_def)

lemma sendExit_fields [simp]:
  "running (sendExit l m) = running m" "generation (sendExit l m) = generation m" "cmd (sendExit l m) = cmd m"
  "sups (sendExit l m) = sups m" "procs (sendExit l m) = procs m" "starting (sendExit l m) = starting m"
  by (simp_all add: sendExit_def)

lemma lineWrite_fields [simp]:
  "running (snd (lineWrite b p m)) = running m" "generation (snd (lineWrite b p m)) = generation m"
  "cmd (snd (lineWrite b p m)) = cmd m" "sups (snd (lineWrite b p m)) = sups m"
  "procs (snd (lineWrite b p m)) = procs m" "starting (snd (lineWrite b p m)) = starting m"
  by (induction b p m rule: lineWrite.induct) auto

text \<open>The invariant depends on the protected fields, the supervisors and the processes only.\<close>

lemma core_inv_cong:
  "running m' = running m \<Longrightarrow> generation m' = generation m \<Longrightarrow> cmd m' = cmd m \<Longrightarrow> sups m' = sups m \<Longrightarrow> procs m' = procs m \<Longrightarrow>
   core_inv n m' = core_inv n m"
  by (simp add: core_inv_defs current_def)

lemma sup_ok_newer: "sup_ok g cm ps v \<Longrightarrow> g < g' \<Longrightarrow> sup_ok g' cm' ps v \<and> sv_generation v \<noteq> g'"
  by (cases "sv_pc v") (simp_all add: sup_ok_def)

lemma core_invD:
  assumes "core_inv n m"
  shows "generation m = int n" "distinct (map sv_generation (sups m))" "sups_ok m" "one_owner m" "alive_owned m" "supervised m"
  using assms by (simp_all add: core_inv_def)

lemma startCommit_inv:
  assumes "core_inv n m" "startCommit m = Inr m'" "n + 1 < 18446744073709551616"
  shows "core_inv (Suc n) m'"
proof -
  have g: "generation m = int n" using assms(1) by (simp add: core_inv_def)
  have g': "u64 (1 + int n) = 1 + int n" using assms(3) by (simp add: u64_def)
  have r: "\<not> running m" using assms(2) by (simp add: startCommit_def split: if_splits)
  let ?v = "\<lparr>sv_generation = 1 + int n, sv_backoff = Second, sv_cancelled = False, sv_pc = PcLoop\<rparr>"
  have m': "m' = m\<lparr>generation := 1 + int n, running := True, starting := starting m - 1, sups := sups m @ [?v]\<rparr>"
    using assms(2) r g g' by (simp add: startCommit_def Let_def add.commute)
  have old: "sv_generation v \<le> int n" if "v \<in> set (sups m)" for v
    using assms(1) g that by (auto simp: core_inv_def sups_ok_def sup_ok_def)
  show ?thesis unfolding core_inv_def
  proof (intro conjI)
    show "distinct (map sv_generation (sups m'))" using assms(1) old by (fastforce simp: m' core_inv_def)
    have "sup_ok (1 + int n) (cmd m) (procs m) v" if "v \<in> set (sups m)" for v
      using core_invD(3) [OF assms(1)] sup_ok_newer [of "int n" "cmd m" "procs m" v "1 + int n"] that g
      by (simp add: sups_ok_def)
    then show "sups_ok m'" by (simp add: m' sups_ok_def sup_ok_def backoffs_def)
    show "one_owner m'" using assms(1) by (auto simp: m' core_inv_def one_owner_def nth_append owns_def less_Suc_eq)
    show "alive_owned m'" using assms(1) by (auto simp: m' core_inv_def alive_owned_def)
    show "supervised m'" by (simp add: m' supervised_def current_def)
  qed (simp add: m')
qed

lemma kill_simps [simp]: "length (kill c ps) = length ps"
  by (simp add: kill_def split: option.splits)

lemma kill_nth: "p < length ps \<Longrightarrow> kill c ps ! p = (if c = Some p \<and> ps ! p = Alive then Killed else ps ! p)"
  by (auto simp: kill_def nth_list_update split: option.splits)

lemma sup_ok_kill: "sup_ok g cm ps v \<Longrightarrow> sup_ok g cm (kill c ps) v"
  by (auto simp: sup_ok_def kill_nth split: svPc.splits)

lemma Stop_inv:
  assumes "core_inv n m" "n + 1 < 18446744073709551616"
  shows "core_inv (Suc n) (Stop m)"
proof -
  have g: "generation m = int n" using assms(1) by (simp add: core_inv_def)
  have g': "u64 (1 + int n) = 1 + int n" using assms(2) by (simp add: u64_def)
  have new: "sup_ok (1 + int n) (cmd m) (kill (cmd m) (procs m)) v \<and> sv_generation v \<noteq> 1 + int n" if "v \<in> set (sups m)" for v
    using core_invD(3) [OF assms(1)] that g by (intro sup_ok_newer [OF sup_ok_kill, of "int n"]) (auto simp: sups_ok_def)
  have s: "Stop m = m\<lparr>generation := 1 + int n, running := False, procs := kill (cmd m) (procs m)\<rparr>"
    using g g' by (simp add: Stop_def add.commute)
  show ?thesis unfolding core_inv_def
  proof (intro conjI)
    show "distinct (map sv_generation (sups (Stop m)))" using core_invD(2) [OF assms(1)] by (simp add: s)
    show "sups_ok (Stop m)" using new by (simp add: s sups_ok_def)
    show "one_owner (Stop m)" using core_invD(4) [OF assms(1)] by (simp add: s one_owner_def)
    show "alive_owned (Stop m)" using core_invD(5) [OF assms(1)] by (auto simp: s alive_owned_def kill_nth split: if_splits)
    show "supervised (Stop m)" using new by (auto simp: s supervised_def current_def)
  qed (simp add: s)
qed

text \<open>Quantifiers over a list with one updated element.\<close>

lemma bex_update:
  "i < length xs \<Longrightarrow> (\<exists>w \<in> set (xs[i := v]). P w) \<longleftrightarrow> P v \<or> (\<exists>j < length xs. j \<noteq> i \<and> P (xs ! j))"
  by (auto simp: in_set_conv_nth nth_list_update Bex_def)

lemma bex_at: "i < length xs \<Longrightarrow> (\<exists>w \<in> set xs. P w) \<longleftrightarrow> P (xs ! i) \<or> (\<exists>j < length xs. j \<noteq> i \<and> P (xs ! j))"
  using bex_update [of i xs "xs ! i" P] by simp

lemma ball_update:
  "i < length xs \<Longrightarrow> (\<forall>w \<in> set (xs[i := v]). P w) \<longleftrightarrow> P v \<and> (\<forall>j < length xs. j \<noteq> i \<longrightarrow> P (xs ! j))"
  using bex_update [of i xs v "\<lambda>w. \<not> P w"] by blast

lemma one_owner_update:
  assumes "one_owner m" "i < length (sups m)" "sups m' = (sups m)[i := v]"
    "\<And>c. owns c v \<Longrightarrow> owns c (sups m ! i) \<or> (\<forall>w \<in> set (sups m). \<not> owns c w)"
  shows "one_owner m'"
  unfolding one_owner_def
proof (intro allI impI)
  fix a b c assume h: "a < length (sups m')" "b < length (sups m')" "owns c (sups m' ! a)" "owns c (sups m' ! b)"
  then have "owns c (sups m ! a) \<or> (\<forall>w \<in> set (sups m). \<not> owns c w) \<and> a = i"
    "owns c (sups m ! b) \<or> (\<forall>w \<in> set (sups m). \<not> owns c w) \<and> b = i"
    using assms by (auto simp: nth_list_update split: if_splits)
  then show "a = b" using h(1,2) assms(1,3) by (simp add: one_owner_def) (metis nth_mem)
qed

text \<open>
  A step of one supervisor: what has to be shown for the new state of supervisor \<open>i\<close>, given how the
  processes changed.
\<close>

lemma sv_step_inv:
  assumes inv: "core_inv n m" and i: "i < length (sups m)"
    and m': "generation m' = generation m" "sups m' = (sups m)[i := v]"
    and gen: "sv_generation v = sv_generation (sups m ! i)"
    and ok: "sup_ok (generation m) (cmd m') (procs m') v"
    and others: "\<And>w. w \<in> set (sups m) \<Longrightarrow> sv_generation w \<noteq> sv_generation v \<Longrightarrow> sup_ok (generation m) (cmd m') (procs m') w"
    and own: "\<And>c. owns c v \<Longrightarrow> owns c (sups m ! i) \<or> c \<ge> length (procs m)"
    and alive: "\<And>c. c < length (procs m') \<Longrightarrow> procs m' ! c = Alive \<Longrightarrow>
        sv_pc v = PcRun c \<or> (c < length (procs m) \<and> procs m ! c = Alive \<and> sv_pc (sups m ! i) \<noteq> PcRun c)"
    and run: "running m' = (if current m v then sv_pc v \<noteq> PcGone else running m)"
  shows "core_inv n m'"
  unfolding core_inv_def
proof (intro conjI)
  have dist: "sv_generation (sups m ! j) \<noteq> sv_generation v" if "j < length (sups m)" "j \<noteq> i" for j
    using core_invD(2) [OF inv] that i gen by (auto simp: distinct_conv_nth)
  have small: "owns c w \<Longrightarrow> c < length (procs m)" if "w \<in> set (sups m)" for c w
    using core_invD(3) [OF inv] that by (auto simp: sups_ok_def sup_ok_def owns_def split: svPc.splits)
  show "generation m' = int n" using core_invD(1) [OF inv] m'(1) by simp
  show "distinct (map sv_generation (sups m'))"
    using core_invD(2) [OF inv] gen i by (simp add: m'(2) map_update) (metis length_map list_update_id nth_map)
  show "sups_ok m'" using ok others dist i by (simp add: sups_ok_def m' ball_update)
  show "one_owner m'"
    using own small by (intro one_owner_update [OF core_invD(4) [OF inv] i m'(2)]) (meson leD)
  show "alive_owned m'" unfolding alive_owned_def m'(2) bex_update [OF i]
  proof (intro allI impI)
    fix c assume "c < length (procs m')" "procs m' ! c = Alive"
    then show "sv_pc v = PcRun c \<or> (\<exists>j < length (sups m). j \<noteq> i \<and> sv_pc (sups m ! j) = PcRun c)"
      using alive [of c] core_invD(5) [OF inv, unfolded alive_owned_def bex_at [OF i]] by blast
  qed
  show "supervised m'"
    using run core_invD(6) [OF inv] dist gen
    by (auto simp: supervised_def current_def m' bex_update [OF i] bex_at [OF i] split: if_splits)
qed

lemma nth_ok: "core_inv n m \<Longrightarrow> i < length (sups m) \<Longrightarrow> sup_ok (generation m) (cmd m) (procs m) (sups m ! i)"
  by (auto dest: core_invD(3) simp: sups_ok_def)

lemma mem_ok: "core_inv n m \<Longrightarrow> w \<in> set (sups m) \<Longrightarrow> sup_ok (generation m) (cmd m) (procs m) w"
  by (auto dest: core_invD(3) simp: sups_ok_def)

lemma running_iff:
  assumes "core_inv n m" "i < length (sups m)" "sv_generation (sups m ! i) = generation m"
  shows "running m \<longleftrightarrow> sv_pc (sups m ! i) \<noteq> PcGone"
proof -
  have "sv_generation (sups m ! j) \<noteq> generation m" if "j < length (sups m)" "j \<noteq> i" for j
    using core_invD(2) [OF assms(1)] that assms(2,3) by (metis length_map nth_eq_iff_index_eq nth_map)
  then show ?thesis
    using core_invD(6) [OF assms(1)] assms(3) by (auto simp: supervised_def current_def bex_at [OF assms(2)])
qed

lemmas current_running = running_iff [THEN iffD2]

lemma one_ownerD:
  assumes "core_inv n m" "i < length (sups m)" "owns c w" "owns c (sups m ! i)" "w \<in> set (sups m)"
  shows "w = sups m ! i"
proof -
  obtain j where "j < length (sups m)" "w = sups m ! j" using assms(5) by (auto simp: in_set_conv_nth)
  then show ?thesis using core_invD(4) [OF assms(1)] assms(2-4) unfolding one_owner_def by blast
qed

lemma sup_ok_append: "sup_ok g cm ps w \<Longrightarrow> sv_generation w \<noteq> g \<Longrightarrow> sup_ok g cm' (ps @ [p]) w"
  by (auto simp: sup_ok_def nth_append split: svPc.splits)

text \<open>Moving a supervisor to a place without a process.\<close>

lemma sv_move_inv:
  assumes "core_inv n m" "i < length (sups m)" "sv_pc v \<in> {PcLoop, PcBackoff, PcReturn} \<union> range PcAfter"
    "sv_generation v = sv_generation (sups m ! i)" "sv_backoff v \<in> backoffs"
    "\<not> (\<exists>c. sv_pc (sups m ! i) = PcRun c)" "sv_pc (sups m ! i) \<noteq> PcGone"
    "cm = cmd m \<or> (current m v \<and> cm = None)"
    "generation m' = generation m" "running m' = running m" "cmd m' = cm" "procs m' = procs m" "sups m' = (sups m)[i := v]"
  shows "core_inv n m'"
proof (rule sv_step_inv [OF assms(1,2) assms(9) assms(13) assms(4)])
  show "sup_ok (generation m) (cmd m') (procs m') v"
    using nth_ok [OF assms(1,2)] assms(3,4,5) by (auto simp: sup_ok_def)
  show "sup_ok (generation m) (cmd m') (procs m') w" if "w \<in> set (sups m)" "sv_generation w \<noteq> sv_generation v" for w
    using mem_ok [OF assms(1) that(1)] that(2) assms(8,11,12) by (auto simp: sup_ok_def current_def split: svPc.splits)
  show "owns c (sups m ! i) \<or> c \<ge> length (procs m)" if "owns c v" for c
    using that assms(3) by (auto simp: owns_def)
  show "sv_pc v = PcRun c \<or> (c < length (procs m) \<and> procs m ! c = Alive \<and> sv_pc (sups m ! i) \<noteq> PcRun c)"
    if "c < length (procs m')" "procs m' ! c = Alive" for c using that assms(6,12) by auto
  show "running m' = (if current m v then sv_pc v \<noteq> PcGone else running m)"
    using current_running [OF assms(1,2)] assms(3,4,7,10) by (auto simp: current_def)
qed

lemma svLoop_inv:
  assumes "core_inv n m" "i < length (sups m)" "sv_pc (sups m ! i) = PcLoop"
  shows "core_inv n (svLoop i m)"
proof (cases "\<not> running m \<or> generation m \<noteq> sv_generation (sups m ! i)")
  case True
  have b: "sv_backoff (sups m ! i) \<in> backoffs" using nth_ok [OF assms(1,2)] by (simp add: sup_ok_def)
  show ?thesis using True assms b
    by (intro sv_move_inv [OF assms(1,2), of "(sups m ! i)\<lparr>sv_pc := PcReturn\<rparr>" "cmd m"]) (auto simp: svLoop_def Let_def)
next
  case False
  let ?v = "(sups m ! i)\<lparr>sv_pc := PcSpawn (length (procs m))\<rparr>"
  show ?thesis
  proof (rule sv_step_inv [OF assms(1,2), where v = ?v])
    show "sup_ok (generation m) (cmd (svLoop i m)) (procs (svLoop i m)) ?v"
      using False nth_ok [OF assms(1,2)] by (simp add: svLoop_def Let_def sup_ok_def)
    show "sup_ok (generation m) (cmd (svLoop i m)) (procs (svLoop i m)) w"
      if "w \<in> set (sups m)" "sv_generation w \<noteq> sv_generation ?v" for w
      using False that sup_ok_append [OF mem_ok [OF assms(1) that(1)]] by (simp add: svLoop_def Let_def)
  qed (use False assms in \<open>auto simp: svLoop_def Let_def owns_def current_def nth_append split: if_splits\<close>)
qed

lemma svSpawn_inv:
  assumes "core_inv n m" "i < length (sups m)" "sv_pc (sups m ! i) = PcSpawn c"
  shows "core_inv n (svSpawn fail i m)"
proof (cases "sv_cancelled (sups m ! i) \<or> fail \<noteq> None")
  case True
  have b: "sv_backoff (sups m ! i) \<in> backoffs" using nth_ok [OF assms(1,2)] by (simp add: sup_ok_def)
  obtain r where r: "sups (svSpawn fail i m) = (sups m)[i := (sups m ! i)\<lparr>sv_pc := PcAfter r\<rparr>]"
    "running (svSpawn fail i m) = running m" "generation (svSpawn fail i m) = generation m"
    "cmd (svSpawn fail i m) = cmd m" "procs (svSpawn fail i m) = procs m"
    using True assms(3) by (cases "sv_cancelled (sups m ! i)") (auto simp: svSpawn_def Let_def)
  show ?thesis using r b assms(3)
    by (intro sv_move_inv [OF assms(1,2), of "(sups m ! i)\<lparr>sv_pc := PcAfter r\<rparr>" "cmd m"]) auto
next
  case False
  let ?v = "(sups m ! i)\<lparr>sv_pc := PcRun c\<rparr>"
  have m': "sups (svSpawn fail i m) = (sups m)[i := ?v]" "procs (svSpawn fail i m) = (procs m)[c := Alive]"
    "running (svSpawn fail i m) = running m" "generation (svSpawn fail i m) = generation m" "cmd (svSpawn fail i m) = cmd m"
    using False assms(3) by (auto simp: svSpawn_def Let_def)
  have c: "c < length (procs m)" "procs m ! c = NotStarted" "sup_ok (generation m) (cmd m) (procs m) (sups m ! i)"
    using nth_ok [OF assms(1,2)] assms(3) by (auto simp: sup_ok_def)
  have nc: "\<not> sv_cancelled (sups m ! i)" using False by simp
  have other: "\<not> owns c w" if "w \<in> set (sups m)" "sv_generation w \<noteq> sv_generation (sups m ! i)" for w
    using one_ownerD [OF assms(1,2), of c w] that assms(3) by (auto simp: owns_def)
  show ?thesis
  proof (rule sv_step_inv [OF assms(1,2), where v = ?v])
    show "sup_ok (generation m) (cmd (svSpawn fail i m)) (procs (svSpawn fail i m)) w"
      if "w \<in> set (sups m)" "sv_generation w \<noteq> sv_generation ?v" for w
      using that mem_ok [OF assms(1) that(1)] other [OF that(1)]
      by (auto simp: m' sup_ok_def owns_def nth_list_update split: svPc.splits)
  qed (use nc assms c current_running [OF assms(1,2)] in
      \<open>auto simp: m' sup_ok_def owns_def current_def nth_list_update split: if_splits\<close>)
qed

text \<open>The end of a command: only the process of the supervisor changes, and it is not alive any more.\<close>

lemma sv_end_inv:
  assumes "core_inv n m" "i < length (sups m)" "sv_pc (sups m ! i) = PcRun c" "p \<in> {Killed, Exited}"
    "sv_generation v = sv_generation (sups m ! i)" "sv_backoff v = sv_backoff (sups m ! i)"
    "p = Killed \<and> sv_pc v = PcRun c \<or> (\<exists>r. sv_pc v = PcAfter r)"
    "generation m' = generation m" "running m' = running m" "cmd m' = cmd m" "procs m' = (procs m)[c := p]" "sups m' = (sups m)[i := v]"
  shows "core_inv n m'"
proof (rule sv_step_inv [OF assms(1,2) assms(8,12,5)])
  have c: "c < length (procs m)" "sup_ok (generation m) (cmd m) (procs m) (sups m ! i)"
    using nth_ok [OF assms(1,2)] assms(3) by (auto simp: sup_ok_def)
  then show "sup_ok (generation m) (cmd m') (procs m') v"
    using assms(3,5-7,10,11) by (auto simp: sup_ok_def)
  show "sup_ok (generation m) (cmd m') (procs m') w" if "w \<in> set (sups m)" "sv_generation w \<noteq> sv_generation v" for w
  proof -
    have "\<not> owns c w" using one_ownerD [OF assms(1,2), of c w] that assms(3,5) by (auto simp: owns_def)
    then show ?thesis using mem_ok [OF assms(1) that(1)] assms(10,11)
      by (auto simp: sup_ok_def owns_def nth_list_update split: svPc.splits)
  qed
  show "owns d (sups m ! i) \<or> d \<ge> length (procs m)" if "owns d v" for d
    using that assms(3,7) by (auto simp: owns_def)
  show "sv_pc v = PcRun d \<or> (d < length (procs m) \<and> procs m ! d = Alive \<and> sv_pc (sups m ! i) \<noteq> PcRun d)"
    if "d < length (procs m')" "procs m' ! d = Alive" for d
    using that assms(3,4,11) c(1) by (auto simp: nth_list_update split: if_splits)
  show "running m' = (if current m v then sv_pc v \<noteq> PcGone else running m)"
    using current_running [OF assms(1,2)] assms(3,5,7,9) by (auto simp: current_def)
qed

lemma svExit_inv:
  assumes "core_inv n m" "i < length (sups m)" "sv_pc (sups m ! i) = PcRun c"
  shows "core_inv n (svExit r i m)"
  using assms(3)
  by (intro sv_end_inv [OF assms, of Exited "(sups m ! i)\<lparr>sv_pc := PcAfter r\<rparr>"]) (auto simp: svExit_def Let_def)

lemma svAfter_inv:
  assumes "core_inv n m" "i < length (sups m)" "sv_pc (sups m ! i) = PcAfter r"
  shows "core_inv n (svAfter i m)"
proof -
  have b: "sv_backoff (sups m ! i) \<in> backoffs" using nth_ok [OF assms(1,2)] by (simp add: sup_ok_def)
  obtain v where v: "sups (svAfter i m) = (sups m)[i := v]" "sv_pc v \<in> {PcBackoff, PcReturn}"
    "sv_generation v = sv_generation (sups m ! i)" "sv_backoff v = sv_backoff (sups m ! i)"
    using assms(3) that [of "(sups m ! i)\<lparr>sv_pc := PcReturn\<rparr>"] that [of "(sups m ! i)\<lparr>sv_pc := PcBackoff\<rparr>"]
    by (cases "generation m = sv_generation (sups m ! i)"; cases "running m"; cases "sv_cancelled (sups m ! i)")
      (simp_all add: svAfter_def Let_def)
  have "cmd (svAfter i m) = cmd m \<or> current m v \<and> cmd (svAfter i m) = None"
    using assms(3) v(3) by (auto simp: svAfter_def Let_def current_def)
  moreover have "generation (svAfter i m) = generation m" "running (svAfter i m) = running m" "procs (svAfter i m) = procs m"
    using assms(3) by (simp_all add: svAfter_def Let_def)
  ultimately show ?thesis using v b assms(3) by (intro sv_move_inv [OF assms(1,2), of v "cmd (svAfter i m)"]) auto
qed

lemma svWake_inv:
  assumes "core_inv n m" "i < length (sups m)" "sv_pc (sups m ! i) = PcBackoff"
  shows "core_inv n (svWake byContext i m)"
proof -
  have b: "sv_backoff (sups m ! i) \<in> backoffs" using nth_ok [OF assms(1,2)] by (simp add: sup_ok_def)
  obtain v where v: "sups (svWake byContext i m) = (sups m)[i := v]" "sv_pc v \<in> {PcLoop, PcReturn}"
    "sv_generation v = sv_generation (sups m ! i)" "sv_backoff v \<in> backoffs"
    using nextBackoff_ok [OF b] b that [of "(sups m ! i)\<lparr>sv_pc := PcReturn\<rparr>"]
      that [of "(sups m ! i)\<lparr>sv_backoff := nextBackoff (sv_backoff (sups m ! i)), sv_pc := PcLoop\<rparr>"]
    by (cases byContext) (simp_all add: svWake_def Let_def)
  then show ?thesis using assms(3)
    by (intro sv_move_inv [OF assms(1,2), of v "cmd m"]) (auto simp: svWake_def Let_def)
qed

lemma svDefer_fields:
  "generation (svDefer i m) = generation m" "procs (svDefer i m) = procs m"
  "sups (svDefer i m) = (sups m)[i := (sups m ! i)\<lparr>sv_pc := PcGone\<rparr>]"
  "running (svDefer i m) = (if current m (sups m ! i) then False else running m)"
  "cmd (svDefer i m) = (if current m (sups m ! i) then None else cmd m)"
  by (simp_all add: svDefer_def Let_def current_def)

lemma svDefer_inv:
  assumes "core_inv n m" "i < length (sups m)" "sv_pc (sups m ! i) = PcReturn"
  shows "core_inv n (svDefer i m)"
proof (rule sv_step_inv [OF assms(1,2), where v = "(sups m ! i)\<lparr>sv_pc := PcGone\<rparr>"])
  show "sup_ok (generation m) (cmd (svDefer i m)) (procs (svDefer i m)) w"
    if "w \<in> set (sups m)" "sv_generation w \<noteq> sv_generation ((sups m ! i)\<lparr>sv_pc := PcGone\<rparr>)" for w
    using mem_ok [OF assms(1) that(1)] that(2) by (auto simp: svDefer_fields sup_ok_def current_def split: svPc.splits)
qed (use assms nth_ok [OF assms(1,2)] in \<open>simp_all add: svDefer_fields sup_ok_def owns_def current_def\<close>)

lemma cancelCtx_inv:
  assumes "core_inv n m" "i < length (sups m)"
  shows "core_inv n (cancelCtx i m)"
proof (cases "\<exists>c. sv_pc (sups m ! i) = PcRun c")
  case True
  then obtain c where c: "sv_pc (sups m ! i) = PcRun c" by blast
  have "c < length (procs m)" "procs m ! c \<in> {Alive, Killed}" using nth_ok [OF assms] c by (auto simp: sup_ok_def)
  then have "kill (Some c) (procs m) = (procs m)[c := Killed]"
    by (auto simp: kill_def) (metis list_update_id)
  then show ?thesis using c
    by (intro sv_end_inv [OF assms c, of Killed "(sups m ! i)\<lparr>sv_cancelled := True\<rparr>"]) (auto simp: cancelCtx_def Let_def)
next
  case False
  let ?v = "(sups m ! i)\<lparr>sv_cancelled := True\<rparr>"
  have m': "cancelCtx i m = setSup i ?v m"
    using False by (simp add: cancelCtx_def Let_def split: svPc.splits)
  show ?thesis
  proof (rule sv_step_inv [OF assms, where v = ?v])
    show "sup_ok (generation m) (cmd (cancelCtx i m)) (procs (cancelCtx i m)) ?v"
      using nth_ok [OF assms] False by (auto simp: m' sup_ok_def split: svPc.splits)
    show "running (cancelCtx i m) = (if current m ?v then sv_pc ?v \<noteq> PcGone else running m)"
      using running_iff [OF assms] by (simp add: m' current_def)
  qed (use False mem_ok [OF assms(1)] in \<open>auto simp: m' owns_def\<close>)
qed

lemma core_inv_other [simp]:
  "core_inv n (m\<lparr>starting := k\<rparr>) = core_inv n m" "core_inv n (m\<lparr>Logs := ls, Exits := es\<rparr>) = core_inv n m"
  "core_inv n (snd (lineWrite b p m)) = core_inv n m"
  by (rule core_inv_cong; simp)+

lemma core_step_inv: "core_step m m' \<Longrightarrow> core_inv n m \<Longrightarrow> core_inv n m'"
  by (induction rule: core_step.induct)
    (simp_all add: svLoop_inv svSpawn_inv svExit_inv svAfter_inv svWake_inv svDefer_inv)

lemma reached_inv: "reached n m \<Longrightarrow> n < 18446744073709551616 \<Longrightarrow> core_inv n m"
proof (induction rule: reached.induct)
  case new
  show ?case by (simp add: core_inv_defs NewManager_def)
next
  case (check n m m')
  then show ?case by (auto simp: startCheck_def split: if_splits)
next
  case (step n m m')
  then show ?case using core_step_inv by blast
qed (simp_all add: startCommit_inv Stop_inv cancelCtx_inv startAbort_def)

text \<open>The outcomes of an uninterrupted \<^verbatim>\<open>Start\<close>.\<close>

lemma Start_cases:
  assumes "Start io m = (e, m')"
  shows "(e = None \<longleftrightarrow> \<not> running m \<and> io = None) \<and>
     (e = None \<longrightarrow> running m' \<and> generation m' = u64 (generation m + 1) \<and> length (sups m') = Suc (length (sups m)) \<and>
        startCommit m' = Inl AlreadyRunning) \<and>
     (e \<noteq> None \<longrightarrow> m' = m)"
proof (cases "running m")
  case True
  then show ?thesis using assms by (auto simp: Start_def startCheck_def)
next
  case False
  then show ?thesis using assms
    by (cases io) (auto simp: Start_def startCheck_def startCommit_def startAbort_def Let_def)
qed

lemma start_reached: "reached n m \<Longrightarrow> Start io m = (e, m') \<Longrightarrow> reached (if e = None then Suc n else n) m'"
proof (cases e)
  case None
  assume r: "reached n m" and s: "Start io m = (e, m')"
  with None obtain m1 where "startCheck m = Inr m1" "startCommit m1 = Inr m'"
    by (auto simp: Start_def split: sum.splits option.splits)
  moreover from this(1) have "0 < starting m1" by (auto simp: startCheck_def split: if_splits)
  ultimately show ?thesis using reached.commit [OF reached.check [OF r]] None by simp
next
  case (Some er)
  assume r: "reached n m" and s: "Start io m = (e, m')"
  then show ?thesis using Start_cases [OF s] Some by simp
qed

text \<open>Steps neither add nor remove supervisors.\<close>

lemma core_step_sups: "core_step m m' \<Longrightarrow> length (sups m') = length (sups m)"
  by (induction rule: core_step.induct)
    (simp_all add: svLoop_def svSpawn_def svExit_def svAfter_def svWake_def svDefer_def Let_def split: svPc.splits option.splits)

lemma cancel_stop_sups [simp]: "length (sups (cancelCtx i m)) = length (sups m)" "sups (Stop m) = sups m"
  by (simp_all add: cancelCtx_def Stop_def Let_def split: svPc.splits)

section \<open>Properties\<close>

text \<open>
  (C8) Whatever the interleaving of calls, supervisors, process exits and cancellations, the manager says it
  is running exactly if one supervisor of the current generation is still at work, there is never a
  second one, and the process that supervisor runs is the one the manager would kill.
\<close>

theorem core_one_supervisor:
  assumes "reached n m" "n < 18446744073709551616"
  shows "card {i. i < length (sups m) \<and> current m (sups m ! i) \<and> sv_pc (sups m ! i) \<noteq> PcGone} = (if running m then 1 else 0) \<and>
     (\<forall>v \<in> set (sups m). \<forall>c. current m v \<longrightarrow> sv_pc v = PcRun c \<longrightarrow> cmd m = Some c)"
proof
  let ?A = "{i. i < length (sups m) \<and> current m (sups m ! i) \<and> sv_pc (sups m ! i) \<noteq> PcGone}"
  note inv = reached_inv [OF assms]
  have "i = j" if "i \<in> ?A" "j \<in> ?A" for i j
    using that core_invD(2) [OF inv] by (auto simp: current_def) (metis length_map nth_eq_iff_index_eq nth_map)
  moreover have "running m \<longleftrightarrow> ?A \<noteq> {}"
    using core_invD(6) [OF inv] by (auto simp: supervised_def in_set_conv_nth dest: nth_mem)
  ultimately have "?A = {} \<and> \<not> running m \<or> (\<exists>i. ?A = {i}) \<and> running m" by blast
  then show "card ?A = (if running m then 1 else 0)" by (elim disjE conjE exE) simp_all
  show "\<forall>v \<in> set (sups m). \<forall>c. current m v \<longrightarrow> sv_pc v = PcRun c \<longrightarrow> cmd m = Some c"
    by (auto simp: sup_ok_def current_def dest!: mem_ok [OF inv])
qed

text \<open>A run of the core: started, looped once, the process alive.\<close>

definition exampleRun :: Manager where
  "exampleRun = svSpawn None 0 (svLoop 0 (snd (Start None NewManager)))"

lemma exampleStart: "Start None NewManager = (None, snd (Start None NewManager))"
  "reached 1 (snd (Start None NewManager))"
  "sups (snd (Start None NewManager)) = [\<lparr>sv_generation = 1, sv_backoff = Second, sv_cancelled = False, sv_pc = PcLoop\<rparr>]"
  "running (snd (Start None NewManager))" "generation (snd (Start None NewManager)) = 1" "procs (snd (Start None NewManager)) = []"
proof -
  show s: "Start None NewManager = (None, snd (Start None NewManager))"
    by (simp add: Start_def startCheck_def startCommit_def NewManager_def Let_def)
  show "reached 1 (snd (Start None NewManager))" using start_reached [OF reached.new s] by simp
qed (simp_all add: Start_def startCheck_def startCommit_def NewManager_def Let_def u64_def)

lemma exampleLoop:
  "sups (svLoop 0 (snd (Start None NewManager))) = [\<lparr>sv_generation = 1, sv_backoff = Second, sv_cancelled = False, sv_pc = PcSpawn 0\<rparr>]"
  "procs (svLoop 0 (snd (Start None NewManager))) = [NotStarted]" "cmd (svLoop 0 (snd (Start None NewManager))) = Some 0"
  "generation (svLoop 0 (snd (Start None NewManager))) = 1" "running (svLoop 0 (snd (Start None NewManager)))"
  "reached 1 (svLoop 0 (snd (Start None NewManager)))"
  using exampleStart reached.step [OF exampleStart(2) core_step.loop, of 0] by (simp_all add: svLoop_def Let_def)

lemma exampleRun_facts:
  "reached 1 exampleRun" "running exampleRun" "procs exampleRun = [Alive]" "cmd exampleRun = Some 0"
  "sups exampleRun = [\<lparr>sv_generation = 1, sv_backoff = Second, sv_cancelled = False, sv_pc = PcRun 0\<rparr>]"
  "generation exampleRun = 1"
  using exampleLoop reached.step [OF exampleLoop(6) core_step.spawn, of 0 0 None]
  by (simp_all add: exampleRun_def svSpawn_def Let_def)

theorem core_one_supervisor_witness:
  "card {i. i < length (sups exampleRun) \<and> current exampleRun (sups exampleRun ! i) \<and> sv_pc (sups exampleRun ! i) \<noteq> PcGone} = 1"
  using core_one_supervisor [OF exampleRun_facts(1)] exampleRun_facts(2) by simp



text \<open>
  Cancelling the contexts is what ends the processes for good: once the context of every supervisor is cancelled,
  no process is alive, and none comes to life.
\<close>

theorem cancelled_core_dead:
  assumes "reached n m" "n < 18446744073709551616" "\<forall>v \<in> set (sups m). sv_cancelled v" "i < length (sups m)"
  shows "Alive \<notin> set (procs m) \<and> Alive \<notin> set (procs (svSpawn fail i m))"
proof -
  note inv = reached_inv [OF assms(1,2)]
  have "procs m ! c \<noteq> Alive" if l: "c < length (procs m)" for c
  proof
    assume "procs m ! c = Alive"
    then obtain v where "v \<in> set (sups m)" "sv_pc v = PcRun c" "procs m ! c = Alive"
      using core_invD(5) [OF inv] l unfolding alive_owned_def by blast
    then show False using mem_ok [OF inv, of v] assms(3) by (simp add: sup_ok_def)
  qed
  then have "Alive \<notin> set (procs m)" by (auto simp: in_set_conv_nth)
  moreover have "procs (svSpawn fail i m) = procs m"
    using assms(3,4) by (simp add: svSpawn_def Let_def split: svPc.splits)
  ultimately show ?thesis by simp
qed

theorem cancelled_core_dead_witness:
  "Alive \<in> set (procs exampleRun) \<and> Alive \<notin> set (procs (cancelCtx 0 exampleRun))"
proof -
  have "reached 1 (cancelCtx 0 exampleRun)"
    using reached.cancel [OF exampleRun_facts(1), of 0] by (simp add: exampleRun_facts)
  from cancelled_core_dead [OF this, of 0] show ?thesis
    by (simp add: exampleRun_facts cancelCtx_def Let_def)
qed

text \<open>
  Without the cancellation \<^verbatim>\<open>Stop\<close> can miss the process: called between the unlock that publishes the command and
  the start of the process, it finds nothing to kill, and the process runs on although the
  manager is stopped.
\<close>

theorem stop_misses_starting_process:
  "\<exists>m. reached 2 m \<and> \<not> running m \<and> Alive \<in> set (procs m) \<and> list_all (\<lambda>v. \<not> sv_cancelled v) (sups m)"
proof -
  let ?m = "svLoop 0 (snd (Start None NewManager))"
  have r: "reached 2 (Stop ?m)" using reached.stop [OF exampleLoop(6)] by (simp add: numeral_2_eq_2)
  have s: "sups (Stop ?m) = sups ?m" "procs (Stop ?m) = [NotStarted]"
    using exampleLoop(2,3) by (simp_all add: Stop_def kill_def)
  have "reached 2 (svSpawn None 0 (Stop ?m))" using reached.step [OF r core_step.spawn, of 0 0 None] s exampleLoop(1) by simp
  moreover have "\<not> running (svSpawn None 0 (Stop ?m))" "procs (svSpawn None 0 (Stop ?m)) = [Alive]"
    "sups (svSpawn None 0 (Stop ?m)) = [\<lparr>sv_generation = 1, sv_backoff = Second, sv_cancelled = False, sv_pc = PcRun 0\<rparr>]"
    using s exampleLoop(1) by (simp_all add: svSpawn_def Let_def) (simp_all add: Stop_def)
  ultimately show ?thesis by (intro exI [of _ "svSpawn None 0 (Stop ?m)"]) simp
qed

text \<open>
  The back-off before the k-th restart doubles from one second and stays at 32 seconds; no reachable supervisor waits
  for any other time.
\<close>

theorem restart_backoff:
  assumes "reached n m" "n < 18446744073709551616"
  shows "(nextBackoff ^^ k) Second = min (2 ^ k) 32 * Second \<and> (\<forall>v \<in> set (sups m). \<exists>k. sv_backoff v = (nextBackoff ^^ k) Second)"
proof -
  have step: "nextBackoff (min (2 ^ k) 32 * Second) = min (2 ^ Suc k) 32 * Second" for k
  proof -
    consider "k = 0" | "k = 1" | "k = 2" | "k = 3" | "k = 4" | "5 \<le> k" by linarith
    then show ?thesis
    proof cases
      case 6
      then have "(2 :: int) ^ 5 \<le> 2 ^ k" by (rule power_increasing) simp
      then have p: "(32 :: int) \<le> 2 ^ k" "(32 :: int) \<le> 2 ^ Suc k" by simp_all
      then show ?thesis by (simp add: nextBackoff_def min_def del: power_Suc)
    qed (simp_all add: nextBackoff_def i64_def)
  qed
  have pow: "(nextBackoff ^^ k) Second = min (2 ^ k) 32 * Second" for k
  proof (induction k)
    case (Suc k)
    then show ?case using step [of k] by (simp del: power_Suc)
  qed simp
  have "sv_backoff v \<in> (\<lambda>k. min (2 ^ k) 32 * Second) ` {0, 1, 2, 3, 4, 5 :: nat}" if "v \<in> set (sups m)" for v
    using mem_ok [OF reached_inv [OF assms] that] by (simp add: sup_ok_def backoffs_def)
  then have "\<exists>k. sv_backoff v = (nextBackoff ^^ k) Second" if "v \<in> set (sups m)" for v
    using that unfolding pow by blast
  with pow show ?thesis by blast
qed

theorem restart_backoff_witness: "(nextBackoff ^^ 7) Second = 32 * Second"
  using restart_backoff [OF exampleRun_facts(1), of 7] by simp

text \<open>
  \<^verbatim>\<open>Start\<close> succeeds exactly if the manager is not running and the configuration could be written, and then
  runs in a new generation; a failed call changes nothing; and of two concurrent calls that have
  both passed the first check, the second is refused.
\<close>

theorem start_outcomes:
  assumes "Start io m = (e, m')"
  shows "(e = None \<longleftrightarrow> \<not> running m \<and> io = None) \<and>
     (e = None \<longrightarrow> running m' \<and> generation m' = u64 (generation m + 1) \<and> length (sups m') = Suc (length (sups m)) \<and>
        startCommit m' = Inl AlreadyRunning) \<and>
     (e \<noteq> None \<longrightarrow> m' = m)"
  by (rule Start_cases [OF assms])

theorem start_outcomes_witness: "running (snd (Start None NewManager)) \<and> startCommit (snd (Start None NewManager)) = Inl AlreadyRunning"
  using start_outcomes [OF exampleStart(1)] by simp

text \<open>The lines of the core's output do not depend on how it is cut into writes.\<close>

lemma lineWrite_append:
  "lineWrite buf (p @ q) m = (case lineWrite buf p m of (b, m1) \<Rightarrow> lineWrite b q m1)"
  by (induction buf p m rule: lineWrite.induct) auto

end
