(* ===== verification/EntryManager.thy ===== *)
theory EntryManager
  imports Prelude
begin

text \<open>
  The \<^verbatim>\<open>Manager\<close> of \<^verbatim>\<open>tui/internal/entry/entry.go\<close>: the local SOCKS5 and HTTP listeners and the
  connections they accept.  Listeners and connections are numbered; beside the fields the mutex
  protects, the state holds which sockets are open in the operating system and which accept
  loops and handlers are at work.
\<close>

datatype entryKind = SocksEntry | HttpEntry

record entryManager =
  listeners :: "nat list"
  conns :: "nat set"
  closed :: bool
  openListeners :: "nat set"       \<comment> \<open>sockets bound in the operating system\<close>
  openConns :: "nat set"           \<comment> \<open>connections not yet closed\<close>
  kindOf :: "nat \<Rightarrow> entryKind"     \<comment> \<open>the handler an accept loop was started with\<close>
  accepted :: "nat set"            \<comment> \<open>accepted, not yet registered\<close>
  nextSock :: nat

definition NewEntryManager :: entryManager where
  "NewEntryManager =
     \<lparr>listeners = [], conns = {}, closed = False, openListeners = {}, openConns = {}, kindOf = (\<lambda>_. SocksEntry),
      accepted = {}, nextSock = 0\<rparr>"

datatype entry_error = EntryClosed | SocksListen string | HttpListen string

text \<open>\<^verbatim>\<open>net.Listen\<close>: the outcome is the operating system's, \<open>listen addr\<close> its error if any.\<close>

definition bindListener :: "entryManager \<Rightarrow> nat \<times> entryManager" where
  "bindListener m = (nextSock m, m\<lparr>openListeners := insert (nextSock m) (openListeners m), nextSock := Suc (nextSock m)\<rparr>)"

definition closePending :: "(nat \<times> entryKind) list \<Rightarrow> entryManager \<Rightarrow> entryManager" where
  "closePending pending m = m\<lparr>openListeners := openListeners m - fst ` set pending\<rparr>"

definition adopt :: "(nat \<times> entryKind) list \<Rightarrow> entryManager \<Rightarrow> entryManager" where
  "adopt pending m =
     m\<lparr>listeners := listeners m @ map fst pending,
       kindOf := (\<lambda>l. case map_of pending l of Some k \<Rightarrow> k | None \<Rightarrow> kindOf m l)\<rparr>"

definition entryStart :: "(string \<Rightarrow> string option) \<Rightarrow> string \<Rightarrow> string \<Rightarrow> entryManager \<Rightarrow> entry_error option \<times> entryManager" where
  "entryStart listen socksAddr httpAddr m =
     (if closed m then (Some EntryClosed, m)
      else
        let socks = (if socksAddr = [] then Inr ([], m)
              else case listen socksAddr of
                     Some e \<Rightarrow> Inl (SocksListen e)
                   | None \<Rightarrow> (case bindListener m of (l, m1) \<Rightarrow> Inr ([(l, SocksEntry)], m1))) in
        case socks of
          Inl e \<Rightarrow> (Some e, m)
        | Inr (pending, m1) \<Rightarrow>
            if httpAddr = [] then (None, adopt pending m1)
            else (case listen httpAddr of
                    Some e \<Rightarrow> (Some (HttpListen e), closePending pending m1)
                  | None \<Rightarrow> (case bindListener m1 of (l, m2) \<Rightarrow> (None, adopt (pending @ [(l, HttpEntry)]) m2))))"

text \<open>The accept loop: a connection arrives on an open listener, then it is registered under the lock.\<close>

definition acceptConn :: "entryManager \<Rightarrow> entryManager" where
  "acceptConn m =
     m\<lparr>openConns := insert (nextSock m) (openConns m), accepted := insert (nextSock m) (accepted m), nextSock := Suc (nextSock m)\<rparr>"

definition registerConn :: "nat \<Rightarrow> entryManager \<Rightarrow> entryManager" where
  "registerConn c m =
     (if closed m then m\<lparr>openConns := openConns m - {c}, accepted := accepted m - {c}\<rparr>
      else m\<lparr>conns := insert c (conns m), accepted := accepted m - {c}\<rparr>)"

text \<open>The handler returns: it closes its connection, then the deferred function forgets it.\<close>

definition handlerDone :: "nat \<Rightarrow> entryManager \<Rightarrow> entryManager" where
  "handlerDone c m = m\<lparr>openConns := openConns m - {c}, conns := conns m - {c}\<rparr>"

definition entryStop :: "entryManager \<Rightarrow> entryManager" where
  "entryStop m =
     m\<lparr>closed := True, openListeners := openListeners m - set (listeners m), listeners := [],
       openConns := openConns m - conns m, conns := {}\<rparr>"

inductive entry_step :: "entryManager \<Rightarrow> entryManager \<Rightarrow> bool" where
  accept: "l \<in> openListeners m \<Longrightarrow> entry_step m (acceptConn m)"
| register: "c \<in> accepted m \<Longrightarrow> entry_step m (registerConn c m)"
| finish: "c \<notin> accepted m \<Longrightarrow> entry_step m (handlerDone c m)"

inductive entry_reached :: "entryManager \<Rightarrow> bool" where
  new: "entry_reached NewEntryManager"
| start: "entry_reached m \<Longrightarrow> entryStart listen s h m = (e, m') \<Longrightarrow> entry_reached m'"
| stop: "entry_reached m \<Longrightarrow> entry_reached (entryStop m)"
| step: "entry_reached m \<Longrightarrow> entry_step m m' \<Longrightarrow> entry_reached m'"

section \<open>Invariant\<close>

text \<open>
  The open listeners are those the manager knows, so \<^verbatim>\<open>Stop\<close> closes them all; a connection that is open
  is known or about to be registered; a closed manager knows none.
\<close>

definition entry_inv :: "entryManager \<Rightarrow> bool" where
  "entry_inv m \<longleftrightarrow> openListeners m = set (listeners m) \<and> openConns m \<subseteq> conns m \<union> accepted m \<and>
     conns m \<inter> accepted m = {} \<and> (closed m \<longrightarrow> listeners m = [] \<and> conns m = {}) \<and>
     (\<forall>x \<in> openListeners m \<union> openConns m \<union> conns m \<union> accepted m. x < nextSock m)"

text \<open>A failed start leaves the sockets as they were; a successful one binds one listener per address.\<close>

lemma entryStart_spec:
  assumes "entry_inv m" "entryStart listen s h m = (e, m')"
  shows "entry_inv m' \<and> closed m' = closed m \<and> conns m' = conns m \<and> openConns m' = openConns m \<and>
     (e \<noteq> None \<longrightarrow> listeners m' = listeners m \<and> openListeners m' = openListeners m) \<and>
     (e = None \<longrightarrow> \<not> closed m \<and> length (listeners m') = length (listeners m) + (if s = [] then 0 else 1) + (if h = [] then 0 else 1))"
proof (cases "closed m")
  case True
  then show ?thesis using assms by (auto simp: entryStart_def)
next
  case False
  have fresh: "nextSock m \<notin> openListeners m" "nextSock m \<notin> set (listeners m)"
    using assms(1) by (auto simp: entry_inv_def)
  show ?thesis
    using assms False fresh
    by (cases "s = []"; cases "h = []"; cases "listen s"; cases "listen h")
      (auto simp: entryStart_def bindListener_def closePending_def adopt_def entry_inv_def Let_def less_Suc_eq)
qed

lemma entry_step_inv: "entry_step m m' \<Longrightarrow> entry_inv m \<Longrightarrow> entry_inv m'"
  by (induction rule: entry_step.induct)
    (auto simp: entry_inv_def acceptConn_def registerConn_def handlerDone_def less_Suc_eq)

lemma entryStop_inv: "entry_inv m \<Longrightarrow> entry_inv (entryStop m)"
  by (auto simp: entry_inv_def entryStop_def)

lemma entry_reached_inv: "entry_reached m \<Longrightarrow> entry_inv m"
proof (induction rule: entry_reached.induct)
  case new
  show ?case by (simp add: entry_inv_def NewEntryManager_def)
qed (auto intro: entry_step_inv entryStop_inv dest: entryStart_spec)

section \<open>Properties\<close>

text \<open>
  \<^verbatim>\<open>Stop\<close> leaves nothing open: every listener is closed, every registered connection is closed, a
  connection that was just being accepted is closed when it is registered, and the manager
  cannot be started again.  Before that, a failed \<^verbatim>\<open>Start\<close> leaves no listener behind.
\<close>

theorem entry_stop_closes_all:
  assumes "entry_reached m"
  shows "openListeners (entryStop m) = {} \<and> openConns (entryStop m) \<subseteq> accepted (entryStop m) \<and>
     openConns (registerConn c (entryStop m)) = openConns (entryStop m) - {c} \<and>
     fst (entryStart listen s h (entryStop m)) = Some EntryClosed \<and>
     (fst (entryStart listen s h m) \<noteq> None \<longrightarrow> openListeners (snd (entryStart listen s h m)) = openListeners m)"
proof -
  note inv = entry_reached_inv [OF assms]
  have "fst (entryStart listen s h m) \<noteq> None \<longrightarrow> openListeners (snd (entryStart listen s h m)) = openListeners m"
    using entryStart_spec [OF inv, of listen s h "fst (entryStart listen s h m)" "snd (entryStart listen s h m)"] by simp
  then show ?thesis using inv by (auto simp: entry_inv_def entryStop_def registerConn_def entryStart_def)
qed

text \<open>The SOCKS address can be bound and the HTTP address not; then both; then one connection.\<close>

definition exampleEntry :: entryManager where
  "exampleEntry = registerConn 2 (acceptConn (snd (entryStart (\<lambda>_. None) ''127.0.0.1:1080'' ''127.0.0.1:8080'' NewEntryManager)))"

lemma exampleEntry_started:
  "entryStart (\<lambda>_. None) ''127.0.0.1:1080'' ''127.0.0.1:8080'' NewEntryManager =
     (None, adopt [(0, SocksEntry), (1, HttpEntry)] (NewEntryManager\<lparr>openListeners := {0, 1}, nextSock := 2\<rparr>))"
  by (auto simp: entryStart_def NewEntryManager_def bindListener_def Let_def adopt_def)

lemma exampleEntry_facts: "entry_reached exampleEntry" "openListeners exampleEntry = {0, 1}" "openConns exampleEntry = {2}"
proof -
  let ?m = "adopt [(0, SocksEntry), (1, HttpEntry)] (NewEntryManager\<lparr>openListeners := {0, 1}, nextSock := 2\<rparr>)"
  have "entry_reached ?m" using entry_reached.start [OF entry_reached.new exampleEntry_started] .
  then have "entry_reached (acceptConn ?m)"
    by (rule entry_reached.step) (rule entry_step.accept [of 0], simp add: adopt_def)
  then have "entry_reached (registerConn 2 (acceptConn ?m))"
    by (rule entry_reached.step) (rule entry_step.register, simp add: adopt_def acceptConn_def)
  then show "entry_reached exampleEntry" by (simp add: exampleEntry_def exampleEntry_started)
  show "openListeners exampleEntry = {0, 1}" "openConns exampleEntry = {2}"
    unfolding exampleEntry_def exampleEntry_started snd_conv
    by (simp_all add: adopt_def acceptConn_def registerConn_def NewEntryManager_def)
qed

theorem entry_stop_closes_all_witness:
  "openListeners exampleEntry = {0, 1} \<and> openListeners (entryStop exampleEntry) = {}"
  using entry_stop_closes_all [OF exampleEntry_facts(1)] exampleEntry_facts(2) by simp

end
