(* ===== verification/SysProxy.thy ===== *)
theory SysProxy
  imports Prelude
begin

text \<open>
  \<^verbatim>\<open>tui/internal/sysproxy/sysproxy_windows.go\<close>: the switch of the Windows system proxy.  The state is
  the three registry values; every access may fail, and which ones do is a parameter.
\<close>

record registry =
  ProxyEnable :: "int option"
  ProxyServer :: "string option"
  ProxyOverride :: "string option"

record SysProxyState =
  sp_Enabled :: bool
  sp_Server :: string
  sp_Override :: string

definition zeroState :: SysProxyState where
  "zeroState = \<lparr>sp_Enabled = False, sp_Server = [], sp_Override = []\<rparr>"

datatype regOp = OpenQuery | OpenSet | GetEnable | GetServer | GetOverride | SetEnable | SetServer | SetOverride

datatype reg_error = RegFailed regOp | RegNotExist

definition spGet :: "(regOp \<Rightarrow> bool) \<Rightarrow> registry \<Rightarrow> reg_error + SysProxyState" where
  "spGet fail r =
     (if fail OpenQuery then Inl (RegFailed OpenQuery)
      else if fail GetEnable then Inl (RegFailed GetEnable)
      else case ProxyEnable r of
        None \<Rightarrow> Inl RegNotExist
      | Some enabled \<Rightarrow>
          if fail GetServer then Inl (RegFailed GetServer)
          else if fail GetOverride then Inl (RegFailed GetOverride)
          else Inr \<lparr>sp_Enabled = (enabled \<noteq> 0),
                     sp_Server = (case ProxyServer r of Some s \<Rightarrow> s | None \<Rightarrow> []),
                     sp_Override = (case ProxyOverride r of Some s \<Rightarrow> s | None \<Rightarrow> [])\<rparr>)"

text \<open>The three writes that \<^verbatim>\<open>Enable\<close> and \<^verbatim>\<open>Restore\<close> share, in their order.\<close>

definition spWrite :: "(regOp \<Rightarrow> bool) \<Rightarrow> int \<Rightarrow> string \<Rightarrow> string \<Rightarrow> registry \<Rightarrow> reg_error option \<times> registry" where
  "spWrite fail enabled server override r =
     (if fail OpenSet then (Some (RegFailed OpenSet), r)
      else if fail SetEnable then (Some (RegFailed SetEnable), r)
      else let r = r\<lparr>ProxyEnable := Some enabled\<rparr> in
        if fail SetServer then (Some (RegFailed SetServer), r)
        else let r = r\<lparr>ProxyServer := Some server\<rparr> in
          if fail SetOverride then (Some (RegFailed SetOverride), r)
          else (None, r\<lparr>ProxyOverride := Some override\<rparr>))"

definition spEnable :: "(regOp \<Rightarrow> bool) \<Rightarrow> string \<Rightarrow> string \<Rightarrow> registry \<Rightarrow> (reg_error + SysProxyState) \<times> registry" where
  "spEnable fail proxyAddr bypass r =
     (case spGet fail r of
        Inl e \<Rightarrow> (Inl e, r)
      | Inr prev \<Rightarrow>
          (case spWrite fail 1 proxyAddr bypass r of
             (Some e, r') \<Rightarrow> (Inl e, r')
           | (None, r') \<Rightarrow> (Inr prev, r')))"

definition spDisable :: "(regOp \<Rightarrow> bool) \<Rightarrow> registry \<Rightarrow> registry" where
  "spDisable fail r = (if fail OpenSet \<or> fail SetEnable then r else r\<lparr>ProxyEnable := Some 0\<rparr>)"

definition spRestore :: "(regOp \<Rightarrow> bool) \<Rightarrow> SysProxyState \<Rightarrow> registry \<Rightarrow> reg_error option \<times> registry" where
  "spRestore fail prev r =
     spWrite fail (if sp_Enabled prev then 1 else 0) (sp_Server prev) (sp_Override prev) r"

section \<open>Properties\<close>

abbreviation noFail :: "regOp \<Rightarrow> bool" where "noFail \<equiv> \<lambda>_. False"

lemma spWrite_ok:
  "spWrite fail n s v r = (None, r') \<Longrightarrow> r' = \<lparr>ProxyEnable = Some n, ProxyServer = Some s, ProxyOverride = Some v\<rparr>"
  by (cases r) (simp add: spWrite_def Let_def split: if_splits)

lemma spGet_ok: "spGet fail r = Inr st \<Longrightarrow> spGet noFail r = Inr st"
  by (cases "ProxyEnable r") (simp_all add: spGet_def split: if_splits)

lemma spEnable_ok:
  "spEnable fail addr bypass r = (Inr prev, r1) \<Longrightarrow> spGet fail r = Inr prev \<and> spWrite fail 1 addr bypass r = (None, r1)"
  by (cases "spGet fail r"; cases "spWrite fail 1 addr bypass r"; cases "fst (spWrite fail 1 addr bypass r)")
    (simp_all add: spEnable_def)

text \<open>
  (C38) Enabling and restoring is a round trip: after a successful \<^verbatim>\<open>Enable\<close> the settings are the proxy's, and
  restoring the state it returned brings the former settings back.
\<close>

theorem sysproxy_roundtrip:
  assumes "spEnable fail addr bypass r = (Inr prev, r1)" "spRestore fail' prev r1 = (None, r2)"
  shows "spGet noFail r = Inr prev \<and>
     spGet noFail r1 = Inr \<lparr>sp_Enabled = True, sp_Server = addr, sp_Override = bypass\<rparr> \<and> spGet noFail r2 = Inr prev"
proof -
  have e: "spGet fail r = Inr prev" "spWrite fail 1 addr bypass r = (None, r1)" using spEnable_ok [OF assms(1)] by simp_all
  show ?thesis
    using spGet_ok [OF e(1)] spWrite_ok [OF e(2)] spWrite_ok [OF assms(2) [unfolded spRestore_def]]
    by (cases prev) (simp add: spGet_def)
qed

definition exampleRegistry :: registry where
  "exampleRegistry = \<lparr>ProxyEnable = Some 0, ProxyServer = None, ProxyOverride = Some ''localhost''\<rparr>"

theorem sysproxy_roundtrip_witness:
  "spGet noFail (snd (spRestore noFail \<lparr>sp_Enabled = False, sp_Server = [], sp_Override = ''localhost''\<rparr>
      (snd (spEnable noFail ''127.0.0.1:1080'' ''local'' exampleRegistry)))) =
   Inr \<lparr>sp_Enabled = False, sp_Server = [], sp_Override = ''localhost''\<rparr>"
proof -
  have e: "spEnable noFail ''127.0.0.1:1080'' ''local'' exampleRegistry =
     (Inr \<lparr>sp_Enabled = False, sp_Server = [], sp_Override = ''localhost''\<rparr>,
      \<lparr>ProxyEnable = Some 1, ProxyServer = Some ''127.0.0.1:1080'', ProxyOverride = Some ''local''\<rparr>)"
    by (simp add: spEnable_def spGet_def spWrite_def exampleRegistry_def Let_def)
  from sysproxy_roundtrip [OF e, of noFail] show ?thesis
    using e by (simp add: spRestore_def spWrite_def Let_def)
qed

text \<open>
  A failing \<^verbatim>\<open>Enable\<close> is not undone: if the second write fails, the call reports an error and no former state, but
  the system proxy is left enabled with whatever server was set before.
\<close>

theorem sysproxy_partial_enable:
  assumes "ProxyEnable r = Some n"
  shows "spEnable (\<lambda>op. op = SetServer) addr bypass r = (Inl (RegFailed SetServer), r\<lparr>ProxyEnable := Some 1\<rparr>)"
  using assms by (simp add: spEnable_def spGet_def spWrite_def Let_def)

theorem sysproxy_partial_enable_witness:
  "snd (spEnable (\<lambda>op. op = SetServer) ''127.0.0.1:1080'' [] exampleRegistry) = exampleRegistry\<lparr>ProxyEnable := Some 1\<rparr>"
  using sysproxy_partial_enable [of exampleRegistry 0] by (simp add: exampleRegistry_def)

end
