(* ===== verification/ProfileStore.thy ===== *)
theory ProfileStore
  imports Prelude
begin

text \<open>
  \<^verbatim>\<open>tui/internal/config/config.go\<close>: the profiles of the client and their defaults.  A nil pointer is
  \<open>None\<close>.  Reading and writing the JSON file is a parameter of \<open>loadStore\<close>: absent, unreadable, not
  JSON, or the decoded store.
\<close>

record ClientReality =
  cr_ServerName :: string
  cr_PublicKey :: string
  cr_ShortID :: string
  cr_Fingerprint :: string

record SysProxyConfig =
  spc_Enabled :: bool
  spc_Bypass :: string

record TUNConfig =
  tun_Enabled :: bool
  tun_Gateway :: string
  tun_Subnet :: string
  tun_MTU :: int
  tun_DoH :: "string list"
  tun_ExcludeIP :: "string list"

record ClientProfile =
  p_Name :: string
  p_Server :: string
  p_Port :: int
  p_Username :: string
  p_Password :: string
  p_InsecureConcurrency :: int
  p_Reality :: "ClientReality option"
  p_TLS :: "bool option"
  p_LocalSocks :: string
  p_LocalHTTP :: string
  p_SystemProxy :: "SysProxyConfig option"
  p_TUN :: "TUNConfig option"

record Store =
  ActiveProfile :: string
  Profiles :: "ClientProfile list"
  CorePath :: string
  InternalSocks :: string
  LogLevel :: string

definition orElse :: "string \<Rightarrow> string \<Rightarrow> string" where
  "orElse s d = (if s = [] then d else s)"

definition defaultReality :: "ClientReality \<Rightarrow> ClientReality" where
  "defaultReality r = r\<lparr>cr_Fingerprint := orElse (cr_Fingerprint r) ''chrome''\<rparr>"

definition defaultTUN :: "TUNConfig \<Rightarrow> TUNConfig" where
  "defaultTUN t =
     t\<lparr>tun_Gateway := orElse (tun_Gateway t) ''198.18.0.1'', tun_Subnet := orElse (tun_Subnet t) ''198.18.0.0/15'',
       tun_MTU := (if tun_MTU t = 0 then 1500 else tun_MTU t)\<rparr>"

definition defaultProfile :: "ClientProfile \<Rightarrow> ClientProfile" where
  "defaultProfile p =
     p\<lparr>p_Port := (if p_Port p = 0 then 443 else p_Port p),
       p_LocalSocks := orElse (p_LocalSocks p) ''127.0.0.1:1080'',
       p_LocalHTTP := orElse (p_LocalHTTP p) ''127.0.0.1:8080'',
       p_InsecureConcurrency := (if p_InsecureConcurrency p \<le> 0 then 1 else p_InsecureConcurrency p),
       p_Reality := map_option defaultReality (p_Reality p),
       p_TUN := map_option defaultTUN (p_TUN p)\<rparr>"

definition applyDefaults :: "Store \<Rightarrow> Store" where
  "applyDefaults s =
     s\<lparr>InternalSocks := orElse (InternalSocks s) ''127.0.0.1:41080'',
       CorePath := orElse (CorePath s) ''naive.exe'',
       LogLevel := orElse (LogLevel s) ''info'',
       Profiles := map defaultProfile (Profiles s)\<rparr>"

definition emptyStore :: Store where
  "emptyStore = \<lparr>ActiveProfile = [], Profiles = [], CorePath = [], InternalSocks = [], LogLevel = []\<rparr>"

datatype storeFile = NoSuchFile | Unreadable string | NotJson string | Decoded Store

definition loadStore :: "storeFile \<Rightarrow> string + Store" where
  "loadStore f =
     (case f of
        NoSuchFile \<Rightarrow> Inr (applyDefaults emptyStore)
      | Unreadable e \<Rightarrow> Inl e
      | NotJson e \<Rightarrow> Inl e
      | Decoded s \<Rightarrow> Inr (applyDefaults s))"

text \<open>\<^verbatim>\<open>Active\<close>: the index of the profile it points to.\<close>

fun findProfile :: "string \<Rightarrow> ClientProfile list \<Rightarrow> nat option" where
  "findProfile n [] = None"
| "findProfile n (p # ps) = (if p_Name p = n then Some 0 else map_option Suc (findProfile n ps))"

definition activeIndex :: "Store \<Rightarrow> nat option" where
  "activeIndex s =
     (case findProfile (ActiveProfile s) (Profiles s) of
        Some i \<Rightarrow> Some i
      | None \<Rightarrow> if Profiles s \<noteq> [] then Some 0 else None)"

definition Active :: "Store \<Rightarrow> ClientProfile option" where
  "Active s = map_option ((!) (Profiles s)) (activeIndex s)"

section \<open>Properties\<close>

lemma orElse_simps [simp]: "orElse (orElse s d) d = orElse s d" "d \<noteq> [] \<Longrightarrow> orElse s d \<noteq> []"
  by (simp_all add: orElse_def)

lemma findProfile_Some:
  "findProfile n ps = Some i \<longleftrightarrow> i < length ps \<and> p_Name (ps ! i) = n \<and> (\<forall>j < i. p_Name (ps ! j) \<noteq> n)"
proof (induction ps arbitrary: i)
  case (Cons p ps)
  show ?case using Cons by (cases i) (auto simp: less_Suc_eq_0_disj)
qed simp

lemma findProfile_None: "findProfile n ps = None \<longleftrightarrow> n \<notin> p_Name ` set ps"
  by (induction ps) auto

lemma defaultProfile_idem: "defaultProfile (defaultProfile p) = defaultProfile p"
proof -
  have "defaultReality \<circ> defaultReality = defaultReality" "defaultTUN \<circ> defaultTUN = defaultTUN"
    by (simp_all add: fun_eq_iff defaultReality_def defaultTUN_def)
  then show ?thesis by (simp add: defaultProfile_def option.map_comp)
qed

text \<open>What every profile has after the defaults.\<close>

definition profile_ok :: "ClientProfile \<Rightarrow> bool" where
  "profile_ok p \<longleftrightarrow> p_Port p \<noteq> 0 \<and> p_LocalSocks p \<noteq> [] \<and> p_LocalHTTP p \<noteq> [] \<and> 0 < p_InsecureConcurrency p \<and>
     (\<forall>r. p_Reality p = Some r \<longrightarrow> cr_Fingerprint r \<noteq> []) \<and>
     (\<forall>t. p_TUN p = Some t \<longrightarrow> tun_Gateway t \<noteq> [] \<and> tun_Subnet t \<noteq> [] \<and> tun_MTU t \<noteq> 0)"

lemma defaultTUN_ok: "tun_Gateway (defaultTUN t) \<noteq> [] \<and> tun_Subnet (defaultTUN t) \<noteq> [] \<and> tun_MTU (defaultTUN t) \<noteq> 0"
  by (simp add: defaultTUN_def)

lemma defaultReality_ok: "cr_Fingerprint (defaultReality r) \<noteq> []"
  by (simp add: defaultReality_def)

lemma defaultProfile_ok: "profile_ok (defaultProfile p)"
  using defaultTUN_ok defaultReality_ok by (auto simp: profile_ok_def defaultProfile_def)

text \<open>
  A loaded store is complete and the defaults are stable: every profile has a port, local addresses, a positive
  concurrency, a fingerprint where it has a REALITY block and an address, subnet and MTU where it has
  a TUN block; names and order are those of the file; and loading what was stored changes nothing.
\<close>

theorem load_store_complete:
  assumes "loadStore (Decoded s) = Inr s'"
  shows "(\<forall>p \<in> set (Profiles s'). profile_ok p) \<and> map p_Name (Profiles s') = map p_Name (Profiles s) \<and>
     InternalSocks s' \<noteq> [] \<and> CorePath s' \<noteq> [] \<and> LogLevel s' \<noteq> [] \<and> loadStore (Decoded s') = Inr s'"
proof -
  have s': "s' = applyDefaults s" using assms by (simp add: loadStore_def)
  have "p_Name (defaultProfile p) = p_Name p" for p by (simp add: defaultProfile_def)
  then show ?thesis
    by (auto simp: s' applyDefaults_def loadStore_def defaultProfile_ok defaultProfile_idem)
qed

definition exampleProfile :: ClientProfile where
  "exampleProfile =
     \<lparr>p_Name = ''home'', p_Server = ''example.com'', p_Port = 0, p_Username = ''u'', p_Password = ''p'',
      p_InsecureConcurrency = 0, p_Reality = None, p_TLS = None, p_LocalSocks = [], p_LocalHTTP = [],
      p_SystemProxy = None, p_TUN = None\<rparr>"

definition exampleStore :: Store where
  "exampleStore = emptyStore\<lparr>ActiveProfile := ''home'', Profiles := [exampleProfile]\<rparr>"

theorem load_store_complete_witness: "profile_ok (hd (Profiles (applyDefaults exampleStore)))"
proof -
  have "hd (Profiles (applyDefaults exampleStore)) \<in> set (Profiles (applyDefaults exampleStore))"
    by (simp add: applyDefaults_def exampleStore_def)
  then show ?thesis using load_store_complete [of exampleStore "applyDefaults exampleStore"] by (simp add: loadStore_def)
qed

text \<open>
  The active profile is the first of the selected name; if none has it, the first of all; and there is none only in
  an empty store.
\<close>

theorem active_profile_choice:
  "(activeIndex s = None \<longleftrightarrow> Profiles s = []) \<and>
   (\<forall>i. activeIndex s = Some i \<longrightarrow> i < length (Profiles s) \<and>
      (ActiveProfile s \<in> p_Name ` set (Profiles s) \<longrightarrow> p_Name (Profiles s ! i) = ActiveProfile s \<and>
         (\<forall>j < i. p_Name (Profiles s ! j) \<noteq> ActiveProfile s)) \<and>
      (ActiveProfile s \<notin> p_Name ` set (Profiles s) \<longrightarrow> i = 0))"
proof (cases "findProfile (ActiveProfile s) (Profiles s)")
  case None
  then show ?thesis using findProfile_None [of "ActiveProfile s" "Profiles s"] by (simp add: activeIndex_def)
next
  case (Some i)
  then show ?thesis
    using findProfile_Some [of "ActiveProfile s" "Profiles s" i] findProfile_None [of "ActiveProfile s" "Profiles s"]
    by (auto simp: activeIndex_def)
qed

theorem active_profile_choice_witness: "activeIndex exampleStore = Some 0 \<and> p_Name (Profiles exampleStore ! 0) = ''home''"
proof -
  have "activeIndex exampleStore = Some 0" by (simp add: activeIndex_def exampleStore_def emptyStore_def exampleProfile_def)
  then show ?thesis using active_profile_choice [of exampleStore]
    by (simp add: exampleStore_def exampleProfile_def)
qed

end
