(* ===== verification/ClientApp.thy ===== *)
theory ClientApp
  imports CoreManager EntryManager SysProxy ProfileStore
begin

text \<open>
  \<^verbatim>\<open>tui/app.go\<close>: the state machine of the client: the handler of a message (\<^verbatim>\<open>Update\<close>), \<^verbatim>\<open>connect\<close> and
  \<^verbatim>\<open>disconnect\<close>, over the core manager, the entry managers, the system proxy and the profile store.
  Every entry manager ever made is kept in \<open>entries\<close>, so that one that is forgotten can be
  seen; \<open>entry\<close> is the one \<^verbatim>\<open>m.entry\<close> points to.  A context is named by the supervisor that
  got it.  The share-link parser and the outcomes of the operating system are parameters.
\<close>

section \<open>State\<close>

datatype appState = Disconnected | Connecting | Connected | AppError | Reconnecting

datatype cancelFunc = UnusedCtx | CtxOf nat

record appModel =
  store :: Store
  core :: Manager
  entries :: "entryManager list"
  entry :: "nat option"
  tun :: bool
  cancel :: "cancelFunc option"
  state :: appState
  errMsg :: string
  tab :: int
  logs :: "string list"
  cursor :: int
  editing :: bool
  prevSP :: SysProxyState
  spOn :: bool
  msg :: string
  reg :: registry

text \<open>What the operating system and the libraries answer during one message.\<close>

record appEnv =
  env_listen :: "string \<Rightarrow> string option"
  env_startIO :: "string option"
  env_tun :: "string option"
  env_reg :: "regOp \<Rightarrow> bool"
  env_regText :: "reg_error \<Rightarrow> string"         \<comment> \<open>the text of an error of the registry\<close>
  env_save :: "string option"
  env_parse :: "string + ClientProfile"      \<comment> \<open>the share link in the input field, parsed\<close>
  env_linkEmpty :: bool                      \<comment> \<open>whether it is empty after trimming\<close>
  env_build :: "string option"
  env_clipboard :: "string option"

text \<open>The texts of the errors of the two managers.\<close>

fun startText :: "start_error \<Rightarrow> string" where
  "startText AlreadyRunning = ''core already running''"
| "startText (StartIO e) = e"

fun entryText :: "entry_error \<Rightarrow> string" where
  "entryText EntryClosed = ''entry manager closed''"
| "entryText (SocksListen e) = ''socks listen: '' @ e"
| "entryText (HttpListen e) = ''http listen: '' @ e"

definition appendLog :: "string \<Rightarrow> appModel \<Rightarrow> appModel" where
  "appendLog l a = a\<lparr>logs := logs a @ [l]\<rparr>"

definition trimLogs :: "appModel \<Rightarrow> appModel" where
  "trimLogs a = (if length (logs a) > 200 then a\<lparr>logs := drop (length (logs a) - 200) (logs a)\<rparr> else a)"

section \<open>Connect and disconnect\<close>

definition startTUN :: "appEnv \<Rightarrow> TUNConfig \<Rightarrow> appModel \<Rightarrow> string option \<times> appModel" where
  "startTUN env t a =
     (case env_tun env of
        Some e \<Rightarrow> (Some e, a)
      | None \<Rightarrow> (None, appendLog (''tun: up (gateway '' @ tun_Gateway t @ '')'') (a\<lparr>tun := True\<rparr>)))"

definition stopTUN :: "appModel \<Rightarrow> appModel" where
  "stopTUN a = (if tun a then appendLog ''tun: down'' (a\<lparr>tun := False\<rparr>) else a)"

definition connectTUN :: "appEnv \<Rightarrow> ClientProfile \<Rightarrow> appModel \<Rightarrow> appModel" where
  "connectTUN env p a =
     (case p_TUN p of
        Some t \<Rightarrow>
          if tun_Enabled t then (case startTUN env t a of (Some e, a') \<Rightarrow> appendLog (''tun: '' @ e) a' | (None, a') \<Rightarrow> a') else a
      | None \<Rightarrow> a)"

definition connectProxy :: "appEnv \<Rightarrow> ClientProfile \<Rightarrow> appModel \<Rightarrow> appModel" where
  "connectProxy env p a =
     (case p_SystemProxy p of
        Some c \<Rightarrow>
          if spc_Enabled c then
            (case spEnable (env_reg env) (p_LocalSocks p) (spc_Bypass c) (reg a) of
               (Inl e, r) \<Rightarrow> appendLog (''sysproxy: '' @ env_regText env e) (a\<lparr>reg := r\<rparr>)
             | (Inr prev, r) \<Rightarrow> a\<lparr>reg := r, prevSP := prev, spOn := True\<rparr>)
          else a
      | None \<Rightarrow> a)"

definition connect :: "appEnv \<Rightarrow> appModel \<Rightarrow> appModel" where
  "connect env a =
     (if state a = Connected \<or> state a = Connecting then a
      else case Active (store a) of
        None \<Rightarrow> a\<lparr>errMsg := ''no profile configured'', state := AppError\<rparr>
      | Some p \<Rightarrow>
          let e = length (entries a);
              a1 = a\<lparr>cancel := Some UnusedCtx, entries := entries a @ [NewEntryManager], entry := Some e,
                     state := Connecting, errMsg := [], msg := []\<rparr> in
          (case Start (env_startIO env) (core a1) of
             (Some er, m) \<Rightarrow> a1\<lparr>core := m, errMsg := startText er, state := AppError\<rparr>
           | (None, m) \<Rightarrow>
               let a2 = a1\<lparr>core := m, cancel := Some (CtxOf (length (sups m) - 1))\<rparr> in
               (case entryStart (env_listen env) (p_LocalSocks p) (p_LocalHTTP p) (entries a2 ! e) of
                  (Some er, en) \<Rightarrow>
                    a2\<lparr>entries := (entries a2)[e := en], errMsg := entryText er, state := AppError, core := Stop (core a2)\<rparr>
                | (None, en) \<Rightarrow>
                    let a3 = connectProxy env p (connectTUN env p (a2\<lparr>entries := (entries a2)[e := en]\<rparr>)) in
                    appendLog (''connected: '' @ p_Name p @ '' (socks '' @ p_LocalSocks p @ '', http '' @ p_LocalHTTP p @ '')'') (a3\<lparr>state := Connected\<rparr>))))"

definition callCancel :: "appModel \<Rightarrow> appModel" where
  "callCancel a =
     (case cancel a of
        None \<Rightarrow> a
      | Some UnusedCtx \<Rightarrow> a\<lparr>cancel := None\<rparr>
      | Some (CtxOf i) \<Rightarrow> a\<lparr>core := cancelCtx i (core a), cancel := None\<rparr>)"

definition stopEntry :: "appModel \<Rightarrow> appModel" where
  "stopEntry a =
     (case entry a of
        None \<Rightarrow> a
      | Some e \<Rightarrow> a\<lparr>entries := (entries a)[e := entryStop (entries a ! e)], entry := None\<rparr>)"

definition restoreProxy :: "appEnv \<Rightarrow> appModel \<Rightarrow> appModel" where
  "restoreProxy env a =
     (if spOn a then a\<lparr>reg := snd (spRestore (env_reg env) (prevSP a) (reg a)), spOn := False\<rparr> else a)"

definition disconnect :: "appEnv \<Rightarrow> appModel \<Rightarrow> appModel" where
  "disconnect env a =
     (let a1 = callCancel a;
          a2 = a1\<lparr>core := Stop (core a1)\<rparr>;
          a3 = restoreProxy env (stopTUN (stopEntry a2)) in
      a3\<lparr>state := Disconnected\<rparr>)"

section \<open>Messages\<close>

datatype appMsg = WindowSize | Key string | Tick | CoreExit string | CoreLog string

definition importLink :: "appEnv \<Rightarrow> appModel \<Rightarrow> appModel" where
  "importLink env a =
     (if env_linkEmpty env then a
      else case env_parse env of
        Inl e \<Rightarrow> a\<lparr>msg := ''import: '' @ e\<rparr>
      | Inr p \<Rightarrow>
          let s = store a; s1 = s\<lparr>Profiles := Profiles s @ [p]\<rparr>;
              s2 = (if ActiveProfile s1 = [] then s1\<lparr>ActiveProfile := p_Name p\<rparr> else s1);
              a1 = a\<lparr>store := s2\<rparr> in
          (case env_save env of
             Some e \<Rightarrow> a1\<lparr>msg := ''save: '' @ e\<rparr>
           | None \<Rightarrow> a1\<lparr>msg := ''imported: '' @ p_Name p\<rparr>))"

definition copyLink :: "appEnv \<Rightarrow> appModel \<Rightarrow> appModel" where
  "copyLink env a =
     (case Active (store a) of
        None \<Rightarrow> a\<lparr>msg := ''no profile''\<rparr>
      | Some p \<Rightarrow>
          (case env_build env of
             Some e \<Rightarrow> a\<lparr>msg := ''build link: '' @ e\<rparr>
           | None \<Rightarrow>
               (case env_clipboard env of
                  Some e \<Rightarrow> a\<lparr>msg := ''clipboard: '' @ e\<rparr>
                | None \<Rightarrow> a\<lparr>msg := ''share link copied''\<rparr>)))"

text \<open>The key \<^verbatim>\<open>enter\<close> on the profile tab; the read of the slice is a checked one.\<close>

definition activate :: "appEnv \<Rightarrow> appModel \<Rightarrow> appModel res" where
  "activate env a =
     (let ps = Profiles (store a) in
      if tab a = 1 \<and> 0 < length ps then
        bindR (if cursor a < 0 then Inl IndexOutOfRange else index ps (nat (cursor a))) (\<lambda>p.
          let a1 = a\<lparr>store := (store a)\<lparr>ActiveProfile := p_Name p\<rparr>\<rparr> in
          Inr (case env_save env of
                 Some e \<Rightarrow> a1\<lparr>msg := ''save: '' @ e\<rparr>
               | None \<Rightarrow> a1\<lparr>msg := ''activated: '' @ p_Name p\<rparr>))
      else Inr a)"

definition handleKey :: "appEnv \<Rightarrow> string \<Rightarrow> appModel \<Rightarrow> appModel res" where
  "handleKey env k a =
     (if editing a then
        (if k = ''enter'' then Inr ((importLink env a)\<lparr>editing := False\<rparr>)
         else if k = ''esc'' then Inr (a\<lparr>editing := False\<rparr>)
         else Inr a)
      else if k = ''ctrl+c'' \<or> k = ''q'' then Inr (disconnect env a)
      else if k = ''tab'' then Inr (a\<lparr>tab := (tab a + 1) smod 3\<rparr>)
      else if k = ''c'' then Inr (connect env a)
      else if k = ''d'' then Inr (disconnect env a)
      else if k = ''a'' then Inr (if tab a = 1 then a\<lparr>editing := True\<rparr> else a)
      else if k = ''x'' then Inr (copyLink env a)
      else if k = ''up'' \<or> k = ''k'' then Inr (if tab a = 1 \<and> 0 < cursor a then a\<lparr>cursor := cursor a - 1\<rparr> else a)
      else if k = ''down'' \<or> k = ''j'' then
        Inr (if tab a = 1 \<and> cursor a < int (length (Profiles (store a))) - 1 then a\<lparr>cursor := cursor a + 1\<rparr> else a)
      else if k = ''enter'' then activate env a
      else Inr a)"

definition Update :: "appEnv \<Rightarrow> appMsg \<Rightarrow> appModel \<Rightarrow> appModel res" where
  "Update env m a =
     (case m of
        WindowSize \<Rightarrow> Inr a
      | Tick \<Rightarrow> Inr a
      | Key k \<Rightarrow> handleKey env k a
      | CoreExit s \<Rightarrow>
          Inr (if s \<noteq> [] then
                 trimLogs (appendLog (''core exited: '' @ s @ '' (restarting)'')
                   (if state a = Connected \<or> state a = Connecting then a\<lparr>state := Reconnecting\<rparr> else a))
               else a)
      | CoreLog s \<Rightarrow> Inr (if s \<noteq> [] then trimLogs (appendLog s a) else a))"

definition newModel :: "storeFile \<Rightarrow> registry \<Rightarrow> appModel" where
  "newModel f r =
     (let a = \<lparr>store = emptyStore, core = NewManager, entries = [], entry = None, tun = False, cancel = None,
               state = Disconnected, errMsg = [], tab = 0, logs = [], cursor = 0, editing = False,
               prevSP = zeroState, spOn = False, msg = [], reg = r\<rparr> in
      case loadStore f of
        Inl e \<Rightarrow> a\<lparr>state := AppError, errMsg := ''load config: '' @ e\<rparr>
      | Inr s \<Rightarrow> a\<lparr>store := s\<rparr>)"

section \<open>Runs\<close>

text \<open>
  Messages interleaved with the steps of the core manager and of the entry managers.  With the flag set, the user
  does not press \<^verbatim>\<open>c\<close> while the client shows that it is reconnecting.
\<close>

inductive app_reached :: "bool \<Rightarrow> appModel \<Rightarrow> bool" for careful where
  new: "app_reached careful (newModel f r)"
| message: "app_reached careful a \<Longrightarrow> Update env m a = Inr a' \<Longrightarrow>
    (careful \<longrightarrow> m = Key ''c'' \<longrightarrow> state a \<noteq> Reconnecting) \<Longrightarrow> app_reached careful a'"
| coreStep: "app_reached careful a \<Longrightarrow> core_step (core a) m \<Longrightarrow> app_reached careful (a\<lparr>core := m\<rparr>)"
| entryStep: "app_reached careful a \<Longrightarrow> e < length (entries a) \<Longrightarrow> entry_step (entries a ! e) en \<Longrightarrow>
    app_reached careful (a\<lparr>entries := (entries a)[e := en]\<rparr>)"

section \<open>Invariant\<close>

text \<open>Which fields the parts of a connect and a disconnect leave alone.\<close>

lemma connect_parts [simp]:
  "core (connectProxy env p (connectTUN env p a)) = core a" "entries (connectProxy env p (connectTUN env p a)) = entries a"
  "entry (connectProxy env p (connectTUN env p a)) = entry a" "cancel (connectProxy env p (connectTUN env p a)) = cancel a"
  "store (connectProxy env p (connectTUN env p a)) = store a" "cursor (connectProxy env p (connectTUN env p a)) = cursor a"
  by (simp_all add: connectProxy_def connectTUN_def startTUN_def appendLog_def split: option.splits sum.splits prod.splits)

lemma disconnect_parts [simp]:
  "core (restoreProxy env (stopTUN a)) = core a" "entries (restoreProxy env (stopTUN a)) = entries a"
  "entry (restoreProxy env (stopTUN a)) = entry a" "cancel (restoreProxy env (stopTUN a)) = cancel a"
  "store (restoreProxy env (stopTUN a)) = store a" "cursor (restoreProxy env (stopTUN a)) = cursor a"
  by (simp_all add: restoreProxy_def stopTUN_def appendLog_def)

lemma log_parts [simp]:
  "core (trimLogs a) = core a" "entries (trimLogs a) = entries a" "entry (trimLogs a) = entry a" "cancel (trimLogs a) = cancel a"
  "store (trimLogs a) = store a" "cursor (trimLogs a) = cursor a" "state (trimLogs a) = state a"
  "core (appendLog l a) = core a" "entries (appendLog l a) = entries a" "entry (appendLog l a) = entry a"
  "cancel (appendLog l a) = cancel a" "store (appendLog l a) = store a" "cursor (appendLog l a) = cursor a"
  "state (appendLog l a) = state a"
  by (simp_all add: trimLogs_def appendLog_def)

text \<open>
  What holds in every run: the managers are in states of their own runs, the context that can be cancelled
  belongs to a supervisor, and the cursor is inside the list of profiles.
\<close>

definition app_ok :: "appModel \<Rightarrow> bool" where
  "app_ok a \<longleftrightarrow> (\<exists>n. reached n (core a)) \<and> (\<forall>e < length (entries a). entry_reached (entries a ! e)) \<and>
     (\<forall>e. entry a = Some e \<longrightarrow> e < length (entries a)) \<and>
     (\<forall>i. cancel a = Some (CtxOf i) \<longrightarrow> i < length (sups (core a))) \<and>
     0 \<le> cursor a \<and> (cursor a = 0 \<or> cursor a < int (length (Profiles (store a))))"

lemma app_okI:
  assumes "app_ok a" "core a' = core a" "entries a' = entries a" "entry a' = entry a" "cancel a' = cancel a"
    "cursor a' = cursor a" "length (Profiles (store a)) \<le> length (Profiles (store a'))"
  shows "app_ok a'"
  using assms by (auto simp: app_ok_def)

lemma entry_reached_update:
  assumes "\<forall>e < length es. entry_reached (es ! e)" "entry_reached en"
  shows "\<forall>e < length (es[i := en]). entry_reached (es[i := en] ! e)"
  using assms by (metis length_list_update nth_list_update_eq nth_list_update_neq)

text \<open>The outcomes of \<^verbatim>\<open>connect\<close>.\<close>

lemma connect_cases:
  obtains (busy) "state a = Connected \<or> state a = Connecting" "connect env a = a"
  | (noProfile) "connect env a = a\<lparr>errMsg := ''no profile configured'', state := AppError\<rparr>" "Active (store a) = None"
      "\<not> (state a = Connected \<or> state a = Connecting)"
  | (coreFailed) "state (connect env a) = AppError" "entries (connect env a) = entries a @ [NewEntryManager]"
      "entry (connect env a) = Some (length (entries a))" "cancel (connect env a) = Some UnusedCtx" "core (connect env a) = core a"
      "store (connect env a) = store a" "cursor (connect env a) = cursor a"
      "\<not> (state a = Connected \<or> state a = Connecting)" "running (core a) \<or> env_startIO env \<noteq> None"
  | (entryFailed) p m er en where "Active (store a) = Some p" "Start (env_startIO env) (core a) = (None, m)"
      "entryStart (env_listen env) (p_LocalSocks p) (p_LocalHTTP p) NewEntryManager = (Some er, en)"
      "state (connect env a) = AppError" "entries (connect env a) = entries a @ [en]"
      "entry (connect env a) = Some (length (entries a))" "cancel (connect env a) = Some (CtxOf (length (sups m) - 1))"
      "core (connect env a) = Stop m" "store (connect env a) = store a" "cursor (connect env a) = cursor a"
      "\<not> (state a = Connected \<or> state a = Connecting)"
  | (connected) p m en where "Active (store a) = Some p" "Start (env_startIO env) (core a) = (None, m)"
      "entryStart (env_listen env) (p_LocalSocks p) (p_LocalHTTP p) NewEntryManager = (None, en)"
      "state (connect env a) = Connected" "entries (connect env a) = entries a @ [en]"
      "entry (connect env a) = Some (length (entries a))" "cancel (connect env a) = Some (CtxOf (length (sups m) - 1))"
      "core (connect env a) = m" "store (connect env a) = store a" "cursor (connect env a) = cursor a"
      "\<not> (state a = Connected \<or> state a = Connecting)"
proof (cases "state a = Connected \<or> state a = Connecting")
  case True
  then show ?thesis by (intro busy) (auto simp: connect_def)
next
  case idle: False
  show ?thesis
  proof (cases "Active (store a)")
    case None
    then show ?thesis using idle by (intro noProfile) (auto simp: connect_def)
  next
    case p: (Some p)
    obtain er m where st: "Start (env_startIO env) (core a) = (er, m)" by (cases "Start (env_startIO env) (core a)")
    obtain ef en where es: "entryStart (env_listen env) (p_LocalSocks p) (p_LocalHTTP p) NewEntryManager = (ef, en)"
      by (cases "entryStart (env_listen env) (p_LocalSocks p) (p_LocalHTTP p) NewEntryManager")
    show ?thesis
    proof (cases er)
      case (Some e)
      then show ?thesis using idle p st Start_cases [OF st] by (intro coreFailed) (auto simp: connect_def Let_def)
    next
      case None
      show ?thesis
      proof (cases ef)
        case (Some e)
        then show ?thesis using idle p st es None by (intro entryFailed [of p m e en]) (simp_all add: connect_def Let_def)
      next
        case n: None
        then show ?thesis using idle p st es None by (intro connected [of p m en]) (simp_all add: connect_def Let_def)
      qed
    qed
  qed
qed

lemma entry_reached_snoc:
  "\<forall>e < length es. entry_reached (es ! e) \<Longrightarrow> entry_reached en \<Longrightarrow> \<forall>e < length (es @ [en]). entry_reached ((es @ [en]) ! e)"
  by (auto simp: nth_append less_Suc_eq)

lemma connect_ok:
  assumes "app_ok a"
  shows "app_ok (connect env a)"
proof (cases rule: connect_cases [of a env])
  case noProfile
  then show ?thesis using assms by (auto intro: app_okI)
next
  case coreFailed
  then show ?thesis using assms entry_reached_snoc [OF _ entry_reached.new] by (simp add: app_ok_def)
next
  case (entryFailed p m er en)
  obtain n where "reached n (core a)" using assms by (auto simp: app_ok_def)
  then have "\<exists>n. reached n (Stop m)" using start_reached [OF _ entryFailed(2)] reached.stop by blast
  moreover have "0 < length (sups m)" using Start_cases [OF entryFailed(2)] by simp
  ultimately show ?thesis
    using assms entryFailed entry_reached_snoc [OF _ entry_reached.start [OF entry_reached.new entryFailed(3)]]
    by (simp add: app_ok_def)
next
  case (connected p m en)
  obtain n where "reached n (core a)" using assms by (auto simp: app_ok_def)
  then have "\<exists>n. reached n m" using start_reached [OF _ connected(2)] by blast
  moreover have "0 < length (sups m)" using Start_cases [OF connected(2)] by simp
  ultimately show ?thesis
    using assms connected entry_reached_snoc [OF _ entry_reached.start [OF entry_reached.new connected(3)]]
    by (simp add: app_ok_def)
qed (use assms in simp)

lemma disconnect_fields:
  "state (disconnect env a) = Disconnected" "entry (disconnect env a) = None" "cancel (disconnect env a) = None"
  "store (disconnect env a) = store a" "cursor (disconnect env a) = cursor a" "spOn (disconnect env a) = False" "tun (disconnect env a) = False"
  "core (disconnect env a) = Stop (case cancel a of Some (CtxOf i) \<Rightarrow> cancelCtx i (core a) | _ \<Rightarrow> core a)"
  "entries (disconnect env a) =
     (case entry a of Some e \<Rightarrow> (entries a)[e := entryStop (entries a ! e)] | None \<Rightarrow> entries a)"
  by (simp_all add: disconnect_def callCancel_def stopEntry_def Let_def restoreProxy_def stopTUN_def appendLog_def
      split: option.splits cancelFunc.splits)

lemma disconnect_ok:
  assumes "app_ok a"
  shows "app_ok (disconnect env a)"
proof -
  obtain n where n: "reached n (core a)" using assms by (auto simp: app_ok_def)
  have "\<exists>n. reached n (core (disconnect env a))"
    unfolding disconnect_fields using assms n reached.stop reached.cancel [OF n]
    by (fastforce simp: app_ok_def split: option.splits cancelFunc.splits)
  moreover have "\<forall>e < length (entries (disconnect env a)). entry_reached (entries (disconnect env a) ! e)"
    using assms entry_reached_update entry_reached.stop
    by (auto simp: disconnect_fields app_ok_def split: option.splits)
  ultimately show ?thesis using assms by (simp add: app_ok_def disconnect_fields)
qed

lemma importLink_ok: "app_ok a \<Longrightarrow> app_ok ((importLink env a)\<lparr>editing := False\<rparr>)"
  by (rule app_okI [of a]) (auto simp: importLink_def Let_def split: sum.splits option.splits)

lemma copyLink_ok: "app_ok a \<Longrightarrow> app_ok (copyLink env a)"
  by (rule app_okI [of a]) (auto simp: copyLink_def split: option.splits)

text \<open>The read of the profile under the cursor is never out of range.\<close>

lemma activate_ok:
  assumes "app_ok a"
  shows "\<exists>a'. activate env a = Inr a' \<and> app_ok a'"
proof (cases "tab a = 1 \<and> 0 < length (Profiles (store a))")
  case True
  then have c: "0 \<le> cursor a" "nat (cursor a) < length (Profiles (store a))" using assms by (auto simp: app_ok_def)
  then have "\<exists>a'. activate env a = Inr a' \<and> core a' = core a \<and> entries a' = entries a \<and> entry a' = entry a \<and> cancel a' = cancel a \<and>
     cursor a' = cursor a \<and> Profiles (store a') = Profiles (store a)"
    using True by (cases "env_save env") (auto simp: activate_def Let_def)
  then show ?thesis using app_okI [OF assms] by fastforce
next
  case False
  then have "activate env a = Inr a" by (auto simp: activate_def Let_def)
  then show ?thesis using assms by simp
qed

lemma cursor_ok:
  assumes "app_ok a"
  shows "0 < cursor a \<Longrightarrow> app_ok (a\<lparr>cursor := cursor a - 1\<rparr>)"
    "cursor a < int (length (Profiles (store a))) - 1 \<Longrightarrow> app_ok (a\<lparr>cursor := cursor a + 1\<rparr>)"
  using assms by (auto simp: app_ok_def)

lemma app_ok_other [simp]:
  "app_ok (a\<lparr>tab := t\<rparr>) = app_ok a" "app_ok (a\<lparr>editing := b\<rparr>) = app_ok a" "app_ok (a\<lparr>state := s\<rparr>) = app_ok a"
  "app_ok (appendLog l a) = app_ok a" "app_ok (trimLogs a) = app_ok a"
  by (simp_all add: app_ok_def)

lemma handleKey_ok:
  assumes "app_ok a"
  shows "\<exists>a'. handleKey env k a = Inr a' \<and> app_ok a'"
  using assms activate_ok [OF assms] cursor_ok [OF assms]
  by (simp add: handleKey_def connect_ok disconnect_ok importLink_ok [simplified] copyLink_ok)

lemma Update_ok:
  assumes "app_ok a"
  shows "\<exists>a'. Update env m a = Inr a' \<and> app_ok a'"
  using assms handleKey_ok [OF assms] by (cases m) (simp_all add: Update_def)

lemma app_reached_ok: "app_reached careful a \<Longrightarrow> app_ok a"
proof (induction rule: app_reached.induct)
  case (new f r)
  show ?case using reached.new by (auto simp: app_ok_def newModel_def Let_def split: sum.splits)
next
  case (message a env m a')
  then show ?case using Update_ok [of a env m] by auto
next
  case (coreStep a m)
  then show ?case using core_step_sups reached.step by (fastforce simp: app_ok_def)
next
  case (entryStep a e en)
  then show ?case using entry_reached_update [OF _ entry_reached.step [OF _ entryStep(3)]] by (simp add: app_ok_def)
qed

text \<open>
  In a careful run, only the entry manager the client points to has open listeners, and none has while
  the client is disconnected or in error.
\<close>

definition listening :: "appModel \<Rightarrow> nat \<Rightarrow> bool" where
  "listening a e \<longleftrightarrow> e < length (entries a) \<and> openListeners (entries a ! e) \<noteq> {}"

definition tidy :: "appModel \<Rightarrow> bool" where
  "tidy a \<longleftrightarrow> (\<forall>e. listening a e \<longrightarrow> entry a = Some e \<and> state a \<notin> {Disconnected, AppError})"

lemma tidyI: "tidy a \<Longrightarrow> entries a' = entries a \<Longrightarrow> entry a' = entry a \<Longrightarrow>
    (state a' \<in> {Disconnected, AppError} \<longrightarrow> state a \<in> {Disconnected, AppError}) \<Longrightarrow> tidy a'"
  by (auto simp: tidy_def listening_def)

lemma listening_snoc:
  "entries a' = entries a @ [en] \<Longrightarrow> listening a' e \<longleftrightarrow> listening a e \<or> (e = length (entries a) \<and> openListeners en \<noteq> {})"
  by (auto simp: listening_def nth_append less_Suc_eq)

lemma failed_start_closed:
  "entryStart listen s h NewEntryManager = (Some er, en) \<Longrightarrow> openListeners en = {}"
  using entryStart_spec [OF entry_reached_inv [OF entry_reached.new], of listen s h "Some er" en] by (simp add: NewEntryManager_def)

lemma connect_tidy:
  assumes "tidy a" "state a \<noteq> Reconnecting"
  shows "tidy (connect env a)"
proof (cases rule: connect_cases [of a env])
  case busy
  then show ?thesis using assms by simp
next
  case noProfile
  then show ?thesis using assms by (cases "state a") (auto intro: tidyI)
next
  case coreFailed
  then show ?thesis using assms by (cases "state a") (auto simp: tidy_def listening_snoc [OF coreFailed(2)] NewEntryManager_def)
next
  case (entryFailed p m er en)
  then show ?thesis using assms failed_start_closed [OF entryFailed(3)]
    by (cases "state a") (auto simp: tidy_def listening_snoc [OF entryFailed(5)])
next
  case (connected p m en)
  then show ?thesis using assms by (cases "state a") (auto simp: tidy_def listening_snoc [OF connected(5)])
qed

lemma stopped_closed: "entry_reached m \<Longrightarrow> openListeners (entryStop m) = {}"
  using entry_reached_inv by (auto simp: entry_inv_def entryStop_def)

lemma disconnect_tidy:
  assumes "app_ok a" "tidy a"
  shows "\<not> listening (disconnect env a) e"
proof
  assume l: "listening (disconnect env a) e"
  show False
  proof (cases "entry a")
    case None
    then show False using l assms(2) by (auto simp: tidy_def listening_def disconnect_fields)
  next
    case (Some d)
    have "entry_reached (entries a ! d)" using assms(1) Some by (auto simp: app_ok_def)
    then show False using l Some assms(2) stopped_closed [of "entries a ! d"]
      by (cases "e = d") (auto simp: tidy_def listening_def disconnect_fields)
  qed
qed

text \<open>What a key can do.\<close>

lemma if_eqE: "(if c then x else y) = z \<Longrightarrow> (c \<Longrightarrow> x = z \<Longrightarrow> R) \<Longrightarrow> (\<not> c \<Longrightarrow> y = z \<Longrightarrow> R) \<Longrightarrow> R"
  by (cases c) auto

lemma handleKey_rule:
  assumes "handleKey env k a = Inr a'" "P a" "P ((importLink env a)\<lparr>editing := False\<rparr>)" "\<And>b. P (a\<lparr>editing := b\<rparr>)"
    "P (disconnect env a)" "\<And>t. P (a\<lparr>tab := t\<rparr>)" "k = ''c'' \<Longrightarrow> P (connect env a)" "P (copyLink env a)"
    "\<And>c. P (a\<lparr>cursor := c\<rparr>)" "\<And>x. activate env a = Inr x \<Longrightarrow> P x"
  shows "P a'"
proof -
  have inj: "Inr x = (Inr a' :: appModel res) \<Longrightarrow> P x \<Longrightarrow> P a'" for x by simp
  have two: "P x \<Longrightarrow> P y \<Longrightarrow> P (if c then x else y)" for c x y by simp
  show ?thesis
    using assms(1) unfolding handleKey_def
    by (elim if_eqE)
      (erule inj, rule assms(3) | erule inj, rule assms(4) | erule inj, rule assms(2) | erule inj, rule assms(5) | erule inj, rule assms(6) |
       erule inj, rule assms(7), assumption | erule inj, rule assms(8) | erule inj, rule two, rule assms(4), rule assms(2) |
       erule inj, rule two, rule assms(9), rule assms(2) | erule assms(10))+
qed

lemma activate_fields:
  "activate env a = Inr x \<Longrightarrow> entries x = entries a \<and> entry x = entry a \<and> state x = state a"
  by (cases "cursor a < 0"; cases "nat (cursor a) < length (Profiles (store a))"; cases "env_save env")
    (simp_all add: activate_def Let_def index_def split: if_split_asm, auto)

lemma handleKey_tidy:
  assumes "app_ok a" "tidy a" "k = ''c'' \<longrightarrow> state a \<noteq> Reconnecting" "handleKey env k a = Inr a'"
  shows "tidy a'"
proof -
  have d: "tidy (disconnect env a)" using disconnect_tidy [OF assms(1,2)] by (auto simp: tidy_def)
  have i: "tidy ((importLink env a)\<lparr>editing := False\<rparr>)"
    by (rule tidyI [OF assms(2)]) (auto simp: importLink_def Let_def split: sum.splits option.splits)
  have x: "tidy (copyLink env a)"
    by (rule tidyI [OF assms(2)]) (auto simp: copyLink_def split: option.splits)
  have e: "tidy a1" if "activate env a = Inr a1" for a1
    using activate_fields [OF that] by (intro tidyI [OF assms(2)]) simp_all
  have o: "tidy (a\<lparr>tab := t\<rparr>)" "tidy (a\<lparr>editing := b\<rparr>)" "tidy (a\<lparr>cursor := c\<rparr>)" for t b c
    using assms(2) by (simp_all add: tidy_def listening_def)
  show ?thesis
    using assms(2,3) d i x e o connect_tidy [OF assms(2)] by (intro handleKey_rule [OF assms(4), of tidy]) simp_all
qed

lemma app_reached_tidy: "app_reached True a \<Longrightarrow> tidy a"
proof (induction rule: app_reached.induct)
  case (new f r)
  show ?case by (simp add: tidy_def listening_def newModel_def Let_def split: sum.splits)
next
  case (message a env m a')
  have ok: "app_ok a" using app_reached_ok [OF message(1)] .
  show ?case
  proof (cases m)
    case (Key k)
    then show ?thesis using message handleKey_tidy [OF ok message.IH, of k env a'] by (simp add: Update_def)
  qed (use message in \<open>auto simp: Update_def split: if_splits intro: tidyI\<close>)
next
  case (coreStep a m)
  then show ?case by (auto intro: tidyI)
next
  case (entryStep a e en)
  have "openListeners en = openListeners (entries a ! e)"
    using entryStep(3) by (induction rule: entry_step.induct) (simp_all add: acceptConn_def registerConn_def handlerDone_def)
  then have "listening (a\<lparr>entries := (entries a)[e := en]\<rparr>) d = listening a d" for d
    by (cases "d = e") (auto simp: listening_def)
  then show ?case using entryStep.IH by (simp add: tidy_def)
qed

section \<open>Properties\<close>


text \<open>A run: connect with one profile, on a system where everything works.\<close>

definition exampleEnv :: appEnv where
  "exampleEnv =
     \<lparr>env_listen = (\<lambda>_. None), env_startIO = None, env_tun = None, env_reg = noFail, env_regText = (\<lambda>_. ''denied''), env_save = None,
      env_parse = Inl ''no link'', env_linkEmpty = True, env_build = None, env_clipboard = None\<rparr>"

definition exampleApp :: appModel where
  "exampleApp = newModel (Decoded exampleStore) exampleRegistry"

lemma exampleApp_facts:
  "state exampleApp = Disconnected" "core exampleApp = NewManager" "entries exampleApp = []" "editing exampleApp = False"
  "Active (store exampleApp) = Some (defaultProfile exampleProfile)"
  by (simp_all add: exampleApp_def newModel_def Let_def loadStore_def applyDefaults_def exampleStore_def emptyStore_def Active_def
      activeIndex_def exampleProfile_def defaultProfile_def)

lemma keys:
  "\<not> editing a \<Longrightarrow> Update env (Key ''c'') a = Inr (connect env a)"
  "\<not> editing a \<Longrightarrow> Update env (Key ''d'') a = Inr (disconnect env a)"
  by (simp_all add: Update_def handleKey_def)

lemma editing_connect [simp]: "editing (connect env a) = editing a"
  by (simp add: connect_def connectProxy_def connectTUN_def startTUN_def appendLog_def Let_def split: option.splits sum.splits prod.splits)

lemma exampleConnected:
  "state (connect exampleEnv exampleApp) = Connected" "running (core (connect exampleEnv exampleApp))"
  "listening (connect exampleEnv exampleApp) 0" "entries (connect exampleEnv exampleApp) \<noteq> []"
  "app_reached careful (connect exampleEnv exampleApp)" "store (connect exampleEnv exampleApp) = store exampleApp"
proof -
  let ?p = "defaultProfile exampleProfile" and ?a = "connect exampleEnv exampleApp"
  have p: "p_LocalSocks ?p = ''127.0.0.1:1080''" "p_LocalHTTP ?p = ''127.0.0.1:8080''"
    by (simp_all add: defaultProfile_def exampleProfile_def orElse_def)
  obtain m where m: "Start None NewManager = (None, m)" "running m" using exampleStart by auto
  note es = exampleEntry_started
  have a: "state ?a = Connected" "core ?a = m"
    "entries ?a = [adopt [(0, SocksEntry), (1, HttpEntry)] (NewEntryManager\<lparr>openListeners := {0, 1}, nextSock := 2\<rparr>)]"
    using m es by (simp_all add: connect_def exampleApp_facts exampleEnv_def p Let_def)
  show "state ?a = Connected" "running (core ?a)" "entries ?a \<noteq> []" using a m by simp_all
  show "store ?a = store exampleApp" by (cases rule: connect_cases [of exampleApp exampleEnv]) simp_all
  show "listening ?a 0" by (simp add: listening_def a adopt_def)
  have "app_reached careful exampleApp" unfolding exampleApp_def by (rule app_reached.new)
  then show "app_reached careful ?a"
    by (rule app_reached.message [OF _ keys(1)]) (simp_all add: exampleApp_facts)
qed


text \<open>
  The restriction is needed: if the core exits, the client shows that it is reconnecting, and pressing
  \<^verbatim>\<open>c\<close> then replaces the entry manager before the start of the core is refused.  After the
  disconnect that follows, the listeners of the first one are still open, and nothing in the client
  refers to them any more.
\<close>

theorem reconnect_leaks_listeners:
  "\<exists>a. app_reached False a \<and> state a = Disconnected \<and> entry a = None \<and> \<not> running (core a) \<and> listening a 0"
proof -
  let ?a1 = "connect exampleEnv exampleApp"
  define a2 where "a2 = trimLogs (appendLog ''core exited: exit status 1 (restarting)'' (?a1\<lparr>state := Reconnecting\<rparr>))"
  have ed: "editing ?a1 = False" by (simp add: exampleApp_facts)
  have u2: "Update exampleEnv (CoreExit ''exit status 1'') ?a1 = Inr a2"
    using exampleConnected(1) by (simp add: Update_def a2_def)
  have r2: "app_reached False a2" by (rule app_reached.message [OF exampleConnected(5) u2]) simp
  have f2: "state a2 = Reconnecting" "core a2 = core ?a1" "entries a2 = entries ?a1" "store a2 = store ?a1" "editing a2 = False"
    using ed by (simp_all add: a2_def trimLogs_def appendLog_def)
  let ?a3 = "connect exampleEnv a2"
  have r3: "app_reached False ?a3" by (rule app_reached.message [OF r2 keys(1)]) (simp_all add: f2)
  have act: "Active (store a2) = Some (defaultProfile exampleProfile)"
    using exampleApp_facts(5) exampleConnected(6) f2(4) by simp
  have "Start None (core a2) = (Some AlreadyRunning, core a2)"
    using exampleConnected(2) f2(2) by (simp add: Start_def startCheck_def)
  then have f3: "entries ?a3 = entries ?a1 @ [NewEntryManager]" "entry ?a3 = Some (length (entries ?a1))" "editing ?a3 = False"
    using act f2 by (simp_all add: connect_def Let_def exampleEnv_def)
  let ?a4 = "disconnect exampleEnv ?a3"
  have "app_reached False ?a4" by (rule app_reached.message [OF r3 keys(2)]) (simp_all add: f2)
  moreover have "listening ?a4 0"
    using exampleConnected(3,4) by (simp add: listening_def disconnect_fields f3 nth_append)
  ultimately show ?thesis by (intro exI [of _ ?a4]) (simp add: disconnect_fields Stop_def)
qed

text \<open>
  (C40) No message makes the client panic: in every reachable state every message is handled, the read of the profile under the
  cursor included.
\<close>

theorem update_never_panics:
  assumes "app_reached careful a"
  shows "safe (Update env m a)"
  using Update_ok [OF app_reached_ok [OF assms], of env m] by (auto simp: safe_def)

theorem update_never_panics_witness: "safe (Update exampleEnv (Key ''enter'') (connect exampleEnv exampleApp))"
  by (rule update_never_panics [OF exampleConnected(5)])

end
