(* ===== verification/HttpRelay.thy ===== *)
theory HttpRelay
  imports GoStrings "HOL-Library.Multiset"
begin

text \<open>
  \<^verbatim>\<open>frontend/relay.go\<close>: the relay of CONNECT requests to the naive server, over HTTP/2 and HTTP/1.1.  A
  header is the list of its names with their values in the order in which Go's map iteration visits
  them, which the code does not depend on.  The connection to the server is a parameter: whether
  dialling and writing succeed and what response is read.  The copying of the tunnel itself is not part of
  the model; a handler returns whether it gets there.
\<close>

type_synonym header = "(string \<times> string list) list"

section \<open>Headers\<close>

definition crlf :: string where "crlf = [CHR 0x0D, CHR 0x0A]"

definition hopByHop :: "string list" where
  "hopByHop = [''connection'', ''proxy-connection'', ''keep-alive'', ''transfer-encoding'', ''te'', ''trailer'', ''upgrade'']"

definition isHopByHop :: "string \<Rightarrow> bool" where
  "isHopByHop name \<longleftrightarrow> name \<in> set hopByHop"

definition headerLine :: "string \<Rightarrow> string \<Rightarrow> string" where
  "headerLine n v = n @ '': '' @ v @ crlf"

definition buildH1Connect :: "string \<Rightarrow> header \<Rightarrow> string" where
  "buildH1Connect authority h =
     ''CONNECT '' @ authority @ '' HTTP/1.1'' @ crlf @ ''Host: '' @ authority @ crlf @
     concat (map (\<lambda>(name, vals). let n = ToLower name in
        if isHopByHop n then [] else concat (map (headerLine n) vals)) h) @ crlf"

text \<open>
  \<^verbatim>\<open>Header.Add\<close> and the canonical form of a key: a capital at the start and behind every hyphen, if all
  characters may occur in a header name.
\<close>

definition tokenChar :: "char \<Rightarrow> bool" where
  "tokenChar c \<longleftrightarrow> (let n = (of_char c :: nat) in
     48 \<le> n \<and> n \<le> 57 \<or> 65 \<le> n \<and> n \<le> 90 \<or> 97 \<le> n \<and> n \<le> 122 \<or> c \<in> set ''!#$%&*+-.^_`|~'' \<or> n = 39)"

definition upperByte :: "char \<Rightarrow> char" where
  "upperByte c = (if 97 \<le> (of_char c :: nat) \<and> (of_char c :: nat) \<le> 122 then char_of (of_char c - 32 :: nat) else c)"

fun canonFrom :: "bool \<Rightarrow> string \<Rightarrow> string" where
  "canonFrom upper [] = []"
| "canonFrom upper (c # s) =
     (let d = (if upper then upperByte c else lowerByte c) in d # canonFrom (d = CHR ''-'') s)"

definition canonicalKey :: "string \<Rightarrow> string" where
  "canonicalKey s = (if list_all tokenChar s then canonFrom True s else s)"

fun addValue :: "string \<Rightarrow> string \<Rightarrow> header \<Rightarrow> header" where
  "addValue k v [] = [(k, [v])]"
| "addValue k v ((k', vs) # h) = (if k' = k then (k', vs @ [v]) # h else (k', vs) # addValue k v h)"

definition headerAdd :: "string \<Rightarrow> string \<Rightarrow> header \<Rightarrow> header" where
  "headerAdd n v dst = addValue (canonicalKey n) v dst"

definition copyResponseHeaders :: "header \<Rightarrow> header \<Rightarrow> header" where
  "copyResponseHeaders dst src =
     foldl (\<lambda>dst (name, vals). let n = ToLower name in
        if isHopByHop n \<or> n = ''content-length'' then dst else foldl (\<lambda>d v. headerAdd n v d) dst vals) dst src"

section \<open>The handlers\<close>

record httpRequest =
  rq_Method :: string
  rq_Host :: string
  rq_Header :: header

record upstreamResponse =
  rs_Proto :: string
  rs_Status :: string
  rs_StatusCode :: int
  rs_Header :: header

text \<open>
  The connection to the upstream server: whether it can be dialled and written to, and the response
  or the failure of reading one.
\<close>

record upstream =
  up_dial :: bool
  up_write :: bool
  up_response :: "upstreamResponse option"

text \<open>
  The counters of \<^verbatim>\<open>status.go\<close>, atomic 64-bit integers.
\<close>

record Stats =
  totalConns :: int
  authed :: int
  relays :: int
  tunnels :: int
  active :: int

definition IncTotalConns :: "Stats \<Rightarrow> Stats" where "IncTotalConns s = s\<lparr>totalConns := i64 (totalConns s + 1)\<rparr>"
definition IncAuthed :: "Stats \<Rightarrow> Stats" where "IncAuthed s = s\<lparr>authed := i64 (authed s + 1)\<rparr>"
definition IncRelays :: "Stats \<Rightarrow> Stats" where "IncRelays s = s\<lparr>relays := i64 (relays s + 1)\<rparr>"
definition IncTunnels :: "Stats \<Rightarrow> Stats" where "IncTunnels s = s\<lparr>tunnels := i64 (tunnels s + 1)\<rparr>"
definition AddActive :: "int \<Rightarrow> Stats \<Rightarrow> Stats" where "AddActive n s = s\<lparr>active := i64 (active s + n)\<rparr>"

text \<open>What a handler has sent: the code given to \<^verbatim>\<open>WriteHeader\<close> and the headers, whether a page follows, the request
  sent upstream, and whether it goes on to copy the tunnel.\<close>

record relayResult =
  res_Status :: int
  res_Header :: header
  res_Page :: bool
  res_Upstream :: "string option"
  res_Tunnel :: bool

text \<open>\<^verbatim>\<open>WriteHeader\<close> panics on a code that does not have three digits.\<close>

definition validCode :: "int \<Rightarrow> bool" where
  "validCode code \<longleftrightarrow> 100 \<le> code \<and> code \<le> 999"

definition success :: "int \<Rightarrow> bool" where
  "success code \<longleftrightarrow> 200 \<le> code \<and> code < 300"

definition plainStatus :: "int \<Rightarrow> string option \<Rightarrow> relayResult" where
  "plainStatus code sent = \<lparr>res_Status = code, res_Header = [], res_Page = False, res_Upstream = sent, res_Tunnel = False\<rparr>"

definition notFoundPage :: relayResult where
  "notFoundPage = \<lparr>res_Status = 404, res_Header = [(''Content-Type'', [''text/html; charset=utf-8''])], res_Page = True,
     res_Upstream = None, res_Tunnel = False\<rparr>"

definition handleRequest :: "upstream \<Rightarrow> httpRequest \<Rightarrow> Stats \<Rightarrow> (relayResult \<times> Stats) res" where
  "handleRequest up r st =
     (if rq_Method r \<noteq> ''CONNECT'' then Inr (notFoundPage, st)
      else if \<not> up_dial up then Inr (plainStatus 502 None, st)
      else if \<not> up_write up then Inr (plainStatus 502 None, st)
      else let sent = Some (buildH1Connect (rq_Host r) (rq_Header r)) in
        (case up_response up of
          None \<Rightarrow> Inr (plainStatus 502 sent, st)
        | Some resp \<Rightarrow>
            let h = copyResponseHeaders [] (rs_Header resp) in
            if success (rs_StatusCode resp) then
              Inr (\<lparr>res_Status = 200, res_Header = h, res_Page = False, res_Upstream = sent, res_Tunnel = True\<rparr>, IncTunnels st)
            else if \<not> validCode (rs_StatusCode resp) then Inl (Panic ''invalid WriteHeader code'')
            else Inr (\<lparr>res_Status = rs_StatusCode resp, res_Header = h, res_Page = False, res_Upstream = sent, res_Tunnel = False\<rparr>, st)))"

text \<open>The HTTP/1.1 heads; the status text is the library's.\<close>

definition writeH1ResponseHead :: "upstreamResponse \<Rightarrow> string" where
  "writeH1ResponseHead resp =
     rs_Proto resp @ '' '' @ rs_Status resp @ crlf @
     concat (map (\<lambda>(name, vals). concat (map (headerLine name) vals)) (copyResponseHeaders [] (rs_Header resp))) @ crlf"

definition writeH1Error :: "(int \<Rightarrow> string) \<Rightarrow> int \<Rightarrow> string" where
  "writeH1Error statusText code =
     ''HTTP/1.1 '' @ Itoa code @ '' '' @ statusText code @ crlf @ ''Content-Length: 0'' @ crlf @ crlf"

text \<open>
  \<^verbatim>\<open>serveH1Connect\<close>: what is written to the client, and whether the tunnel is reached; \<open>None\<close> is a request
  that cannot be read, \<open>headOk\<close> whether the head could be written.
\<close>

definition serveH1Connect :: "(int \<Rightarrow> string) \<Rightarrow> upstream \<Rightarrow> bool \<Rightarrow> httpRequest option \<Rightarrow> Stats \<Rightarrow> (string \<times> bool) \<times> Stats" where
  "serveH1Connect statusText up headOk req st =
     (case req of
        None \<Rightarrow> (([], False), st)
      | Some r \<Rightarrow>
          if rq_Method r \<noteq> ''CONNECT'' then ((writeH1Error statusText 404, False), st)
          else if \<not> up_dial up then ((writeH1Error statusText 502, False), st)
          else if \<not> up_write up then ((writeH1Error statusText 502, False), st)
          else (case up_response up of
            None \<Rightarrow> ((writeH1Error statusText 502, False), st)
          | Some resp \<Rightarrow>
              if \<not> headOk then (([], False), st)
              else if \<not> success (rs_StatusCode resp) then ((writeH1ResponseHead resp, False), st)
              else ((writeH1ResponseHead resp, True), IncTunnels st)))"

definition clientPreface :: string where
  "clientPreface = ''PRI * HTTP/2.0'' @ crlf @ crlf @ ''SM'' @ crlf @ crlf"

text \<open>
  \<^verbatim>\<open>serveConn\<close>: the first bytes decide between HTTP/2 and HTTP/1.1; nothing is taken from the stream.
\<close>

definition servesH2 :: "string \<Rightarrow> bool" where
  "servesH2 received \<longleftrightarrow> take (length clientPreface) received = clientPreface"

section \<open>Forwarded headers\<close>

text \<open>The lines that are forwarded, in order.\<close>

definition forwarded :: "header \<Rightarrow> (string \<times> string) list" where
  "forwarded h = concat (map (\<lambda>(name, vals). map (Pair (ToLower name)) vals) (filter (\<lambda>(name, vals). \<not> isHopByHop (ToLower name)) h))"

lemma buildH1Connect_forwarded:
  "buildH1Connect a h = ''CONNECT '' @ a @ '' HTTP/1.1'' @ crlf @ ''Host: '' @ a @ crlf @
     concat (map (\<lambda>(n, v). headerLine n v) (forwarded h)) @ crlf"
proof -
  have "concat (map (\<lambda>(name, vals). let n = ToLower name in if isHopByHop n then [] else concat (map (headerLine n) vals)) h) =
        concat (map (\<lambda>(n, v). headerLine n v) (forwarded h))"
    by (induction h) (auto simp: forwarded_def Let_def comp_def)
  then show ?thesis by (simp add: buildH1Connect_def)
qed

lemma in_forwarded:
  "(n, v) \<in> set (forwarded h) \<longleftrightarrow>
   (\<exists>name vals. (name, vals) \<in> set h \<and> v \<in> set vals \<and> n = ToLower name \<and> \<not> isHopByHop n)"
  by (auto simp: forwarded_def)

text \<open>
  A reader of heads: lines end with a line feed, before which a carriage return is dropped; the empty line
  ends the head.  A line of the header part is split at its first colon.
\<close>

definition cutLine :: "string \<Rightarrow> (string \<times> string) option" where
  "cutLine s = (case dropWhile (\<lambda>c. c \<noteq> CHR 0x0A) s of
       [] \<Rightarrow> None
     | _ # r \<Rightarrow> let l = takeWhile (\<lambda>c. c \<noteq> CHR 0x0A) s in
         Some (if l \<noteq> [] \<and> last l = CHR 0x0D then butlast l else l, r))"

lemma cutLine_crlf: "CHR 0x0A \<notin> set l \<Longrightarrow> cutLine (l @ crlf @ s) = Some (l, s)"
  by (auto simp: cutLine_def crlf_def dropWhile_append takeWhile_append Let_def)

lemma cutLine_shorter: "cutLine s = Some (l, r) \<Longrightarrow> length r < length s"
  using length_dropWhile_le [of "\<lambda>c. c \<noteq> CHR 0x0A" s]
  by (auto simp: cutLine_def Let_def split: list.splits if_splits)

function headLines :: "string \<Rightarrow> (string list \<times> string) option" where
  "headLines s = (case cutLine s of
       None \<Rightarrow> None
     | Some (l, r) \<Rightarrow> if l = [] then Some ([], r) else map_option (\<lambda>(ls, rest). (l # ls, rest)) (headLines r))"
  by pat_completeness auto
termination by (relation "measure length") (auto dest: cutLine_shorter)

declare headLines.simps [simp del]

lemma headLines_lines:
  assumes "\<forall>l \<in> set ls. l \<noteq> [] \<and> CHR 0x0A \<notin> set l"
  shows "headLines (concat (map (\<lambda>l. l @ crlf) ls) @ crlf @ rest) = Some (ls, rest)"
  using assms
proof (induction ls)
  case Nil
  then show ?case using cutLine_crlf [of "[]" rest] by (simp add: headLines.simps [of "crlf @ rest"])
next
  case (Cons l ls)
  let ?s = "concat (map (\<lambda>l. l @ crlf) ls) @ crlf @ rest"
  have "headLines (l @ crlf @ ?s) = Some (l # ls, rest)"
    using Cons cutLine_crlf [of l ?s] by (simp add: headLines.simps [of "l @ crlf @ ?s"])
  then show ?case by simp
qed

definition splitColon :: "string \<Rightarrow> string \<times> string" where
  "splitColon l = (takeWhile (\<lambda>c. c \<noteq> CHR '':'') l, drop 2 (dropWhile (\<lambda>c. c \<noteq> CHR '':'') l))"

lemma splitColon_line: "CHR '':'' \<notin> set n \<Longrightarrow> splitColon (n @ CHR '':'' # CHR '' '' # v) = (n, v)"
  by (auto simp: splitColon_def dropWhile_append takeWhile_append)

definition readHead :: "string \<Rightarrow> (string \<times> (string \<times> string) list \<times> string) option" where
  "readHead s = (case headLines s of Some (l # ls, rest) \<Rightarrow> Some (l, map splitColon ls, rest) | _ \<Rightarrow> None)"

text \<open>No name has a colon and nothing has a line feed: what the HTTP readers that produce a request promise.\<close>

definition cleanRequest :: "string \<Rightarrow> header \<Rightarrow> bool" where
  "cleanRequest a h \<longleftrightarrow> CHR 0x0A \<notin> set a \<and>
     (\<forall>(name, vals) \<in> set h. CHR 0x0A \<notin> set (ToLower name) \<and> CHR '':'' \<notin> set (ToLower name) \<and> (\<forall>v \<in> set vals. CHR 0x0A \<notin> set v))"

lemma forwarded_clean:
  assumes "cleanRequest a h" "(n, v) \<in> set (forwarded h)"
  shows "CHR 0x0A \<notin> set n \<and> CHR '':'' \<notin> set n \<and> CHR 0x0A \<notin> set v"
  using assms unfolding cleanRequest_def in_forwarded by fastforce

lemma head_shape:
  "buildH1Connect a h @ rest =
     concat (map (\<lambda>l. l @ crlf) ((''CONNECT '' @ a @ '' HTTP/1.1'') # map (\<lambda>(n, v). n @ '': '' @ v) ((''Host'', a) # forwarded h))) @ crlf @ rest"
  by (auto simp: buildH1Connect_forwarded headerLine_def comp_def case_prod_unfold)

section \<open>The head sent upstream\<close>

text \<open>
  (C20) Round trip of the request head: a reader of the bytes sent upstream finds the CONNECT line for the requested
  authority, a Host header, and exactly the client's headers with lower-case names that are not hop-by-hop, in order, and
  leaves what follows the head: no header can add a line or end the head early.
\<close>

theorem relay_head_roundtrip:
  assumes "cleanRequest a h"
  shows "readHead (buildH1Connect a h @ rest) = Some (''CONNECT '' @ a @ '' HTTP/1.1'', (''Host'', a) # forwarded h, rest) \<and>
    (\<forall>n v. (n, v) \<in> set (forwarded h) \<longleftrightarrow>
       (\<exists>name vals. (name, vals) \<in> set h \<and> v \<in> set vals \<and> n = ToLower name \<and> \<not> isHopByHop n))"
proof
  let ?ls = "(''CONNECT '' @ a @ '' HTTP/1.1'') # map (\<lambda>(n, v). n @ '': '' @ v) ((''Host'', a) # forwarded h)"
  have a: "CHR 0x0A \<notin> set a" using assms by (simp add: cleanRequest_def)
  have "\<forall>l \<in> set ?ls. l \<noteq> [] \<and> CHR 0x0A \<notin> set l"
    using a forwarded_clean [OF assms] by auto
  then have "headLines (buildH1Connect a h @ rest) = Some (?ls, rest)"
    unfolding head_shape by (rule headLines_lines)
  moreover have "map splitColon (map (\<lambda>(n, v). n @ '': '' @ v) ((''Host'', a) # forwarded h)) = (''Host'', a) # forwarded h"
    using forwarded_clean [OF assms] splitColon_line [of "''Host''" a]
    by (auto intro!: map_idI splitColon_line)
  ultimately show "readHead (buildH1Connect a h @ rest) = Some (''CONNECT '' @ a @ '' HTTP/1.1'', (''Host'', a) # forwarded h, rest)"
    by (simp add: readHead_def)
qed (simp add: in_forwarded)

definition sampleRequest :: header where
  "sampleRequest = [(''Padding'', [''xx'']), (''Connection'', [''close''])]"

lemma sampleRequest_clean: "cleanRequest ''a:1'' sampleRequest"
  by (simp add: cleanRequest_def sampleRequest_def lowerByte_def char_of_def)

theorem relay_head_roundtrip_witness:
  "readHead (buildH1Connect ''a:1'' sampleRequest @ ''zz'') =
     Some (''CONNECT a:1 HTTP/1.1'', [(''Host'', ''a:1''), (''padding'', ''xx'')], ''zz'')"
proof -
  have "forwarded sampleRequest = [(''padding'', ''xx'')]"
    by (simp add: forwarded_def sampleRequest_def lowerByte_def char_of_def bit_0 isHopByHop_def hopByHop_def)
  then show ?thesis using relay_head_roundtrip [OF sampleRequest_clean, of "''zz''"] by simp
qed

section \<open>Outcomes of a request\<close>

text \<open>The upstream server accepts: it can be dialled and written to and answers with a success.\<close>

definition accepts :: "upstream \<Rightarrow> bool" where
  "accepts up \<longleftrightarrow> up_dial up \<and> up_write up \<and> (\<exists>resp. up_response up = Some resp \<and> success (rs_StatusCode resp))"


definition sampleUpstream :: upstream where
  "sampleUpstream = \<lparr>up_dial = True, up_write = True,
     up_response = Some \<lparr>rs_Proto = ''HTTP/1.1'', rs_Status = ''200 OK'', rs_StatusCode = 200, rs_Header = []\<rparr>\<rparr>"

definition zeroStats :: Stats where
  "zeroStats = \<lparr>totalConns = 0, authed = 0, relays = 0, tunnels = 0, active = 0\<rparr>"

definition sampleConnect :: httpRequest where
  "sampleConnect = \<lparr>rq_Method = ''CONNECT'', rq_Host = ''a:1'', rq_Header = sampleRequest\<rparr>"


section \<open>Response headers\<close>

definition headerPairs :: "header \<Rightarrow> (string \<times> string) list" where
  "headerPairs h = concat (map (\<lambda>(name, vals). map (Pair name) vals) h)"

lemma headerPairs_addValue: "mset (headerPairs (addValue k v h)) = add_mset (k, v) (mset (headerPairs h))"
  by (induction k v h rule: addValue.induct) (auto simp: headerPairs_def)

lemma headerPairs_addAll:
  "mset (headerPairs (foldl (\<lambda>d v. headerAdd n v d) dst vals)) = mset (headerPairs dst) + mset (map (Pair (canonicalKey n)) vals)"
  by (induction vals arbitrary: dst) (auto simp: headerAdd_def headerPairs_addValue)

definition responseForwarded :: "header \<Rightarrow> (string \<times> string) list" where
  "responseForwarded h = filter (\<lambda>(n, v). n \<noteq> ''content-length'') (forwarded h)"

lemma forwarded_Cons:
  "forwarded ((name, vals) # h) = (if isHopByHop (ToLower name) then [] else map (Pair (ToLower name)) vals) @ forwarded h"
  by (simp add: forwarded_def)

lemma responseForwarded_Cons:
  "responseForwarded ((name, vals) # h) =
     (if isHopByHop (ToLower name) \<or> ToLower name = ''content-length'' then [] else map (Pair (ToLower name)) vals) @ responseForwarded h"
  by (cases "ToLower name = ''content-length''") (simp_all add: responseForwarded_def forwarded_Cons filter_map comp_def)

lemma headerPairs_copy:
  "mset (headerPairs (copyResponseHeaders dst src)) =
   mset (headerPairs dst) + mset (map (map_prod canonicalKey id) (responseForwarded src))"
proof (induction src arbitrary: dst)
  case Nil
  then show ?case by (simp add: copyResponseHeaders_def responseForwarded_def forwarded_def)
next
  case (Cons x src)
  obtain name vals where x: "x = (name, vals)" by (cases x)
  let ?n = "ToLower name"
  let ?d = "if isHopByHop ?n \<or> ?n = ''content-length'' then dst else foldl (\<lambda>d v. headerAdd ?n v d) dst vals"
  have "copyResponseHeaders dst (x # src) = copyResponseHeaders ?d src"
    by (simp only: copyResponseHeaders_def x Let_def foldl_Cons prod.case)
  then show ?case
    by (cases "isHopByHop ?n \<or> ?n = ''content-length''")
      (simp_all only: Cons.IH x responseForwarded_Cons if_True if_False headerPairs_addAll append_Nil map_append mset_append map_map
        add.assoc, simp_all add: comp_def)
qed

lemma lower_upper: "lowerByte (upperByte c) = lowerByte c"
  by (auto simp: lowerByte_def upperByte_def)

lemma lower_lower: "lowerByte (lowerByte c) = lowerByte c"
  by (auto simp: lowerByte_def)

lemma map_lower_canon: "map lowerByte (canonFrom b s) = map lowerByte s"
  by (induction b s rule: canonFrom.induct) (auto simp: lower_upper lower_lower Let_def)

lemma not_token: "\<not> tokenChar CHR 0xE2" "\<not> tokenChar CHR 0xC4"
  by (simp_all add: tokenChar_def)

lemma ToLower_token: "list_all tokenChar s \<Longrightarrow> ToLower s = map lowerByte s"
  by (induction s rule: ToLower.induct) (auto simp: not_token)

lemma tokenChar_lower: "tokenChar c \<Longrightarrow> tokenChar (lowerByte c)"
  by (cases "65 \<le> (of_char c :: nat) \<and> (of_char c :: nat) \<le> 90") (auto simp: lowerByte_def tokenChar_def [of "char_of _"] Let_def)

lemma tokenChar_upper: "tokenChar c \<Longrightarrow> tokenChar (upperByte c)"
  by (cases "97 \<le> (of_char c :: nat) \<and> (of_char c :: nat) \<le> 122") (auto simp: upperByte_def tokenChar_def [of "char_of _"] Let_def)

lemma canonFrom_token: "list_all tokenChar s \<Longrightarrow> list_all tokenChar (canonFrom b s)"
  by (induction b s rule: canonFrom.induct) (auto simp: tokenChar_lower tokenChar_upper Let_def)

lemma ToLower_canonicalKey:
  assumes "list_all tokenChar s"
  shows "ToLower (canonicalKey s) = ToLower s"
  using assms by (simp add: canonicalKey_def ToLower_token canonFrom_token map_lower_canon)

lemma token_lower_idem:
  assumes "list_all tokenChar s"
  shows "list_all tokenChar (ToLower s) \<and> ToLower (ToLower s) = ToLower s"
proof -
  have t: "list_all tokenChar (map lowerByte s)" using assms by (induction s) (auto simp: tokenChar_lower)
  then show ?thesis using assms by (simp add: ToLower_token comp_def lower_lower)
qed

text \<open>
  Response headers: as a collection of name and value pairs, the client gets the server's headers under their
  canonical names, every value kept, without the hop-by-hop ones and the content length; if the names are HTTP tokens, none of
  these can appear under another spelling.
\<close>

theorem relay_response_headers:
  "mset (headerPairs (copyResponseHeaders [] src)) = mset (map (map_prod canonicalKey id) (responseForwarded src)) \<and>
   ((\<forall>(name, vals) \<in> set src. list_all tokenChar name) \<longrightarrow>
    (\<forall>(n, v) \<in> set (headerPairs (copyResponseHeaders [] src)). \<not> isHopByHop (ToLower n) \<and> ToLower n \<noteq> ''content-length''))"
proof (intro conjI impI)
  show eq: "mset (headerPairs (copyResponseHeaders [] src)) = mset (map (map_prod canonicalKey id) (responseForwarded src))"
    by (simp add: headerPairs_copy headerPairs_def [of "[]"])
  assume tok: "\<forall>(name, vals) \<in> set src. list_all tokenChar name"
  show "\<forall>(n, v) \<in> set (headerPairs (copyResponseHeaders [] src)). \<not> isHopByHop (ToLower n) \<and> ToLower n \<noteq> ''content-length''"
  proof clarify
    fix n v
    assume "(n, v) \<in> set (headerPairs (copyResponseHeaders [] src))"
    then obtain m where m: "n = canonicalKey m" "(m, v) \<in> set (responseForwarded src)"
      unfolding mset_eq_setD [OF eq] by auto
    then obtain name vals where "(name, vals) \<in> set src" "m = ToLower name" "\<not> isHopByHop m" "m \<noteq> ''content-length''"
      by (auto simp: responseForwarded_def in_forwarded)
    moreover from this have "ToLower n = m"
      using tok token_lower_idem [of name] by (auto simp: m ToLower_canonicalKey)
    ultimately show "\<not> isHopByHop (ToLower n) \<and> ToLower n \<noteq> ''content-length''" by simp
  qed
qed

definition sampleResponse :: header where
  "sampleResponse = [(''content-length'', [''9'']), (''te'', [''x'']), (''a'', [''1'', ''2''])]"

theorem relay_response_headers_witness:
  "mset (headerPairs (copyResponseHeaders [] sampleResponse)) = {#(''A'', ''1''), (''A'', ''2'')#} \<and> \<not> isHopByHop (ToLower ''A'')"
proof -
  have k: "canonicalKey ''a'' = ''A''"
    by (simp add: canonicalKey_def tokenChar_def upperByte_def char_of_def bit_0)
  have "responseForwarded sampleResponse = [(''a'', ''1''), (''a'', ''2'')]"
    by (simp add: responseForwarded_def forwarded_def sampleResponse_def lowerByte_def isHopByHop_def hopByHop_def)
  then have m: "mset (headerPairs (copyResponseHeaders [] sampleResponse)) = {#(''A'', ''1''), (''A'', ''2'')#}"
    using relay_response_headers [of sampleResponse] by (simp add: k)
  then have "(''A'', ''1'') \<in> set (headerPairs (copyResponseHeaders [] sampleResponse))"
    by (simp flip: set_mset_mset)
  moreover have "\<forall>(name, vals) \<in> set sampleResponse. list_all tokenChar name"
    by (simp add: sampleResponse_def tokenChar_def)
  ultimately show ?thesis using relay_response_headers [of sampleResponse] m by blast
qed

end
