(* ===== verification/Validation.thy ===== *)
theory Validation
  imports GoStrings
begin

text \<open>
  What the configuration checks of the two front ends share: steps that return an error or a value, defaults for
  empty strings, and the check that an address has a host and a port.
\<close>

definition bindS :: "'e + 'a \<Rightarrow> ('a \<Rightarrow> 'e + 'b) \<Rightarrow> 'e + 'b" where
  "bindS m f = (case m of Inl e \<Rightarrow> Inl e | Inr x \<Rightarrow> f x)"

definition require :: "bool \<Rightarrow> 'e \<Rightarrow> 'e + unit" where
  "require c e = (if c then Inr () else Inl e)"

definition orDefault :: "string \<Rightarrow> string \<Rightarrow> string" where
  "orDefault s d = (if s = [] then d else s)"

definition splitOk :: "string \<Rightarrow> (addr_error \<Rightarrow> 'e) \<Rightarrow> 'e + unit" where
  "splitOk a mk = (case SplitHostPort a of Inl e \<Rightarrow> Inl (mk e) | Inr _ \<Rightarrow> Inr ())"

text \<open>What \<^verbatim>\<open>os.Stat\<close> finds under a path.\<close>

datatype fileKind = Missing | RegularFile | Directory

definition logLevels :: "string list" where
  "logLevels = [''debug'', ''info'', ''warn'', ''error'']"

lemma bindS_Inr: "bindS m f = Inr y \<longleftrightarrow> (\<exists>x. m = Inr x \<and> f x = Inr y)"
  by (cases m) (auto simp: bindS_def)

lemma require_Inr [simp]: "require c e = Inr u \<longleftrightarrow> c"
  by (simp add: require_def)

lemma splitOk_Inr [simp]: "splitOk a mk = Inr u \<longleftrightarrow> (\<exists>p. SplitHostPort a = Inr p)"
  by (auto simp: splitOk_def split: sum.splits)

lemma orDefault_nonempty: "d \<noteq> [] \<Longrightarrow> orDefault s d \<noteq> []" "s \<noteq> [] \<Longrightarrow> orDefault s d = s"
  by (simp_all add: orDefault_def)

section \<open>The interface of a validation\<close>

text \<open>
  A validation fills in defaults and refuses what is not valid.  If what it accepts is valid, and it accepts a valid value unchanged, then it is a projection onto
  the valid values: these are exactly its results, exactly its fixed points, and doing it twice is doing it once.
\<close>

locale validation =
  fixes validate :: "'c \<Rightarrow> 'e + 'c" and valid :: "'c \<Rightarrow> bool"
  assumes accepted_valid: "validate c = Inr c' \<Longrightarrow> valid c'"
    and valid_accepted: "valid c \<Longrightarrow> validate c = Inr c"
begin

lemma fixed_point_iff: "validate c = Inr c \<longleftrightarrow> valid c"
  using accepted_valid valid_accepted by blast

lemma result_iff: "(\<exists>c. validate c = Inr c') \<longleftrightarrow> valid c'"
  using accepted_valid valid_accepted by blast

lemma validate_twice: "bindS (validate c) validate = validate c"
  by (cases "validate c") (auto simp: bindS_def valid_accepted dest: accepted_valid)

lemma projection: "(validate c = Inr c' \<longrightarrow> valid c' \<and> validate c' = Inr c') \<and> (valid c \<longrightarrow> validate c = Inr c)"
  using accepted_valid valid_accepted by blast

end

end
