(* ===== verification/H3Config.thy ===== *)
theory H3Config
  imports Validation
begin

text \<open>
  \<^verbatim>\<open>h3frontend/config.go\<close>: the configuration of the HTTP/3 front end, its defaults and its validation.  The TOML
  decoder, \<^verbatim>\<open>os.Stat\<close> and \<^verbatim>\<open>time.ParseDuration\<close> are parameters.
\<close>

definition defaultStreamReceiveWindow :: int where
  "defaultStreamReceiveWindow = 8 * 1024 * 1024"

definition defaultConnReceiveWindow :: int where
  "defaultConnReceiveWindow = defaultStreamReceiveWindow * 5 div 2"

record h3TLSConfig =
  h3_Cert :: string
  h3_Key :: string

record OriginConfig =
  WebRoot :: string
  Username :: string
  Password :: string
  TCPListen :: string

record QUICConfig =
  quic_InitialPacketSize :: int
  quic_InitialStreamReceiveWindow :: int
  quic_MaxStreamReceiveWindow :: int
  quic_InitialConnectionReceiveWindow :: int
  quic_MaxConnectionReceiveWindow :: int
  quic_MaxIdleTimeout :: string
  quic_MaxIncomingStreams :: int
  quic_DisablePathMTUDiscovery :: bool
  quic_DisableGSO :: bool
  quic_DisablePathManager :: bool

record CongestionConfig =
  cong_Type :: string
  cong_BBRProfile :: string

record h3Config =
  h3_LogLevel :: string
  h3_Listen :: string
  h3_Mode :: string
  h3_TLS :: h3TLSConfig
  h3_Origin :: OriginConfig
  h3_QUIC :: QUICConfig
  h3_Congestion :: CongestionConfig
  h3_Upstream :: string

text \<open>What the file system and the library answer.\<close>

record h3Env =
  stat :: "string \<Rightarrow> fileKind"
  ParseDuration :: "string \<Rightarrow> int option"

datatype h3_error =
    BadLogLevel string | BadListen string addr_error | RealityRemoved | BadMode string
  | MissingKeyPair | NoSuchFile string | MissingCredentials | BadCredentials | MissingWebRoot | WebRootNotDir
  | BadTCPListen addr_error | BadUpstream string addr_error | PacketSizeTooSmall | WindowTooSmall string
  | BadIdleTimeout | TooFewStreams | BadCongestionType string | BadBBRProfile string
  | ReadFailed string | ParseFailed string

definition originValidate :: "h3Env \<Rightarrow> OriginConfig \<Rightarrow> h3_error option" where
  "originValidate env c =
     (if Username c = [] \<or> Password c = [] then Some MissingCredentials
      else if ContainsAny (Username c) [CHR '':'', CHR 0x0D, CHR 0x0A] \<or> ContainsAny (Password c) [CHR 0x0D, CHR 0x0A] then
        Some BadCredentials
      else if WebRoot c = [] then Some MissingWebRoot
      else case stat env (WebRoot c) of
        Missing \<Rightarrow> Some (NoSuchFile (WebRoot c))
      | RegularFile \<Rightarrow> Some WebRootNotDir
      | Directory \<Rightarrow>
          if TCPListen c \<noteq> [] then
            (case SplitHostPort (TCPListen c) of Inl e \<Rightarrow> Some (BadTCPListen e) | Inr _ \<Rightarrow> None)
          else None)"

definition setWindow :: "string \<Rightarrow> int \<Rightarrow> int \<Rightarrow> h3_error + int" where
  "setWindow name v def =
     (if v = 0 then Inr def else if v < 16384 then Inl (WindowTooSmall name) else Inr v)"

definition checkMode :: "string \<Rightarrow> h3_error + string" where
  "checkMode m =
     (if m = [] then Inr ''origin''
      else if m = ''tls'' \<or> m = ''origin'' then Inr m
      else if m = ''reality'' then Inl RealityRemoved
      else Inl (BadMode m))"

definition checkFiles :: "h3Env \<Rightarrow> string \<Rightarrow> h3TLSConfig \<Rightarrow> OriginConfig \<Rightarrow> h3_error + unit" where
  "checkFiles env mode t org =
     (if h3_Cert t = [] \<or> h3_Key t = [] then Inl MissingKeyPair
      else if stat env (h3_Cert t) = Missing then Inl (NoSuchFile (h3_Cert t))
      else if stat env (h3_Key t) = Missing then Inl (NoSuchFile (h3_Key t))
      else if mode = ''origin'' then (case originValidate env org of Some e \<Rightarrow> Inl e | None \<Rightarrow> Inr ())
      else Inr ())"

definition checkQUIC :: "h3Env \<Rightarrow> QUICConfig \<Rightarrow> h3_error + QUICConfig" where
  "checkQUIC env q =
     bindS (if quic_InitialPacketSize q = 0 then Inr 1200
            else if quic_InitialPacketSize q < 1200 then Inl PacketSizeTooSmall
            else Inr (quic_InitialPacketSize q)) (\<lambda>ps.
     bindS (setWindow ''initStreamReceiveWindow'' (quic_InitialStreamReceiveWindow q) defaultStreamReceiveWindow) (\<lambda>si.
     bindS (setWindow ''maxStreamReceiveWindow'' (quic_MaxStreamReceiveWindow q) defaultStreamReceiveWindow) (\<lambda>ms.
     bindS (setWindow ''initConnReceiveWindow'' (quic_InitialConnectionReceiveWindow q) defaultConnReceiveWindow) (\<lambda>ic.
     bindS (setWindow ''maxConnReceiveWindow'' (quic_MaxConnectionReceiveWindow q) defaultConnReceiveWindow) (\<lambda>mc.
     let idle = orDefault (quic_MaxIdleTimeout q) ''30s'' in
     bindS (require (ParseDuration env idle \<noteq> None) BadIdleTimeout) (\<lambda>_.
     let streams = (if quic_MaxIncomingStreams q = 0 then 1024 else quic_MaxIncomingStreams q) in
     bindS (require (8 \<le> streams) TooFewStreams) (\<lambda>_.
       Inr (q\<lparr>quic_InitialPacketSize := ps, quic_InitialStreamReceiveWindow := si, quic_MaxStreamReceiveWindow := ms,
              quic_InitialConnectionReceiveWindow := ic, quic_MaxConnectionReceiveWindow := mc,
              quic_MaxIdleTimeout := idle, quic_MaxIncomingStreams := streams\<rparr>))))))))"

definition checkCongestion :: "CongestionConfig \<Rightarrow> h3_error + CongestionConfig" where
  "checkCongestion c =
     (let t = orDefault (cong_Type c) ''bbr''; p = orDefault (cong_BBRProfile c) ''standard'' in
      if t \<noteq> ''bbr'' \<and> t \<noteq> ''cubic'' then Inl (BadCongestionType t)
      else if p \<noteq> ''standard'' \<and> p \<noteq> ''aggressive'' \<and> p \<noteq> ''conservative'' then Inl (BadBBRProfile p)
      else Inr (c\<lparr>cong_Type := t, cong_BBRProfile := p\<rparr>))"

definition validateAndFill :: "h3Env \<Rightarrow> h3Config \<Rightarrow> h3_error + h3Config" where
  "validateAndFill env c =
     (let lvl = orDefault (h3_LogLevel c) ''info''; lis = orDefault (h3_Listen c) ''0.0.0.0:443'' in
      bindS (require (lvl \<in> set logLevels) (BadLogLevel lvl)) (\<lambda>_.
      bindS (splitOk lis (BadListen lis)) (\<lambda>_.
      bindS (checkMode (h3_Mode c)) (\<lambda>mode.
      bindS (checkFiles env mode (h3_TLS c) (h3_Origin c)) (\<lambda>_.
      let up = orDefault (h3_Upstream c) ''127.0.0.1:18080'' in
      bindS (splitOk up (BadUpstream up)) (\<lambda>_.
      bindS (checkQUIC env (h3_QUIC c)) (\<lambda>q.
      bindS (checkCongestion (h3_Congestion c)) (\<lambda>cg.
        Inr (c\<lparr>h3_LogLevel := lvl, h3_Listen := lis, h3_Mode := mode, h3_Upstream := up, h3_QUIC := q, h3_Congestion := cg\<rparr>)))))))))"

text \<open>\<^verbatim>\<open>loadConfig\<close>: the outcome of reading the file, of the two decodings, and whether there is a REALITY section.\<close>

definition loadH3Config :: "h3Env \<Rightarrow> string + ((string + h3Config) \<times> (string + bool)) \<Rightarrow> h3_error + h3Config" where
  "loadH3Config env f =
     (case f of
        Inl e \<Rightarrow> Inl (ReadFailed e)
      | Inr (cfg, sections) \<Rightarrow>
          (case cfg of
             Inl e \<Rightarrow> Inl (ParseFailed e)
           | Inr c \<Rightarrow>
               (case sections of
                  Inl e \<Rightarrow> Inl (ParseFailed e)
                | Inr hasReality \<Rightarrow> if hasReality then Inl RealityRemoved else validateAndFill env c)))"

section \<open>Valid configurations\<close>

definition origin_ok :: "h3Env \<Rightarrow> OriginConfig \<Rightarrow> bool" where
  "origin_ok env c \<longleftrightarrow> Username c \<noteq> [] \<and> Password c \<noteq> [] \<and> set (Username c) \<inter> {CHR '':'', CHR 0x0D, CHR 0x0A} = {} \<and>
     set (Password c) \<inter> {CHR 0x0D, CHR 0x0A} = {} \<and> stat env (WebRoot c) = Directory \<and> WebRoot c \<noteq> [] \<and>
     (TCPListen c \<noteq> [] \<longrightarrow> (\<exists>p. SplitHostPort (TCPListen c) = Inr p))"

definition quic_cfg_ok :: "h3Env \<Rightarrow> QUICConfig \<Rightarrow> bool" where
  "quic_cfg_ok env q \<longleftrightarrow> 1200 \<le> quic_InitialPacketSize q \<and> 16384 \<le> quic_InitialStreamReceiveWindow q \<and>
     16384 \<le> quic_MaxStreamReceiveWindow q \<and> 16384 \<le> quic_InitialConnectionReceiveWindow q \<and>
     16384 \<le> quic_MaxConnectionReceiveWindow q \<and> quic_MaxIdleTimeout q \<noteq> [] \<and>
     ParseDuration env (quic_MaxIdleTimeout q) \<noteq> None \<and> 8 \<le> quic_MaxIncomingStreams q"

definition h3_ok :: "h3Env \<Rightarrow> h3Config \<Rightarrow> bool" where
  "h3_ok env c \<longleftrightarrow> h3_LogLevel c \<in> set logLevels \<and> h3_Listen c \<noteq> [] \<and> (\<exists>p. SplitHostPort (h3_Listen c) = Inr p) \<and>
     h3_Mode c \<in> {''tls'', ''origin''} \<and> h3_Cert (h3_TLS c) \<noteq> [] \<and> h3_Key (h3_TLS c) \<noteq> [] \<and>
     stat env (h3_Cert (h3_TLS c)) \<noteq> Missing \<and> stat env (h3_Key (h3_TLS c)) \<noteq> Missing \<and>
     (h3_Mode c = ''origin'' \<longrightarrow> origin_ok env (h3_Origin c)) \<and>
     h3_Upstream c \<noteq> [] \<and> (\<exists>p. SplitHostPort (h3_Upstream c) = Inr p) \<and> quic_cfg_ok env (h3_QUIC c) \<and>
     cong_Type (h3_Congestion c) \<in> {''bbr'', ''cubic''} \<and>
     cong_BBRProfile (h3_Congestion c) \<in> {''standard'', ''aggressive'', ''conservative''}"

lemma originValidate_None: "originValidate env c = None \<longleftrightarrow> origin_ok env c"
  by (auto simp: originValidate_def origin_ok_def ContainsAny_def list_ex_iff split: fileKind.splits sum.splits)

lemma checkFiles_Inr:
  "checkFiles env mode t org = Inr u \<longleftrightarrow>
     h3_Cert t \<noteq> [] \<and> h3_Key t \<noteq> [] \<and> stat env (h3_Cert t) \<noteq> Missing \<and> stat env (h3_Key t) \<noteq> Missing \<and>
     (mode = ''origin'' \<longrightarrow> origin_ok env org)"
  by (cases "originValidate env org") (auto simp: checkFiles_def originValidate_None [symmetric])

lemma checkMode_Inr: "checkMode m = Inr m' \<Longrightarrow> m' \<in> {''tls'', ''origin''}"
  by (auto simp: checkMode_def split: if_splits)

lemma setWindow_Inr: "setWindow n v d = Inr w \<Longrightarrow> 16384 \<le> d \<Longrightarrow> 16384 \<le> w"
  by (auto simp: setWindow_def split: if_splits)

lemma window_defaults: "16384 \<le> defaultStreamReceiveWindow" "16384 \<le> defaultConnReceiveWindow"
  by (simp_all add: defaultConnReceiveWindow_def defaultStreamReceiveWindow_def)

lemma checkQUIC_Inr:
  assumes "checkQUIC env q = Inr q'"
  shows "quic_cfg_ok env q'"
proof -
  let ?idle = "orDefault (quic_MaxIdleTimeout q) ''30s''"
  let ?streams = "if quic_MaxIncomingStreams q = 0 then 1024 else quic_MaxIncomingStreams q"
  obtain ps si ms ic mc where
    p: "(if quic_InitialPacketSize q = 0 then Inr 1200 else if quic_InitialPacketSize q < 1200 then Inl PacketSizeTooSmall
         else Inr (quic_InitialPacketSize q)) = Inr ps" and
    w: "setWindow ''initStreamReceiveWindow'' (quic_InitialStreamReceiveWindow q) defaultStreamReceiveWindow = Inr si"
      "setWindow ''maxStreamReceiveWindow'' (quic_MaxStreamReceiveWindow q) defaultStreamReceiveWindow = Inr ms"
      "setWindow ''initConnReceiveWindow'' (quic_InitialConnectionReceiveWindow q) defaultConnReceiveWindow = Inr ic"
      "setWindow ''maxConnReceiveWindow'' (quic_MaxConnectionReceiveWindow q) defaultConnReceiveWindow = Inr mc" and
    r: "ParseDuration env ?idle \<noteq> None" "8 \<le> ?streams" and
    q': "q' = q\<lparr>quic_InitialPacketSize := ps, quic_InitialStreamReceiveWindow := si, quic_MaxStreamReceiveWindow := ms,
              quic_InitialConnectionReceiveWindow := ic, quic_MaxConnectionReceiveWindow := mc,
              quic_MaxIdleTimeout := ?idle, quic_MaxIncomingStreams := ?streams\<rparr>"
    using assms unfolding checkQUIC_def bindS_Inr Let_def require_Inr sum.inject by blast
  have "1200 \<le> ps" using p by (auto split: if_splits)
  then show ?thesis
    using setWindow_Inr [OF w(1) window_defaults(1)] setWindow_Inr [OF w(2) window_defaults(1)]
      setWindow_Inr [OF w(3) window_defaults(2)] setWindow_Inr [OF w(4) window_defaults(2)] r
    by (simp add: q' quic_cfg_ok_def orDefault_nonempty)
qed

lemma checkQUIC_fix: "quic_cfg_ok env q \<Longrightarrow> checkQUIC env q = Inr q"
  by (auto simp: checkQUIC_def bindS_def Let_def quic_cfg_ok_def setWindow_def require_def orDefault_def)

lemma checkCongestion_Inr:
  "checkCongestion c = Inr c' \<Longrightarrow> cong_Type c' \<in> {''bbr'', ''cubic''} \<and> cong_BBRProfile c' \<in> {''standard'', ''aggressive'', ''conservative''}"
  by (auto simp: checkCongestion_def Let_def split: if_splits)

lemma validateAndFill_ok:
  assumes "validateAndFill env c = Inr c'"
  shows "h3_ok env c'"
  using assms
  by (auto simp: validateAndFill_def bindS_Inr Let_def h3_ok_def checkFiles_Inr checkQUIC_Inr orDefault_nonempty
      dest: checkMode_Inr checkCongestion_Inr)

lemma validateAndFill_fix:
  assumes "h3_ok env c"
  shows "validateAndFill env c = Inr c"
proof -
  have ne: "h3_LogLevel c \<noteq> []" using assms by (auto simp: h3_ok_def logLevels_def)
  have "checkMode (h3_Mode c) = Inr (h3_Mode c)" using assms by (auto simp: h3_ok_def checkMode_def)
  moreover have "checkFiles env (h3_Mode c) (h3_TLS c) (h3_Origin c) = Inr ()" using assms by (simp add: checkFiles_Inr h3_ok_def)
  moreover have "checkQUIC env (h3_QUIC c) = Inr (h3_QUIC c)" using assms by (simp add: checkQUIC_fix h3_ok_def)
  moreover have "checkCongestion (h3_Congestion c) = Inr (h3_Congestion c)"
    using assms by (auto simp: h3_ok_def checkCongestion_def orDefault_def)
  ultimately show ?thesis using assms ne
    by (auto simp: validateAndFill_def bindS_def Let_def h3_ok_def orDefault_nonempty require_def splitOk_def split: sum.splits)
qed

interpretation h3: validation "validateAndFill env" "h3_ok env" for env
  by unfold_locales (auto dest: validateAndFill_ok intro: validateAndFill_fix)

section \<open>Properties\<close>

text \<open>
  An accepted configuration is complete and valid, with every default filled in, and validating it again changes
  nothing; conversely every valid configuration is accepted as it is.
\<close>

theorem h3_config_valid:
  "(validateAndFill env c = Inr c' \<longrightarrow> h3_ok env c' \<and> validateAndFill env c' = Inr c') \<and>
   (h3_ok env c \<longrightarrow> validateAndFill env c = Inr c)"
  by (rule h3.projection)

text \<open>A minimal configuration file.\<close>

definition exampleH3Env :: h3Env where
  "exampleH3Env = \<lparr>stat = (\<lambda>p. if p = ''www'' then Directory else RegularFile), ParseDuration = (\<lambda>s. if s = ''30s'' then Some 30000000000 else None)\<rparr>"

definition exampleH3Config :: h3Config where
  "exampleH3Config =
     \<lparr>h3_LogLevel = [], h3_Listen = [], h3_Mode = [], h3_TLS = \<lparr>h3_Cert = ''c.pem'', h3_Key = ''k.pem''\<rparr>,
      h3_Origin = \<lparr>WebRoot = ''www'', Username = ''alice'', Password = ''secret'', TCPListen = []\<rparr>,
      h3_QUIC = \<lparr>quic_InitialPacketSize = 0, quic_InitialStreamReceiveWindow = 0, quic_MaxStreamReceiveWindow = 0,
                 quic_InitialConnectionReceiveWindow = 0, quic_MaxConnectionReceiveWindow = 0, quic_MaxIdleTimeout = [],
                 quic_MaxIncomingStreams = 0, quic_DisablePathMTUDiscovery = False, quic_DisableGSO = False,
                 quic_DisablePathManager = False\<rparr>,
      h3_Congestion = \<lparr>cong_Type = [], cong_BBRProfile = []\<rparr>, h3_Upstream = []\<rparr>"

lemma exampleH3_accepted: "\<exists>c'. validateAndFill exampleH3Env exampleH3Config = Inr c' \<and> h3_Mode c' = ''origin''"
proof -
  have s: "SplitHostPort ''0.0.0.0:443'' = Inr (''0.0.0.0'', ''443'')" "SplitHostPort ''127.0.0.1:18080'' = Inr (''127.0.0.1'', ''18080'')"
    using split_plain [of "''0.0.0.0''" "''443''"] split_plain [of "''127.0.0.1''" "''18080''"] by simp_all
  show ?thesis
    by (simp add: validateAndFill_def bindS_def Let_def exampleH3Config_def exampleH3Env_def orDefault_def require_def splitOk_def s
        checkMode_def checkFiles_def originValidate_def ContainsAny_def checkQUIC_def setWindow_def checkCongestion_def logLevels_def)
qed

theorem h3_config_valid_witness:
  "\<exists>c'. validateAndFill exampleH3Env exampleH3Config = Inr c' \<and> h3_ok exampleH3Env c' \<and> h3_Mode c' = ''origin''"
  using exampleH3_accepted h3_config_valid by blast

end
