(* ===== verification/H3Origin.thy ===== *)
theory H3Origin
  imports HttpRelay H3Config Congestion
begin

text \<open>
  \<^verbatim>\<open>h3frontend/origin.go\<close>, \<^verbatim>\<open>relay.go\<close> and the accept loop of \<^verbatim>\<open>main.go\<close>: the decision between the website and the proxy, the
  relay of CONNECT requests over HTTP/3, and the congestion controller of an accepted connection.  The digest \<^verbatim>\<open>sha256.Sum256\<close>, the
  file server of the website and the connection to the upstream server are parameters.
\<close>

section \<open>The copies of the header functions\<close>

text \<open>
  \<^verbatim>\<open>relay.go\<close> has its own copies of three functions of the TCP front end.  They are translated again here, as loops that
  append to a \<^verbatim>\<open>strings.Builder\<close> or add to a header map.
\<close>

definition h3IsHopByHop :: "string \<Rightarrow> bool" where
  "h3IsHopByHop name \<longleftrightarrow>
     name = ''connection'' \<or> name = ''proxy-connection'' \<or> name = ''keep-alive'' \<or> name = ''transfer-encoding'' \<or>
     name = ''te'' \<or> name = ''trailer'' \<or> name = ''upgrade''"

fun writeValues :: "string \<Rightarrow> string list \<Rightarrow> string \<Rightarrow> string" where
  "writeValues n [] b = b"
| "writeValues n (v # vals) b = writeValues n vals ((((b @ n) @ '': '') @ v) @ crlf)"

fun writeHeaders :: "header \<Rightarrow> string \<Rightarrow> string" where
  "writeHeaders [] b = b"
| "writeHeaders ((name, vals) # h) b =
     (let n = ToLower name in if h3IsHopByHop n then writeHeaders h b else writeHeaders h (writeValues n vals b))"

definition h3BuildH1Connect :: "string \<Rightarrow> header \<Rightarrow> string" where
  "h3BuildH1Connect authority h =
     writeHeaders h ((((((''CONNECT '' @ authority) @ '' HTTP/1.1'' @ crlf) @ ''Host: '') @ authority) @ crlf)) @ crlf"

fun h3CopyResponseHeaders :: "header \<Rightarrow> header \<Rightarrow> header" where
  "h3CopyResponseHeaders dst [] = dst"
| "h3CopyResponseHeaders dst ((name, vals) # src) =
     (let n = ToLower name in
      if h3IsHopByHop n \<or> n = ''content-length'' then h3CopyResponseHeaders dst src
      else h3CopyResponseHeaders (fold (headerAdd n) vals dst) src)"

section \<open>The relay\<close>

text \<open>
  \<^verbatim>\<open>relayHandler.ServeHTTP\<close>; \<open>nextID\<close> is the counter of the handler, \<open>streamer\<close> whether the response writer gives its
  stream.  The result is the first code given to \<^verbatim>\<open>WriteHeader\<close>, as for the TCP front end.
\<close>

definition h3Relay :: "upstream \<Rightarrow> bool \<Rightarrow> httpRequest \<Rightarrow> int \<Rightarrow> relayResult res \<times> int" where
  "h3Relay up streamer r nextID =
     (let rid = u64 (nextID + 1) in
      (if rq_Method r \<noteq> ''CONNECT'' then Inr notFoundPage
       else if \<not> up_dial up then Inr (plainStatus 502 None)
       else if \<not> up_write up then Inr (plainStatus 502 None)
       else let sent = Some (h3BuildH1Connect (rq_Host r) (rq_Header r)) in
         (case up_response up of
            None \<Rightarrow> Inr (plainStatus 502 sent)
          | Some resp \<Rightarrow>
              let h = h3CopyResponseHeaders [] (rs_Header resp) in
              if rs_StatusCode resp < 200 \<or> 300 \<le> rs_StatusCode resp then
                (if \<not> validCode (rs_StatusCode resp) then Inl (Panic ''invalid WriteHeader code'')
                 else Inr \<lparr>res_Status = rs_StatusCode resp, res_Header = h, res_Page = False, res_Upstream = sent, res_Tunnel = False\<rparr>)
              else Inr \<lparr>res_Status = 200, res_Header = h, res_Page = False, res_Upstream = sent, res_Tunnel = streamer\<rparr>),
       rid))"

section \<open>The origin\<close>

record originHandler =
  credentialHash :: "byte list"

definition newOriginHandler :: "(byte list \<Rightarrow> byte list) \<Rightarrow> bool \<Rightarrow> OriginConfig \<Rightarrow> originHandler option" where
  "newOriginHandler sha256 rootOk cfg =
     (if \<not> rootOk then None
      else Some \<lparr>credentialHash = sha256 (toBytes (Username cfg @ '':'' @ Password cfg))\<rparr>)"

text \<open>\<^verbatim>\<open>Header.Values\<close>.\<close>

definition headerValues :: "string \<Rightarrow> header \<Rightarrow> string list" where
  "headerValues k h = (case map_of h (canonicalKey k) of None \<Rightarrow> [] | Some vs \<Rightarrow> vs)"

definition authorized :: "(byte list \<Rightarrow> byte list) \<Rightarrow> originHandler \<Rightarrow> httpRequest \<Rightarrow> bool" where
  "authorized sha256 h r =
     (case headerValues ''Proxy-Authorization'' (rq_Header r) of
        [value] \<Rightarrow>
          (case Cut value CHR '' '' of
             None \<Rightarrow> False
           | Some (scheme, encoded) \<Rightarrow>
               if \<not> EqualFold scheme ''Basic'' then False
               else (case b64Decode False True encoded of
                       None \<Rightarrow> False
                     | Some credential \<Rightarrow> sha256 credential = credentialHash h))
      | _ \<Rightarrow> False)"

text \<open>What a request gets: the answer of the relay, of the file server, or the refusal of the method.\<close>

datatype originAnswer = Proxied "relayResult res" | Refused int "string list" | FileServer "int"

definition website :: "(httpRequest \<Rightarrow> int) \<Rightarrow> httpRequest \<Rightarrow> originAnswer" where
  "website files r =
     (if rq_Method r \<noteq> ''GET'' \<and> rq_Method r \<noteq> ''HEAD'' then Refused 405 [''GET, HEAD''] else FileServer (files r))"

definition originServeHTTP ::
  "(byte list \<Rightarrow> byte list) \<Rightarrow> (httpRequest \<Rightarrow> int) \<Rightarrow> upstream \<Rightarrow> bool \<Rightarrow> originHandler \<Rightarrow> httpRequest \<Rightarrow> int \<Rightarrow> originAnswer \<times> int"
where
  "originServeHTTP sha256 files up streamer h r nextID =
     (if rq_Method r = ''CONNECT'' \<and> authorized sha256 h r then
        (case h3Relay up streamer r nextID of (res, rid) \<Rightarrow> (Proxied res, rid))
      else (website files r, nextID))"

section \<open>Accepted connections\<close>

text \<open>
  One round of the accept loop of \<^verbatim>\<open>serve\<close>: the controller is replaced if the configuration says so; \<open>Inl\<close> is a connection
  that is closed with an error.
\<close>

definition acceptQUIC :: "quic_params \<Rightarrow> mtime \<Rightarrow> h3Config \<Rightarrow> int \<Rightarrow> bool \<Rightarrow> congestion_error + bbrSender option" where
  "acceptQUIC q now cfg packetSize isUDPAddr =
     (if cong_Type (h3_Congestion cfg) = ''bbr'' then
        (case UseBBR q now packetSize isUDPAddr (cong_BBRProfile (h3_Congestion cfg)) of
           Inl e \<Rightarrow> Inl e
         | Inr b \<Rightarrow> Inr (Some b))
      else Inr None)"

section \<open>Equivalence with the TCP front end\<close>

lemma h3IsHopByHop_eq: "h3IsHopByHop n = isHopByHop n"
  by (auto simp: h3IsHopByHop_def isHopByHop_def hopByHop_def)

lemma writeValues_eq: "writeValues n vals b = b @ concat (map (headerLine n) vals)"
  by (induction n vals b rule: writeValues.induct) (simp_all add: headerLine_def)

lemma writeHeaders_eq:
  "writeHeaders h b = b @ concat (map (\<lambda>(name, vals). let n = ToLower name in
      if isHopByHop n then [] else concat (map (headerLine n) vals)) h)"
  by (induction h b rule: writeHeaders.induct) (simp_all add: h3IsHopByHop_eq writeValues_eq Let_def)

lemma h3BuildH1Connect_eq: "h3BuildH1Connect a h = buildH1Connect a h"
  by (simp add: h3BuildH1Connect_def writeHeaders_eq buildH1Connect_def)

lemma h3CopyResponseHeaders_eq: "h3CopyResponseHeaders dst src = copyResponseHeaders dst src"
  by (induction dst src rule: h3CopyResponseHeaders.induct)
    (simp_all add: copyResponseHeaders_def h3IsHopByHop_eq foldl_conv_fold Let_def)

text \<open>
  (C22) The HTTP/3 relay behaves like the HTTP/2 relay of the TCP front end: for the same request and the same upstream server, the
  same answer, with the same head sent upstream and the same headers back, and the same panic, provided that the response
  writer gives its stream; without the stream it opens no tunnel.
\<close>

theorem h3_relay_equivalent:
  "(case handleRequest up r st of
      Inl e \<Rightarrow> fst (h3Relay up streamer r i) = Inl e
    | Inr (res, st') \<Rightarrow> fst (h3Relay up streamer r i) = Inr (res\<lparr>res_Tunnel := res_Tunnel res \<and> streamer\<rparr>))"
  by (cases "up_response up")
    (auto simp: handleRequest_def h3Relay_def Let_def success_def h3BuildH1Connect_eq h3CopyResponseHeaders_eq notFoundPage_def plainStatus_def)

section \<open>Credentials\<close>

text \<open>The value of a header with the given credentials.\<close>

definition basicValue :: "OriginConfig \<Rightarrow> string" where
  "basicValue cfg = ''Basic '' @ b64Encode False True (toBytes (Username cfg @ '':'' @ Password cfg))"

lemma Cut_Some: "Cut s c = Some (a, b) \<longleftrightarrow> s = a @ c # b \<and> c \<notin> set a"
proof
  assume "s = a @ c # b \<and> c \<notin> set a"
  then show "Cut s c = Some (a, b)" by (simp add: Cut_append)
next
  assume cut: "Cut s c = Some (a, b)"
  then have "indexByte c s \<noteq> None" by (auto simp: Cut_def simp del: indexByte_None)
  then have "c \<in> set s" by simp
  then obtain a' b' where s: "s = a' @ c # b'" "c \<notin> set a'" by (meson split_list_first)
  then show "s = a @ c # b \<and> c \<notin> set a" using cut Cut_append [OF s(2), of b'] by simp
qed

lemma authorized_iff:
  "authorized sha256 h r \<longleftrightarrow> (\<exists>scheme encoded credential.
     headerValues ''Proxy-Authorization'' (rq_Header r) = [scheme @ '' '' @ encoded] \<and> CHR '' '' \<notin> set scheme \<and>
     EqualFold scheme ''Basic'' \<and> b64Decode False True encoded = Some credential \<and> sha256 credential = credentialHash h)"
  (is "_ \<longleftrightarrow> ?R")
proof
  assume "authorized sha256 h r"
  then obtain v scheme encoded credential where
    "headerValues ''Proxy-Authorization'' (rq_Header r) = [v]" "Cut v CHR '' '' = Some (scheme, encoded)"
    "EqualFold scheme ''Basic''" "b64Decode False True encoded = Some credential" "sha256 credential = credentialHash h"
    unfolding authorized_def by (force split: list.splits option.splits prod.splits if_splits)
  then show ?R unfolding Cut_Some by auto
next
  assume ?R
  then obtain scheme encoded credential where
    "headerValues ''Proxy-Authorization'' (rq_Header r) = [scheme @ '' '' @ encoded]" "CHR '' '' \<notin> set scheme"
    "EqualFold scheme ''Basic''" "b64Decode False True encoded = Some credential" "sha256 credential = credentialHash h"
    by blast
  then show "authorized sha256 h r" by (simp add: authorized_def Cut_append)
qed

text \<open>
  (C24) Authentication of the origin, for an accepted configuration: a request is authorised if its only Proxy-Authorization value is
  the Basic credential of the configured user; and, if no other byte string has the digest of that credential, only if the value decodes
  to exactly the configured user name and password, split at the first colon.
\<close>

theorem origin_credentials:
  assumes "origin_ok env cfg" "newOriginHandler sha256 rootOk cfg = Some h"
  shows "(headerValues ''Proxy-Authorization'' (rq_Header r) = [basicValue cfg] \<longrightarrow> authorized sha256 h r) \<and>
    ((\<forall>c. sha256 c = credentialHash h \<longrightarrow> c = toBytes (Username cfg @ '':'' @ Password cfg)) \<and> authorized sha256 h r \<longrightarrow>
     (\<exists>scheme encoded credential. headerValues ''Proxy-Authorization'' (rq_Header r) = [scheme @ '' '' @ encoded] \<and>
        EqualFold scheme ''Basic'' \<and> b64Decode False True encoded = Some credential \<and>
        Cut (ofBytes credential) CHR '':'' = Some (Username cfg, Password cfg)))"
proof (intro conjI impI)
  let ?c = "toBytes (Username cfg @ '':'' @ Password cfg)"
  have h: "credentialHash h = sha256 ?c" using assms(2) by (auto simp: newOriginHandler_def split: if_splits)
  have "CHR '' '' \<notin> set ''Basic''" "EqualFold ''Basic'' ''Basic''" by (simp_all add: EqualFold_def)
  moreover have "basicValue cfg = ''Basic'' @ '' '' @ b64Encode False True ?c" by (simp add: basicValue_def)
  moreover have "b64Decode False True (b64Encode False True ?c) = Some ?c" by (rule b64.dec_enc [OF TrueI])
  ultimately show "authorized sha256 h r" if "headerValues ''Proxy-Authorization'' (rq_Header r) = [basicValue cfg]"
    using that h unfolding authorized_iff by metis
  have u: "CHR '':'' \<notin> set (Username cfg)" using assms(1) by (auto simp: origin_ok_def)
  assume a: "(\<forall>c. sha256 c = credentialHash h \<longrightarrow> c = ?c) \<and> authorized sha256 h r"
  then obtain scheme encoded credential where
    "headerValues ''Proxy-Authorization'' (rq_Header r) = [scheme @ '' '' @ encoded]" "EqualFold scheme ''Basic''"
    "b64Decode False True encoded = Some credential" "sha256 credential = credentialHash h"
    unfolding authorized_iff by blast
  moreover from this a have "ofBytes credential = Username cfg @ CHR '':'' # Password cfg" by auto
  ultimately show "\<exists>scheme encoded credential. headerValues ''Proxy-Authorization'' (rq_Header r) = [scheme @ '' '' @ encoded] \<and>
        EqualFold scheme ''Basic'' \<and> b64Decode False True encoded = Some credential \<and>
        Cut (ofBytes credential) CHR '':'' = Some (Username cfg, Password cfg)"
    using Cut_append [OF u] by metis
qed

text \<open>The example configuration with the identity for the digest.\<close>

definition exampleOrigin :: OriginConfig where
  "exampleOrigin = h3_Origin exampleH3Config"

definition exampleAuthRequest :: httpRequest where
  "exampleAuthRequest = \<lparr>rq_Method = ''CONNECT'', rq_Host = ''a:1'', rq_Header = [(canonicalKey ''Proxy-Authorization'', [basicValue exampleOrigin])]\<rparr>"

lemma exampleOrigin_ok: "origin_ok exampleH3Env exampleOrigin"
  by (simp add: origin_ok_def exampleOrigin_def exampleH3Config_def exampleH3Env_def)

lemma exampleHandler:
  "newOriginHandler (\<lambda>c. c) True exampleOrigin = Some \<lparr>credentialHash = toBytes (Username exampleOrigin @ '':'' @ Password exampleOrigin)\<rparr>"
  by (simp add: newOriginHandler_def)

theorem origin_credentials_witness:
  "authorized (\<lambda>c. c) \<lparr>credentialHash = toBytes (Username exampleOrigin @ '':'' @ Password exampleOrigin)\<rparr> exampleAuthRequest \<and>
   (\<exists>scheme encoded credential. headerValues ''Proxy-Authorization'' (rq_Header exampleAuthRequest) = [scheme @ '' '' @ encoded] \<and>
      EqualFold scheme ''Basic'' \<and> b64Decode False True encoded = Some credential \<and>
      Cut (ofBytes credential) CHR '':'' = Some (''alice'', ''secret''))"
proof -
  let ?h = "\<lparr>credentialHash = toBytes (Username exampleOrigin @ '':'' @ Password exampleOrigin)\<rparr>"
  have u: "Username exampleOrigin = ''alice''" "Password exampleOrigin = ''secret''"
    by (simp_all add: exampleOrigin_def exampleH3Config_def)
  have v: "headerValues ''Proxy-Authorization'' (rq_Header exampleAuthRequest) = [basicValue exampleOrigin]"
    by (simp add: headerValues_def exampleAuthRequest_def)
  have a: "authorized (\<lambda>c. c) ?h exampleAuthRequest"
    using origin_credentials [OF exampleOrigin_ok exampleHandler, of exampleAuthRequest] v by blast
  have "\<forall>c. c = credentialHash ?h \<longrightarrow> c = toBytes (Username exampleOrigin @ '':'' @ Password exampleOrigin)" by simp
  then show ?thesis
    using a origin_credentials [OF exampleOrigin_ok exampleHandler, of exampleAuthRequest] unfolding u by blast
qed

text \<open>
  Nothing but the website without credentials: a request is handed to the relay only if it is an authorised CONNECT, an unauthorised
  CONNECT gets 405 and never a success, so that it cannot look like a tunnel, and every other method than GET and HEAD is refused too.
\<close>

theorem origin_gate:
  "(case originServeHTTP sha256 files up streamer h r i of
      (Proxied res, i') \<Rightarrow> rq_Method r = ''CONNECT'' \<and> authorized sha256 h r \<and> (res, i') = h3Relay up streamer r i
    | (Refused code allow, i') \<Rightarrow> code = 405 \<and> rq_Method r \<notin> {''GET'', ''HEAD''} \<and> i' = i
    | (FileServer code, i') \<Rightarrow> rq_Method r \<in> {''GET'', ''HEAD''} \<and> i' = i) \<and>
   (rq_Method r = ''CONNECT'' \<and> \<not> authorized sha256 h r \<longrightarrow> originServeHTTP sha256 files up streamer h r i = (Refused 405 [''GET, HEAD''], i))"
  by (auto simp: originServeHTTP_def website_def split: prod.splits)

theorem origin_gate_witness:
  "originServeHTTP (\<lambda>c. c) (\<lambda>_. 200) sampleUpstream True \<lparr>credentialHash = [1]\<rparr> (sampleConnect\<lparr>rq_Header := []\<rparr>) 0 =
     (Refused 405 [''GET, HEAD''], 0)"
proof -
  let ?r = "sampleConnect\<lparr>rq_Header := []\<rparr>"
  have "\<not> authorized (\<lambda>c. c) \<lparr>credentialHash = [1]\<rparr> ?r" by (simp add: authorized_def headerValues_def)
  moreover have "rq_Method ?r = ''CONNECT''" by (simp add: sampleConnect_def)
  ultimately show ?thesis using origin_gate [where r = ?r and i = 0] by blast
qed

section \<open>Accepted configurations and the congestion controller\<close>

lemma ParseProfile_known: "p \<in> {''standard'', ''aggressive'', ''conservative''} \<Longrightarrow> \<exists>x. ParseProfile p = Inr x"
proof -
  have "ParseProfile ''standard'' = Inr ProfileStandard" "ParseProfile ''aggressive'' = Inr ProfileAggressive"
    "ParseProfile ''conservative'' = Inr ProfileConservative" by code_simp+
  then show "p \<in> {''standard'', ''aggressive'', ''conservative''} \<Longrightarrow> ?thesis" by auto
qed

text \<open>
  With an accepted configuration no connection is refused because of its congestion controller: the profile the
  validation lets through is one the controller knows, and the installed sender is a valid starting point.
\<close>

theorem accepted_config_congestion:
  assumes "validateAndFill env c = Inr cfg" "quic_ok q"
  shows "\<exists>b. acceptQUIC q now cfg n u = Inr b \<and> (b = None \<longleftrightarrow> cong_Type (h3_Congestion cfg) = ''cubic'') \<and>
    (\<forall>s. b = Some s \<longrightarrow> reachable q (SetRTTStatsProvider s))"
proof -
  have ok: "h3_ok env cfg" using assms(1) by (rule validateAndFill_ok)
  then obtain p where p: "ParseProfile (cong_BBRProfile (h3_Congestion cfg)) = Inr p"
    using ParseProfile_known [of "cong_BBRProfile (h3_Congestion cfg)"] by (auto simp: h3_ok_def)
  let ?s = "seedPacketSize n (GetInitialPacketSize q u)"
  note s = seedPacketSize_bounds [OF assms(2), of n u]
  have "?s \<le> 65535" using s(2) assms(2) by (simp add: quic_ok_def)
  then have "reachable q (SetRTTStatsProvider (NewBbrSender q now ?s p))" using s(1) by (intro reachable.start)
  then show ?thesis using ok p by (auto simp: acceptQUIC_def UseBBR_def h3_ok_def)
qed

theorem accepted_config_congestion_witness:
  "\<exists>cfg b. validateAndFill exampleH3Env exampleH3Config = Inr cfg \<and> acceptQUIC quic_example 0 cfg 1200 True = Inr b"
proof -
  obtain cfg where "validateAndFill exampleH3Env exampleH3Config = Inr cfg" using exampleH3_accepted by blast
  then show ?thesis using accepted_config_congestion [OF _ quic_example_ok] by blast
qed

end
