(* ===== verification/H3Serve.thy ===== *)
theory H3Serve
  imports H3Origin
begin

text \<open>
  The program of the HTTP/3 front end: \<^verbatim>\<open>main\<close> and \<^verbatim>\<open>serve\<close> of \<^verbatim>\<open>h3frontend/main.go\<close>, and the sampled traces of
  \<^verbatim>\<open>h3frontend/qlog_trace.go\<close>.  Sockets, the QUIC and HTTP servers and the certificate loader are parameters; \<^verbatim>\<open>serve\<close> is modelled by the
  resources it opens, the calls it defers to close them, and the handler and settings it installs.
\<close>

section \<open>Traces\<close>

text \<open>\<^verbatim>\<open>newSampledQLogTracerFactory\<close>: no directory, no factory; otherwise the directory must be creatable.\<close>

definition newTracerFactory :: "(string \<Rightarrow> bool) \<Rightarrow> string \<Rightarrow> string + string option" where
  "newTracerFactory mkdir dir =
     (if dir = [] then Inr None else if \<not> mkdir dir then Inl ''create qlog dir'' else Inr (Some dir))"

definition metricsSamplePeriod :: int where
  "metricsSamplePeriod = 100 * 1000000"

definition metricsEvent :: string where
  "metricsEvent = ''recovery:metrics_updated''"

definition keptEvents :: "string list" where
  "keptEvents = [''recovery:packet_lost'', ''recovery:congestion_state_updated'', ''recovery:mtu_updated'', ''transport:packet_dropped'',
     ''transport:connection_started'', ''transport:connection_closed'', ''transport:parameters_set'']"

text \<open>
  \<^verbatim>\<open>sampledRecorder.RecordEvent\<close> at the time \<open>now\<close>: whether the event is recorded, and the time of the last sample.  \<^verbatim>\<open>Time.Sub\<close> saturates.
\<close>

definition timeSub :: "int \<Rightarrow> int \<Rightarrow> int" where
  "timeSub a b = max (- 9223372036854775808) (min 9223372036854775807 (a - b))"

definition RecordEvent :: "int \<Rightarrow> string \<Rightarrow> int \<Rightarrow> bool \<times> int" where
  "RecordEvent now name lastSample =
     (if name = metricsEvent then
        if timeSub now lastSample < metricsSamplePeriod then (False, lastSample) else (True, now)
      else (name \<in> set keptEvents, lastSample))"

text \<open>The recorder over a sequence of events.\<close>

fun recordAll :: "int \<Rightarrow> (int \<times> string) list \<Rightarrow> (int \<times> string) list" where
  "recordAll lastSample [] = []"
| "recordAll lastSample ((now, name) # es) =
     (case RecordEvent now name lastSample of (keep, l) \<Rightarrow> (if keep then [(now, name)] else []) @ recordAll l es)"

section \<open>Serving\<close>

datatype h3Resource = UdpSocket | QuicTransport | QuicListener | WebRootDir | Http3Server | TcpListener | WebServer

text \<open>The open resources, and the closing calls that have been deferred, the latest first.\<close>

record serveState =
  ss_open :: "h3Resource list"
  ss_defers :: "h3Resource list"

definition noResources :: serveState where
  "noResources = \<lparr>ss_open = [], ss_defers = []\<rparr>"

definition acquire :: "h3Resource \<Rightarrow> serveState \<Rightarrow> serveState" where
  "acquire r s = \<lparr>ss_open = r # ss_open s, ss_defers = r # ss_defers s\<rparr>"

definition runDefers :: "serveState \<Rightarrow> h3Resource list" where
  "runDefers s = fold remove1 (ss_defers s) (ss_open s)"

record quicConf =
  qc_InitialPacketSize :: int
  qc_InitialStreamReceiveWindow :: int
  qc_MaxStreamReceiveWindow :: int
  qc_InitialConnectionReceiveWindow :: int
  qc_MaxConnectionReceiveWindow :: int
  qc_MaxIdleTimeout :: int
  qc_MaxIncomingStreams :: int
  qc_DisablePathMTUDiscovery :: bool
  qc_DisablePathManager :: bool
  qc_Allow0RTT :: bool
  qc_Tracer :: "string option"

definition quicConfOf :: "QUICConfig \<Rightarrow> int \<Rightarrow> string option \<Rightarrow> quicConf" where
  "quicConfOf q maxIdle tracer =
     \<lparr>qc_InitialPacketSize = quic_InitialPacketSize q, qc_InitialStreamReceiveWindow = quic_InitialStreamReceiveWindow q,
      qc_MaxStreamReceiveWindow = quic_MaxStreamReceiveWindow q, qc_InitialConnectionReceiveWindow = quic_InitialConnectionReceiveWindow q,
      qc_MaxConnectionReceiveWindow = quic_MaxConnectionReceiveWindow q, qc_MaxIdleTimeout = maxIdle,
      qc_MaxIncomingStreams = quic_MaxIncomingStreams q, qc_DisablePathMTUDiscovery = quic_DisablePathMTUDiscovery q,
      qc_DisablePathManager = quic_DisablePathManager q, qc_Allow0RTT = False, qc_Tracer = tracer\<rparr>"

datatype serve_error =
    UnsupportedMode string | LoadCert | BadIdle | QlogFailed | ResolveListen | ListenUDP | QuicListen | OpenWebsite | OriginTcpListen
  | WebsiteFailed | AcceptFailed

text \<open>The handler of requests: the relay for everybody, or the origin; with the address of the website's own listener.\<close>

datatype h3Handler = RelayHandler | OriginSite originHandler

record h3Running =
  run_conf :: quicConf
  run_handler :: h3Handler
  run_website :: "string option"

record serveEnv =
  se_h3 :: h3Env
  se_keyPair :: "string \<Rightarrow> string \<Rightarrow> bool"
  se_qlogDir :: string
  se_mkdir :: "string \<Rightarrow> bool"
  se_resolveUDP :: "string \<Rightarrow> bool"
  se_listenUDP :: bool
  se_quicListen :: bool
  se_openRoot :: bool
  se_listenTCP :: bool
  se_sha256 :: "byte list \<Rightarrow> byte list"

definition serveStart :: "serveEnv \<Rightarrow> h3Config \<Rightarrow> (serve_error + h3Running) \<times> serveState" where
  "serveStart env cfg =
     (let s0 = noResources in
      if h3_Mode cfg \<noteq> ''origin'' \<and> h3_Mode cfg \<noteq> ''tls'' then (Inl (UnsupportedMode (h3_Mode cfg)), s0)
      else if \<not> se_keyPair env (h3_Cert (h3_TLS cfg)) (h3_Key (h3_TLS cfg)) then (Inl LoadCert, s0)
      else case ParseDuration (se_h3 env) (quic_MaxIdleTimeout (h3_QUIC cfg)) of
        None \<Rightarrow> (Inl BadIdle, s0)
      | Some maxIdle \<Rightarrow>
          (case newTracerFactory (se_mkdir env) (se_qlogDir env) of
             Inl e \<Rightarrow> (Inl QlogFailed, s0)
           | Inr tracer \<Rightarrow>
               let conf = quicConfOf (h3_QUIC cfg) maxIdle tracer in
               if \<not> se_resolveUDP env (h3_Listen cfg) then (Inl ResolveListen, s0)
               else if \<not> se_listenUDP env then (Inl ListenUDP, s0)
               else
                 let s1 = acquire QuicTransport (acquire UdpSocket s0) in
                 if \<not> se_quicListen env then (Inl QuicListen, s1)
                 else
                   let s2 = acquire QuicListener s1 in
                   if h3_Mode cfg = ''origin'' then
                     (case newOriginHandler (se_sha256 env) (se_openRoot env) (h3_Origin cfg) of
                        None \<Rightarrow> (Inl OpenWebsite, s2)
                      | Some h \<Rightarrow>
                          let s3 = acquire Http3Server (acquire WebRootDir s2) in
                          if TCPListen (h3_Origin cfg) \<noteq> [] then
                            if \<not> se_listenTCP env then (Inl OriginTcpListen, s3)
                            else (Inr \<lparr>run_conf = conf, run_handler = OriginSite h, run_website = Some (TCPListen (h3_Origin cfg))\<rparr>,
                                  acquire WebServer (acquire TcpListener s3))
                          else (Inr \<lparr>run_conf = conf, run_handler = OriginSite h, run_website = None\<rparr>, s3))
                   else (Inr \<lparr>run_conf = conf, run_handler = RelayHandler, run_website = None\<rparr>, acquire Http3Server s2)))"

text \<open>
  The accept loop: what becomes of every accepted connection until \<^verbatim>\<open>Accept\<close> fails; then whether the website has reported an error and whether the
  context is done decide what is returned.
\<close>

datatype acceptEvent = AcceptedConn int bool | AcceptError bool bool

fun serveLoop ::
  "quic_params \<Rightarrow> mtime \<Rightarrow> h3Config \<Rightarrow> acceptEvent list \<Rightarrow> (congestion_error + bbrSender option) list \<times> serve_error option option"
where
  "serveLoop q now cfg [] = ([], None)"
| "serveLoop q now cfg (AcceptedConn ps u # es) =
     (case serveLoop q now cfg es of (cs, r) \<Rightarrow> (acceptQUIC q now cfg ps u # cs, r))"
| "serveLoop q now cfg (AcceptError webErr stopped # es) =
     ([], Some (if webErr then Some WebsiteFailed else if stopped then None else Some AcceptFailed))"

text \<open>How the installed handler answers a request.\<close>

definition h3Answer ::
  "serveEnv \<Rightarrow> (httpRequest \<Rightarrow> int) \<Rightarrow> upstream \<Rightarrow> bool \<Rightarrow> h3Handler \<Rightarrow> httpRequest \<Rightarrow> int \<Rightarrow> originAnswer \<times> int"
where
  "h3Answer env files up streamer hdl r i =
     (case hdl of
        RelayHandler \<Rightarrow> (case h3Relay up streamer r i of (res, i') \<Rightarrow> (Proxied res, i'))
      | OriginSite h \<Rightarrow> originServeHTTP (se_sha256 env) files up streamer h r i)"

section \<open>The command line\<close>

datatype h3Command = ServeConfig string | CheckConfig string | CheckUsage | ShowHelp | GenkeyRemoved

text \<open>The arguments after the name of the program.\<close>

definition h3Args :: "string list \<Rightarrow> h3Command" where
  "h3Args args =
     (case args of
        [] \<Rightarrow> ServeConfig ''h3frontend.toml''
      | a # rest \<Rightarrow>
          if a = ''check'' then (case rest of [p] \<Rightarrow> CheckConfig p | _ \<Rightarrow> CheckUsage)
          else if a = ''-h'' \<or> a = ''--help'' then ShowHelp
          else if a = ''genkey'' then GenkeyRemoved
          else ServeConfig a)"

text \<open>
  The exit code, and the configuration that \<^verbatim>\<open>serve\<close> is called with, if it is; \<open>load\<close> reads a configuration, and \<open>served\<close> says whether \<^verbatim>\<open>serve\<close> ended
  with an error other than the end of the context.
\<close>

definition h3Main :: "serveEnv \<Rightarrow> (string \<Rightarrow> h3_error + h3Config) \<Rightarrow> (h3Config \<Rightarrow> bool) \<Rightarrow> string list \<Rightarrow> int \<times> h3Config option" where
  "h3Main env load served args =
     (case h3Args args of
        CheckUsage \<Rightarrow> (2, None)
      | ShowHelp \<Rightarrow> (0, None)
      | GenkeyRemoved \<Rightarrow> (1, None)
      | CheckConfig path \<Rightarrow>
          (case load path of
             Inl e \<Rightarrow> (1, None)
           | Inr cfg \<Rightarrow> if se_keyPair env (h3_Cert (h3_TLS cfg)) (h3_Key (h3_TLS cfg)) then (0, None) else (1, None))
      | ServeConfig path \<Rightarrow>
          (case load path of
             Inl e \<Rightarrow> (1, None)
           | Inr cfg \<Rightarrow> (if served cfg then 1 else 0, Some cfg)))"

datatype logLevel = LevelDebug | LevelInfo | LevelWarn | LevelError

definition setLogLevel :: "string \<Rightarrow> logLevel" where
  "setLogLevel level =
     (if level = ''debug'' then LevelDebug else if level = ''warn'' then LevelWarn else if level = ''error'' then LevelError else LevelInfo)"

section \<open>Properties\<close>

lemma RecordEvent_metrics:
  "fst (RecordEvent now metricsEvent l) \<longleftrightarrow> metricsSamplePeriod \<le> timeSub now l"
  by (simp add: RecordEvent_def)

lemma timeSub_ge: "0 \<le> p \<Longrightarrow> p \<le> 9223372036854775807 \<Longrightarrow> p \<le> timeSub a b \<longleftrightarrow> p \<le> a - b"
  by (auto simp: timeSub_def)

lemma metrics_not_kept: "metricsEvent \<notin> set keptEvents"
  by (simp add: metricsEvent_def keptEvents_def)

lemma recordAll_after:
  "\<forall>(t, n) \<in> set (filter (\<lambda>e. snd e = metricsEvent) (recordAll l es)). metricsSamplePeriod \<le> t - l"
proof (induction l es rule: recordAll.induct)
  case (2 l now name es)
  obtain keep l' where r: "RecordEvent now name l = (keep, l')" by fastforce
  note IH = 2 [OF r [symmetric]]
  have p: "0 \<le> metricsSamplePeriod" by (simp add: metricsSamplePeriod_def)
  consider "l' = l" "name = metricsEvent \<longrightarrow> \<not> keep" | "name = metricsEvent" keep "l' = now" "metricsSamplePeriod \<le> now - l"
    using r timeSub_ge [of metricsSamplePeriod now l] by (auto simp: RecordEvent_def metricsSamplePeriod_def split: if_splits)
  then show ?case
  proof cases
    case 1
    then show ?thesis using IH by (auto simp: r)
  next
    case 2
    then show ?thesis using IH p r by fastforce
  qed
qed simp

text \<open>
  Sampling: the recorded metrics are at least 100 ms apart, whatever the clock does; and of the other events exactly the kept kinds are
  recorded, all of them, in their order.
\<close>

theorem qlog_sampling:
  "sorted_wrt (\<lambda>(t, _) (u, _). metricsSamplePeriod \<le> u - t) (filter (\<lambda>e. snd e = metricsEvent) (recordAll l es)) \<and>
   filter (\<lambda>e. snd e \<noteq> metricsEvent) (recordAll l es) = filter (\<lambda>e. snd e \<in> set keptEvents) es"
proof (induction l es rule: recordAll.induct)
  case (2 l now name es)
  obtain keep l' where r: "RecordEvent now name l = (keep, l')" by fastforce
  note IH = 2 [OF r [symmetric]]
  show ?case
  proof (cases "name = metricsEvent")
    case True
    then have "keep \<Longrightarrow> l' = now" using r by (auto simp: RecordEvent_def split: if_splits)
    then show ?thesis using IH recordAll_after [of now es] metrics_not_kept r by (auto simp: True)
  next
    case False
    then have "keep \<longleftrightarrow> name \<in> set keptEvents" using r by (auto simp: RecordEvent_def)
    then show ?thesis using IH False by (simp add: r)
  qed
qed simp

lemma acquire_simps [simp]: "ss_open (acquire r s) = r # ss_open s" "ss_defers (acquire r s) = r # ss_defers s"
  "ss_open noResources = []" "ss_defers noResources = []"
  by (simp_all add: acquire_def noResources_def)

text \<open>
  \<^verbatim>\<open>serve\<close> leaves nothing open: on every path, whether it fails at any step of its start or its accept loop ends, its deferred calls close each
  resource it has opened, in the reverse order, and no other.
\<close>

theorem serve_releases_all:
  "case serveStart env cfg of (r, s) \<Rightarrow> runDefers s = [] \<and> ss_defers s = ss_open s \<and> distinct (ss_open s) \<and>
     (\<forall>run. r = Inr run \<longrightarrow> {UdpSocket, QuicTransport, QuicListener, Http3Server} \<subseteq> set (ss_open s) \<and>
        (WebRootDir \<in> set (ss_open s) \<longleftrightarrow> run_handler run \<noteq> RelayHandler) \<and>
        (TcpListener \<in> set (ss_open s) \<longleftrightarrow> run_website run \<noteq> None) \<and> (WebServer \<in> set (ss_open s) \<longleftrightarrow> run_website run \<noteq> None))"
  by (auto simp: serveStart_def runDefers_def Let_def split: sum.splits option.splits)

text \<open>What the start of an accepted configuration depends on.\<close>

definition systemFine :: "serveEnv \<Rightarrow> h3Config \<Rightarrow> bool" where
  "systemFine env cfg \<longleftrightarrow>
     se_keyPair env (h3_Cert (h3_TLS cfg)) (h3_Key (h3_TLS cfg)) \<and> (se_qlogDir env = [] \<or> se_mkdir env (se_qlogDir env)) \<and>
     se_resolveUDP env (h3_Listen cfg) \<and> se_listenUDP env \<and> se_quicListen env \<and> (h3_Mode cfg = ''origin'' \<longrightarrow> se_openRoot env) \<and>
     (h3_Mode cfg = ''origin'' \<and> TCPListen (h3_Origin cfg) \<noteq> [] \<longrightarrow> se_listenTCP env)"

text \<open>
  (C23) Starting with an accepted configuration: it fails only if the certificate, the trace directory, a socket or the web root cannot be
  opened; and when it runs, the QUIC settings respect the limits of the validation, data before the handshake is not allowed, and
  without the mode \<^verbatim>\<open>tls\<close> a request reaches the relay only as a CONNECT with the credentials of the configuration.
\<close>

theorem h3_accepted_serves:
  assumes "validateAndFill (se_h3 env) c = Inr cfg"
  shows "((\<exists>run s. serveStart env cfg = (Inr run, s)) \<longleftrightarrow> systemFine env cfg) \<and>
    (\<forall>run s. serveStart env cfg = (Inr run, s) \<longrightarrow>
       \<not> qc_Allow0RTT (run_conf run) \<and> 1200 \<le> qc_InitialPacketSize (run_conf run) \<and> 8 \<le> qc_MaxIncomingStreams (run_conf run) \<and>
       16384 \<le> qc_MaxStreamReceiveWindow (run_conf run) \<and> 16384 \<le> qc_MaxConnectionReceiveWindow (run_conf run) \<and>
       (h3_Mode cfg \<noteq> ''tls'' \<longrightarrow> (\<forall>files up streamer r i res i'.
          h3Answer env files up streamer (run_handler run) r i = (Proxied res, i') \<longrightarrow>
            rq_Method r = ''CONNECT'' \<and>
            authorized (se_sha256 env) \<lparr>credentialHash = se_sha256 env (toBytes (Username (h3_Origin cfg) @ '':'' @ Password (h3_Origin cfg)))\<rparr> r)))"
proof -
  have ok: "h3_ok (se_h3 env) cfg" using assms by (rule validateAndFill_ok)
  then have q: "quic_cfg_ok (se_h3 env) (h3_QUIC cfg)" and mode: "h3_Mode cfg \<in> {''tls'', ''origin''}" by (auto simp: h3_ok_def)
  then obtain idle where idle: "ParseDuration (se_h3 env) (quic_MaxIdleTimeout (h3_QUIC cfg)) = Some idle" by (auto simp: quic_cfg_ok_def)
  have run: "(\<exists>run s. serveStart env cfg = (Inr run, s)) \<longleftrightarrow> systemFine env cfg"
    using mode by (auto simp: serveStart_def systemFine_def Let_def idle newTracerFactory_def newOriginHandler_def)
  have "\<not> qc_Allow0RTT (run_conf r) \<and> 1200 \<le> qc_InitialPacketSize (run_conf r) \<and> 8 \<le> qc_MaxIncomingStreams (run_conf r) \<and>
      16384 \<le> qc_MaxStreamReceiveWindow (run_conf r) \<and> 16384 \<le> qc_MaxConnectionReceiveWindow (run_conf r) \<and>
      (h3_Mode cfg \<noteq> ''tls'' \<longrightarrow>
        run_handler r = OriginSite \<lparr>credentialHash = se_sha256 env (toBytes (Username (h3_Origin cfg) @ '':'' @ Password (h3_Origin cfg)))\<rparr>)"
    if "serveStart env cfg = (Inr r, s)" for r s
    using that q mode by (auto simp: serveStart_def Let_def idle quicConfOf_def quic_cfg_ok_def newOriginHandler_def
        split: if_splits sum.splits)
  moreover have "rq_Method r = ''CONNECT'' \<and> authorized (se_sha256 env) h r"
    if "h3Answer env files up streamer (OriginSite h) r i = (Proxied res, i')" for h files up streamer r i res i'
    using that by (auto simp: h3Answer_def originServeHTTP_def website_def split: if_splits prod.splits)
  ultimately show ?thesis using run by auto
qed

definition exampleServeEnv :: serveEnv where
  "exampleServeEnv = \<lparr>se_h3 = exampleH3Env, se_keyPair = (\<lambda>_ _. True), se_qlogDir = [], se_mkdir = (\<lambda>_. False), se_resolveUDP = (\<lambda>_. True),
     se_listenUDP = True, se_quicListen = True, se_openRoot = True, se_listenTCP = False, se_sha256 = (\<lambda>c. c)\<rparr>"

theorem h3_accepted_serves_witness:
  "\<exists>cfg run s. validateAndFill (se_h3 exampleServeEnv) exampleH3Config = Inr cfg \<and> serveStart exampleServeEnv cfg = (Inr run, s)"
proof -
  obtain cfg where c: "validateAndFill exampleH3Env exampleH3Config = Inr cfg" using exampleH3_accepted by blast
  then have "TCPListen (h3_Origin cfg) = []" by (auto simp: validateAndFill_def bindS_Inr Let_def exampleH3Config_def)
  then have "systemFine exampleServeEnv cfg" by (simp add: systemFine_def exampleServeEnv_def)
  moreover have v: "validateAndFill (se_h3 exampleServeEnv) exampleH3Config = Inr cfg" using c by (simp add: exampleServeEnv_def)
  ultimately show ?thesis using h3_accepted_serves [OF v] by blast
qed

text \<open>
  \<^verbatim>\<open>check\<close> starts nothing, and exits with 0 exactly if the configuration is accepted and the key pair can be loaded; \<^verbatim>\<open>serve\<close> is called only with
  a configuration that was loaded.
\<close>

theorem h3_main_outcomes:
  "(h3Args args = CheckConfig p \<longrightarrow> snd (h3Main env load served args) = None \<and>
     (fst (h3Main env load served args) = 0 \<longleftrightarrow> (\<exists>cfg. load p = Inr cfg \<and> se_keyPair env (h3_Cert (h3_TLS cfg)) (h3_Key (h3_TLS cfg))))) \<and>
   (\<forall>cfg. snd (h3Main env load served args) = Some cfg \<longrightarrow> (\<exists>p. h3Args args = ServeConfig p \<and> load p = Inr cfg)) \<and>
   fst (h3Main env load served args) \<in> {0, 1, 2}"
  by (auto simp: h3Main_def split: h3Command.splits sum.splits)

theorem h3_main_outcomes_witness: "snd (h3Main exampleServeEnv (\<lambda>_. Inr exampleH3Config) (\<lambda>_. False) [''check'', ''x'']) = None"
  using h3_main_outcomes [of "[''check'', ''x'']" "''x''" exampleServeEnv "\<lambda>_. Inr exampleH3Config" "\<lambda>_. False"] by (simp add: h3Args_def)

end
