(* ===== verification/TcpConfig.thy ===== *)
theory TcpConfig
  imports Validation
begin

text \<open>
  \<^verbatim>\<open>frontend/config.go\<close>, \<^verbatim>\<open>reality.go\<close> and \<^verbatim>\<open>genkey.go\<close>: the configuration of the TCP front end, its defaults and
  validation, the keys and short identifiers of REALITY, and the server configuration built from them.  The TOML
  decoder, \<^verbatim>\<open>os.Stat\<close> and the generator of key pairs are parameters.
\<close>

section \<open>The configuration\<close>

record RealityConfig =
  fe_PrivateKey :: string
  fe_ShortIDs :: "string list"
  fe_ServerNames :: "string list"
  fe_Target :: string
  fe_RelayEnabled :: "bool option"
  fe_MaxTimeDiff :: int

record TLSConfig =
  fe_Cert :: string
  fe_Key :: string

record InboundConfig =
  fe_Listen :: string
  fe_Mode :: string
  fe_Reality :: RealityConfig
  fe_TLS :: TLSConfig

record LimitsConfig =
  fe_MaxConnections :: int
  fe_MaxRelays :: int
  fe_HandshakeTimeout :: int
  fe_IdleTimeout :: int

record StatusConfig =
  fe_HTTP :: string
  fe_Token :: string

record feConfig =
  fe_LogLevel :: string
  fe_Inbound :: InboundConfig
  fe_Upstream :: string
  fe_Limits :: LimitsConfig
  fe_Status :: StatusConfig

datatype fe_error =
    FeBadLogLevel string | FeBadListen string addr_error | FeBadUpstream string addr_error | FeBadMode string
  | KeyRequired | NoServerNames | EmptyServerName nat | KeyNotBase64 | KeyLength nat | NoShortIDs | BadShortID string
  | NegativeTimeDiff | BadTarget string addr_error | CertRequired | NoCertFile string | NegativeLimit string
  | BadStatus string addr_error | TokenRequired | FeReadFailed string | FeParseFailed string | KeyUnusable

definition parseRealityPrivateKey :: "string \<Rightarrow> fe_error + byte list" where
  "parseRealityPrivateKey s =
     (case b64Decode True False (TrimSpace s) of
        None \<Rightarrow> Inl KeyNotBase64
      | Some b \<Rightarrow> if length b \<noteq> 32 then Inl (KeyLength (length b)) else Inr b)"

definition parseShortID :: "string \<Rightarrow> fe_error + byte list" where
  "parseShortID s =
     (if s \<noteq> [] then
        (case hexDecode (TrimSpace s) of
           None \<Rightarrow> Inl (BadShortID s)
         | Some b \<Rightarrow> if 8 < length b then Inl (BadShortID s) else Inr (go_copy (replicate 8 0) b))
      else Inr (replicate 8 0))"

fun parseShortIDs :: "byte list set \<Rightarrow> string list \<Rightarrow> fe_error + byte list set" where
  "parseShortIDs m [] = Inr m"
| "parseShortIDs m (s # list) = bindS (parseShortID s) (\<lambda>x. parseShortIDs (insert x m) list)"

fun trimNames :: "nat \<Rightarrow> string list \<Rightarrow> fe_error + string list" where
  "trimNames i [] = Inr []"
| "trimNames i (n # ns) =
     (let name = TrimSpace n in
      if name = [] then Inl (EmptyServerName i) else bindS (trimNames (i + 1) ns) (\<lambda>ns'. Inr (name # ns')))"

definition checkReality :: "RealityConfig \<Rightarrow> fe_error + RealityConfig" where
  "checkReality r =
     bindS (require (fe_PrivateKey r \<noteq> []) KeyRequired) (\<lambda>_.
     bindS (require (fe_ServerNames r \<noteq> []) NoServerNames) (\<lambda>_.
     bindS (trimNames 0 (fe_ServerNames r)) (\<lambda>names.
     bindS (parseRealityPrivateKey (fe_PrivateKey r)) (\<lambda>_.
     bindS (require (fe_ShortIDs r \<noteq> []) NoShortIDs) (\<lambda>_.
     bindS (parseShortIDs {} (fe_ShortIDs r)) (\<lambda>_.
     bindS (require (0 \<le> fe_MaxTimeDiff r) NegativeTimeDiff) (\<lambda>_.
     let target = orDefault (fe_Target r) (hd names @ '':443'') in
     bindS (splitOk target (BadTarget target)) (\<lambda>_.
       Inr (r\<lparr>fe_ServerNames := names, fe_Target := target\<rparr>)))))))))"

definition checkTLS :: "(string \<Rightarrow> fileKind) \<Rightarrow> TLSConfig \<Rightarrow> fe_error + unit" where
  "checkTLS stat t =
     bindS (require (fe_Cert t \<noteq> [] \<and> fe_Key t \<noteq> []) CertRequired) (\<lambda>_.
     bindS (require (stat (fe_Cert t) \<noteq> Missing) (NoCertFile (fe_Cert t))) (\<lambda>_.
     require (stat (fe_Key t) \<noteq> Missing) (NoCertFile (fe_Key t))))"

definition limit :: "string \<Rightarrow> int \<Rightarrow> int \<Rightarrow> fe_error + int" where
  "limit name v def = (if v < 0 then Inl (NegativeLimit name) else if v = 0 then Inr def else Inr v)"

definition checkLimits :: "LimitsConfig \<Rightarrow> fe_error + LimitsConfig" where
  "checkLimits l =
     bindS (limit ''limits.max_connections'' (fe_MaxConnections l) 1024) (\<lambda>mc.
     bindS (limit ''limits.max_relays'' (fe_MaxRelays l) 64) (\<lambda>mr.
     bindS (limit ''limits.handshake_timeout'' (fe_HandshakeTimeout l) (10 * Second)) (\<lambda>ht.
     bindS (limit ''limits.idle_timeout'' (fe_IdleTimeout l) (300 * Second)) (\<lambda>it.
       Inr (l\<lparr>fe_MaxConnections := mc, fe_MaxRelays := mr, fe_HandshakeTimeout := ht, fe_IdleTimeout := it\<rparr>)))))"

definition checkStatus :: "StatusConfig \<Rightarrow> fe_error + unit" where
  "checkStatus s =
     (if fe_HTTP s \<noteq> [] then
        bindS (splitOk (fe_HTTP s) (BadStatus (fe_HTTP s))) (\<lambda>_. require (TrimSpace (fe_Token s) \<noteq> []) TokenRequired)
      else Inr ())"

definition checkInbound :: "(string \<Rightarrow> fileKind) \<Rightarrow> InboundConfig \<Rightarrow> fe_error + InboundConfig" where
  "checkInbound stat i =
     bindS (if fe_Mode i = [] then Inr ''reality''
            else if fe_Mode i = ''reality'' \<or> fe_Mode i = ''tls'' then Inr (fe_Mode i)
            else Inl (FeBadMode (fe_Mode i))) (\<lambda>m.
     if m = ''reality'' then bindS (checkReality (fe_Reality i)) (\<lambda>r. Inr (i\<lparr>fe_Mode := m, fe_Reality := r\<rparr>))
     else bindS (checkTLS stat (fe_TLS i)) (\<lambda>_. Inr (i\<lparr>fe_Mode := m\<rparr>)))"

definition applyDefaultsAndValidate :: "(string \<Rightarrow> fileKind) \<Rightarrow> feConfig \<Rightarrow> fe_error + feConfig" where
  "applyDefaultsAndValidate stat c =
     (let lvl = orDefault (fe_LogLevel c) ''info''; lis = orDefault (fe_Listen (fe_Inbound c)) ''0.0.0.0:443'';
          up = orDefault (fe_Upstream c) ''127.0.0.1:8080'' in
      bindS (require (lvl \<in> set logLevels) (FeBadLogLevel lvl)) (\<lambda>_.
      bindS (splitOk lis (FeBadListen lis)) (\<lambda>_.
      bindS (splitOk up (FeBadUpstream up)) (\<lambda>_.
      bindS (checkInbound stat ((fe_Inbound c)\<lparr>fe_Listen := lis\<rparr>)) (\<lambda>inb.
      bindS (checkLimits (fe_Limits c)) (\<lambda>lim.
      bindS (checkStatus (fe_Status c)) (\<lambda>_.
        Inr (c\<lparr>fe_LogLevel := lvl, fe_Inbound := inb, fe_Upstream := up, fe_Limits := lim\<rparr>))))))))"

text \<open>\<^verbatim>\<open>LoadConfig\<close>: the outcome of reading the file and of decoding it.\<close>

definition loadFrontend :: "(string \<Rightarrow> fileKind) \<Rightarrow> string + (string + feConfig) \<Rightarrow> fe_error + feConfig" where
  "loadFrontend stat f =
     (case f of
        Inl e \<Rightarrow> Inl (FeReadFailed e)
      | Inr (Inl e) \<Rightarrow> Inl (FeParseFailed e)
      | Inr (Inr c) \<Rightarrow> applyDefaultsAndValidate stat c)"

section \<open>The REALITY server configuration\<close>

record realityServer =
  rc_ServerNames :: "string set"
  rc_PrivateKey :: "byte list"
  rc_ShortIds :: "byte list set"
  rc_MaxTimeDiff :: int
  rc_SessionTicketsDisabled :: bool
  rc_MinVersion :: string
  rc_MaxVersion :: string
  rc_NextProtos :: "string list"
  rc_Type :: string
  rc_Dest :: string

text \<open>\<^verbatim>\<open>ecdh.X25519().NewPrivateKey\<close> accepts every key of 32 bytes.\<close>

definition buildRealityConfig :: "feConfig \<Rightarrow> fe_error + realityServer" where
  "buildRealityConfig cfg =
     (let r = fe_Reality (fe_Inbound cfg) in
      bindS (parseRealityPrivateKey (fe_PrivateKey r)) (\<lambda>priv.
      bindS (require (length priv = 32) KeyUnusable) (\<lambda>_.
      bindS (parseShortIDs {} (fe_ShortIDs r)) (\<lambda>ids.
        Inr \<lparr>rc_ServerNames = set (fe_ServerNames r), rc_PrivateKey = priv, rc_ShortIds = ids,
             rc_MaxTimeDiff = i64 (fe_MaxTimeDiff r * Millisecond), rc_SessionTicketsDisabled = True,
             rc_MinVersion = ''TLS13'', rc_MaxVersion = ''TLS13'', rc_NextProtos = [''h2''], rc_Type = ''tcp'',
             rc_Dest = fe_Target r\<rparr>))))"

text \<open>\<^verbatim>\<open>generateKeypair\<close>: the generator gives the private key and its public key, or fails.\<close>

definition generateKeypair :: "string + (byte list \<times> byte list) \<Rightarrow> string + (string \<times> string)" where
  "generateKeypair gen =
     (case gen of
        Inl e \<Rightarrow> Inl e
      | Inr (priv, pub) \<Rightarrow> Inr (b64Encode True False priv, b64Encode True False pub))"

section \<open>Accepted configurations\<close>

definition reality_ok :: "RealityConfig \<Rightarrow> bool" where
  "reality_ok r \<longleftrightarrow> fe_PrivateKey r \<noteq> [] \<and> (\<exists>k. parseRealityPrivateKey (fe_PrivateKey r) = Inr k) \<and>
     fe_ServerNames r \<noteq> [] \<and> (\<forall>n \<in> set (fe_ServerNames r). n \<noteq> [] \<and> TrimSpace n = n) \<and>
     fe_ShortIDs r \<noteq> [] \<and> (\<forall>s \<in> set (fe_ShortIDs r). \<exists>x. parseShortID s = Inr x) \<and> 0 \<le> fe_MaxTimeDiff r \<and>
     fe_Target r \<noteq> [] \<and> (\<exists>p. SplitHostPort (fe_Target r) = Inr p)"

definition tls_ok :: "(string \<Rightarrow> fileKind) \<Rightarrow> TLSConfig \<Rightarrow> bool" where
  "tls_ok stat t \<longleftrightarrow> fe_Cert t \<noteq> [] \<and> fe_Key t \<noteq> [] \<and> stat (fe_Cert t) \<noteq> Missing \<and> stat (fe_Key t) \<noteq> Missing"

definition limits_ok :: "LimitsConfig \<Rightarrow> bool" where
  "limits_ok l \<longleftrightarrow> 0 < fe_MaxConnections l \<and> 0 < fe_MaxRelays l \<and> 0 < fe_HandshakeTimeout l \<and> 0 < fe_IdleTimeout l"

definition fe_ok :: "(string \<Rightarrow> fileKind) \<Rightarrow> feConfig \<Rightarrow> bool" where
  "fe_ok stat c \<longleftrightarrow> fe_LogLevel c \<in> set logLevels \<and>
     fe_Listen (fe_Inbound c) \<noteq> [] \<and> (\<exists>p. SplitHostPort (fe_Listen (fe_Inbound c)) = Inr p) \<and>
     fe_Upstream c \<noteq> [] \<and> (\<exists>p. SplitHostPort (fe_Upstream c) = Inr p) \<and>
     (fe_Mode (fe_Inbound c) = ''reality'' \<and> reality_ok (fe_Reality (fe_Inbound c)) \<or>
      fe_Mode (fe_Inbound c) = ''tls'' \<and> tls_ok stat (fe_TLS (fe_Inbound c))) \<and>
     limits_ok (fe_Limits c) \<and>
     (fe_HTTP (fe_Status c) \<noteq> [] \<longrightarrow> (\<exists>p. SplitHostPort (fe_HTTP (fe_Status c)) = Inr p) \<and> TrimSpace (fe_Token (fe_Status c)) \<noteq> [])"

lemma trimNames_Inr: "trimNames i ns = Inr ns' \<Longrightarrow> length ns' = length ns \<and> (\<forall>n \<in> set ns'. n \<noteq> [] \<and> TrimSpace n = n)"
  by (induction ns arbitrary: i ns') (fastforce simp: Let_def bindS_Inr TrimSpace_idem split: if_splits)+

lemma trimNames_fix: "(\<forall>n \<in> set ns. n \<noteq> [] \<and> TrimSpace n = n) \<Longrightarrow> trimNames i ns = Inr ns"
  by (induction ns arbitrary: i) (auto simp: Let_def bindS_def)

lemma parseShortIDs_Inr:
  "parseShortIDs m list = Inr m' \<longleftrightarrow> (\<forall>s \<in> set list. \<exists>x. parseShortID s = Inr x) \<and> m' = m \<union> {x. \<exists>s \<in> set list. parseShortID s = Inr x}"
  by (induction m list arbitrary: m' rule: parseShortIDs.induct) (auto simp: bindS_Inr)

lemma parseShortID_length: "parseShortID s = Inr x \<Longrightarrow> length x = 8"
  by (auto simp: parseShortID_def split: if_splits option.splits)

lemma checkReality_Inr:
  assumes "checkReality r = Inr r'"
  shows "reality_ok r'"
proof -
  obtain names m where n: "trimNames 0 (fe_ServerNames r) = Inr names" "fe_ServerNames r \<noteq> []" and
    k: "fe_PrivateKey r \<noteq> []" "\<exists>k. parseRealityPrivateKey (fe_PrivateKey r) = Inr k" and
    i: "fe_ShortIDs r \<noteq> []" "parseShortIDs {} (fe_ShortIDs r) = Inr m" "0 \<le> fe_MaxTimeDiff r" and
    t: "\<exists>p. SplitHostPort (orDefault (fe_Target r) (hd names @ '':443'')) = Inr p" and
    r': "r' = r\<lparr>fe_ServerNames := names, fe_Target := orDefault (fe_Target r) (hd names @ '':443'')\<rparr>"
    using assms unfolding checkReality_def bindS_Inr Let_def require_Inr splitOk_Inr sum.inject by blast
  have "orDefault (fe_Target r) (hd names @ '':443'') \<noteq> []" by (rule orDefault_nonempty) simp
  then show ?thesis using trimNames_Inr [OF n(1)] n k i t by (auto simp: r' reality_ok_def parseShortIDs_Inr)
qed

lemma checkReality_fix:
  assumes "reality_ok r"
  shows "checkReality r = Inr r"
proof -
  have "trimNames 0 (fe_ServerNames r) = Inr (fe_ServerNames r)" using assms by (intro trimNames_fix) (simp add: reality_ok_def)
  moreover have "\<exists>m. parseShortIDs {} (fe_ShortIDs r) = Inr m" using assms by (simp add: parseShortIDs_Inr reality_ok_def)
  ultimately show ?thesis using assms
    by (auto simp: checkReality_def bindS_def reality_ok_def require_def orDefault_nonempty splitOk_def Let_def)
qed

lemma limit_Inr: "limit n v d = Inr w \<Longrightarrow> 0 < d \<Longrightarrow> 0 < w"
  by (auto simp: limit_def split: if_splits)

lemma checkLimits_Inr: "checkLimits l = Inr l' \<Longrightarrow> limits_ok l'"
  by (auto simp: checkLimits_def bindS_Inr limits_ok_def dest!: limit_Inr)

lemma checkLimits_fix: "limits_ok l \<Longrightarrow> checkLimits l = Inr l"
  by (simp add: checkLimits_def limits_ok_def limit_def bindS_def)

lemma checkStatus_Inr:
  "checkStatus s = Inr u \<longleftrightarrow> (fe_HTTP s \<noteq> [] \<longrightarrow> (\<exists>p. SplitHostPort (fe_HTTP s) = Inr p) \<and> TrimSpace (fe_Token s) \<noteq> [])"
  by (auto simp: checkStatus_def bindS_Inr)

lemma checkTLS_Inr: "checkTLS stat t = Inr u \<longleftrightarrow> tls_ok stat t"
  by (auto simp: checkTLS_def bindS_Inr tls_ok_def)

lemma checkInbound_Inr:
  "checkInbound stat i = Inr i' \<Longrightarrow> fe_Listen i' = fe_Listen i \<and>
     (fe_Mode i' = ''reality'' \<and> reality_ok (fe_Reality i') \<or> fe_Mode i' = ''tls'' \<and> tls_ok stat (fe_TLS i'))"
  by (auto simp: checkInbound_def bindS_Inr checkTLS_Inr checkReality_Inr split: if_splits)

lemma checkInbound_fix:
  assumes "fe_Mode i = ''reality'' \<and> reality_ok (fe_Reality i) \<or> fe_Mode i = ''tls'' \<and> tls_ok stat (fe_TLS i)"
  shows "checkInbound stat i = Inr i"
proof -
  have "tls_ok stat (fe_TLS i) \<Longrightarrow> checkTLS stat (fe_TLS i) = Inr ()" by (simp add: checkTLS_Inr)
  then show ?thesis using assms by (auto simp: checkInbound_def bindS_def checkReality_fix)
qed

lemma applyDefaults_ok: "applyDefaultsAndValidate stat c = Inr c' \<Longrightarrow> fe_ok stat c'"
  by (auto simp: applyDefaultsAndValidate_def bindS_Inr Let_def fe_ok_def orDefault_nonempty checkLimits_Inr checkStatus_Inr
      dest!: checkInbound_Inr)

lemma applyDefaults_fix:
  assumes "fe_ok stat c"
  shows "applyDefaultsAndValidate stat c = Inr c"
proof -
  have "fe_LogLevel c \<noteq> []" using assms by (auto simp: fe_ok_def logLevels_def)
  moreover have "checkStatus (fe_Status c) = Inr ()" using assms by (simp add: checkStatus_Inr fe_ok_def)
  moreover have "checkInbound stat (fe_Inbound c) = Inr (fe_Inbound c)" using assms by (intro checkInbound_fix) (simp add: fe_ok_def)
  moreover have "checkLimits (fe_Limits c) = Inr (fe_Limits c)" using assms by (intro checkLimits_fix) (simp add: fe_ok_def)
  ultimately show ?thesis using assms
    by (auto simp: applyDefaultsAndValidate_def bindS_def Let_def fe_ok_def orDefault_nonempty require_def splitOk_def split: sum.splits)
qed

interpretation fe: validation "applyDefaultsAndValidate stat" "fe_ok stat" for stat
  by unfold_locales (auto dest: applyDefaults_ok intro: applyDefaults_fix)

section \<open>Properties\<close>

text \<open>
  (C33) An accepted configuration of the TCP front end is complete and valid, with every default filled in and the server
  names trimmed, and validating it again changes nothing; conversely every valid configuration is accepted as it is.
\<close>

theorem tcp_config_valid:
  "(applyDefaultsAndValidate stat c = Inr c' \<longrightarrow> fe_ok stat c' \<and> applyDefaultsAndValidate stat c' = Inr c') \<and>
   (fe_ok stat c \<longrightarrow> applyDefaultsAndValidate stat c = Inr c)"
  by (rule fe.projection)

text \<open>Strings of visible ASCII characters have no space to trim.\<close>

lemma visible_space2: "w \<in> set space2 \<union> set space3 \<Longrightarrow> w \<noteq> [] \<and> \<not> (of_char (hd w) :: nat) < 128"
  by (auto simp: space2_def space3_def)

lemma TrimSpace_visible:
  assumes "\<forall>c \<in> set s. \<not> asciiSpace c \<and> (of_char c :: nat) < 128"
  shows "TrimSpace s = s"
proof -
  have no: "w \<notin> set space2 \<union> set space3" if "set w \<subseteq> set s" for w
    using visible_space2 [of w] assms that by (cases w) auto
  have p: "spacePrefix s = 0"
    using assms no [of "take 2 s"] no [of "take 3 s"] by (cases s) (auto simp: spacePrefix_def dest: in_set_takeD)
  have "s \<noteq> [] \<Longrightarrow> last s \<in> set s" by simp
  then have "spaceSuffix s = 0"
    using assms no [of "drop (length s - 2) s"] no [of "drop (length s - 3) s"]
    by (auto simp: spaceSuffix_def dest: in_set_dropD)
  with p show ?thesis by (simp add: TrimSpace_def trimLeft.simps [of s] trimRight.simps [of s])
qed

lemma b64Char_visible: "v < 64 \<Longrightarrow> \<not> asciiSpace (b64Char url v) \<and> (of_char (b64Char url v) :: nat) < 128"
proof -
  assume v: "v < 64"
  have "b64Val url c = None" if "c \<in> set [CHR 0x09, CHR 0x0A, CHR 0x0B, CHR 0x0C, CHR 0x0D, CHR 0x20]" for c
    using that by (auto simp: b64Val_def)
  moreover have "(of_char c :: nat) < 128" if "b64Val url c = Some w" for c w
    using that by (simp add: b64Val_def Let_def split: if_split_asm)
  ultimately show ?thesis using b64_inverse [OF v, of url] unfolding asciiSpace_def by (metis option.distinct(1))
qed

lemma b64Encode_visible: "c \<in> set (b64Encode url False bs) \<Longrightarrow> \<not> asciiSpace c \<and> (of_char c :: nat) < 128"
proof (induction url False bs rule: b64Encode.induct)
  case (2 url a)
  then show ?case using b64Char_visible [OF b64_bounds(1)] b64Char_visible [OF b64_bounds(2)] by (auto simp: Let_def)
next
  case (3 url a b)
  then show ?case using b64Char_visible [OF b64_bounds(1)] b64Char_visible [OF b64_bounds(3)] b64Char_visible [OF b64_bounds(4)]
    by (auto simp: Let_def)
next
  case (4 url a b c' s)
  then show ?case using b64Char_visible [OF b64_bounds(1)] b64Char_visible [OF b64_bounds(3)] b64Char_visible [OF b64_bounds(5)]
      b64Char_visible [OF b64_bounds(6)]
    by (auto simp: Let_def)
qed simp

lemma parse_encoded_key: "length k = 32 \<Longrightarrow> parseRealityPrivateKey (b64Encode True False k) = Inr k"
  using TrimSpace_visible b64Encode_visible by (simp add: parseRealityPrivateKey_def b64.dec_enc)

text \<open>
  Round trip of generated keys: if the generator gives a private key of 32 bytes, the printed private key is
  accepted by the configuration and read back as that key.
\<close>

theorem genkey_roundtrip:
  assumes "gen = Inr (priv, pub)" "length priv = 32"
  shows "\<exists>privB64 pubB64. generateKeypair gen = Inr (privB64, pubB64) \<and> parseRealityPrivateKey privB64 = Inr priv \<and>
     b64Decode True False pubB64 = Some pub"
  using assms by (simp add: generateKeypair_def parse_encoded_key b64.dec_enc)

theorem genkey_roundtrip_witness:
  "\<exists>privB64 pubB64. generateKeypair (Inr (replicate 32 7, replicate 32 9)) = Inr (privB64, pubB64) \<and>
     parseRealityPrivateKey privB64 = Inr (replicate 32 7) \<and> b64Decode True False pubB64 = Some (replicate 32 9)"
  by (rule genkey_roundtrip [OF refl]) simp

lemma reality_ok_parts:
  assumes "reality_ok r"
  obtains k m where "parseRealityPrivateKey (fe_PrivateKey r) = Inr k" "length k = 32" "parseShortIDs {} (fe_ShortIDs r) = Inr m"
    "m \<noteq> {}" "\<forall>x \<in> m. length x = 8"
proof -
  obtain k where k: "parseRealityPrivateKey (fe_PrivateKey r) = Inr k" using assms by (auto simp: reality_ok_def)
  then have "length k = 32" by (auto simp: parseRealityPrivateKey_def split: option.splits if_splits)
  moreover obtain m where m: "parseShortIDs {} (fe_ShortIDs r) = Inr m" using assms by (simp add: reality_ok_def parseShortIDs_Inr)
  moreover have "m \<noteq> {}" using assms m unfolding reality_ok_def parseShortIDs_Inr by (cases "fe_ShortIDs r") (simp, force)
  moreover have "\<forall>x \<in> m. length x = 8" using m by (auto simp: parseShortIDs_Inr parseShortID_length)
  ultimately show ?thesis using k that by blast
qed

lemma buildRealityConfig_ok:
  assumes "fe_ok stat cfg" "fe_Mode (fe_Inbound cfg) = ''reality''"
  shows "\<exists>rc. buildRealityConfig cfg = Inr rc"
proof -
  have "reality_ok (fe_Reality (fe_Inbound cfg))" using assms by (simp add: fe_ok_def)
  then show ?thesis by (rule reality_ok_parts) (simp add: buildRealityConfig_def Let_def bindS_def require_def)
qed

text \<open>
  (C34) Every accepted configuration in REALITY mode can be built: the server configuration has a key of 32 bytes, at
  least one server name and at least one short identifier, all of 8 bytes, a relay target with host and port, and TLS 1.3 only.
  The allowed clock difference is the configured number of milliseconds provided that it is at most 9223372036854; beyond that
  the product wraps around.
\<close>

theorem reality_config_built:
  assumes "applyDefaultsAndValidate stat c = Inr cfg" "fe_Mode (fe_Inbound cfg) = ''reality''"
  shows "\<exists>rc. buildRealityConfig cfg = Inr rc \<and> length (rc_PrivateKey rc) = 32 \<and> rc_ServerNames rc \<noteq> {} \<and> [] \<notin> rc_ServerNames rc \<and>
     rc_ShortIds rc \<noteq> {} \<and> (\<forall>x \<in> rc_ShortIds rc. length x = 8) \<and> (\<exists>p. SplitHostPort (rc_Dest rc) = Inr p) \<and>
     rc_MinVersion rc = ''TLS13'' \<and> rc_MaxVersion rc = ''TLS13'' \<and>
     (fe_MaxTimeDiff (fe_Reality (fe_Inbound cfg)) \<le> 9223372036854 \<longrightarrow>
        rc_MaxTimeDiff rc = fe_MaxTimeDiff (fe_Reality (fe_Inbound cfg)) * Millisecond \<and> 0 \<le> rc_MaxTimeDiff rc) \<and>
     (fe_MaxTimeDiff (fe_Reality (fe_Inbound cfg)) = 9223372036855 \<longrightarrow> rc_MaxTimeDiff rc < 0)"
proof -
  let ?r = "fe_Reality (fe_Inbound cfg)"
  have r: "reality_ok ?r" using applyDefaults_ok [OF assms(1)] assms(2) by (simp add: fe_ok_def)
  obtain k m where km: "parseRealityPrivateKey (fe_PrivateKey ?r) = Inr k" "length k = 32" "parseShortIDs {} (fe_ShortIDs ?r) = Inr m"
    "m \<noteq> {}" "\<forall>x \<in> m. length x = 8" using r by (rule reality_ok_parts)
  have d: "i64 (fe_MaxTimeDiff ?r * Millisecond) = fe_MaxTimeDiff ?r * Millisecond \<and> 0 \<le> fe_MaxTimeDiff ?r * Millisecond"
    if "fe_MaxTimeDiff ?r \<le> 9223372036854"
    using r that by (intro conjI i64_small) (auto simp: reality_ok_def)
  have "i64 (9223372036855 * Millisecond) < 0" by (simp add: i64_def)
  then show ?thesis using km r d by (auto simp: buildRealityConfig_def Let_def bindS_def require_def reality_ok_def)
qed

text \<open>A small configuration file with a generated key.\<close>

definition exampleKey :: string where
  "exampleKey = b64Encode True False (replicate 32 7)"

definition exampleFrontend :: feConfig where
  "exampleFrontend =
     \<lparr>fe_LogLevel = [],
      fe_Inbound = \<lparr>fe_Listen = [], fe_Mode = [],
        fe_Reality = \<lparr>fe_PrivateKey = exampleKey, fe_ShortIDs = [[]], fe_ServerNames = [''example.com''], fe_Target = [],
                      fe_RelayEnabled = None, fe_MaxTimeDiff = 60000\<rparr>,
        fe_TLS = \<lparr>fe_Cert = [], fe_Key = []\<rparr>\<rparr>,
      fe_Upstream = [],
      fe_Limits = \<lparr>fe_MaxConnections = 0, fe_MaxRelays = 0, fe_HandshakeTimeout = 0, fe_IdleTimeout = 0\<rparr>,
      fe_Status = \<lparr>fe_HTTP = ''127.0.0.1:9090'', fe_Token = ''secret''\<rparr>\<rparr>"

lemma exampleKey_parses: "parseRealityPrivateKey exampleKey = Inr (replicate 32 7)" "exampleKey \<noteq> []"
proof -
  show p: "parseRealityPrivateKey exampleKey = Inr (replicate 32 7)" by (simp add: exampleKey_def parse_encoded_key)
  have "TrimSpace [] = []" by (rule TrimSpace_visible) simp
  then have "parseRealityPrivateKey [] = Inl (KeyLength 0)" by (simp add: parseRealityPrivateKey_def b64Decode_def)
  with p show "exampleKey \<noteq> []" by auto
qed

lemma exampleFrontend_accepted:
  "\<exists>cfg. applyDefaultsAndValidate (\<lambda>_. Missing) exampleFrontend = Inr cfg \<and> fe_Mode (fe_Inbound cfg) = ''reality'' \<and>
     fe_MaxConnections (fe_Limits cfg) = 1024 \<and> fe_Status cfg = fe_Status exampleFrontend \<and> fe_MaxTimeDiff (fe_Reality (fe_Inbound cfg)) = 60000"
proof -
  have s: "SplitHostPort ''0.0.0.0:443'' = Inr (''0.0.0.0'', ''443'')" "SplitHostPort ''127.0.0.1:8080'' = Inr (''127.0.0.1'', ''8080'')"
    "SplitHostPort ''example.com:443'' = Inr (''example.com'', ''443'')" "SplitHostPort ''127.0.0.1:9090'' = Inr (''127.0.0.1'', ''9090'')"
    using split_plain [of "''0.0.0.0''" "''443''"] split_plain [of "''127.0.0.1''" "''8080''"] split_plain [of "''example.com''" "''443''"]
      split_plain [of "''127.0.0.1''" "''9090''"]
    by simp_all
  have t: "TrimSpace ''example.com'' = ''example.com''" "TrimSpace ''secret'' = ''secret''"
    by (rule TrimSpace_visible, simp add: asciiSpace_def)+
  show ?thesis
    by (simp add: applyDefaultsAndValidate_def bindS_def Let_def exampleFrontend_def orDefault_def require_def splitOk_def s t
        checkInbound_def checkReality_def exampleKey_parses parseShortID_def checkLimits_def limit_def checkStatus_def logLevels_def)
qed

theorem tcp_config_valid_witness:
  "\<exists>cfg. applyDefaultsAndValidate (\<lambda>_. Missing) exampleFrontend = Inr cfg \<and> fe_ok (\<lambda>_. Missing) cfg"
  using exampleFrontend_accepted tcp_config_valid by blast

theorem reality_config_built_witness:
  "\<exists>cfg rc. applyDefaultsAndValidate (\<lambda>_. Missing) exampleFrontend = Inr cfg \<and> buildRealityConfig cfg = Inr rc \<and>
     length (rc_PrivateKey rc) = 32 \<and> rc_MaxTimeDiff rc = 60000000000"
proof -
  obtain cfg where c: "applyDefaultsAndValidate (\<lambda>_. Missing) exampleFrontend = Inr cfg" "fe_Mode (fe_Inbound cfg) = ''reality''"
    "fe_MaxTimeDiff (fe_Reality (fe_Inbound cfg)) = 60000" using exampleFrontend_accepted by blast
  show ?thesis using reality_config_built [OF c(1,2)] c(1,3) by auto
qed

end
