(* ===== verification/TunnelServer.thy ===== *)
theory TunnelServer
  imports HttpRelay TcpConfig
begin

text \<open>
  \<^verbatim>\<open>frontend/main.go\<close> and \<^verbatim>\<open>status.go\<close>: the accept loop with its limit on connections, the life of a connection, the
  semaphore of relay connections to the REALITY target, the counters, and the status endpoint.  Goroutines are
  interleaved: an event is one atomic part of one of them.  The REALITY and TLS handshakes are parameters of the events, as
  is what the network answers.
\<close>

section \<open>State\<close>

text \<open>
  Where the goroutine of a connection stands; \<open>Returning\<close> is the moment between the return of \<^verbatim>\<open>handleConn\<close> and the deferred
  decrement.
\<close>

datatype connPhase = Spawned | Handshaking | Authenticated | ServingH2 | ServingH1 | Returning

text \<open>A relay connection (\<^verbatim>\<open>relayConn\<close>) is \<open>True\<close> once its \<^verbatim>\<open>sync.Once\<close> has run.\<close>

record tunnelServer =
  sv_cfg :: feConfig
  sv_rCfg :: "realityServer option"
  sv_tls :: bool
  sv_stats :: Stats
  sv_relaySlots :: nat
  sv_conns :: "connPhase list"
  sv_relayConns :: "bool list"
  sv_ctxDone :: bool
  sv_returned :: bool

definition NewTunnelServer :: "(string \<Rightarrow> string \<Rightarrow> bool) \<Rightarrow> feConfig \<Rightarrow> fe_error + tunnelServer" where
  "NewTunnelServer loadKeyPair cfg =
     (let s = \<lparr>sv_cfg = cfg, sv_rCfg = None, sv_tls = False, sv_stats = zeroStats, sv_relaySlots = 0, sv_conns = [],
               sv_relayConns = [], sv_ctxDone = False, sv_returned = False\<rparr>; i = fe_Inbound cfg in
      if fe_Mode i = ''reality'' then
        bindS (buildRealityConfig cfg) (\<lambda>rc. Inr (s\<lparr>sv_rCfg := Some rc\<rparr>))
      else if fe_Mode i = ''tls'' then
        (if loadKeyPair (fe_Cert (fe_TLS i)) (fe_Key (fe_TLS i)) then Inr (s\<lparr>sv_tls := True\<rparr>)
         else Inl (NoCertFile (fe_Cert (fe_TLS i))))
      else Inr s)"

section \<open>Relay connections\<close>

datatype dialError = RelayDisabled | ContextDone | RelayLimit | DialFailed

text \<open>
  \<^verbatim>\<open>dialContext\<close>: \<open>ctxDone\<close> is the state of its context, \<open>pickCtx\<close> the choice \<^verbatim>\<open>select\<close> makes when both cases are ready,
  \<open>dialOk\<close> whether the address can be dialled.  A new relay connection is the last of the list.  The address dialled is
  returned too.
\<close>

definition relayEnabled :: "feConfig \<Rightarrow> bool" where
  "relayEnabled cfg \<longleftrightarrow> (case fe_RelayEnabled (fe_Reality (fe_Inbound cfg)) of None \<Rightarrow> True | Some b \<Rightarrow> b)"

definition dialContext :: "bool \<Rightarrow> bool \<Rightarrow> (string \<Rightarrow> bool) \<Rightarrow> string \<Rightarrow> tunnelServer \<Rightarrow> (dialError + string) \<times> tunnelServer" where
  "dialContext ctxDone pickCtx dialOk address s =
     (let free = (int (sv_relaySlots s) < fe_MaxRelays (fe_Limits (sv_cfg s))) in
      if \<not> relayEnabled (sv_cfg s) then (Inl RelayDisabled, s)
      else if ctxDone \<and> (\<not> free \<or> pickCtx) then (Inl ContextDone, s)
      else if \<not> free then (Inl RelayLimit, s)
      else let s1 = s\<lparr>sv_relaySlots := sv_relaySlots s + 1\<rparr>;
               addr = orDefault address (fe_Target (fe_Reality (fe_Inbound (sv_cfg s)))) in
        if \<not> dialOk addr then (Inl DialFailed, s1\<lparr>sv_relaySlots := sv_relaySlots s1 - 1\<rparr>)
        else (Inr addr, s1\<lparr>sv_relayConns := sv_relayConns s1 @ [False]\<rparr>))"

text \<open>
  \<^verbatim>\<open>relayConn.Close\<close>: the slot is received from the channel at most once; \<open>None\<close> is a receive from an empty channel, which
  would block for ever.
\<close>

definition closeRelay :: "nat \<Rightarrow> tunnelServer \<Rightarrow> tunnelServer option" where
  "closeRelay i s =
     (if sv_relayConns s ! i then Some s
      else if sv_relaySlots s = 0 then None
      else Some (s\<lparr>sv_relayConns := (sv_relayConns s)[i := True], sv_relaySlots := sv_relaySlots s - 1\<rparr>))"

section \<open>Connections\<close>

definition atConn :: "nat \<Rightarrow> connPhase \<Rightarrow> tunnelServer \<Rightarrow> bool" where
  "atConn i p s \<longleftrightarrow> i < length (sv_conns s) \<and> sv_conns s ! i = p"

definition setConn :: "nat \<Rightarrow> connPhase \<Rightarrow> tunnelServer \<Rightarrow> tunnelServer" where
  "setConn i p s = s\<lparr>sv_conns := (sv_conns s)[i := p]\<rparr>"

definition onStats :: "(Stats \<Rightarrow> Stats) \<Rightarrow> tunnelServer \<Rightarrow> tunnelServer" where
  "onStats f s = s\<lparr>sv_stats := f (sv_stats s)\<rparr>"

text \<open>One round of the loop of \<^verbatim>\<open>Serve\<close>; \<open>ok\<close> is whether \<^verbatim>\<open>Accept\<close> gives a connection.\<close>

definition serveRound :: "bool \<Rightarrow> tunnelServer \<Rightarrow> tunnelServer" where
  "serveRound ok s =
     (if \<not> ok then (if sv_ctxDone s then s\<lparr>sv_returned := True\<rparr> else s)
      else if fe_MaxConnections (fe_Limits (sv_cfg s)) \<le> active (sv_stats s) then s
      else let s1 = onStats (AddActive 1) s in s1\<lparr>sv_conns := sv_conns s1 @ [Spawned]\<rparr>)"

text \<open>\<^verbatim>\<open>handleConn\<close> from its start to the handshake, and after it.\<close>

definition handleConnStart :: "nat \<Rightarrow> tunnelServer \<Rightarrow> tunnelServer" where
  "handleConnStart i s = setConn i Handshaking (onStats IncTotalConns s)"

definition handleConnShake :: "nat \<Rightarrow> bool \<Rightarrow> tunnelServer \<Rightarrow> tunnelServer" where
  "handleConnShake i ok s =
     (if ok then setConn i Authenticated (onStats IncAuthed s)
      else if fe_Mode (fe_Inbound (sv_cfg s)) = ''reality'' then setConn i Returning (onStats IncRelays s)
      else setConn i Returning s)"

definition serveConn :: "nat \<Rightarrow> string \<Rightarrow> tunnelServer \<Rightarrow> tunnelServer" where
  "serveConn i received s = setConn i (if servesH2 received then ServingH2 else ServingH1) s"

text \<open>One request of an HTTP/2 connection; the HTTP/2 server recovers from a panic of the handler.\<close>

definition serveH2Request :: "upstream \<Rightarrow> httpRequest \<Rightarrow> tunnelServer \<Rightarrow> tunnelServer" where
  "serveH2Request up r s = (case handleRequest up r (sv_stats s) of Inl _ \<Rightarrow> s | Inr (_, st) \<Rightarrow> s\<lparr>sv_stats := st\<rparr>)"

definition serveH1 :: "nat \<Rightarrow> (int \<Rightarrow> string) \<Rightarrow> upstream \<Rightarrow> bool \<Rightarrow> httpRequest option \<Rightarrow> tunnelServer \<Rightarrow> tunnelServer" where
  "serveH1 i statusText up headOk req s =
     setConn i Returning (s\<lparr>sv_stats := snd (serveH1Connect statusText up headOk req (sv_stats s))\<rparr>)"

definition connDone :: "nat \<Rightarrow> tunnelServer \<Rightarrow> tunnelServer" where
  "connDone i s = (onStats (AddActive (- 1)) s)\<lparr>sv_conns := take i (sv_conns s) @ drop (Suc i) (sv_conns s)\<rparr>"

section \<open>The status endpoint\<close>

text \<open>The handler of \<^verbatim>\<open>/stats\<close>; \<open>auth\<close> is the first value of the Authorization header, empty if there is none.\<close>

definition bearerPrefix :: string where
  "bearerPrefix = ''Bearer ''"

definition statsBody :: "Stats \<Rightarrow> string" where
  "statsBody st =
     [CHR 0x7B, CHR 0x22] @ ''total_conns'' @ [CHR 0x22] @ '':'' @ Itoa (totalConns st) @ '','' @
     [CHR 0x22] @ ''authed'' @ [CHR 0x22] @ '':'' @ Itoa (authed st) @ '','' @
     [CHR 0x22] @ ''relays'' @ [CHR 0x22] @ '':'' @ Itoa (relays st) @ '','' @
     [CHR 0x22] @ ''tunnels'' @ [CHR 0x22] @ '':'' @ Itoa (tunnels st) @ '','' @
     [CHR 0x22] @ ''active'' @ [CHR 0x22] @ '':'' @ Itoa (active st) @ [CHR 0x7D]"

definition statusHandler :: "tunnelServer \<Rightarrow> string \<Rightarrow> int \<times> string" where
  "statusHandler s auth =
     (let provided = (if HasPrefix auth bearerPrefix then drop (length bearerPrefix) auth else []);
          token = fe_Token (fe_Status (sv_cfg s)) in
      if length provided \<noteq> length token \<or> provided \<noteq> token then (403, [])
      else (200, statsBody (sv_stats s)))"

section \<open>Runs\<close>

inductive server_step :: "tunnelServer \<Rightarrow> tunnelServer \<Rightarrow> bool" where
  round: "\<not> sv_returned s \<Longrightarrow> server_step s (serveRound ok s)"
| cancel: "server_step s (s\<lparr>sv_ctxDone := True\<rparr>)"
| start: "atConn i Spawned s \<Longrightarrow> server_step s (handleConnStart i s)"
| shake: "atConn i Handshaking s \<Longrightarrow> server_step s (handleConnShake i ok s)"
| sniff: "atConn i Authenticated s \<Longrightarrow> server_step s (serveConn i received s)"
| request: "atConn i ServingH2 s \<Longrightarrow> server_step s (serveH2Request up r s)"
| h2end: "atConn i ServingH2 s \<Longrightarrow> server_step s (setConn i Returning s)"
| h1: "atConn i ServingH1 s \<Longrightarrow> server_step s (serveH1 i statusText up headOk req s)"
| finish: "atConn i Returning s \<Longrightarrow> server_step s (connDone i s)"
| dial: "server_step s (snd (dialContext ctxDone pickCtx dialOk address s))"
| close: "i < length (sv_relayConns s) \<Longrightarrow> closeRelay i s = Some s' \<Longrightarrow> server_step s s'"

text \<open>The states after \<open>n\<close> events of a server that was built from an accepted configuration.\<close>

inductive server_reached :: "feConfig \<Rightarrow> nat \<Rightarrow> tunnelServer \<Rightarrow> bool" for c :: feConfig where
  new: "applyDefaultsAndValidate stat c = Inr cfg \<Longrightarrow> NewTunnelServer loadKeyPair cfg = Inr s \<Longrightarrow> server_reached c 0 s"
| step: "server_reached c n s \<Longrightarrow> server_step s s' \<Longrightarrow> server_reached c (Suc n) s'"

section \<open>Invariants\<close>

text \<open>The limits: what the counter of active connections and the channel of slots stand for.\<close>

definition limits_inv :: "tunnelServer \<Rightarrow> bool" where
  "limits_inv s \<longleftrightarrow> limits_ok (fe_Limits (sv_cfg s)) \<and>
     active (sv_stats s) = int (length (sv_conns s)) \<and> int (length (sv_conns s)) \<le> fe_MaxConnections (fe_Limits (sv_cfg s)) \<and>
     sv_relaySlots s = length (filter Not (sv_relayConns s)) \<and> int (sv_relaySlots s) \<le> fe_MaxRelays (fe_Limits (sv_cfg s))"

definition limits_small :: "tunnelServer \<Rightarrow> bool" where
  "limits_small s \<longleftrightarrow> in_i64 (fe_MaxConnections (fe_Limits (sv_cfg s)))"

text \<open>What every event leaves alone.\<close>

lemma cfg_kept [simp]:
  "sv_cfg (serveRound ok s) = sv_cfg s" "sv_cfg (handleConnStart i s) = sv_cfg s" "sv_cfg (handleConnShake i ok s) = sv_cfg s"
  "sv_cfg (serveConn i rec s) = sv_cfg s" "sv_cfg (serveH2Request up r s) = sv_cfg s" "sv_cfg (setConn i p s) = sv_cfg s"
  "sv_cfg (serveH1 i tx up h req s) = sv_cfg s" "sv_cfg (connDone i s) = sv_cfg s"
  "sv_cfg (snd (dialContext cd pc dk a s)) = sv_cfg s"
  by (auto simp: serveRound_def handleConnStart_def handleConnShake_def serveConn_def serveH2Request_def setConn_def serveH1_def
      connDone_def dialContext_def onStats_def Let_def split: sum.splits prod.splits if_splits)

lemma active_tunnels [simp]: "active (IncTunnels st) = active st" "active (IncAuthed st) = active st"
  "active (IncRelays st) = active st" "active (IncTotalConns st) = active st"
  by (simp_all add: IncTunnels_def IncAuthed_def IncRelays_def IncTotalConns_def)

lemma handleRequest_stats: "handleRequest up r st = Inr (x, st') \<Longrightarrow> st' = st \<or> st' = IncTunnels st"
  by (auto simp: handleRequest_def Let_def split: if_splits option.splits)

lemma serveH1_stats: "snd (serveH1Connect tx up h req st) = st \<or> snd (serveH1Connect tx up h req st) = IncTunnels st"
  by (auto simp: serveH1Connect_def split: option.splits)

lemma limits_round: "limits_inv s \<Longrightarrow> limits_small s \<Longrightarrow> limits_inv (serveRound ok s)"
  by (auto simp: limits_inv_def limits_small_def serveRound_def onStats_def AddActive_def Let_def in_i64_def i64_small)

lemma limits_setConn [simp]: "limits_inv (setConn i p s) = limits_inv s"
  by (simp add: limits_inv_def setConn_def)

lemma limits_onStats: "active (f (sv_stats s)) = active (sv_stats s) \<Longrightarrow> limits_inv (onStats f s) = limits_inv s"
  by (simp add: limits_inv_def onStats_def)

lemma limits_stats: "st = sv_stats s \<or> st = IncTunnels (sv_stats s) \<Longrightarrow> limits_inv (s\<lparr>sv_stats := st\<rparr>) = limits_inv s"
  by (auto simp: limits_inv_def)

lemma limits_done: "limits_inv s \<Longrightarrow> limits_small s \<Longrightarrow> i < length (sv_conns s) \<Longrightarrow> limits_inv (connDone i s)"
  by (auto simp: limits_inv_def limits_small_def connDone_def onStats_def AddActive_def in_i64_def i64_small)

lemma limits_dial: "limits_inv s \<Longrightarrow> limits_inv (snd (dialContext cd pc dk a s))"
  by (auto simp: dialContext_def limits_inv_def Let_def)

lemma closeRelay_cases:
  assumes "closeRelay i s = Some s'"
  obtains "sv_relayConns s ! i" "s' = s"
  | "\<not> sv_relayConns s ! i" "sv_relaySlots s \<noteq> 0"
    "s' = s\<lparr>sv_relayConns := (sv_relayConns s)[i := True], sv_relaySlots := sv_relaySlots s - 1\<rparr>"
proof (cases "sv_relayConns s ! i")
  case True
  then have "closeRelay i s = Some s" by (simp add: closeRelay_def)
  with assms True that(1) show ?thesis by (metis option.inject)
next
  case False
  have "sv_relaySlots s \<noteq> 0" using assms False by (cases "sv_relaySlots s") (simp_all add: closeRelay_def)
  moreover from this False have "closeRelay i s = Some (s\<lparr>sv_relayConns := (sv_relayConns s)[i := True], sv_relaySlots := sv_relaySlots s - 1\<rparr>)"
    by (simp add: closeRelay_def)
  ultimately show ?thesis using False assms that(2) by (metis option.inject)
qed

lemma step_cfg: "server_step s s' \<Longrightarrow> sv_cfg s' = sv_cfg s"
proof (induction rule: server_step.induct)
  case (close i s s')
  from close(2) show ?case by (rule closeRelay_cases) simp_all
qed simp_all

lemma limits_close: "closeRelay i s = Some s' \<Longrightarrow> limits_inv s \<Longrightarrow> i < length (sv_relayConns s) \<Longrightarrow> limits_inv s'"
proof (erule closeRelay_cases)
  assume a: "limits_inv s" "i < length (sv_relayConns s)" "\<not> sv_relayConns s ! i" "sv_relaySlots s \<noteq> 0"
    "s' = s\<lparr>sv_relayConns := (sv_relayConns s)[i := True], sv_relaySlots := sv_relaySlots s - 1\<rparr>"
  then show ?thesis using length_filter_update [OF a(2), of Not True] by (simp add: limits_inv_def)
qed simp

lemma limits_step:
  assumes "server_step s s'" "limits_inv s" "limits_small s"
  shows "limits_inv s'"
  using assms
proof (induction rule: server_step.induct)
  case (request i s up r)
  then show ?case unfolding serveH2Request_def
    using handleRequest_stats [of up r "sv_stats s"] by (auto simp: limits_stats split: sum.splits prod.splits)
next
  case (h1 i s tx up h req)
  then show ?case unfolding serveH1_def using serveH1_stats [of tx up h req "sv_stats s"] by (simp add: limits_stats)
next
  case (shake i s ok)
  then show ?case by (simp add: handleConnShake_def limits_onStats)
next
  case (cancel s)
  then show ?case by (simp add: limits_inv_def)
qed (simp_all add: limits_round limits_done limits_dial limits_close atConn_def handleConnStart_def serveConn_def limits_onStats)

lemma new_server:
  assumes "NewTunnelServer loadKeyPair cfg = Inr s"
  shows "sv_cfg s = cfg" "sv_conns s = []" "sv_relayConns s = []" "sv_relaySlots s = 0" "sv_stats s = zeroStats"
  using assms by (auto simp: NewTunnelServer_def Let_def bindS_Inr split: if_splits)

lemma reached_ok: "server_reached c n s \<Longrightarrow> \<exists>stat. fe_ok stat (sv_cfg s)"
proof (induction rule: server_reached.induct)
  case (new stat cfg loadKeyPair s)
  then show ?case using applyDefaults_ok new_server(1) by blast
next
  case (step n s s')
  then show ?case by (simp add: step_cfg)
qed

lemma reached_limits: "server_reached c n s \<Longrightarrow> limits_small s \<Longrightarrow> limits_inv s"
proof (induction rule: server_reached.induct)
  case (new stat cfg loadKeyPair s)
  then have "limits_ok (fe_Limits cfg)" using applyDefaults_ok [OF new(1)] by (simp add: fe_ok_def)
  then show ?case using new_server [OF new(2)] by (auto simp: limits_inv_def zeroStats_def limits_ok_def)
next
  case (step n s s')
  then show ?case using limits_step [OF step(2)] step_cfg [OF step(2)] by (simp add: limits_small_def)
qed

text \<open>
  The counters, while no more than \<open>2 ^ 63\<close> events have happened: every connection counted as authenticated or relayed has been
  counted in total and is past its handshake.
\<close>

definition inPhase :: "connPhase \<Rightarrow> tunnelServer \<Rightarrow> nat" where
  "inPhase p s = length (filter (\<lambda>q. q = p) (sv_conns s))"

definition counters_inv :: "nat \<Rightarrow> tunnelServer \<Rightarrow> bool" where
  "counters_inv n s \<longleftrightarrow> (let st = sv_stats s in
     0 \<le> authed st \<and> 0 \<le> relays st \<and> 0 \<le> tunnels st \<and> tunnels st \<le> int n \<and> totalConns st \<le> int n \<and>
     authed st + relays st + int (inPhase Handshaking s) \<le> totalConns st \<and>
     int (inPhase Authenticated s) + int (inPhase ServingH2 s) + int (inPhase ServingH1 s) \<le> authed st)"

lemma count_setConn:
  assumes "atConn i p s"
  shows "int (inPhase q (setConn i p' s)) = int (inPhase q s) - (if p = q then 1 else 0) + (if p' = q then 1 else 0)"
  using assms length_filter_update [of i "sv_conns s" "\<lambda>x. x = q" p'] by (simp add: atConn_def inPhase_def setConn_def)

lemma count_done:
  assumes "atConn i p s"
  shows "int (inPhase q (connDone i s)) = int (inPhase q s) - (if p = q then 1 else 0)"
proof -
  have i: "i < length (sv_conns s)" "sv_conns s ! i = p" using assms by (simp_all add: atConn_def)
  have "length (filter (\<lambda>x. x = q) (take i (sv_conns s) @ sv_conns s ! i # drop (Suc i) (sv_conns s))) =
      (if p = q then 1 else 0) + length (filter (\<lambda>x. x = q) (take i (sv_conns s) @ drop (Suc i) (sv_conns s)))" by (simp add: i(2))
  then show ?thesis unfolding id_take_nth_drop [OF i(1), symmetric] by (simp add: inPhase_def connDone_def onStats_def)
qed

lemma count_onStats [simp]: "inPhase q (onStats f s) = inPhase q s" "inPhase q (s\<lparr>sv_stats := st\<rparr>) = inPhase q s"
  by (simp_all add: inPhase_def onStats_def)

lemma stats_simps [simp]: "sv_stats (setConn i p s) = sv_stats s" "sv_stats (onStats f s) = f (sv_stats s)"
  "atConn i p (onStats f s) = atConn i p s" "atConn i p (s\<lparr>sv_stats := st\<rparr>) = atConn i p s"
  by (simp_all add: setConn_def onStats_def atConn_def)

lemma counters_mono: "counters_inv n s \<Longrightarrow> counters_inv (Suc n) s"
  by (simp add: counters_inv_def Let_def)

lemma counters_same:
  "counters_inv n s \<Longrightarrow> sv_stats s' = sv_stats s \<Longrightarrow> sv_conns s' = sv_conns s \<Longrightarrow> counters_inv (Suc n) s'"
  by (simp add: counters_inv_def Let_def inPhase_def)

lemma counters_tunnels:
  assumes "counters_inv n s" "int n + 1 < 9223372036854775808" "st = sv_stats s \<or> st = IncTunnels (sv_stats s)"
  shows "counters_inv (Suc n) (s\<lparr>sv_stats := st\<rparr>)"
  using assms by (auto simp: counters_inv_def Let_def IncTunnels_def i64_small)

lemmas counters_defs = counters_inv_def Let_def IncTotalConns_def IncAuthed_def IncRelays_def AddActive_def

lemma counters_round: "counters_inv n s \<Longrightarrow> counters_inv (Suc n) (serveRound ok s)"
  by (auto simp: serveRound_def counters_defs inPhase_def onStats_def)

lemma counters_start:
  assumes "counters_inv n s" "int n + 1 < 9223372036854775808" "atConn i Spawned s"
  shows "counters_inv (Suc n) (handleConnStart i s)"
  using assms by (auto simp: handleConnStart_def counters_defs count_setConn i64_small)

lemma counters_shake:
  assumes "counters_inv n s" "int n + 1 < 9223372036854775808" "atConn i Handshaking s"
  shows "counters_inv (Suc n) (handleConnShake i ok s)"
proof -
  have "0 < inPhase Handshaking s" using assms(3) unfolding atConn_def inPhase_def
    using nth_mem [of i "sv_conns s"] by (auto simp: filter_empty_conv)
  then show ?thesis using assms by (auto simp: handleConnShake_def counters_defs count_setConn i64_small)
qed

lemma counters_serve:
  assumes "counters_inv n s" "atConn i Authenticated s"
  shows "counters_inv (Suc n) (serveConn i rec s)"
  using assms by (auto simp: serveConn_def counters_defs count_setConn)

lemma counters_end:
  assumes "counters_inv n s" "atConn i p s" "p \<noteq> Handshaking"
  shows "counters_inv n (setConn i Returning s)"
  using assms by (cases p) (simp_all add: counters_defs count_setConn)

lemma counters_done:
  assumes "counters_inv n s" "atConn i Returning s"
  shows "counters_inv (Suc n) (connDone i s)"
proof -
  have "sv_stats (connDone i s) = AddActive (- 1) (sv_stats s)" by (simp add: connDone_def onStats_def)
  then show ?thesis using assms by (simp add: counters_defs count_done [OF assms(2)] flip: of_nat_add)
qed

lemma counters_step:
  assumes "server_step s s'" "counters_inv n s" "int n + 1 < 9223372036854775808"
  shows "counters_inv (Suc n) s'"
  using assms
proof (induction rule: server_step.induct)
  case (request i s up r)
  then show ?case unfolding serveH2Request_def
    using handleRequest_stats [of up r "sv_stats s"] counters_tunnels [OF request(2,3)]
    by (auto simp: counters_mono split: sum.splits prod.splits)
next
  case (h1 i s tx up h req)
  then show ?case unfolding serveH1_def
    using counters_end [OF counters_tunnels [OF h1(2,3) serveH1_stats]] by simp
next
  case (h2end i s)
  then show ?case by (auto intro: counters_mono counters_end)
next
  case (cancel s)
  then show ?case by (auto intro: counters_same)
next
  case (dial s cd pc dk a)
  then show ?case by (auto intro!: counters_same simp: dialContext_def Let_def)
next
  case (close i s s')
  from close(2) show ?case by (rule closeRelay_cases) (use close(3) in \<open>auto intro: counters_same\<close>)
qed (simp_all add: counters_round counters_start counters_shake counters_serve counters_done)

lemma reached_counters: "server_reached c n s \<Longrightarrow> int n < 9223372036854775808 \<Longrightarrow> counters_inv n s"
proof (induction rule: server_reached.induct)
  case (new stat cfg loadKeyPair s)
  then show ?case using new_server [OF new(2)] by (simp add: counters_inv_def inPhase_def zeroStats_def)
next
  case (step n s s')
  then show ?case using counters_step [OF step(2)] by simp
qed

section \<open>Properties\<close>

text \<open>A server with the example configuration that has accepted one connection.\<close>

lemma example_run:
  "\<exists>s. server_reached exampleFrontend 1 s \<and> limits_small s \<and> sv_conns s = [Spawned] \<and>
     fe_HTTP (fe_Status (sv_cfg s)) = ''127.0.0.1:9090'' \<and> fe_Token (fe_Status (sv_cfg s)) = ''secret''"
proof -
  obtain cfg where c: "applyDefaultsAndValidate (\<lambda>_. Missing) exampleFrontend = Inr cfg" "fe_Mode (fe_Inbound cfg) = ''reality''"
    "fe_MaxConnections (fe_Limits cfg) = 1024" "fe_Status cfg = fe_Status exampleFrontend"
    using exampleFrontend_accepted by blast
  obtain rc where "buildRealityConfig cfg = Inr rc" using buildRealityConfig_ok [OF applyDefaults_ok [OF c(1)] c(2)] by blast
  then obtain s where s: "NewTunnelServer (\<lambda>_ _. True) cfg = Inr s" "\<not> sv_returned s"
    using c(2) by (simp add: NewTunnelServer_def bindS_def Let_def)
  have "server_reached exampleFrontend (Suc 0) (serveRound True s)"
    by (rule server_reached.step [OF server_reached.new [OF c(1) s(1)] server_step.round [OF s(2)]])
  moreover have "sv_conns (serveRound True s) = [Spawned]"
    using new_server [OF s(1)] c(3) by (simp add: serveRound_def onStats_def zeroStats_def Let_def)
  ultimately show ?thesis
    using new_server(1) [OF s(1)] c(3,4) by (intro exI [of _ "serveRound True s"]) (simp add: limits_small_def in_i64_def exampleFrontend_def)
qed



text \<open>
  Counters: as long as fewer than \<open>2 ^ 63\<close> events have happened, the connections counted as authenticated, the ones counted as relayed
  probes and the ones in their handshake are together at most all the connections counted, every connection that is
  being served has been counted as authenticated, and no counter is negative.
\<close>

theorem server_counters:
  assumes "server_reached c n s" "int n < 9223372036854775808"
  shows "0 \<le> authed (sv_stats s) \<and> 0 \<le> relays (sv_stats s) \<and> 0 \<le> tunnels (sv_stats s) \<and>
    authed (sv_stats s) + relays (sv_stats s) + int (inPhase Handshaking s) \<le> totalConns (sv_stats s) \<and>
    int (inPhase Authenticated s + inPhase ServingH2 s + inPhase ServingH1 s) \<le> authed (sv_stats s) \<and> totalConns (sv_stats s) \<le> int n"
  using reached_counters [OF assms] by (simp add: counters_inv_def Let_def)

theorem server_counters_witness:
  "\<exists>s. server_reached exampleFrontend 1 s \<and> sv_conns s = [Spawned] \<and> 0 \<le> authed (sv_stats s) \<and> totalConns (sv_stats s) \<le> 1"
proof -
  obtain s where "server_reached exampleFrontend 1 s" "sv_conns s = [Spawned]" using example_run by blast
  then show ?thesis using server_counters [of exampleFrontend 1 s] by auto
qed

text \<open>
  (C37) The status endpoint of a server with an accepted configuration answers 200 exactly to the header that is \<open>Bearer\<close> followed by
  the configured token, and an empty 403 to every other one, the missing one included.
\<close>

theorem status_token:
  assumes "server_reached c n s" "fe_HTTP (fe_Status (sv_cfg s)) \<noteq> []"
  shows "statusHandler s auth =
    (if auth = ''Bearer '' @ fe_Token (fe_Status (sv_cfg s)) then (200, statsBody (sv_stats s)) else (403, []))"
proof -
  let ?t = "fe_Token (fe_Status (sv_cfg s))"
  have "TrimSpace ?t \<noteq> []" using reached_ok [OF assms(1)] assms(2) by (auto simp: fe_ok_def)
  moreover have "TrimSpace [] = []" by (rule TrimSpace_visible) simp
  ultimately have t: "?t \<noteq> []" by auto
  have "(if HasPrefix auth bearerPrefix then drop (length bearerPrefix) auth else []) = ?t \<longleftrightarrow> auth = bearerPrefix @ ?t"
    using t by (auto simp: HasPrefix_def) (metis append_take_drop_id)
  then show ?thesis by (auto simp: statusHandler_def Let_def bearerPrefix_def)
qed

theorem status_token_witness:
  "\<exists>s. server_reached exampleFrontend 1 s \<and> fst (statusHandler s ''Bearer secret'') = 200 \<and> statusHandler s ''secret'' = (403, [])"
proof -
  obtain s where s: "server_reached exampleFrontend 1 s" "fe_HTTP (fe_Status (sv_cfg s)) = ''127.0.0.1:9090''"
    "fe_Token (fe_Status (sv_cfg s)) = ''secret''" using example_run by blast
  then have "fe_HTTP (fe_Status (sv_cfg s)) \<noteq> []" by simp
  then show ?thesis using s status_token [OF s(1)] by auto
qed

end
