(* ===== verification/NetAddr.thy ===== *)
theory NetAddr
  imports GoStrings
begin

text \<open>
  IP addresses of the Go packages \<^verbatim>\<open>net\<close> and \<^verbatim>\<open>net/netip\<close>: parsing (\<^verbatim>\<open>ParseIP\<close>, \<^verbatim>\<open>ParseCIDR\<close>), printing (\<^verbatim>\<open>IP.String\<close>), masks and
  membership in a network.  A \<^verbatim>\<open>net.IP\<close> that was parsed has 16 bytes.  The main fact is that parsing undoes printing, for
  both families.
\<close>

section \<open>Dotted decimal\<close>

fun splitOn :: "char \<Rightarrow> string \<Rightarrow> string list" where
  "splitOn c [] = [[]]"
| "splitOn c (a # s) = (if a = c then [] # splitOn c s else (case splitOn c s of w # ws \<Rightarrow> (a # w) # ws | [] \<Rightarrow> [[a]]))"

fun joinWith :: "string \<Rightarrow> string list \<Rightarrow> string" where
  "joinWith sep [] = []"
| "joinWith sep [w] = w"
| "joinWith sep (w # v # ws) = w @ sep @ joinWith sep (v # ws)"

text \<open>One octet: decimal digits without a leading zero.\<close>

definition parseOctet :: "string \<Rightarrow> byte option" where
  "parseOctet s =
     (if s \<noteq> [] \<and> list_all isDigit s \<and> (length s = 1 \<or> hd s \<noteq> CHR ''0'') \<and> decVal s \<le> 255 then Some (of_nat (decVal s)) else None)"

definition parseIPv4 :: "string \<Rightarrow> ip option" where
  "parseIPv4 s =
     (case map parseOctet (splitOn CHR ''.'' s) of
        [Some a, Some b, Some c, Some d] \<Rightarrow> Some [a, b, c, d]
      | _ \<Rightarrow> None)"

definition printIPv4 :: "ip \<Rightarrow> string" where
  "printIPv4 q = joinWith ''.'' (map (\<lambda>b. utoa (unat b)) q)"

lemma splitOn_nonempty: "splitOn c s \<noteq> []"
  by (induction c s rule: splitOn.induct) (auto split: list.splits)

lemma splitOn_word: "c \<notin> set w \<Longrightarrow> splitOn c w = [w]"
  by (induction w) auto

lemma splitOn_append: "c \<notin> set w \<Longrightarrow> splitOn c (w @ c # s) = w # splitOn c s"
  by (induction w) auto

lemma splitOn_join: "ws \<noteq> [] \<Longrightarrow> \<forall>w \<in> set ws. c \<notin> set w \<Longrightarrow> splitOn c (joinWith [c] ws) = ws"
  by (induction "[c]" ws rule: joinWith.induct) (simp_all add: splitOn_word splitOn_append)

lemma digitChar_zero: "d < 10 \<Longrightarrow> digitChar d = CHR ''0'' \<longleftrightarrow> d = 0"
  using digitChar_props [of d] by (auto simp: digitVal_def digitChar_def char_of_def bit_0)

lemma utoa_no_leading_zero: "length (utoa n) = 1 \<or> hd (utoa n) \<noteq> CHR ''0''"
proof (induction n rule: utoa.induct)
  case (1 n)
  show ?case
  proof (cases "n < 10")
    case False
    have "hd (utoa (n div 10)) \<noteq> CHR ''0''"
    proof (cases "n div 10 < 10")
      case True
      then show ?thesis using False digitChar_zero [OF True] by (simp add: utoa.simps [of "n div 10"])
    next
      case f: False
      then show ?thesis using 1 [OF False] by (simp add: utoa.simps [of "n div 10"])
    qed
    then show ?thesis using False by (simp add: utoa.simps [of n] hd_append)
  qed (simp add: utoa.simps [of n])
qed

lemma byte_le: "unat (b :: byte) \<le> 255"
proof -
  have "unat b < 256" by (rule unat_byte_less)
  then show ?thesis by linarith
qed

lemma parseOctet_utoa: "parseOctet (utoa (unat b)) = Some b"
proof -
  have "unat b \<le> 255" by (rule byte_le)
  then show ?thesis
    using utoa_no_leading_zero [of "unat b"] by (simp add: parseOctet_def utoa_digits utoa_val)
qed

lemma parse_print_IPv4: "length q = 4 \<Longrightarrow> parseIPv4 (printIPv4 q) = Some q"
proof -
  assume "length q = 4"
  then obtain a b c d where q: "q = [a, b, c, d]" by (auto simp: length_Suc_conv numeral_eq_Suc)
  have "splitOn CHR ''.'' (printIPv4 q) = map (\<lambda>b. utoa (unat b)) q"
    unfolding printIPv4_def using utoa_chars by (intro splitOn_join) (auto simp: q)
  then show ?thesis by (simp add: parseIPv4_def q parseOctet_utoa)
qed

section \<open>Colon notation\<close>

definition isHex :: "char \<Rightarrow> bool" where
  "isHex c \<longleftrightarrow> hexVal c \<noteq> None"

definition hexNum :: "string \<Rightarrow> nat" where
  "hexNum = foldl (\<lambda>a c. 16 * a + the (hexVal c)) 0"

definition field16 :: "nat \<Rightarrow> byte list" where
  "field16 n = [of_nat (n div 256), of_nat n]"

text \<open>
  The loop of \<^verbatim>\<open>parseIPv6\<close>: the bytes so far, the position of the ellipsis, the rest of the text.
\<close>

function v6Loop :: "byte list \<Rightarrow> nat option \<Rightarrow> string \<Rightarrow> (byte list \<times> nat option \<times> string) option" where
  "v6Loop acc ell s =
     (if 16 \<le> length acc then Some (acc, ell, s)
      else let ds = takeWhile isHex s; rest = dropWhile isHex s in
        if 4 < length ds \<or> ds = [] then None
        else if rest \<noteq> [] \<and> hd rest = CHR ''.'' then
          (if ell = None \<and> length acc \<noteq> 12 then None
           else if 16 < length acc + 4 then None
           else map_option (\<lambda>q. (acc @ q, ell, [])) (parseIPv4 s))
        else let acc' = acc @ field16 (hexNum ds) in
          (case rest of
             [] \<Rightarrow> Some (acc', ell, [])
           | c # r \<Rightarrow>
               if c \<noteq> CHR '':'' \<or> r = [] then None
               else if hd r = CHR '':'' then
                 (if ell \<noteq> None then None
                  else if tl r = [] then Some (acc', Some (length acc'), [])
                  else v6Loop acc' (Some (length acc')) (tl r))
               else v6Loop acc' ell r))"
  by pat_completeness auto
termination
  by (relation "measure (\<lambda>(acc, ell, s). 16 - length acc)") (auto simp: field16_def)

declare v6Loop.simps [simp del]

definition parseIPv6 :: "string \<Rightarrow> ip option" where
  "parseIPv6 s =
     (let lead = (take 2 s = ''::''); ell = (if lead then Some 0 else None); s1 = (if lead then drop 2 s else s) in
      if lead \<and> s1 = [] then Some (replicate 16 0)
      else case v6Loop [] ell s1 of
        None \<Rightarrow> None
      | Some (acc, ell, rest) \<Rightarrow>
          if rest \<noteq> [] then None
          else if length acc < 16 then map_option (\<lambda>e. take e acc @ replicate (16 - length acc) 0 @ drop e acc) ell
          else if ell \<noteq> None then None else Some acc)"

definition ParseIP :: "string \<Rightarrow> ip option" where
  "ParseIP s =
     (if CHR ''%'' \<in> set s then None
      else case find (\<lambda>c. c = CHR ''.'' \<or> c = CHR '':'') s of
        None \<Rightarrow> None
      | Some c \<Rightarrow> if c = CHR ''.'' then map_option (\<lambda>q. v4InV6Prefix @ q) (parseIPv4 s) else parseIPv6 s)"

section \<open>Printing\<close>

fun groups :: "byte list \<Rightarrow> nat list" where
  "groups (a # b # s) = (256 * unat a + unat b) # groups s"
| "groups _ = []"

definition hexDigit :: "nat \<Rightarrow> char" where
  "hexDigit d = (if d < 10 then char_of (48 + d) else char_of (87 + d))"

fun utoh :: "nat \<Rightarrow> string" where
  "utoh n = (if n < 16 then [hexDigit n] else utoh (n div 16) @ [hexDigit (n mod 16)])"

declare utoh.simps [simp del]

text \<open>The first of the longest runs of at least two zero groups, as its start and length.\<close>

definition zeroRun :: "nat list \<Rightarrow> nat \<times> nat" where
  "zeroRun gs = foldl (\<lambda>(s, l) i. let k = length (takeWhile (\<lambda>g. g = 0) (drop i gs)) in
      if 2 \<le> k \<and> l < k then (i, k) else (s, l)) (0, 0) [0..<length gs]"

definition printIPv6 :: "ip \<Rightarrow> string" where
  "printIPv6 a =
     (let gs = groups a in
      case zeroRun gs of (s, l) \<Rightarrow>
        if l = 0 then joinWith '':'' (map utoh gs)
        else joinWith '':'' (map utoh (take s gs)) @ ''::'' @ joinWith '':'' (map utoh (drop (s + l) gs)))"

text \<open>\<^verbatim>\<open>IP.String\<close>, for the lengths that occur.\<close>

definition IPString :: "ip \<Rightarrow> string" where
  "IPString a = (case To4 a of Some q \<Rightarrow> printIPv4 q | None \<Rightarrow> printIPv6 a)"

section \<open>Parsing undoes printing\<close>

lemma hexVal_hexDigit: "d < 16 \<Longrightarrow> hexVal (hexDigit d) = Some d"
  by (cases "d < 10") (simp_all add: hexDigit_def hexVal_def Let_def)

lemma utoh_hex: "list_all isHex (utoh n)"
proof (induction n rule: utoh.induct)
  case (1 n)
  then show ?case by (simp add: utoh.simps [of n] isHex_def hexVal_hexDigit)
qed

lemma utoh_nonempty [simp]: "utoh n \<noteq> []"
  by (simp add: utoh.simps [of n])

lemma utoh_val: "hexNum (utoh n) = n"
proof (induction n rule: utoh.induct)
  case (1 n)
  then show ?case by (simp add: utoh.simps [of n] hexNum_def hexVal_hexDigit)
qed

lemma utoh_length: "n < 16 ^ k \<Longrightarrow> 0 < k \<Longrightarrow> length (utoh n) \<le> k"
proof (induction k arbitrary: n)
  case (Suc k)
  show ?case
  proof (cases "n < 16")
    case False
    then have "k \<noteq> 0" using Suc.prems by (cases k) auto
    moreover have "n div 16 < 16 ^ k" using Suc.prems by (simp add: div_less_iff_less_mult mult.commute)
    ultimately have "length (utoh (n div 16)) \<le> k" using Suc.IH by simp
    then show ?thesis using False by (simp add: utoh.simps [of n])
  qed (simp add: utoh.simps [of n])
qed simp

lemma isHex_not: "isHex c \<Longrightarrow> c \<notin> {CHR '':'', CHR ''.'', CHR ''%''}"
  by (auto simp: isHex_def hexVal_def)

lemma field16_group: "field16 (256 * unat a + unat (b :: byte)) = [a, b]"
proof -
  have "(256 * unat a + unat b) div 256 = unat a" using unat_byte_less [of b] by simp
  moreover have "of_nat (256 * unat a + unat b) = b"
  proof -
    have "of_nat (256 * unat a + unat b) = (256 :: byte) * a + b" by simp
    also have "(256 :: byte) = 0" by simp
    finally show ?thesis by simp
  qed
  ultimately show ?thesis by (simp add: field16_def)
qed

lemma length_groups: "length (groups a) = length a div 2"
  by (induction a rule: groups.induct) simp_all

lemma groups_less: "g \<in> set (groups a) \<Longrightarrow> g < 65536"
proof (induction a rule: groups.induct)
  case (1 a b s)
  have "256 * unat a + unat b < 65536" using byte_le [of a] byte_le [of b] by linarith
  with 1 show ?case by auto
qed simp_all

lemma groups_fields: "even (length a) \<Longrightarrow> concat (map field16 (groups a)) = a"
  by (induction a rule: groups.induct) (simp_all add: field16_group)

text \<open>One group at the front of the text.\<close>

lemma takeWhile_utoh:
  assumes "r = [] \<or> \<not> isHex (hd r)"
  shows "takeWhile isHex (utoh n @ r) = utoh n" "dropWhile isHex (utoh n @ r) = r"
proof -
  have "\<forall>c \<in> set (utoh n). isHex c" using utoh_hex [of n] by (simp add: list_all_iff)
  then show "takeWhile isHex (utoh n @ r) = utoh n" "dropWhile isHex (utoh n @ r) = r"
    using assms by (cases r; simp add: takeWhile_append dropWhile_append)+
qed

lemma utoh_all: "takeWhile isHex (utoh n) = utoh n" "dropWhile isHex (utoh n) = []"
  using takeWhile_utoh [of "[]" n] by simp_all

lemma not_hex: "\<not> isHex CHR '':'' " "\<not> isHex CHR ''.''"
  using isHex_not by blast+

lemma utoh16: "g < 65536 \<Longrightarrow> length (utoh g) \<le> 4"
  using utoh_length [of g 4] by simp

lemma v6Loop_last:
  assumes "length acc < 16" "g < 65536"
  shows "v6Loop acc ell (utoh g) = Some (acc @ field16 g, ell, [])"
  using assms utoh16 [OF assms(2)] by (simp add: v6Loop.simps [of acc] utoh_all utoh_val Let_def)

lemma v6Loop_group:
  assumes "length acc < 16" "g < 65536" "t \<noteq> []" "hd t \<noteq> CHR '':''"
  shows "v6Loop acc ell (utoh g @ '':'' @ t) = v6Loop (acc @ field16 g) ell t"
  using assms takeWhile_utoh [of "'':'' @ t" g] utoh16 [OF assms(2)] not_hex
  by (simp add: v6Loop.simps [of acc] utoh_val Let_def)

lemma v6Loop_ellipsis:
  assumes "length acc < 16" "g < 65536"
  shows "v6Loop acc None (utoh g @ ''::'' @ t) =
     (if t = [] then Some (acc @ field16 g, Some (length acc + 2), []) else v6Loop (acc @ field16 g) (Some (length acc + 2)) t)"
  using assms takeWhile_utoh [of "''::'' @ t" g] utoh16 [OF assms(2)] not_hex
  by (simp add: v6Loop.simps [of acc] utoh_val Let_def field16_def)

text \<open>A list of groups with colons between them.\<close>

definition hexList :: "nat list \<Rightarrow> string" where
  "hexList gs = joinWith '':'' (map utoh gs)"

lemma hexList_simps: "hexList [g] = utoh g" "gs \<noteq> [] \<Longrightarrow> hexList (g # gs) = utoh g @ '':'' @ hexList gs"
  by (cases gs; simp add: hexList_def)+

lemma hd_utoh: "isHex (hd (utoh g))"
  using utoh_hex [of g] by (cases "utoh g") simp_all

lemma hexList_head: "gs \<noteq> [] \<Longrightarrow> hexList gs \<noteq> [] \<and> isHex (hd (hexList gs))"
  using hd_utoh by (cases gs rule: list.exhaust; cases "tl gs = []") (auto simp: hexList_simps)

lemma hexList_chars: "c \<in> set (hexList gs) \<Longrightarrow> isHex c \<or> c = CHR '':''"
proof (induction gs)
  case (Cons g gs)
  then show ?case using utoh_hex [of g] by (cases "gs = []") (auto simp: hexList_simps list_all_iff)
qed (simp add: hexList_def)

lemma v6Loop_list:
  assumes "gs \<noteq> []" "\<forall>g \<in> set gs. g < 65536" "length acc + 2 * length gs \<le> 16"
  shows "v6Loop acc ell (hexList gs) = Some (acc @ concat (map field16 gs), ell, [])"
  using assms
proof (induction gs arbitrary: acc)
  case (Cons g gs)
  show ?case
  proof (cases "gs = []")
    case True
    then show ?thesis using Cons.prems by (simp add: hexList_simps v6Loop_last)
  next
    case False
    have "hexList gs \<noteq> []" "hd (hexList gs) \<noteq> CHR '':''" using hexList_head [OF False] not_hex by auto
    then have "v6Loop acc ell (hexList (g # gs)) = v6Loop (acc @ field16 g) ell (hexList gs)"
      using Cons.prems v6Loop_group [of acc g "hexList gs" ell] False by (simp add: hexList_simps)
    then show ?thesis using Cons.IH [OF False, of "acc @ field16 g"] Cons.prems by (simp add: field16_def)
  qed
qed simp

lemma v6Loop_prefix:
  assumes "gs \<noteq> []" "\<forall>g \<in> set gs. g < 65536" "length acc + 2 * length gs < 16"
  shows "v6Loop acc None (hexList gs @ ''::'' @ t) =
     (let acc' = acc @ concat (map field16 gs) in
      if t = [] then Some (acc', Some (length acc'), []) else v6Loop acc' (Some (length acc')) t)"
  using assms
proof (induction gs arbitrary: acc)
  case (Cons g gs)
  show ?case
  proof (cases "gs = []")
    case True
    then show ?thesis using Cons.prems v6Loop_ellipsis [of acc g t] by (simp add: hexList_simps field16_def Let_def)
  next
    case False
    have "hexList gs \<noteq> []" "hd (hexList gs) \<noteq> CHR '':''" using hexList_head [OF False] not_hex by auto
    then have "v6Loop acc None (hexList (g # gs) @ ''::'' @ t) = v6Loop (acc @ field16 g) None (hexList gs @ ''::'' @ t)"
      using Cons.prems v6Loop_group [of acc g "hexList gs @ ''::'' @ t" None] False by (simp add: hexList_simps)
    then show ?thesis using Cons.IH [OF False, of "acc @ field16 g"] Cons.prems by (simp add: field16_def Let_def)
  qed
qed simp

lemma length_fields [simp]: "length (concat (map field16 gs)) = 2 * length gs"
  by (induction gs) (simp_all add: field16_def)

lemma fields_zero: "concat (replicate n (field16 0)) = replicate (2 * n) 0"
  by (induction n) (simp_all add: field16_def)

text \<open>The text of a group list, whole or with a run of zeros left out, is read back.\<close>

lemma parse_whole:
  assumes "length gs = 8" "\<forall>g \<in> set gs. g < 65536"
  shows "parseIPv6 (hexList gs) = Some (concat (map field16 gs))"
proof -
  have ne: "gs \<noteq> []" using assms(1) by auto
  have "take 2 (hexList gs) \<noteq> ''::''" using hexList_head [OF ne] not_hex by (cases "hexList gs") auto
  then show ?thesis using v6Loop_list [OF ne assms(2), of "[]" None] assms(1) by (simp add: parseIPv6_def Let_def)
qed

lemma parse_omitted:
  assumes "length A + k + length B = 8" "2 \<le> k" "\<forall>g \<in> set A \<union> set B. g < 65536"
  shows "parseIPv6 (hexList A @ ''::'' @ hexList B) = Some (concat (map field16 (A @ replicate k 0 @ B)))"
proof (cases "A = []")
  case True
  then have "16 - 2 * length B = 2 * k" using assms(1) by simp
  then show ?thesis
    using True assms v6Loop_list [of B "[]" "Some 0"]
    by (cases "B = []") (simp_all add: parseIPv6_def Let_def hexList_def [of "[]"] hexList_head fields_zero)
next
  case False
  let ?f = "concat (map field16 A)"
  have h: "take 2 (hexList A @ ''::'' @ hexList B) \<noteq> ''::''" using hexList_head [OF False] not_hex by (cases "hexList A") auto
  have "v6Loop [] None (hexList A @ ''::'' @ hexList B) = Some (?f @ concat (map field16 B), Some (2 * length A), [])"
    using assms False v6Loop_prefix [of A "[]" "hexList B"] v6Loop_list [of B ?f "Some (2 * length A)"]
    by (cases "B = []") (simp_all add: Let_def hexList_def [of "[]"] hexList_head)
  moreover have "16 - (2 * length A + 2 * length B) = 2 * k" using assms(1) by simp
  ultimately show ?thesis using h assms by (simp add: parseIPv6_def Let_def fields_zero)
qed

lemma zeroRun_sound:
  assumes "zeroRun gs = (s, l)" "l \<noteq> 0"
  shows "2 \<le> l \<and> take l (drop s gs) = replicate l 0 \<and> s + l \<le> length gs"
proof -
  let ?k = "\<lambda>i. length (takeWhile (\<lambda>g. g = 0) (drop i gs))"
  let ?f = "\<lambda>(s, l) i. let k = ?k i in if 2 \<le> k \<and> l < k then (i, k) else (s, l)"
  have "snd (foldl ?f (0, 0) is) \<noteq> 0 \<longrightarrow> 2 \<le> snd (foldl ?f (0, 0) is) \<and> snd (foldl ?f (0, 0) is) = ?k (fst (foldl ?f (0, 0) is))" for "is"
    by (induction "is" rule: rev_induct) (auto simp: Let_def split: prod.splits)
  then have "snd (zeroRun gs) \<noteq> 0 \<longrightarrow> 2 \<le> snd (zeroRun gs) \<and> snd (zeroRun gs) = ?k (fst (zeroRun gs))" unfolding zeroRun_def .
  then have l: "2 \<le> l" "l = ?k s" using assms by simp_all
  have "take l (drop s gs) = takeWhile (\<lambda>g. g = 0) (drop s gs)" unfolding l(2) by (rule takeWhile_eq_take [symmetric])
  moreover have "takeWhile (\<lambda>g. g = 0) (drop s gs) = replicate l 0"
    unfolding l(2) by (rule replicate_eqI) (auto dest: set_takeWhileD)
  moreover have "l \<le> length gs - s" unfolding l(2) using length_takeWhile_le [of _ "drop s gs"] by simp
  ultimately show ?thesis using l(1) by auto
qed

lemma parse_print_IPv6:
  assumes "length a = 16"
  shows "parseIPv6 (printIPv6 a) = Some a"
proof -
  let ?gs = "groups a"
  obtain s l where r: "zeroRun ?gs = (s, l)" by (cases "zeroRun ?gs")
  have g: "length ?gs = 8" "\<forall>g \<in> set ?gs. g < 65536" using assms groups_less by (auto simp: length_groups)
  have a: "concat (map field16 ?gs) = a" using assms by (intro groups_fields) simp
  show ?thesis
  proof (cases "l = 0")
    case True
    then show ?thesis using parse_whole [OF g] a r by (simp add: printIPv6_def hexList_def)
  next
    case False
    note z = zeroRun_sound [OF r False]
    have split: "?gs = take s ?gs @ replicate l 0 @ drop (s + l) ?gs"
      using z by (metis append_take_drop_id drop_drop add.commute)
    have "parseIPv6 (hexList (take s ?gs) @ ''::'' @ hexList (drop (s + l) ?gs)) =
        Some (concat (map field16 (take s ?gs @ replicate l 0 @ drop (s + l) ?gs)))"
      using z g by (intro parse_omitted) (auto dest: in_set_takeD in_set_dropD)
    then show ?thesis using split a r False by (simp add: printIPv6_def hexList_def Let_def)
  qed
qed

text \<open>The first separator of a printed address tells its family.\<close>

lemma find_append_first: "(\<forall>x \<in> set xs. \<not> P x) \<Longrightarrow> P y \<Longrightarrow> find P (xs @ y # ys) = Some y"
  by (induction xs) auto

lemma digit_sep: "c \<in> set (utoa n) \<Longrightarrow> c \<noteq> CHR ''.'' \<and> c \<noteq> CHR '':'' \<and> c \<noteq> CHR ''%''"
  using utoa_digits [of n] by (auto simp: list_all_iff isDigit_def)

lemma printIPv4_chars: "c \<in> set (printIPv4 q) \<Longrightarrow> isDigit c \<or> c = CHR ''.''"
proof -
  have "c \<in> set (joinWith ''.'' (map (\<lambda>b. utoa (unat (b :: byte))) q)) \<Longrightarrow> isDigit c \<or> c = CHR ''.''"
    using utoa_digits by (induction q rule: induct_list012) (auto simp: list_all_iff)
  then show "c \<in> set (printIPv4 q) \<Longrightarrow> isDigit c \<or> c = CHR ''.''" by (simp add: printIPv4_def)
qed

lemma hexList_more: "2 \<le> length gs \<Longrightarrow> \<exists>t. hexList gs = utoh (hd gs) @ '':'' @ t"
  by (cases gs) (auto simp: hexList_simps Suc_le_eq)

lemma printIPv6_shape:
  assumes "length a = 16"
  shows "(\<exists>g t. printIPv6 a = utoh g @ '':'' @ t) \<or> (\<exists>t. printIPv6 a = '':'' @ t)"
proof -
  obtain s l where r: "zeroRun (groups a) = (s, l)" by (cases "zeroRun (groups a)")
  have p: "printIPv6 a = (if l = 0 then hexList (groups a) else hexList (take s (groups a)) @ ''::'' @ hexList (drop (s + l) (groups a)))"
    by (simp add: printIPv6_def r Let_def hexList_def)
  have g: "2 \<le> length (groups a)" using assms by (simp add: length_groups)
  consider "l = 0" | "l \<noteq> 0" "take s (groups a) = []" | g where "l \<noteq> 0" "take s (groups a) = [g]" |
    "l \<noteq> 0" "2 \<le> length (take s (groups a))"
  proof -
    let ?A = "take s (groups a)"
    have "?A = [] \<or> (\<exists>g. ?A = [g]) \<or> 2 \<le> length ?A" by (cases ?A; cases "tl ?A") auto
    then show thesis using that by blast
  qed
  then show ?thesis
  proof cases
    case 1
    then show ?thesis using hexList_more [OF g] by (auto simp: p)
  next
    case 2
    then have "printIPv6 a = '':'' @ ('':'' @ hexList (drop (s + l) (groups a)))" unfolding p by (simp only: hexList_def) simp
    then show ?thesis by blast
  next
    case 3
    then have "printIPv6 a = utoh g @ '':'' @ ('':'' @ hexList (drop (s + l) (groups a)))" by (simp add: p hexList_simps)
    then show ?thesis by blast
  next
    case 4
    then obtain t where "hexList (take s (groups a)) = utoh (hd (take s (groups a))) @ '':'' @ t" using hexList_more by blast
    then show ?thesis using 4(1) by (auto simp: p)
  qed
qed

lemma printIPv6_chars: "c \<in> set (printIPv6 a) \<Longrightarrow> isHex c \<or> c = CHR '':''"
  using hexList_chars by (auto simp: printIPv6_def Let_def simp flip: hexList_def split: prod.splits if_splits)

lemma ParseIP_printIPv4:
  assumes "length q = 4"
  shows "ParseIP (printIPv4 q) = Some (v4InV6Prefix @ q)"
proof -
  obtain a b c d where q: "q = [a, b, c, d]" using assms by (auto simp: length_Suc_conv numeral_eq_Suc)
  have "CHR ''%'' \<notin> set (printIPv4 q)" using printIPv4_chars [of "CHR ''%''" q] by (auto simp: isDigit_def)
  moreover have "find (\<lambda>c. c = CHR ''.'' \<or> c = CHR '':'') (printIPv4 q) = Some CHR ''.''"
    using digit_sep by (auto simp: q printIPv4_def intro!: find_append_first)
  ultimately show ?thesis by (simp add: ParseIP_def parse_print_IPv4 assms)
qed

lemma ParseIP_printIPv6:
  assumes "length a = 16"
  shows "ParseIP (printIPv6 a) = Some a"
proof -
  have "CHR ''%'' \<notin> set (printIPv6 a)" using printIPv6_chars [of "CHR ''%''" a] isHex_not by auto
  moreover have "find (\<lambda>c. c = CHR ''.'' \<or> c = CHR '':'') (printIPv6 a) = Some CHR '':''"
  proof -
    have u: "\<forall>c \<in> set (utoh g). \<not> (c = CHR ''.'' \<or> c = CHR '':'')" for g
      using utoh_hex [of g] isHex_not by (auto simp: list_all_iff)
    from printIPv6_shape [OF assms] show ?thesis
      using find_append_first [OF u, of "CHR '':''"] by auto
  qed
  ultimately show ?thesis by (simp add: ParseIP_def parse_print_IPv6 assms)
qed

text \<open>An address of either length is read back in its long form.\<close>

lemma ParseIP_IPString:
  assumes "length a = 4 \<or> length a = 16"
  shows "ParseIP (IPString a) = To16 a"
proof (cases "To4 a")
  case None
  then have "length a = 16" using assms by (auto simp: To4_def)
  then show ?thesis using None by (simp add: IPString_def ParseIP_printIPv6 To16_def)
next
  case (Some q)
  have "To16 a = Some (v4InV6Prefix @ q)"
    using Some by (auto simp: To4_def To16_def split: if_splits) (metis append_take_drop_id)
  then show ?thesis using Some by (simp add: IPString_def ParseIP_printIPv4 To4_length)
qed

lemma isHex_digit: "isDigit c \<Longrightarrow> isHex c"
  by (simp add: isDigit_def isHex_def hexVal_def Let_def)

lemma IPString_chars: "c \<in> set (IPString a) \<Longrightarrow> isHex c \<or> c = CHR '':'' \<or> c = CHR ''.''"
  using printIPv4_chars printIPv6_chars isHex_digit unfolding IPString_def by (cases "To4 a") fastforce+

section \<open>Networks\<close>

text \<open>\<^verbatim>\<open>net.CIDRMask\<close>: the first \<open>n\<close> of \<open>8 * len\<close> bits.\<close>

definition CIDRMask :: "nat \<Rightarrow> nat \<Rightarrow> byte list" where
  "CIDRMask n len = map (\<lambda>i. if 8 * (i + 1) \<le> n then 255 else if n \<le> 8 * i then 0 else NOT (mask (8 * (i + 1) - n))) [0..<len]"

definition maskIP :: "ip \<Rightarrow> byte list \<Rightarrow> ip option" where
  "maskIP a m =
     (let a' = (if length m = 4 \<and> length a = 16 \<and> take 12 a = v4InV6Prefix then drop 12 a else a) in
      if length a' = length m then Some (map2 (AND) a' m) else None)"

record IPNet =
  net_IP :: ip
  net_Mask :: "byte list"

text \<open>
  \<^verbatim>\<open>ParseCIDR\<close>: the address, and the network it is in.  A text with a dot before any colon is of the short family.
\<close>

definition bitLen :: "string \<Rightarrow> nat" where
  "bitLen s = (if find (\<lambda>c. c = CHR ''.'' \<or> c = CHR '':'') s = Some CHR ''.'' then 32 else 128)"

definition ParseCIDR :: "string \<Rightarrow> (ip \<times> IPNet) option" where
  "ParseCIDR s =
     (case Cut s CHR ''/'' of
        None \<Rightarrow> None
      | Some (addr, m) \<Rightarrow>
          (case ParseIP addr of
             None \<Rightarrow> None
           | Some a \<Rightarrow>
               if m = [] \<or> \<not> list_all isDigit m \<or> bitLen addr < decVal m then None
               else let cm = CIDRMask (decVal m) (bitLen addr div 8) in
                 map_option (\<lambda>nw. (a, \<lparr>net_IP = nw, net_Mask = cm\<rparr>)) (maskIP a cm)))"

definition netContains :: "IPNet \<Rightarrow> ip \<Rightarrow> bool" where
  "netContains nw a =
     (let number = (case To4 (net_IP nw) of Some q \<Rightarrow> q | None \<Rightarrow> net_IP nw);
          m = (if length (net_Mask nw) = 16 \<and> length number = 4 then drop 12 (net_Mask nw) else net_Mask nw);
          a' = (case To4 a of Some q \<Rightarrow> q | None \<Rightarrow> a) in
      length m = length number \<and> length a' = length number \<and> map2 (AND) number m = map2 (AND) a' m)"

end
