(* ===== verification/EntryProxy.thy ===== *)
theory EntryProxy
  imports NetAddr HttpRelay
begin

text \<open>
  The handlers of \<^verbatim>\<open>tui/internal/entry/entry.go\<close>: the SOCKS5 server for local programs (\<^verbatim>\<open>serveSocks5\<close>), its HTTP counterpart
  (\<^verbatim>\<open>serveHTTPConnect\<close>), and the SOCKS5 client that reaches the core (\<^verbatim>\<open>socks5Dial\<close>).  A connection is the bytes its peer
  sends until it stops and whether writing to it works; a handler returns what it wrote, whom it dialled, and
  the bytes it left for the tunnel.  The traffic counters are those of \<^verbatim>\<open>internal/stats\<close>.
\<close>

section \<open>Reading\<close>

text \<open>\<^verbatim>\<open>io.ReadFull\<close>.\<close>

definition readFull :: "nat \<Rightarrow> byte list \<Rightarrow> (byte list \<times> byte list) option" where
  "readFull n s = (if n \<le> length s then Some (take n s, drop n s) else None)"

lemma readFull_append [simp]: "length b = n \<Longrightarrow> readFull n (b @ s) = Some (b, s)"
  by (auto simp: readFull_def)

lemma readFull_Cons [simp]:
  "readFull 2 (a # b # s) = Some ([a, b], s)" "readFull 1 (a # s) = Some ([a], s)" "readFull (Suc 0) (a # s) = Some ([a], s)"
  "readFull 4 (a # b # c # d # s) = Some ([a, b, c, d], s)"
  by (simp_all add: readFull_def numeral_eq_Suc)

section \<open>The client of the core\<close>

datatype socks_error =
    DialError | WriteError | HandshakeFailed | BadAddress addr_error | InvalidPort string | HostTooLong
  | ReplyTruncated | ReplyVersion byte | ReplyCode byte | ReplyAddressType byte | UnsupportedNetwork string

text \<open>The request for a target: an address in its shortest form, or the name as it is.\<close>

definition portBytes :: "int \<Rightarrow> byte list" where
  "portBytes p = [of_int (p div 256), of_int p]"

definition socks5Request :: "string \<Rightarrow> socks_error + byte list" where
  "socks5Request target =
     (case SplitHostPort target of
        Inl e \<Rightarrow> Inl (BadAddress e)
      | Inr (host, portStr) \<Rightarrow>
          (case Atoi portStr of
             None \<Rightarrow> Inl (InvalidPort portStr)
           | Some port \<Rightarrow>
               if port < 1 \<or> 65535 < port then Inl (InvalidPort portStr)
               else (case ParseIP host of
                       Some a \<Rightarrow>
                         (case To4 a of
                            Some v4 \<Rightarrow> Inr ([5, 1, 0, 1] @ v4 @ portBytes port)
                          | None \<Rightarrow> Inr ([5, 1, 0, 4] @ (case To16 a of Some v6 \<Rightarrow> v6 | None \<Rightarrow> []) @ portBytes port))
                     | None \<Rightarrow>
                         if 255 < length host then Inl HostTooLong
                         else Inr ([5, 1, 0, 3, of_nat (length host)] @ toBytes host @ portBytes port))))"

definition readSocks5Reply :: "byte list \<Rightarrow> socks_error + byte list" where
  "readSocks5Reply r =
     (case readFull 4 r of
        None \<Rightarrow> Inl ReplyTruncated
      | Some (header, r1) \<Rightarrow>
          if header ! 0 \<noteq> 5 then Inl (ReplyVersion (header ! 0))
          else if header ! 1 \<noteq> 0 then Inl (ReplyCode (header ! 1))
          else
            let skip = (\<lambda>n s. case readFull (n + 2) s of None \<Rightarrow> Inl ReplyTruncated | Some (_, s1) \<Rightarrow> Inr s1) in
            if header ! 3 = 1 then skip 4 r1
            else if header ! 3 = 3 then
              (case readFull 1 r1 of None \<Rightarrow> Inl ReplyTruncated | Some (l, r2) \<Rightarrow> skip (unat (l ! 0)) r2)
            else if header ! 3 = 4 then skip 16 r1
            else Inl (ReplyAddressType (header ! 3)))"

text \<open>
  The connection to the core: whether it can be dialled, the writes that work, and all it sends.
\<close>

record coreConn =
  core_dial :: bool
  core_write1 :: bool
  core_write2 :: bool
  core_sends :: "byte list"

text \<open>The outcome is an error, or the bytes that follow the reply; beside it, what was written.\<close>

definition socks5Dial :: "coreConn \<Rightarrow> string \<Rightarrow> (socks_error + byte list) \<times> byte list" where
  "socks5Dial c target =
     (if \<not> core_dial c then (Inl DialError, [])
      else if \<not> core_write1 c then (Inl WriteError, [])
      else case readFull 2 (core_sends c) of
        None \<Rightarrow> (Inl HandshakeFailed, [5, 1, 0])
      | Some (reply, r1) \<Rightarrow>
          if reply ! 0 \<noteq> 5 \<or> reply ! 1 \<noteq> 0 then (Inl HandshakeFailed, [5, 1, 0])
          else (case socks5Request target of
                  Inl e \<Rightarrow> (Inl e, [5, 1, 0])
                | Inr req \<Rightarrow>
                    if \<not> core_write2 c then (Inl WriteError, [5, 1, 0])
                    else (readSocks5Reply r1, [5, 1, 0] @ req)))"

text \<open>The dialler that the tunnel device uses.\<close>

definition Dialer :: "coreConn \<Rightarrow> string \<Rightarrow> string \<Rightarrow> (socks_error + byte list) \<times> byte list" where
  "Dialer c network addr = (if network \<noteq> ''tcp'' then (Inl (UnsupportedNetwork network), []) else socks5Dial c addr)"

section \<open>The SOCKS5 server\<close>

record entryResult =
  er_wrote :: "byte list"
  er_target :: "string option"
  er_tunnel :: "(byte list \<times> byte list) option"   \<comment> \<open>client bytes and core bytes left for the tunnel\<close>

definition refused :: "byte list \<Rightarrow> entryResult" where
  "refused out = \<lparr>er_wrote = out, er_target = None, er_tunnel = None\<rparr>"

text \<open>The host of a request, by its address type.\<close>

definition readHost :: "byte \<Rightarrow> byte list \<Rightarrow> (string \<times> byte list) option" where
  "readHost atyp s =
     (if atyp = 1 then map_option (\<lambda>(b, r). (IPString b, r)) (readFull 4 s)
      else if atyp = 3 then
        (case readFull 1 s of
           None \<Rightarrow> None
         | Some (l, s1) \<Rightarrow> map_option (\<lambda>(b, r). (ofBytes b, r)) (readFull (unat (l ! 0)) s1))
      else if atyp = 4 then map_option (\<lambda>(b, r). (IPString b, r)) (readFull 16 s)
      else None)"

text \<open>\<open>w\<close> says which of the handler's writes work, \<open>dial\<close> is the dialler.\<close>

definition serveSocks5 :: "(nat \<Rightarrow> bool) \<Rightarrow> (string \<Rightarrow> socks_error + byte list) \<Rightarrow> byte list \<Rightarrow> entryResult" where
  "serveSocks5 w dial s =
     (case readFull 2 s of
        None \<Rightarrow> refused []
      | Some (hdr, s1) \<Rightarrow>
          if hdr ! 0 \<noteq> 5 then refused []
          else (case readFull (unat (hdr ! 1)) s1 of
            None \<Rightarrow> refused []
          | Some (methods, s2) \<Rightarrow>
              if 0 \<notin> set methods then refused (if w 0 then [5, 0xff] else [])
              else if \<not> w 0 then refused []
              else (case readFull 4 s2 of
                None \<Rightarrow> refused [5, 0]
              | Some (rhdr, s3) \<Rightarrow>
                  if rhdr ! 0 \<noteq> 5 \<or> rhdr ! 1 \<noteq> 1 then refused [5, 0]
                  else (case readHost (rhdr ! 3) s3 of
                    None \<Rightarrow> refused [5, 0]
                  | Some (host, s4) \<Rightarrow>
                      (case readFull 2 s4 of
                         None \<Rightarrow> refused [5, 0]
                       | Some (pb, s5) \<Rightarrow>
                           let port = 256 * unat (pb ! 0) + unat (pb ! 1);
                               target = JoinHostPort host (Itoa (int port)) in
                           (case dial target of
                              Inl e \<Rightarrow> \<lparr>er_wrote = [5, 0] @ (if w 1 then [5, 5, 0, 1, 0, 0, 0, 0, 0, 0] else []), er_target = Some target, er_tunnel = None\<rparr>
                            | Inr rest \<Rightarrow>
                                if \<not> w 1 then \<lparr>er_wrote = [5, 0], er_target = Some target, er_tunnel = None\<rparr>
                                else \<lparr>er_wrote = [5, 0] @ [5, 0, 0, 1, 0, 0, 0, 0, 0, 0], er_target = Some target,
                                      er_tunnel = Some (s5, rest)\<rparr>))))))"

section \<open>Traffic counters\<close>

text \<open>The counters of \<^verbatim>\<open>Stats\<close>.  The smoothed rates that \<^verbatim>\<open>Add\<close> also keeps are in \<^verbatim>\<open>ClientView\<close>.\<close>

record trafficStats =
  UpBytes :: int
  DownBytes :: int

definition trafficAdd :: "bool \<Rightarrow> int \<Rightarrow> trafficStats \<Rightarrow> trafficStats" where
  "trafficAdd up n s = (if up then s\<lparr>UpBytes := i64 (UpBytes s + n)\<rparr> else s\<lparr>DownBytes := i64 (DownBytes s + n)\<rparr>)"

text \<open>A read or write of \<open>n\<close> bytes on a counting connection.\<close>

datatype connOp = ReadOp nat | WriteOp nat

fun countingConn :: "bool \<Rightarrow> connOp \<Rightarrow> trafficStats \<Rightarrow> trafficStats" where
  "countingConn countUp (ReadOp n) s = (if 0 < n then trafficAdd countUp (int n) s else s)"
| "countingConn countUp (WriteOp n) s = (if 0 < n then trafficAdd (\<not> countUp) (int n) s else s)"

section \<open>The HTTP entry\<close>

text \<open>
  \<^verbatim>\<open>serveHTTPConnect\<close>: the request that was read, if any, and the bytes behind it that are already buffered; \<open>put\<close> is the write to
  the core's connection, how many bytes it takes and whether it fails.
\<close>

record httpEntry =
  he_wrote :: string
  he_target :: "string option"
  he_forwarded :: "byte list"   \<comment> \<open>what the core got before the tunnel\<close>
  he_tunnel :: bool
  he_stats :: trafficStats

definition serveHTTPConnect ::
  "bool \<Rightarrow> (string \<Rightarrow> bool) \<Rightarrow> (byte list \<Rightarrow> nat \<times> bool) \<Rightarrow> httpRequest option \<Rightarrow> byte list \<Rightarrow> trafficStats \<Rightarrow> httpEntry"
where
  "serveHTTPConnect w dial put req buffered st =
     (let e = \<lparr>he_wrote = [], he_target = None, he_forwarded = [], he_tunnel = False, he_stats = st\<rparr>;
          bad = e\<lparr>he_wrote := ''HTTP/1.1 400 Bad Request'' @ crlf @ crlf\<rparr> in
      case req of
        None \<Rightarrow> bad
      | Some r \<Rightarrow>
          if rq_Method r \<noteq> ''CONNECT'' then bad
          else if \<not> dial (rq_Host r) then e\<lparr>he_wrote := ''HTTP/1.1 502 Bad Gateway'' @ crlf @ crlf, he_target := Some (rq_Host r)\<rparr>
          else if \<not> w then e\<lparr>he_target := Some (rq_Host r)\<rparr>
          else
            let e = e\<lparr>he_wrote := ''HTTP/1.1 200 Connection Established'' @ crlf @ crlf, he_target := Some (rq_Host r)\<rparr> in
            if buffered \<noteq> [] then
              let (n, err) = put buffered;
                  e = e\<lparr>he_forwarded := take n buffered, he_stats := if 0 < n then trafficAdd True (int n) st else st\<rparr> in
              if err \<or> n \<noteq> length buffered then e else e\<lparr>he_tunnel := True\<rparr>
            else e\<lparr>he_tunnel := True\<rparr>)"

section \<open>The path of a request\<close>

text \<open>An address in a SOCKS5 message, as a client sends it and as the core gets it.\<close>

definition encAddr :: "byte \<Rightarrow> byte list \<Rightarrow> byte list" where
  "encAddr atyp body = (if atyp = 3 then of_nat (length body) # body else body)"

definition coreAddr :: "byte \<Rightarrow> byte list \<Rightarrow> byte list" where
  "coreAddr atyp body =
     (if atyp = 3 then 3 # of_nat (length body) # body
      else case To4 body of Some q \<Rightarrow> 1 # q | None \<Rightarrow> 4 # body)"

definition addr_ok :: "byte \<Rightarrow> byte list \<Rightarrow> bool" where
  "addr_ok atyp body \<longleftrightarrow>
     atyp = 1 \<and> length body = 4 \<or> atyp = 4 \<and> length body = 16 \<or>
     atyp = 3 \<and> length body \<le> 255 \<and> ParseIP (ofBytes body) = None \<and> set (ofBytes body) \<inter> {CHR ''['', CHR '']''} = {}"

definition hostOf :: "byte \<Rightarrow> byte list \<Rightarrow> string" where
  "hostOf atyp body = (if atyp = 3 then ofBytes body else IPString body)"

lemma of_nat_length: "length body \<le> 255 \<Longrightarrow> unat (of_nat (length body) :: byte) = length body"
  by (simp add: unat_of_nat)

lemma readHost_enc: "addr_ok atyp body \<Longrightarrow> readHost atyp (encAddr atyp body @ s) = Some (hostOf atyp body, s)"
  by (auto simp: addr_ok_def readHost_def encAddr_def hostOf_def of_nat_length)

lemma hostOf_no_brackets: "addr_ok atyp body \<Longrightarrow> set (hostOf atyp body) \<inter> {CHR ''['', CHR '']''} = {}"
proof -
  have "c \<notin> {CHR ''['', CHR '']''}" if "c \<in> set (IPString body)" for c
    using IPString_chars [OF that] by (auto simp: isHex_def hexVal_def)
  then show "addr_ok atyp body \<Longrightarrow> ?thesis" by (auto simp: addr_ok_def hostOf_def)
qed

lemma split_target:
  assumes "addr_ok atyp body"
  shows "SplitHostPort (JoinHostPort (hostOf atyp body) (Itoa (int p))) = Inr (hostOf atyp body, Itoa (int p))"
  using hostOf_no_brackets [OF assms] utoa_chars by (intro SplitHostPort_JoinHostPort) (auto simp: Itoa_def)

lemma ParseIP_hostOf:
  assumes "addr_ok atyp body"
  shows "ParseIP (hostOf atyp body) = (if atyp = 3 then None else To16 body)"
  using assms ParseIP_IPString [of body] by (auto simp: addr_ok_def hostOf_def)

lemma To4_To16: "To16 body = Some a \<Longrightarrow> To4 a = To4 body"
  by (auto simp: To4_def To16_def v4InV6Prefix_def split: if_splits)

lemma portBytes_split: "portBytes (int (256 * unat (a :: byte) + unat (b :: byte))) = [a, b]"
proof -
  have "(256 * unat a + unat b) div 256 = unat a" using byte_le [of b] by simp
  then have "int (256 * unat a + unat b) div 256 = int (unat a)" by (metis of_nat_div of_nat_numeral)
  moreover have "(of_int (int (256 * unat a + unat b)) :: byte) = b"
    using field16_group [of a b] by (simp add: field16_def)
  ultimately show ?thesis unfolding portBytes_def by simp
qed

lemma socks5Request_target:
  assumes "addr_ok atyp body" "1 \<le> 256 * unat pa + unat pb"
  shows "socks5Request (JoinHostPort (hostOf atyp body) (Itoa (int (256 * unat pa + unat pb)))) =
     Inr ([5, 1, 0] @ coreAddr atyp body @ [pa, pb])"
proof -
  let ?p = "256 * unat pa + unat pb"
  have p: "?p \<le> 65535" using byte_le [of pa] byte_le [of pb] by linarith
  have "in_i64 (int ?p)" using of_nat_mono [OF p, where ?'a = int] of_nat_0_le_iff [of ?p] unfolding in_i64_def by linarith
  then have at: "Atoi (Itoa (int ?p)) = Some (int ?p)" by (rule Atoi_Itoa)
  have range: "\<not> (int ?p < 1 \<or> 65535 < int ?p)" using of_nat_mono [OF p, where ?'a = int] assms(2) by linarith
  have req: "socks5Request (JoinHostPort (hostOf atyp body) (Itoa (int ?p))) =
      (case ParseIP (hostOf atyp body) of
         Some a \<Rightarrow> (case To4 a of Some v4 \<Rightarrow> Inr ([5, 1, 0, 1] @ v4 @ [pa, pb])
                     | None \<Rightarrow> Inr ([5, 1, 0, 4] @ (case To16 a of Some v6 \<Rightarrow> v6 | None \<Rightarrow> []) @ [pa, pb]))
       | None \<Rightarrow> if 255 < length (hostOf atyp body) then Inl HostTooLong
                else Inr ([5, 1, 0, 3, of_nat (length (hostOf atyp body))] @ toBytes (hostOf atyp body) @ [pa, pb]))"
    unfolding socks5Request_def split_target [OF assms(1)] sum.case prod.case portBytes_split at option.case if_not_P [OF range] ..
  show ?thesis
  proof (cases "atyp = 3")
    case True
    then show ?thesis unfolding req using assms(1) by (simp add: ParseIP_hostOf [OF assms(1)] coreAddr_def hostOf_def addr_ok_def)
  next
    case False
    then have l: "length body = 4 \<or> length body = 16" using assms(1) by (auto simp: addr_ok_def)
    then obtain a where a: "To16 body = Some a" by (auto simp: To16_def)
    have "To16 a = Some a" using To16_length [OF a] by (simp add: To16_def)
    moreover have "To4 body = None \<Longrightarrow> a = body" using a l by (auto simp: To4_def To16_def)
    ultimately show ?thesis unfolding req using False
      by (cases "To4 body") (auto simp: ParseIP_hostOf [OF assms(1)] coreAddr_def a To4_To16 [OF a])
  qed
qed

text \<open>A reply of the core is read to its end and no further.\<close>

lemma readSocks5Reply_exact:
  assumes "batyp = 1 \<and> length baddr = 4 \<or> batyp = 3 \<and> length baddr \<le> 255 \<or> batyp = 4 \<and> length baddr = 16"
  shows "readSocks5Reply ([5, 0, rsv, batyp] @ encAddr batyp baddr @ [x, y] @ rest) = Inr rest"
  using assms by (auto simp: readSocks5Reply_def encAddr_def of_nat_length Let_def readFull_def)

text \<open>
  (C12) A local program's SOCKS5 request reaches the core unchanged: for a greeting that offers no authentication, a CONNECT request for an IPv4
  or IPv6 address or a name that is not an address, and a port other than 0, the core is asked for the same address (an IPv4 address in
  IPv6 form in its short form), the same name and the same port; if the core accepts, the program gets a success reply, and
  the tunnel starts with exactly the bytes that follow the request and the reply.
\<close>

theorem socks_end_to_end:
  assumes "unat n = length methods" "0 \<in> set methods" "addr_ok atyp body" "1 \<le> 256 * unat pa + unat pb"
    "core_dial c" "core_write1 c" "core_write2 c" "w 0" "w 1"
    "batyp = 1 \<and> length baddr = 4 \<or> batyp = 3 \<and> length baddr \<le> 255 \<or> batyp = 4 \<and> length baddr = 16"
    "core_sends c = [5, 0] @ [5, 0, rsv', batyp] @ encAddr batyp baddr @ [x, y] @ fromCore"
  shows "\<exists>t. serveSocks5 w (\<lambda>t. fst (socks5Dial c t))
        ([5, n] @ methods @ [5, 1, rsv, atyp] @ encAddr atyp body @ [pa, pb] @ fromClient) =
      \<lparr>er_wrote = [5, 0, 5, 0, 0, 1, 0, 0, 0, 0, 0, 0], er_target = Some t, er_tunnel = Some (fromClient, fromCore)\<rparr> \<and>
     snd (socks5Dial c t) = [5, 1, 0] @ [5, 1, 0] @ coreAddr atyp body @ [pa, pb]"
proof -
  let ?t = "JoinHostPort (hostOf atyp body) (Itoa (int (256 * unat pa + unat pb)))"
  have d: "socks5Dial c ?t = (Inr fromCore, [5, 1, 0] @ [5, 1, 0] @ coreAddr atyp body @ [pa, pb])"
    using assms(5-7,11) readSocks5Reply_exact [OF assms(10), of rsv' x y fromCore] socks5Request_target [OF assms(3,4)]
    by (simp add: socks5Dial_def)
  have r: "readFull (unat n) (methods @ [5, 1, rsv, atyp] @ encAddr atyp body @ [pa, pb] @ fromClient) =
      Some (methods, [5, 1, rsv, atyp] @ encAddr atyp body @ [pa, pb] @ fromClient)" using assms(1) by (intro readFull_append) simp
  have "serveSocks5 w (\<lambda>t. fst (socks5Dial c t))
        ([5, n] @ methods @ [5, 1, rsv, atyp] @ encAddr atyp body @ [pa, pb] @ fromClient) =
      \<lparr>er_wrote = [5, 0, 5, 0, 0, 1, 0, 0, 0, 0, 0, 0], er_target = Some ?t, er_tunnel = Some (fromClient, fromCore)\<rparr>"
    using assms(2,8,9) r readHost_enc [OF assms(3), of "[pa, pb] @ fromClient"] d by (simp add: serveSocks5_def Let_def)
  then show ?thesis using d by auto
qed

theorem socks_end_to_end_witness:
  "\<exists>t. serveSocks5 (\<lambda>_. True) (\<lambda>t. fst (socks5Dial \<lparr>core_dial = True, core_write1 = True, core_write2 = True,
          core_sends = [5, 0, 5, 0, 0, 1, 0, 0, 0, 0, 0, 0, 42]\<rparr> t)) [5, 1, 0, 5, 1, 0, 1, 93, 184, 216, 34, 1, 187, 7] =
      \<lparr>er_wrote = [5, 0, 5, 0, 0, 1, 0, 0, 0, 0, 0, 0], er_target = Some t, er_tunnel = Some ([7], [42])\<rparr> \<and>
     snd (socks5Dial \<lparr>core_dial = True, core_write1 = True, core_write2 = True,
          core_sends = [5, 0, 5, 0, 0, 1, 0, 0, 0, 0, 0, 0, 42]\<rparr> t) = [5, 1, 0, 5, 1, 0, 1, 93, 184, 216, 34, 1, 187]"
  using socks_end_to_end [of 1 "[0]" 1 "[93, 184, 216, 34]" 1 187
      "\<lparr>core_dial = True, core_write1 = True, core_write2 = True, core_sends = [5, 0, 5, 0, 0, 1, 0, 0, 0, 0, 0, 0, 42]\<rparr>"
      "\<lambda>_. True" 1 "[0, 0, 0, 0]" 0 0 0 "[42]" 0 "[7]"]
  by (simp add: addr_ok_def encAddr_def coreAddr_def To4_def)

text \<open>The outcomes of the SOCKS5 entry on any bytes whatever.\<close>

lemma readFull_SomeD: "readFull n s = Some (a, r) \<Longrightarrow> s = a @ r \<and> length a = n"
  by (auto simp: readFull_def split: if_splits)

lemma readHost_SomeD: "readHost atyp s = Some (h, r) \<Longrightarrow> atyp \<in> {1, 3, 4} \<and> (\<exists>u. s = u @ r)"
  by (fastforce simp: readHost_def dest: readFull_SomeD split: if_splits option.splits)

lemma length2E: "length l = 2 \<Longrightarrow> \<exists>a b. l = [a, b]"
  by (auto simp: numeral_eq_Suc length_Suc_conv)

lemma length4E: "length l = 4 \<Longrightarrow> \<exists>a b c d. l = [a, b, c, d]"
  by (auto simp: numeral_eq_Suc length_Suc_conv)

lemma serveSocks5_cases:
  obtains (refused) out where "serveSocks5 w dial s = refused out" "out \<in> {[], [5, 0xff], [5, 0]}"
  | (dialled) n methods rsv atyp u host pa pb rest where
      "s = [5, n] @ methods @ [5, 1, rsv, atyp] @ u @ [pa, pb] @ rest" "unat n = length methods" "0 \<in> set methods"
      "atyp \<in> {1, 3, 4}" "w 0" "readHost atyp (u @ [pa, pb] @ rest) = Some (host, [pa, pb] @ rest)"
      "serveSocks5 w dial s =
        (let target = JoinHostPort host (Itoa (int (256 * unat pa + unat pb))) in
         case dial target of
           Inl e \<Rightarrow> \<lparr>er_wrote = [5, 0] @ (if w 1 then [5, 5, 0, 1, 0, 0, 0, 0, 0, 0] else []), er_target = Some target, er_tunnel = None\<rparr>
         | Inr r \<Rightarrow> if \<not> w 1 then \<lparr>er_wrote = [5, 0], er_target = Some target, er_tunnel = None\<rparr>
                   else \<lparr>er_wrote = [5, 0] @ [5, 0, 0, 1, 0, 0, 0, 0, 0, 0], er_target = Some target, er_tunnel = Some (rest, r)\<rparr>)"
proof (cases "\<exists>out. serveSocks5 w dial s = refused out \<and> out \<in> {[], [5, 0xff], [5, 0]}")
  case True
  then show thesis using refused by blast
next
  case no: False
  obtain hdr s1 where 1: "readFull 2 s = Some (hdr, s1)" "hdr ! 0 = 5"
    using no by (force simp: serveSocks5_def split: option.splits if_splits)
  obtain methods s2 where 2: "readFull (unat (hdr ! 1)) s1 = Some (methods, s2)" "0 \<in> set methods" "w 0"
    using no 1 by (force simp: serveSocks5_def split: option.splits if_splits)
  obtain rhdr s3 where 3: "readFull 4 s2 = Some (rhdr, s3)" "rhdr ! 0 = 5" "rhdr ! 1 = 1"
    using no 1 2 by (force simp: serveSocks5_def split: option.splits if_splits)
  obtain host s4 where 4: "readHost (rhdr ! 3) s3 = Some (host, s4)"
    using no 1 2 3 by (force simp: serveSocks5_def split: option.splits if_splits)
  obtain pb s5 where 5: "readFull 2 s4 = Some (pb, s5)"
    using no 1 2 3 4 by (force simp: serveSocks5_def split: option.splits if_splits)
  obtain n where n: "hdr = [5, n]" using 1 length2E [of hdr] readFull_SomeD [OF 1(1)] by auto
  obtain rsv atyp where r: "rhdr = [5, 1, rsv, atyp]" using 3 length4E [of rhdr] readFull_SomeD [OF 3(1)] by auto
  obtain x y where xy: "pb = [x, y]" using length2E [of pb] readFull_SomeD [OF 5] by auto
  obtain u where u: "s3 = u @ s4" "atyp \<in> {1, 3, 4}" using readHost_SomeD [OF 4] r by auto
  have s4: "s4 = [x, y] @ s5" using readFull_SomeD [OF 5] xy by simp
  show thesis
  proof (rule dialled)
    show "s = [5, n] @ methods @ [5, 1, rsv, atyp] @ u @ [x, y] @ s5"
      using readFull_SomeD [OF 1(1)] readFull_SomeD [OF 2(1)] readFull_SomeD [OF 3(1)] u(1) n r s4 by simp
    show "unat n = length methods" using readFull_SomeD [OF 2(1)] n by simp
    show "0 \<in> set methods" "atyp \<in> {1, 3, 4}" "w 0" using 2 u by auto
    show "readHost atyp (u @ [x, y] @ s5) = Some (host, [x, y] @ s5)" using 4 r u(1) s4 by simp
    show "serveSocks5 w dial s =
        (let target = JoinHostPort host (Itoa (int (256 * unat x + unat y))) in
         case dial target of
           Inl e \<Rightarrow> \<lparr>er_wrote = [5, 0] @ (if w 1 then [5, 5, 0, 1, 0, 0, 0, 0, 0, 0] else []), er_target = Some target, er_tunnel = None\<rparr>
         | Inr r \<Rightarrow> if \<not> w 1 then \<lparr>er_wrote = [5, 0], er_target = Some target, er_tunnel = None\<rparr>
                   else \<lparr>er_wrote = [5, 0] @ [5, 0, 0, 1, 0, 0, 0, 0, 0, 0], er_target = Some target, er_tunnel = Some (s5, r)\<rparr>)"
      unfolding serveSocks5_def Let_def using 1 2 3 4 5 xy by (simp split: sum.split)
  qed
qed

text \<open>
  (C26) What the SOCKS5 entry does with any bytes whatever: it dials only after a version 5 greeting that offers no authentication and a
  version 5 CONNECT request with a known address type, its answers are one of five byte strings, a tunnel is opened exactly
  with the success answer, and only after the core has been reached, and it starts with unread bytes of the client.
\<close>

theorem socks_gate:
  "let r = serveSocks5 w dial s in
   (er_target r \<noteq> None \<longrightarrow> (\<exists>n methods rsv atyp rest. s = [5, n] @ methods @ [5, 1, rsv, atyp] @ rest \<and> unat n = length methods \<and>
      0 \<in> set methods \<and> atyp \<in> {1, 3, 4} \<and> w 0)) \<and>
   er_wrote r \<in> {[], [5, 0xff], [5, 0], [5, 0, 5, 5, 0, 1, 0, 0, 0, 0, 0, 0], [5, 0, 5, 0, 0, 1, 0, 0, 0, 0, 0, 0]} \<and>
   (er_tunnel r \<noteq> None \<longleftrightarrow> er_wrote r = [5, 0, 5, 0, 0, 1, 0, 0, 0, 0, 0, 0]) \<and>
   (\<forall>a b. er_tunnel r = Some (a, b) \<longrightarrow> (\<exists>t. er_target r = Some t \<and> dial t = Inr b) \<and> (\<exists>u. s = u @ a))"
proof (cases rule: serveSocks5_cases [of w dial s])
  case (refused out)
  then show ?thesis by (auto simp: refused_def)
next
  case (dialled n methods rsv atyp u host pa pb rest)
  have s: "\<exists>v. s = v @ rest" using dialled(1) by (metis append.assoc)
  have t: "\<exists>n methods rsv atyp rest. s = [5, n] @ methods @ [5, 1, rsv, atyp] @ rest \<and> unat n = length methods \<and>
      0 \<in> set methods \<and> atyp \<in> {1, 3, 4} \<and> w 0" using dialled(1-5) by blast
  show ?thesis
    by (cases "dial (JoinHostPort host (Itoa (int (256 * unat pa + unat pb))))"; cases "w 1") (use s t in \<open>simp_all add: dialled(7) Let_def\<close>)
qed

theorem socks_gate_witness:
  "er_target (serveSocks5 (\<lambda>_. True) (\<lambda>_. Inr [9]) [5, 1, 0, 5, 1, 0, 1, 1, 2, 3, 4, 0, 80]) \<noteq> None \<and>
   (\<exists>n methods rsv atyp rest. ([5, 1, 0, 5, 1, 0, 1, 1, 2, 3, 4, 0, 80] :: byte list) = [5, n] @ methods @ [5, 1, rsv, atyp] @ rest \<and> unat n = length methods \<and>
      0 \<in> set methods \<and> atyp \<in> {1, 3, 4})"
proof -
  have "er_target (serveSocks5 (\<lambda>_. True) (\<lambda>_. Inr [9]) [5, 1, 0, 5, 1, 0, 1, 1, 2, 3, 4, 0, 80]) \<noteq> None"
    by (simp add: serveSocks5_def readHost_def readFull_def Let_def)
  then show ?thesis using socks_gate [of "\<lambda>_. True" "\<lambda>_. Inr [9]" "[5, 1, 0, 5, 1, 0, 1, 1, 2, 3, 4, 0, 80]"] unfolding Let_def by blast
qed

text \<open>
  What the HTTP entry does: anything but a CONNECT request is answered with 400 and dials nobody; a CONNECT whose target cannot be reached
  is answered with 502; otherwise the program gets the 200 answer, the bytes it sent behind the request go to the core before
  anything else, are counted once as sent, and the tunnel starts unless the core did not take all of them.
\<close>

theorem http_entry_outcomes:
  assumes "fst (put buffered) \<le> length buffered" "in_i64 (UpBytes st)"
  shows "let e = serveHTTPConnect w dial put req buffered st;
       ok = ''HTTP/1.1 200 Connection Established'' @ crlf @ crlf in
   (he_target e = None \<longleftrightarrow> \<not> (\<exists>r. req = Some r \<and> rq_Method r = ''CONNECT'')) \<and>
   (he_wrote e = ''HTTP/1.1 400 Bad Request'' @ crlf @ crlf \<longleftrightarrow> he_target e = None) \<and>
   (he_wrote e = ''HTTP/1.1 502 Bad Gateway'' @ crlf @ crlf \<longleftrightarrow> (\<exists>t. he_target e = Some t \<and> \<not> dial t)) \<and>
   (he_wrote e = ok \<longleftrightarrow> w \<and> (\<exists>t. he_target e = Some t \<and> dial t)) \<and>
   (he_tunnel e \<longleftrightarrow> he_wrote e = ok \<and> he_forwarded e = buffered \<and> (buffered = [] \<or> \<not> snd (put buffered))) \<and>
   he_stats e = st\<lparr>UpBytes := i64 (UpBytes st + int (length (he_forwarded e)))\<rparr>"
proof -
  obtain n err where put: "put buffered = (n, err)" by fastforce
  have n: "n \<le> length buffered" using assms(1) put by simp
  have all: "take n buffered = buffered \<longleftrightarrow> n = length buffered" using n by (metis length_take min.absorb2 take_all_iff)
  have st: "st\<lparr>UpBytes := i64 (UpBytes st)\<rparr> = st" using assms(2) by (simp add: i64_id)
  consider (bad) "\<not> (\<exists>r. req = Some r \<and> rq_Method r = ''CONNECT'')"
    | (con) r where "req = Some r" "rq_Method r = ''CONNECT''" by blast
  then show ?thesis
  proof cases
    case bad
    then have "serveHTTPConnect w dial put req buffered st =
        \<lparr>he_wrote = ''HTTP/1.1 400 Bad Request'' @ crlf @ crlf, he_target = None, he_forwarded = [], he_tunnel = False, he_stats = st\<rparr>"
      by (auto simp: serveHTTPConnect_def Let_def split: option.splits)
    then show ?thesis using bad st by (simp add: Let_def)
  next
    case con
    then show ?thesis
      using n all st by (cases "dial (rq_Host r)"; cases w; cases err; cases "buffered = []"; cases "n = 0")
        (auto simp: serveHTTPConnect_def Let_def put trafficAdd_def)
  qed
qed

theorem http_entry_outcomes_witness:
  "he_tunnel (serveHTTPConnect True (\<lambda>_. True) (\<lambda>b. (length b, False))
     (Some \<lparr>rq_Method = ''CONNECT'', rq_Host = ''example.com:443'', rq_Header = []\<rparr>) [22, 3, 1] \<lparr>UpBytes = 7, DownBytes = 0\<rparr>)"
  using http_entry_outcomes [of "\<lambda>b. (length b, False)" "[22, 3, 1]" "\<lparr>UpBytes = 7, DownBytes = 0\<rparr>" True "\<lambda>_. True"
      "Some \<lparr>rq_Method = ''CONNECT'', rq_Host = ''example.com:443'', rq_Header = []\<rparr>"]
  by (simp add: in_i64_def serveHTTPConnect_def Let_def)

end
