(* ===== verification/Runs.thy ===== *)
theory Runs
  imports Prelude
begin

text \<open>
  Runs of a program that is given by its steps: a label names a step together with the choices of scheduling and of the network, and a step that is not
  possible has no result.  A program whose steps decrease a number is the interface \<open>bounded_steps\<close>: it comes to rest however it is scheduled, and
  what no step changes is the same at the end.
\<close>

fun runSteps :: "('l \<Rightarrow> 's \<Rightarrow> 's option) \<Rightarrow> 'l list \<Rightarrow> 's \<Rightarrow> 's option" where
  "runSteps step [] s = Some s"
| "runSteps step (l # ls) s = Option.bind (step l s) (runSteps step ls)"

definition atRest :: "('l \<Rightarrow> 's \<Rightarrow> 's option) \<Rightarrow> 's \<Rightarrow> bool" where
  "atRest step s \<longleftrightarrow> (\<forall>l. step l s = None)"

lemma atRestD: "atRest step s \<Longrightarrow> step l s = None"
  by (simp add: atRest_def)

lemma runSteps_append: "runSteps step (ls @ ks) s = Option.bind (runSteps step ls s) (runSteps step ks)"
  by (induction ls arbitrary: s) (auto split: bind_splits)

text \<open>A property that every step keeps is kept by a run.\<close>

lemma runSteps_invariant:
  assumes "runSteps step ls s = Some s'" "P s" "\<And>l t t'. step l t = Some t' \<Longrightarrow> P t \<Longrightarrow> P t'"
  shows "P s'"
  using assms(1,2)
proof (induction ls arbitrary: s)
  case (Cons l ls)
  then show ?case using assms(3) by (auto simp: bind_eq_Some_conv)
qed simp

locale bounded_steps =
  fixes step :: "'l \<Rightarrow> 's \<Rightarrow> 's option" and left :: "'s \<Rightarrow> nat" and fixed :: "'s \<Rightarrow> 'k"
  assumes left_decreases: "step l s = Some s' \<Longrightarrow> left s' < left s"
    and fixed_kept: "step l s = Some s' \<Longrightarrow> fixed s' = fixed s"
begin

lemma run_bound: "runSteps step ls s = Some s' \<Longrightarrow> length ls + left s' \<le> left s"
proof (induction ls arbitrary: s)
  case (Cons l ls)
  then obtain t where t: "step l s = Some t" "runSteps step ls t = Some s'" by (auto simp: bind_eq_Some_conv)
  show ?case using Cons.IH [OF t(2)] left_decreases [OF t(1)] by simp
qed simp

lemma run_fixed: "runSteps step ls s = Some s' \<Longrightarrow> fixed s' = fixed s"
  by (rule runSteps_invariant [where P = "\<lambda>t. fixed t = fixed s"]) (auto dest: fixed_kept)

lemma comes_to_rest: "\<exists>ls s'. runSteps step ls s = Some s' \<and> atRest step s'"
proof (induction "left s" arbitrary: s rule: less_induct)
  case less
  show ?case
  proof (cases "atRest step s")
    case True
    then show ?thesis by (intro exI [of _ "[]"] exI [of _ s]) simp
  next
    case False
    then obtain l t where t: "step l s = Some t" by (auto simp: atRest_def)
    then obtain ls s' where "runSteps step ls t = Some s'" "atRest step s'" using less [OF left_decreases [OF t]] by blast
    then show ?thesis using t by (intro exI [of _ "l # ls"] exI [of _ s']) simp
  qed
qed

end

end
