(* ===== verification/Splice.thy ===== *)
theory Splice
  imports EntryProxy Runs "HOL-Library.Sublist"
begin

text \<open>
  The tunnel itself: the two functions \<^verbatim>\<open>splice\<close> of \<^verbatim>\<open>tui/internal/entry/entry.go\<close> and \<^verbatim>\<open>tui/internal/tun/tun_windows.go\<close>.  Each runs two
  \<^verbatim>\<open>io.Copy\<close> goroutines, which report on a channel when they end, and a main goroutine that waits for them; the variants
  differ in what the main goroutine closes.  The goroutines are interleaved with each other and with the peers: a
  label names a step together with the choices that scheduling and the network make, and \<open>spliceStep\<close> performs it.
\<close>

section \<open>Connections\<close>

text \<open>
  A connection: the bytes that have arrived and are unread, whether the peer has ended its side, whether the connection is broken
  (every call on it may fail), whether \<^verbatim>\<open>Close\<close> has been called, the bytes written, and all the bytes that have been read from it.
\<close>

record side =
  inbox :: "byte list"
  peerEof :: bool
  broken :: bool
  closed :: bool
  outbox :: "byte list"
  taken :: "byte list"

definition newSide :: side where
  "newSide = \<lparr>inbox = [], peerEof = False, broken = False, closed = False, outbox = [], taken = []\<rparr>"

section \<open>\<^verbatim>\<open>io.Copy\<close>\<close>

text \<open>
  One round of the loop of \<^verbatim>\<open>io.Copy\<close>: a read of \<open>n\<close> bytes and a write of all of them; such a read and a write that stops after \<open>m\<close>
  bytes with an error; the end of the stream; a failing read.  The result has the two connections, whether the loop has
  ended, and the numbers of bytes read and written.
\<close>

datatype copyOp = Moved nat | WriteFailed nat nat | AtEof | ReadFailed

fun copyStep :: "copyOp \<Rightarrow> side \<Rightarrow> side \<Rightarrow> (side \<times> side \<times> bool \<times> nat \<times> nat) option" where
  "copyStep (Moved n) src dst =
     (if \<not> closed src \<and> 0 < n \<and> n \<le> length (inbox src) \<and> \<not> closed dst
      then Some (src\<lparr>inbox := drop n (inbox src), taken := taken src @ take n (inbox src)\<rparr>,
                 dst\<lparr>outbox := outbox dst @ take n (inbox src)\<rparr>, False, n, n)
      else None)"
| "copyStep (WriteFailed n m) src dst =
     (if \<not> closed src \<and> 0 < n \<and> n \<le> length (inbox src) \<and> m \<le> n \<and> (closed dst \<or> broken dst)
      then Some (src\<lparr>inbox := drop n (inbox src), taken := taken src @ take n (inbox src)\<rparr>,
                 dst\<lparr>outbox := outbox dst @ take m (inbox src)\<rparr>, True, n, m)
      else None)"
| "copyStep AtEof src dst = (if \<not> closed src \<and> inbox src = [] \<and> peerEof src then Some (src, dst, True, 0, 0) else None)"
| "copyStep ReadFailed src dst = (if closed src \<or> broken src then Some (src, dst, True, 0, 0) else None)"

section \<open>The goroutines\<close>

datatype spliceVariant = EntrySplice | TunSplice

text \<open>The main goroutine: at the first wait, after it with a number of copies accounted for, or returned.\<close>

datatype spliceMain = AtSelect | Draining nat | Returned

record splice =
  connA :: side
  connB :: side
  upEnded :: bool
  downEnded :: bool
  doneCh :: nat           \<comment> \<open>values in the buffered channel\<close>
  ctxDone :: bool
  mainPc :: spliceMain
  counters :: trafficStats

datatype spliceLabel = Up copyOp | Down copyOp | CtxDone | FirstDone | NextDone | Return

text \<open>
  The counting connection is the program's in the entry, and the one that \<^verbatim>\<open>Dialer\<close> returned in the device: a round of a direction that reads \<open>r\<close>
  bytes and writes \<open>w\<close> is counted at one or the other end.
\<close>

definition countUpward :: "spliceVariant \<Rightarrow> nat \<Rightarrow> nat \<Rightarrow> trafficStats \<Rightarrow> trafficStats" where
  "countUpward v r w st =
     (case v of EntrySplice \<Rightarrow> countingConn True (ReadOp r) st | TunSplice \<Rightarrow> countingConn False (WriteOp w) st)"

definition countDownward :: "spliceVariant \<Rightarrow> nat \<Rightarrow> nat \<Rightarrow> trafficStats \<Rightarrow> trafficStats" where
  "countDownward v r w st =
     (case v of EntrySplice \<Rightarrow> countingConn True (WriteOp w) st | TunSplice \<Rightarrow> countingConn False (ReadOp r) st)"

text \<open>
  What the main goroutine closes after its first wait.  Only the variant of the tunnel device selects on a context.
\<close>

definition closeAfterWait :: "spliceVariant \<Rightarrow> splice \<Rightarrow> splice" where
  "closeAfterWait v s =
     (case v of
        EntrySplice \<Rightarrow> s\<lparr>connB := (connB s)\<lparr>closed := True\<rparr>\<rparr>
      | TunSplice \<Rightarrow> s\<lparr>connB := (connB s)\<lparr>closed := True\<rparr>, connA := (connA s)\<lparr>closed := True\<rparr>\<rparr>)"

fun spliceStep :: "spliceVariant \<Rightarrow> spliceLabel \<Rightarrow> splice \<Rightarrow> splice option" where
  "spliceStep v (Up p) s =
     (if upEnded s then None
      else map_option (\<lambda>(a, b, e, r, w). s\<lparr>connA := a, connB := b, upEnded := e, doneCh := doneCh s + (if e then 1 else 0),
                         counters := countUpward v r w (counters s)\<rparr>)
             (copyStep p (connA s) (connB s)))"
| "spliceStep v (Down p) s =
     (if downEnded s then None
      else map_option (\<lambda>(b, a, e, r, w). s\<lparr>connA := a, connB := b, downEnded := e, doneCh := doneCh s + (if e then 1 else 0),
                         counters := countDownward v r w (counters s)\<rparr>)
             (copyStep p (connB s) (connA s)))"
| "spliceStep v CtxDone s =
     (if v = TunSplice \<and> mainPc s = AtSelect \<and> ctxDone s then Some (closeAfterWait v (s\<lparr>mainPc := Draining 0\<rparr>)) else None)"
| "spliceStep v FirstDone s =
     (if mainPc s = AtSelect \<and> 0 < doneCh s
      then Some (closeAfterWait v (s\<lparr>mainPc := Draining 1, doneCh := doneCh s - 1\<rparr>)) else None)"
| "spliceStep v NextDone s =
     (case mainPc s of
        Draining c \<Rightarrow> if c < 2 \<and> 0 < doneCh s then Some (s\<lparr>mainPc := Draining (c + 1), doneCh := doneCh s - 1\<rparr>) else None
      | _ \<Rightarrow> None)"
| "spliceStep v Return s = (if mainPc s = Draining 2 then Some (s\<lparr>mainPc := Returned\<rparr>) else None)"

text \<open>What the peers and the owner of the context may do meanwhile.\<close>

datatype peerLabel = SendA "byte list" | SendB "byte list" | EofA | EofB | BreakA | BreakB | Cancel

fun peerStep :: "peerLabel \<Rightarrow> splice \<Rightarrow> splice" where
  "peerStep (SendA bs) s = (if peerEof (connA s) then s else s\<lparr>connA := (connA s)\<lparr>inbox := inbox (connA s) @ bs\<rparr>\<rparr>)"
| "peerStep (SendB bs) s = (if peerEof (connB s) then s else s\<lparr>connB := (connB s)\<lparr>inbox := inbox (connB s) @ bs\<rparr>\<rparr>)"
| "peerStep EofA s = s\<lparr>connA := (connA s)\<lparr>peerEof := True\<rparr>\<rparr>"
| "peerStep EofB s = s\<lparr>connB := (connB s)\<lparr>peerEof := True\<rparr>\<rparr>"
| "peerStep BreakA s = s\<lparr>connA := (connA s)\<lparr>broken := True\<rparr>\<rparr>"
| "peerStep BreakB s = s\<lparr>connB := (connB s)\<lparr>broken := True\<rparr>\<rparr>"
| "peerStep Cancel s = s\<lparr>ctxDone := True\<rparr>"

text \<open>The start: bytes may have arrived already, nothing has been read or written.\<close>

definition spliceStart :: "side \<Rightarrow> side \<Rightarrow> trafficStats \<Rightarrow> splice" where
  "spliceStart a b st =
     \<lparr>connA = a\<lparr>closed := False, outbox := [], taken := []\<rparr>, connB = b\<lparr>closed := False, outbox := [], taken := []\<rparr>,
      upEnded = False, downEnded = False, doneCh = 0, ctxDone = False, mainPc = AtSelect, counters = st\<rparr>"

inductive splice_reach :: "spliceVariant \<Rightarrow> trafficStats \<Rightarrow> splice \<Rightarrow> bool" for v st where
  start: "splice_reach v st (spliceStart a b st)"
| prog: "splice_reach v st s \<Longrightarrow> spliceStep v l s = Some s' \<Longrightarrow> splice_reach v st s'"
| peer: "splice_reach v st s \<Longrightarrow> splice_reach v st (peerStep p s)"

section \<open>Invariant\<close>

definition ended :: "splice \<Rightarrow> nat" where
  "ended s = (if upEnded s then 1 else 0) + (if downEnded s then 1 else 0)"

fun accounted :: "spliceMain \<Rightarrow> nat" where
  "accounted AtSelect = 0"
| "accounted (Draining c) = c"
| "accounted Returned = 2"

definition dir_ok :: "bool \<Rightarrow> side \<Rightarrow> side \<Rightarrow> bool" where
  "dir_ok e src dst \<longleftrightarrow> prefix (outbox dst) (taken src) \<and> (\<not> e \<longrightarrow> outbox dst = taken src)"

definition splice_inv :: "spliceVariant \<Rightarrow> splice \<Rightarrow> bool" where
  "splice_inv v s \<longleftrightarrow>
     dir_ok (upEnded s) (connA s) (connB s) \<and> dir_ok (downEnded s) (connB s) (connA s) \<and>
     doneCh s + accounted (mainPc s) = ended s \<and>
     (mainPc s = AtSelect \<longrightarrow> \<not> closed (connA s) \<and> \<not> closed (connB s)) \<and>
     (mainPc s \<noteq> AtSelect \<longrightarrow> closed (connB s) \<and> (closed (connA s) \<longleftrightarrow> v = TunSplice)) \<and>
     (v = EntrySplice \<longrightarrow> mainPc s \<noteq> Draining 0)"

definition countedUp :: "spliceVariant \<Rightarrow> splice \<Rightarrow> byte list" where
  "countedUp v s = (case v of EntrySplice \<Rightarrow> taken (connA s) | TunSplice \<Rightarrow> outbox (connB s))"

definition countedDown :: "spliceVariant \<Rightarrow> splice \<Rightarrow> byte list" where
  "countedDown v s = (case v of EntrySplice \<Rightarrow> outbox (connA s) | TunSplice \<Rightarrow> taken (connB s))"

definition counted :: "spliceVariant \<Rightarrow> trafficStats \<Rightarrow> splice \<Rightarrow> bool" where
  "counted v st s \<longleftrightarrow>
     counters s = \<lparr>UpBytes = i64 (UpBytes st + int (length (countedUp v s))), DownBytes = i64 (DownBytes st + int (length (countedDown v s)))\<rparr>"

lemma take_prefix_take: "m \<le> n \<Longrightarrow> prefix (take m xs) (take n xs)"
  by (metis min.absorb1 take_is_prefix take_take)

lemma copyStep_dir:
  assumes "copyStep p src dst = Some (src', dst', e, r, w)" "dir_ok False src dst"
  shows "dir_ok e src' dst'"
  using assms by (cases p) (auto simp: dir_ok_def take_prefix_take split: if_splits)

lemma copyStep_keeps:
  assumes "copyStep p src dst = Some (src', dst', e, r, w)"
  shows "closed src' = closed src" "closed dst' = closed dst" "outbox src' = outbox src" "taken dst' = taken dst"
    "length (taken src') = length (taken src) + r" "length (outbox dst') = length (outbox dst) + w"
  using assms by (cases p; auto split: if_splits)+

lemma spliceStep_UpE:
  assumes "spliceStep v (Up p) s = Some s'"
  obtains a b e r w where "\<not> upEnded s" "copyStep p (connA s) (connB s) = Some (a, b, e, r, w)"
    "s' = s\<lparr>connA := a, connB := b, upEnded := e, doneCh := doneCh s + (if e then 1 else 0),
        counters := countUpward v r w (counters s)\<rparr>"
  using assms by (auto split: if_splits)

lemma spliceStep_DownE:
  assumes "spliceStep v (Down p) s = Some s'"
  obtains a b e r w where "\<not> downEnded s" "copyStep p (connB s) (connA s) = Some (b, a, e, r, w)"
    "s' = s\<lparr>connA := a, connB := b, downEnded := e, doneCh := doneCh s + (if e then 1 else 0),
        counters := countDownward v r w (counters s)\<rparr>"
  using assms by (auto split: if_splits)

lemma splice_inv_Up:
  assumes "spliceStep v (Up p) s = Some s'" "splice_inv v s"
  shows "splice_inv v s'"
proof (rule spliceStep_UpE [OF assms(1)])
  fix a b e r w
  assume c: "\<not> upEnded s" "copyStep p (connA s) (connB s) = Some (a, b, e, r, w)"
    and s': "s' = s\<lparr>connA := a, connB := b, upEnded := e, doneCh := doneCh s + (if e then 1 else 0),
        counters := countUpward v r w (counters s)\<rparr>"
  show ?thesis using assms(2) c(1) copyStep_dir [OF c(2)] copyStep_keeps [OF c(2)]
    by (auto simp: s' splice_inv_def ended_def dir_ok_def)
qed

lemma splice_inv_Down:
  assumes "spliceStep v (Down p) s = Some s'" "splice_inv v s"
  shows "splice_inv v s'"
proof (rule spliceStep_DownE [OF assms(1)])
  fix a b e r w
  assume c: "\<not> downEnded s" "copyStep p (connB s) (connA s) = Some (b, a, e, r, w)"
    and s': "s' = s\<lparr>connA := a, connB := b, downEnded := e, doneCh := doneCh s + (if e then 1 else 0),
        counters := countDownward v r w (counters s)\<rparr>"
  show ?thesis using assms(2) c(1) copyStep_dir [OF c(2)] copyStep_keeps [OF c(2)]
    by (auto simp: s' splice_inv_def ended_def dir_ok_def)
qed

lemma splice_inv_step:
  assumes "spliceStep v l s = Some s'" "splice_inv v s"
  shows "splice_inv v s'"
proof (cases l)
  case (Up p)
  then show ?thesis using assms splice_inv_Up by blast
next
  case (Down p)
  then show ?thesis using assms splice_inv_Down by blast
next
  case NextDone
  then obtain c where c: "mainPc s = Draining c" "c < 2" "0 < doneCh s" "s' = s\<lparr>mainPc := Draining (c + 1), doneCh := doneCh s - 1\<rparr>"
    using assms(1) by (cases "mainPc s") (auto split: if_splits)
  show ?thesis using assms(2) c(3) unfolding splice_inv_def c(4)
    by (cases "upEnded s"; cases "downEnded s") (simp_all add: c(1) ended_def)
next
  case FirstDone
  then have c: "mainPc s = AtSelect" "0 < doneCh s" "s' = closeAfterWait v (s\<lparr>mainPc := Draining 1, doneCh := doneCh s - 1\<rparr>)"
    using assms(1) by (auto split: if_splits)
  show ?thesis using assms(2) c(2) unfolding splice_inv_def c(3)
    by (cases v) (simp_all add: c(1) closeAfterWait_def ended_def dir_ok_def)
next
  case CtxDone
  then have c: "mainPc s = AtSelect" "v = TunSplice" "s' = closeAfterWait v (s\<lparr>mainPc := Draining 0\<rparr>)"
    using assms(1) by (auto split: if_splits)
  show ?thesis using assms(2) unfolding splice_inv_def c(3) by (simp add: c(1,2) closeAfterWait_def ended_def dir_ok_def)
next
  case Return
  then have c: "mainPc s = Draining 2" "s' = s\<lparr>mainPc := Returned\<rparr>" using assms(1) by (auto split: if_splits)
  show ?thesis using assms(2) unfolding splice_inv_def c(2) by (simp add: c(1) ended_def)
qed

lemma splice_inv_reach: "splice_reach v st s \<Longrightarrow> splice_inv v s"
proof (induction rule: splice_reach.induct)
  case (start a b)
  show ?case by (simp add: spliceStart_def splice_inv_def dir_ok_def ended_def)
next
  case (prog s l s')
  then show ?case using splice_inv_step by blast
next
  case (peer s p)
  then show ?case by (cases p) (auto simp: splice_inv_def dir_ok_def ended_def)
qed

lemmas counting_defs = counted_def countedUp_def countedDown_def countUpward_def countDownward_def trafficAdd_def

lemma counted_step:
  assumes "spliceStep v l s = Some s'" "counted v st s"
  shows "counted v st s'"
proof (cases l)
  case (Up p)
  show ?thesis
  proof (rule spliceStep_UpE [OF assms(1) [unfolded Up]])
    fix a b e r w
    assume c: "copyStep p (connA s) (connB s) = Some (a, b, e, r, w)"
      and s': "s' = s\<lparr>connA := a, connB := b, upEnded := e, doneCh := doneCh s + (if e then 1 else 0),
        counters := countUpward v r w (counters s)\<rparr>"
    show ?thesis using assms(2) copyStep_keeps [OF c]
      by (cases v) (auto simp: s' counting_defs i64_add_i64 add.assoc)
  qed
next
  case (Down p)
  show ?thesis
  proof (rule spliceStep_DownE [OF assms(1) [unfolded Down]])
    fix a b e r w
    assume c: "copyStep p (connB s) (connA s) = Some (b, a, e, r, w)"
      and s': "s' = s\<lparr>connA := a, connB := b, downEnded := e, doneCh := doneCh s + (if e then 1 else 0),
        counters := countDownward v r w (counters s)\<rparr>"
    show ?thesis using assms(2) copyStep_keeps [OF c]
      by (cases v) (auto simp: s' counting_defs i64_add_i64 add.assoc)
  qed
qed (use assms in \<open>cases v; auto simp: counting_defs closeAfterWait_def split: if_splits spliceMain.splits\<close>)+

lemma counted_reach:
  assumes "splice_reach v st s" "in_i64 (UpBytes st)" "in_i64 (DownBytes st)"
  shows "counted v st s"
  using assms(1)
proof (induction rule: splice_reach.induct)
  case (start a b)
  show ?case using assms(2,3) by (cases v) (simp_all add: spliceStart_def counting_defs i64_id)
next
  case (prog s l s')
  then show ?case using counted_step by blast
next
  case (peer s p)
  then show ?case by (cases p) (auto simp: counting_defs split: spliceVariant.splits)
qed

section \<open>What the tunnel guarantees\<close>

text \<open>
  The tunnel neither invents, reorders nor skips bytes: in every reachable state of either variant, what has been written to one side is a
  prefix of what the other side's peer has sent; as long as a direction runs, it is everything that has been read; and the
  counters have grown, modulo \<open>2^64\<close>, by the bytes read from the program and written to it in the entry, and by the bytes
  written to the core and read from it in the device.
\<close>

theorem splice_integrity:
  assumes "splice_reach v st s" "in_i64 (UpBytes st)" "in_i64 (DownBytes st)"
  shows "prefix (outbox (connB s)) (taken (connA s) @ inbox (connA s)) \<and> prefix (outbox (connA s)) (taken (connB s) @ inbox (connB s)) \<and>
    (\<not> upEnded s \<longrightarrow> outbox (connB s) = taken (connA s)) \<and> (\<not> downEnded s \<longrightarrow> outbox (connA s) = taken (connB s)) \<and>
    counters s = \<lparr>UpBytes = i64 (UpBytes st + int (length (case v of EntrySplice \<Rightarrow> taken (connA s) | TunSplice \<Rightarrow> outbox (connB s)))),
      DownBytes = i64 (DownBytes st + int (length (case v of EntrySplice \<Rightarrow> outbox (connA s) | TunSplice \<Rightarrow> taken (connB s))))\<rparr>"
  using splice_inv_reach [OF assms(1)] counted_reach [OF assms]
  by (auto simp: splice_inv_def dir_ok_def counted_def countedUp_def countedDown_def)

theorem splice_integrity_witness:
  "outbox (connB (spliceStart (newSide\<lparr>inbox := [1, 2]\<rparr>) newSide \<lparr>UpBytes = 0, DownBytes = 0\<rparr>)) = [] \<and>
   (\<exists>s. spliceStep EntrySplice (Up (Moved 2)) (spliceStart (newSide\<lparr>inbox := [1, 2]\<rparr>) newSide \<lparr>UpBytes = 0, DownBytes = 0\<rparr>) = Some s \<and>
      prefix (outbox (connB s)) (taken (connA s) @ inbox (connA s)) \<and> counters s = \<lparr>UpBytes = 2, DownBytes = 0\<rparr>)"
proof -
  let ?st = "\<lparr>UpBytes = 0, DownBytes = 0\<rparr>"
  let ?s = "spliceStart (newSide\<lparr>inbox := [1, 2]\<rparr>) newSide ?st"
  obtain s where s: "spliceStep EntrySplice (Up (Moved 2)) ?s = Some s" by (simp add: spliceStart_def newSide_def)
  then have "splice_reach EntrySplice ?st s" by (rule splice_reach.prog [OF splice_reach.start])
  from splice_integrity [OF this] s show ?thesis
    by (auto simp: spliceStart_def newSide_def countUpward_def trafficAdd_def i64_def in_i64_def)
qed

text \<open>What a direction can do: nothing exactly if its source is open, empty, unbroken and not ended.\<close>

definition quiet :: "side \<Rightarrow> bool" where
  "quiet x \<longleftrightarrow> \<not> closed x \<and> inbox x = [] \<and> \<not> peerEof x \<and> \<not> broken x"

lemma copyStep_None: "(\<forall>p. copyStep p src dst = None) \<longleftrightarrow> quiet src"
proof
  assume none: "\<forall>p. copyStep p src dst = None"
  have "copyStep ReadFailed src dst = None" "copyStep AtEof src dst = None" "copyStep (Moved 1) src dst = None"
    "copyStep (WriteFailed 1 0) src dst = None" using none by blast+
  then show "quiet src" by (cases "inbox src") (auto simp: quiet_def split: if_splits)
next
  assume "quiet src"
  then show "\<forall>p. copyStep p src dst = None" by (intro allI, case_tac p) (auto simp: quiet_def)
qed

abbreviation stuck :: "spliceVariant \<Rightarrow> splice \<Rightarrow> bool" where
  "stuck v \<equiv> atRest (spliceStep v)"

lemma stuck_cases:
  assumes "stuck v s" "splice_inv v s"
  shows "mainPc s = Returned \<or> mainPc s = AtSelect \<and> quiet (connA s) \<and> quiet (connB s) \<and> \<not> (v = TunSplice \<and> ctxDone s) \<or>
     v = EntrySplice \<and> mainPc s = Draining 1 \<and> downEnded s \<and> \<not> upEnded s \<and> quiet (connA s)"
proof (cases "mainPc s")
  case AtSelect
  have n: "spliceStep v FirstDone s = None" "spliceStep v CtxDone s = None" "\<And>p. spliceStep v (Up p) s = None"
    "\<And>p. spliceStep v (Down p) s = None" using assms(1) by (auto simp only: atRest_def)
  have "doneCh s = 0" using n(1) AtSelect by (simp split: if_splits)
  then have e: "\<not> upEnded s" "\<not> downEnded s" using assms(2) AtSelect by (auto simp: splice_inv_def ended_def split: if_splits)
  then have "quiet (connA s)" "quiet (connB s)" using n(3,4) by (simp_all add: copyStep_None [symmetric, of "connA s" "connB s"]
      copyStep_None [symmetric, of "connB s" "connA s"])
  moreover have "\<not> (v = TunSplice \<and> ctxDone s)" using n(2) AtSelect by (simp split: if_splits)
  ultimately show ?thesis using AtSelect by simp
next
  case (Draining c)
  have n: "spliceStep v NextDone s = None" "spliceStep v Return s = None" "\<And>p. spliceStep v (Up p) s = None"
    "spliceStep v (Down ReadFailed) s = None" using assms(1) by (auto simp only: atRest_def)
  have i: "doneCh s + c = ended s" "closed (connB s)" "closed (connA s) \<longleftrightarrow> v = TunSplice"
    using assms(2) Draining by (simp_all add: splice_inv_def)
  have "ended s \<le> 2" by (simp add: ended_def)
  moreover have "c \<noteq> 2" using n(2) Draining by (simp split: if_splits)
  ultimately have c: "c < 2" using i(1) by simp
  then have "doneCh s = 0" using n(1) Draining by (simp split: if_splits)
  moreover have d: "downEnded s" using n(4) i(2) by (simp split: if_splits)
  ultimately have e: "\<not> upEnded s" "c = 1" using i(1) c by (auto simp: ended_def split: if_splits)
  then have q: "quiet (connA s)" using n(3) by (simp add: copyStep_None [symmetric, of "connA s" "connB s"])
  then have "v = EntrySplice" using i(3) by (cases v) (auto simp: quiet_def)
  then show ?thesis using Draining d e q by simp
qed simp

text \<open>Runs of the program's own steps, and a number that every one of them decreases.\<close>

abbreviation spliceRun :: "spliceVariant \<Rightarrow> spliceLabel list \<Rightarrow> splice \<Rightarrow> splice option" where
  "spliceRun v \<equiv> runSteps (spliceStep v)"

fun mainLeft :: "spliceMain \<Rightarrow> nat" where
  "mainLeft AtSelect = 4"
| "mainLeft (Draining c) = 3 - c"
| "mainLeft Returned = 0"

definition stepsLeft :: "splice \<Rightarrow> nat" where
  "stepsLeft s = length (inbox (connA s)) + length (inbox (connB s)) + (2 - ended s) + mainLeft (mainPc s)"

lemma copyStep_decreases:
  assumes "copyStep p src dst = Some (src', dst', e, r, w)"
  shows "length (inbox src') + (if e then 0 else 1) < length (inbox src) + 1" "inbox dst' = inbox dst"
    "peerEof src' = peerEof src" "broken src' = broken src" "peerEof dst' = peerEof dst" "broken dst' = broken dst"
  using assms by (cases p; auto split: if_splits)+

lemma stepsLeft_Up:
  assumes "spliceStep v (Up p) s = Some s'"
  shows "stepsLeft s' < stepsLeft s"
proof (rule spliceStep_UpE [OF assms])
  fix a b e r w
  assume c: "\<not> upEnded s" "copyStep p (connA s) (connB s) = Some (a, b, e, r, w)"
    and s': "s' = s\<lparr>connA := a, connB := b, upEnded := e, doneCh := doneCh s + (if e then 1 else 0),
        counters := countUpward v r w (counters s)\<rparr>"
  show ?thesis using c(1) copyStep_decreases(1,2) [OF c(2)] by (cases e) (simp_all add: s' stepsLeft_def ended_def)
qed

lemma stepsLeft_Down:
  assumes "spliceStep v (Down p) s = Some s'"
  shows "stepsLeft s' < stepsLeft s"
proof (rule spliceStep_DownE [OF assms])
  fix a b e r w
  assume c: "\<not> downEnded s" "copyStep p (connB s) (connA s) = Some (b, a, e, r, w)"
    and s': "s' = s\<lparr>connA := a, connB := b, downEnded := e, doneCh := doneCh s + (if e then 1 else 0),
        counters := countDownward v r w (counters s)\<rparr>"
  show ?thesis using c(1) copyStep_decreases(1,2) [OF c(2)] by (cases e) (simp_all add: s' stepsLeft_def ended_def)
qed

text \<open>A peer has ended, or its connection is broken.\<close>

definition ends :: "side \<Rightarrow> bool" where
  "ends x \<longleftrightarrow> peerEof x \<or> broken x"

definition sameData :: "splice \<Rightarrow> splice \<Rightarrow> bool" where
  "sameData s s' \<longleftrightarrow> inbox (connA s') = inbox (connA s) \<and> inbox (connB s') = inbox (connB s) \<and> ended s' = ended s \<and>
     ends (connA s') = ends (connA s) \<and> ends (connB s') = ends (connB s) \<and> ctxDone s' = ctxDone s"

lemma spliceStep_main:
  assumes "spliceStep v l s = Some s'" "l \<in> {CtxDone, FirstDone, NextDone, Return}"
  shows "mainLeft (mainPc s') < mainLeft (mainPc s) \<and> sameData s s'"
proof -
  have close: "sameData s (closeAfterWait v (s\<lparr>mainPc := m, doneCh := d\<rparr>)) \<and> mainPc (closeAfterWait v (s\<lparr>mainPc := m, doneCh := d\<rparr>)) = m" for m d
    by (cases v) (simp_all add: sameData_def closeAfterWait_def ends_def ended_def)
  consider "l = CtxDone" | "l = FirstDone" | "l = NextDone" | "l = Return" using assms(2) by blast
  then show ?thesis
  proof cases
    case 1
    then show ?thesis using assms(1) close [of "doneCh s" "Draining 0"] by (simp split: if_splits)
  next
    case 2
    then show ?thesis using assms(1) close [of "doneCh s - 1" "Draining 1"] by (simp split: if_splits)
  next
    case 3
    then show ?thesis using assms(1) by (cases "mainPc s") (auto simp: sameData_def ended_def split: if_splits)
  next
    case 4
    then show ?thesis using assms(1) by (auto simp: sameData_def ended_def split: if_splits)
  qed
qed

lemma stepsLeft_step:
  assumes "spliceStep v l s = Some s'"
  shows "stepsLeft s' < stepsLeft s"
proof (cases "l \<in> {CtxDone, FirstDone, NextDone, Return}")
  case True
  then show ?thesis using spliceStep_main [OF assms] by (simp add: sameData_def stepsLeft_def)
next
  case False
  then show ?thesis using assms stepsLeft_Up stepsLeft_Down by (cases l) blast+
qed

lemma spliceStep_keeps:
  assumes "spliceStep v l s = Some s'"
  shows "ends (connA s') = ends (connA s) \<and> ends (connB s') = ends (connB s) \<and> ctxDone s' = ctxDone s"
proof (cases l)
  case (Up p)
  show ?thesis by (rule spliceStep_UpE [OF assms [unfolded Up]]) (simp add: ends_def copyStep_decreases(3-6))
next
  case (Down p)
  show ?thesis by (rule spliceStep_DownE [OF assms [unfolded Down]]) (simp add: ends_def copyStep_decreases(3-6))
qed (use spliceStep_main [OF assms] in \<open>simp_all add: sameData_def\<close>)

interpretation spl: bounded_steps "spliceStep v" stepsLeft "\<lambda>s. (ends (connA s), ends (connB s), ctxDone s)" for v
  by unfold_locales (auto dest: stepsLeft_step spliceStep_keeps simp del: spliceStep.simps)

lemma spliceRun_reach: "spliceRun v ls s = Some s' \<Longrightarrow> splice_reach v st s \<Longrightarrow> splice_reach v st s'"
  by (rule runSteps_invariant [where P = "splice_reach v st"]) (auto intro: splice_reach.prog simp del: spliceStep.simps)



text \<open>
  The entry's tunnel does not end with the core's side: as long as the program sends nothing and does not close its connection, the tunnel
  does not return and the program's connection is not closed, whatever the core's side has done.
\<close>

theorem entry_splice_waits:
  assumes "splice_reach EntrySplice st s" "quiet (connA s)" "\<not> upEnded s"
    "spliceRun EntrySplice ls s = Some s'"
  shows "mainPc s' \<noteq> Returned \<and> \<not> closed (connA s')"
proof -
  have "quiet (connA t') \<and> \<not> upEnded t'" if "spliceStep EntrySplice l t = Some t'" "quiet (connA t)" "\<not> upEnded t" for l t t'
  proof (cases l)
    case (Up p)
    then show ?thesis using that copyStep_None [of "connA t" "connB t"] by (simp split: if_splits)
  next
    case (Down p)
    show ?thesis
    proof (rule spliceStep_DownE [OF that(1) [unfolded Down]])
      fix a b e r w
      assume c: "copyStep p (connB t) (connA t) = Some (b, a, e, r, w)"
        and t': "t' = t\<lparr>connA := a, connB := b, downEnded := e, doneCh := doneCh t + (if e then 1 else 0),
          counters := countDownward EntrySplice r w (counters t)\<rparr>"
      show ?thesis using that(2,3) copyStep_keeps(2) [OF c] copyStep_decreases(2,5,6) [OF c] by (simp add: t' quiet_def)
    qed
  qed (use that in \<open>auto simp: quiet_def closeAfterWait_def split: if_splits spliceMain.splits\<close>)
  then have q: "quiet (connA s') \<and> \<not> upEnded s'"
    using runSteps_invariant [OF assms(4), of "\<lambda>t. quiet (connA t) \<and> \<not> upEnded t"] assms(2,3) by blast
  have "splice_inv EntrySplice s'" using splice_inv_reach spliceRun_reach [OF assms(4,1)] by blast
  moreover have "quiet (connA s')" "\<not> upEnded s'" using q by auto
  ultimately show ?thesis by (auto simp: splice_inv_def ended_def quiet_def split: if_splits)
qed

theorem entry_splice_waits_witness:
  "\<exists>s'. spliceRun EntrySplice [Down AtEof, FirstDone] (peerStep EofB (spliceStart newSide newSide \<lparr>UpBytes = 0, DownBytes = 0\<rparr>)) = Some s' \<and>
     mainPc s' \<noteq> Returned \<and> \<not> closed (connA s')"
proof -
  let ?st = "\<lparr>UpBytes = 0, DownBytes = 0\<rparr>"
  let ?s = "peerStep EofB (spliceStart newSide newSide ?st)"
  have r: "splice_reach EntrySplice ?st ?s" by (intro splice_reach.peer splice_reach.start)
  obtain s' where s': "spliceRun EntrySplice [Down AtEof, FirstDone] ?s = Some s'"
    by (simp add: spliceStart_def newSide_def)
  have "quiet (connA ?s)" "\<not> upEnded ?s" by (simp_all add: quiet_def spliceStart_def newSide_def)
  from entry_splice_waits [OF r this s'] s' show ?thesis by auto
qed

end
