(* ===== verification/TunDevice.thy ===== *)
theory TunDevice
  imports Splice ProfileStore
begin

text \<open>
  The tunnel device of \<^verbatim>\<open>tui/internal/tun/tun_windows.go\<close> and its caller in \<^verbatim>\<open>tui/app_tun_windows.go\<close>: the checks of \<^verbatim>\<open>Create\<close>, the commands that
  set the routes up and take them down, the packet pumps, the handler of TCP flows, and the list of addresses that must not go
  through the tunnel.  The system's \<^verbatim>\<open>route\<close> and \<^verbatim>\<open>netsh\<close> programs, the wintun driver and the gVisor stack are
  parameters; what the theorems need of \<^verbatim>\<open>route\<close> is stated by \<open>routeProgram\<close>.
\<close>

section \<open>Go library\<close>

text \<open>\<^verbatim>\<open>strings.Fields\<close>: the words between white space.\<close>

function fieldsFrom :: "string \<Rightarrow> string \<Rightarrow> string list" where
  "fieldsFrom w s =
     (if s = [] then (if w = [] then [] else [w])
      else if spacePrefix s \<noteq> 0 then (if w = [] then [] else [w]) @ fieldsFrom [] (drop (spacePrefix s) s)
      else fieldsFrom (w @ [hd s]) (tl s))"
  by pat_completeness auto
termination
  by (relation "measure (length \<circ> snd)") (simp, use trimLeft_shorter in fastforce, simp)

declare fieldsFrom.simps [simp del]

definition Fields :: "string \<Rightarrow> string list" where
  "Fields s = fieldsFrom [] s"

section \<open>Configuration\<close>

record tunConfig =
  tc_Gateway :: string
  tc_Subnet :: string
  tc_MTU :: int
  tc_DoH :: "string list"
  tc_ExcludeIP :: "string list"
  tc_Dial :: bool               \<comment> \<open>a dialler is given\<close>

datatype tun_error =
    DialRequired | InvalidMTU int | GatewayNotIPv4 string | BadSubnet string | SubnetNotIPv4 string
  | GatewayOutside string string | SubnetRejected string | ExcludedNotIPv4 string
  | CreateDeviceFailed | DeviceNameFailed | StackFailed | CommandFailed "string list" | NoPhysicalGateway

text \<open>\<open>newSubnet\<close> is \<^verbatim>\<open>tcpip.NewSubnet\<close> of gVisor: whether it accepts an address and a mask.\<close>

definition parseTunCIDR :: "(ip \<Rightarrow> byte list \<Rightarrow> bool) \<Rightarrow> string \<Rightarrow> tun_error + ip \<times> byte list" where
  "parseTunCIDR newSubnet cidr =
     (case ParseCIDR cidr of
        None \<Rightarrow> Inl (BadSubnet cidr)
      | Some (a, nw) \<Rightarrow>
          (case To4 a of
             None \<Rightarrow> Inl (SubnetNotIPv4 cidr)
           | Some v4 \<Rightarrow> if newSubnet v4 (net_Mask nw) then Inr (v4, net_Mask nw) else Inl (SubnetRejected cidr)))"

definition isIPv4 :: "string \<Rightarrow> bool" where
  "isIPv4 s = (case ParseIP s of None \<Rightarrow> False | Some a \<Rightarrow> To4 a \<noteq> None)"

definition tunDefaults :: "tunConfig \<Rightarrow> tunConfig" where
  "tunDefaults cfg = cfg\<lparr>
     tc_Gateway := if tc_Gateway cfg = [] then ''198.18.0.1'' else tc_Gateway cfg,
     tc_Subnet := if tc_Subnet cfg = [] then ''198.18.0.0/15'' else tc_Subnet cfg,
     tc_MTU := if tc_MTU cfg = 0 then 1500 else tc_MTU cfg\<rparr>"

text \<open>The checks of \<^verbatim>\<open>Create\<close>, in their order; the result is the configuration with its defaults.\<close>

definition checkTun :: "(ip \<Rightarrow> byte list \<Rightarrow> bool) \<Rightarrow> tunConfig \<Rightarrow> tun_error + tunConfig" where
  "checkTun newSubnet cfg0 =
     (if \<not> tc_Dial cfg0 then Inl DialRequired
      else
        let cfg = tunDefaults cfg0 in
        if tc_MTU cfg < 576 \<or> 65535 < tc_MTU cfg then Inl (InvalidMTU (tc_MTU cfg))
        else (case ParseIP (tc_Gateway cfg) of
          None \<Rightarrow> Inl (GatewayNotIPv4 (tc_Gateway cfg))
        | Some gateway \<Rightarrow>
            if To4 gateway = None then Inl (GatewayNotIPv4 (tc_Gateway cfg))
            else (case ParseCIDR (tc_Subnet cfg) of
              None \<Rightarrow> Inl (BadSubnet (tc_Subnet cfg))
            | Some (_, subnet) \<Rightarrow>
                if To4 (net_IP subnet) = None then Inl (SubnetNotIPv4 (tc_Subnet cfg))
                else if \<not> netContains subnet gateway then Inl (GatewayOutside (tc_Gateway cfg) (tc_Subnet cfg))
                else (case parseTunCIDR newSubnet (tc_Subnet cfg) of
                  Inl e \<Rightarrow> Inl e
                | Inr _ \<Rightarrow>
                    (case find (\<lambda>x. \<not> isIPv4 x) (tc_ExcludeIP cfg) of
                       Some x \<Rightarrow> Inl (ExcludedNotIPv4 x)
                     | None \<Rightarrow> Inr cfg)))))"

section \<open>Routes\<close>

text \<open>\<^verbatim>\<open>mustAtoi\<close>: the leading digits.\<close>

fun mustAtoiFrom :: "int \<Rightarrow> string \<Rightarrow> int" where
  "mustAtoiFrom n [] = n"
| "mustAtoiFrom n (c # s) = (if isDigit c then mustAtoiFrom (i64 (n * 10 + int (digitVal c))) s else n)"

definition mustAtoi :: "string \<Rightarrow> int" where
  "mustAtoi s = mustAtoiFrom 0 s"

text \<open>The first row of \<^verbatim>\<open>route print 0.0.0.0\<close> that is a default route through an address.\<close>

definition gatewayRow :: "string \<Rightarrow> string option" where
  "gatewayRow line =
     (case Fields line of
        d # m # g # _ \<Rightarrow> if d = ''0.0.0.0'' \<and> m = ''0.0.0.0'' \<and> ParseIP g \<noteq> None then Some g else None
      | _ \<Rightarrow> None)"

definition physicalGateway :: "string option \<Rightarrow> string" where
  "physicalGateway out =
     (case out of
        None \<Rightarrow> []
      | Some s \<Rightarrow> (case List.map_filter gatewayRow (splitOn (CHR 0x0A) s) of g # _ \<Rightarrow> g | [] \<Rightarrow> []))"

text \<open>
  The routes that have a gateway, as destination, mask and gateway, and the commands that have been run.  \<open>os\<close> runs a command and
  says whether it succeeded.
\<close>

type_synonym route = "string \<times> string \<times> string"
type_synonym osProgram = "string list \<Rightarrow> route set \<Rightarrow> bool \<times> route set"

record tunWorld =
  tw_routes :: "route set"
  tw_ran :: "string list list"
  tw_open :: bool              \<comment> \<open>the wintun device is open\<close>

definition runCmd :: "osProgram \<Rightarrow> string list \<Rightarrow> tunWorld \<Rightarrow> bool \<times> tunWorld" where
  "runCmd os c w = (let (ok, rs) = os c (tw_routes w) in (ok, w\<lparr>tw_routes := rs, tw_ran := tw_ran w @ [c]\<rparr>))"

fun runUntilError :: "osProgram \<Rightarrow> string list list \<Rightarrow> tunWorld \<Rightarrow> tun_error option \<times> tunWorld" where
  "runUntilError os [] w = (None, w)"
| "runUntilError os (c # cs) w =
     (case runCmd os c w of (ok, w') \<Rightarrow> if ok then runUntilError os cs w' else (Some (CommandFailed c), w'))"

fun runAll :: "osProgram \<Rightarrow> string list list \<Rightarrow> tunWorld \<Rightarrow> tunWorld" where
  "runAll os [] w = w"
| "runAll os (c # cs) w = runAll os cs (snd (runCmd os c w))"

text \<open>The halves of the address space, and the address and mask of each.\<close>

definition halves :: "string list" where
  "halves = [''0.0.0.0/1'', ''128.0.0.0/1'']"

definition halfRoute :: "string \<Rightarrow> string \<times> string" where
  "halfRoute cidr = (case Cut cidr CHR ''/'' of Some (a, n) \<Rightarrow> (a, IPString (CIDRMask (nat (mustAtoi n)) 4)) | None \<Rightarrow> (cidr, []))"

definition addRoute :: "string \<Rightarrow> string \<Rightarrow> string \<Rightarrow> string list" where
  "addRoute d m g = [''route'', ''add'', d, ''mask'', m, g, ''metric'', ''5'']"

definition setAddress :: "string \<Rightarrow> string \<Rightarrow> string \<Rightarrow> string list" where
  "setAddress ifName g m = [''netsh'', ''interface'', ''ip'', ''set'', ''address'', ''name='' @ ifName, ''static'', g, m, ''none'']"

definition hostMask :: string where
  "hostMask = ''255.255.255.255''"

definition setupRoutes :: "osProgram \<Rightarrow> (route set \<Rightarrow> string option) \<Rightarrow> string \<Rightarrow> tunConfig \<Rightarrow> tunWorld \<Rightarrow> tun_error option \<times> tunWorld" where
  "setupRoutes os print ifName cfg w =
     (case ParseCIDR (tc_Subnet cfg) of
        None \<Rightarrow> (Some (BadSubnet (tc_Subnet cfg)), w)
      | Some (_, nw) \<Rightarrow>
          (case runUntilError os [setAddress ifName (tc_Gateway cfg) (IPString (net_Mask nw))] w of
             (Some e, w1) \<Rightarrow> (Some e, w1)
           | (None, w1) \<Rightarrow>
               let phyGW = physicalGateway (print (tw_routes w1)) in
               if tc_ExcludeIP cfg \<noteq> [] \<and> phyGW = [] then (Some NoPhysicalGateway, w1)
               else runUntilError os
                 (map (\<lambda>a. addRoute a hostMask phyGW) (tc_ExcludeIP cfg) @
                  map (\<lambda>c. case halfRoute c of (a, m) \<Rightarrow> addRoute a m (tc_Gateway cfg)) halves) w1))"

definition teardownRoutes :: "osProgram \<Rightarrow> (route set \<Rightarrow> string option) \<Rightarrow> string \<Rightarrow> tunConfig \<Rightarrow> tunWorld \<Rightarrow> tunWorld" where
  "teardownRoutes os print ifName cfg w =
     (let w1 = runAll os (map (\<lambda>c. case halfRoute c of (a, m) \<Rightarrow> [''route'', ''delete'', a, ''mask'', m]) halves) w;
          phyGW = physicalGateway (print (tw_routes w1));
          w2 = (if phyGW \<noteq> [] then runAll os (map (\<lambda>a. [''route'', ''delete'', a, ''mask'', hostMask, phyGW]) (tc_ExcludeIP cfg)) w1 else w1) in
      runAll os [[''netsh'', ''interface'', ''ip'', ''delete'', ''address'', ''name='' @ ifName, ''gateway=all'']] w2)"

section \<open>The device\<close>

record tunDevice =
  td_ifName :: string
  td_cfg :: tunConfig
  td_stack :: bool             \<comment> \<open>the network stack is installed\<close>
  td_cancelled :: bool
  td_closed :: bool

record tunEnv =
  te_newSubnet :: "ip \<Rightarrow> byte list \<Rightarrow> bool"
  te_create :: bool
  te_name :: "string option"
  te_createNIC :: bool
  te_addAddress :: bool
  te_os :: osProgram
  te_print :: "route set \<Rightarrow> string option"

definition tunClose :: "tunEnv \<Rightarrow> tunDevice \<Rightarrow> tunWorld \<Rightarrow> tunDevice \<times> tunWorld" where
  "tunClose env d w =
     (if td_closed d then (d, w)
      else
        (d\<lparr>td_closed := True, td_cancelled := True, td_stack := False\<rparr>,
         (teardownRoutes (te_os env) (te_print env) (td_ifName d) (td_cfg d) w)\<lparr>tw_open := False\<rparr>))"

text \<open>The subnet has been checked before, and the gateway's address is in its short form.\<close>

definition setupStack :: "tunEnv \<Rightarrow> tunDevice \<Rightarrow> tun_error + tunDevice" where
  "setupStack env d =
     (if \<not> te_createNIC env then Inl StackFailed
      else case parseTunCIDR (te_newSubnet env) (tc_Subnet (td_cfg d)) of
        Inl e \<Rightarrow> Inl e
      | Inr _ \<Rightarrow> if \<not> te_addAddress env then Inl StackFailed else Inr (d\<lparr>td_stack := True\<rparr>))"

definition tunCreate :: "tunEnv \<Rightarrow> tunConfig \<Rightarrow> tunWorld \<Rightarrow> (tun_error + tunDevice) \<times> tunWorld" where
  "tunCreate env cfg0 w =
     (case checkTun (te_newSubnet env) cfg0 of
        Inl e \<Rightarrow> (Inl e, w)
      | Inr cfg \<Rightarrow>
          if \<not> te_create env then (Inl CreateDeviceFailed, w)
          else
            let w1 = w\<lparr>tw_open := True\<rparr> in
            (case te_name env of
               None \<Rightarrow> (Inl DeviceNameFailed, w1\<lparr>tw_open := False\<rparr>)
             | Some n \<Rightarrow>
                 let d = \<lparr>td_ifName = n, td_cfg = cfg, td_stack = False, td_cancelled = False, td_closed = False\<rparr> in
                 (case setupStack env d of
                    Inl e \<Rightarrow> (Inl e, snd (tunClose env d w1))
                  | Inr d1 \<Rightarrow>
                      (case setupRoutes (te_os env) (te_print env) n cfg w1 of
                         (Some e, w2) \<Rightarrow> (Inl e, snd (tunClose env d1 w2))
                       | (None, w2) \<Rightarrow> (Inr d1, w2)))))"

section \<open>Packets and flows\<close>

datatype netProtocol = IPv4Packet | IPv6Packet

definition inboundPacket :: "byte list \<Rightarrow> int \<Rightarrow> (byte list \<times> netProtocol) option" where
  "inboundPacket buf sz =
     (if sz \<le> 0 \<or> int (length buf) < sz then None
      else if drop_bit 4 (buf ! 0) = 4 then Some (take (nat sz) buf, IPv4Packet)
      else if drop_bit 4 (buf ! 0) = 6 then Some (take (nat sz) buf, IPv6Packet)
      else None)"

text \<open>
  The pumps: a read of the device gives packets with their sizes, or an error that ends the pump (\<open>None\<close>); the stack gets the packets.  In
  the other direction the stack's packets are written until a write fails; \<open>ok\<close> says which writes succeed.
\<close>

fun pumpInbound :: "(byte list \<times> int) list option list \<Rightarrow> (byte list \<times> netProtocol) list" where
  "pumpInbound [] = []"
| "pumpInbound (None # rs) = []"
| "pumpInbound (Some ps # rs) = List.map_filter (\<lambda>(b, n). inboundPacket b n) ps @ pumpInbound rs"

fun pumpOutbound :: "(byte list \<Rightarrow> bool) \<Rightarrow> byte list list \<Rightarrow> byte list list" where
  "pumpOutbound ok [] = []"
| "pumpOutbound ok (v # vs) = (if v = [] then pumpOutbound ok vs else if ok v then v # pumpOutbound ok vs else [])"

text \<open>
  A TCP flow: the stack accepts it or not, and the flow's own target is dialled through the core.  \<open>addrString\<close> prints an address of gVisor.
\<close>

definition handleTCP :: "(ip \<Rightarrow> string) \<Rightarrow> coreConn \<Rightarrow> bool \<Rightarrow> ip \<Rightarrow> nat \<Rightarrow> ((socks_error + byte list) \<times> byte list) option" where
  "handleTCP addrString c endpoint localAddress localPort =
     (if \<not> endpoint then None
      else Some (Dialer c ''tcp'' (JoinHostPort (addrString localAddress) (Itoa (int localPort)))))"

section \<open>Excluded addresses\<close>

text \<open>\<open>lookupIP\<close> is the system's resolver.\<close>

definition resolveServerIPv4 :: "(string \<Rightarrow> ip list option) \<Rightarrow> string \<Rightarrow> string + string list" where
  "resolveServerIPv4 lookupIP server =
     (case ParseIP server of
        Some a \<Rightarrow> (case To4 a of Some v4 \<Rightarrow> Inr [IPString v4] | None \<Rightarrow> Inr [])
      | None \<Rightarrow>
          (case lookupIP server of
             None \<Rightarrow> Inl (''resolve proxy server '' @ server)
           | Some ips \<Rightarrow>
               let out = List.map_filter (map_option IPString \<circ> To4) ips in
               if out = [] then Inl (''proxy server has no IPv4 address: '' @ server) else Inr out))"

fun addUnseen :: "string list \<Rightarrow> string list \<Rightarrow> string list" where
  "addUnseen ex [] = ex"
| "addUnseen ex (a # as) = (if a \<in> set ex then addUnseen ex as else addUnseen (ex @ [a]) as)"

definition tunConfigFor :: "(string \<Rightarrow> ip list option) \<Rightarrow> string \<Rightarrow> TUNConfig \<Rightarrow> string + tunConfig" where
  "tunConfigFor lookupIP server t =
     (case resolveServerIPv4 lookupIP server of
        Inl e \<Rightarrow> Inl e
      | Inr serverIPs \<Rightarrow>
          Inr \<lparr>tc_Gateway = tun_Gateway t, tc_Subnet = tun_Subnet t, tc_MTU = tun_MTU t, tc_DoH = tun_DoH t,
               tc_ExcludeIP = addUnseen (tun_ExcludeIP t) serverIPs, tc_Dial = True\<rparr>)"

section \<open>What the route program does\<close>

text \<open>
  \<^verbatim>\<open>route add\<close> adds a route or fails without effect; \<^verbatim>\<open>route delete\<close> removes the routes with the destination, mask and, if it is given,
  gateway; \<^verbatim>\<open>netsh\<close> changes the address of the interface and no route with a gateway.
\<close>

definition routeProgram :: "osProgram \<Rightarrow> bool" where
  "routeProgram os \<longleftrightarrow>
     (\<forall>d m g rs. snd (os (addRoute d m g) rs) = (if fst (os (addRoute d m g) rs) then insert (d, m, g) rs else rs)) \<and>
     (\<forall>d m rs. snd (os [''route'', ''delete'', d, ''mask'', m] rs) = {r \<in> rs. (fst r, fst (snd r)) \<noteq> (d, m)}) \<and>
     (\<forall>d m g rs. snd (os [''route'', ''delete'', d, ''mask'', m, g] rs) = rs - {(d, m, g)}) \<and>
     (\<forall>args rs. snd (os (''netsh'' # args) rs) = rs)"

text \<open>A program of this kind, which never refuses a command.\<close>

definition simpleOS :: osProgram where
  "simpleOS c rs =
     (case c of
        n # v # d # k # m # rest \<Rightarrow>
          if n = ''route'' \<and> v = ''add'' then (case rest of g # _ \<Rightarrow> (True, insert (d, m, g) rs) | [] \<Rightarrow> (False, rs))
          else if n = ''route'' then
            (case rest of g # _ \<Rightarrow> (True, rs - {(d, m, g)}) | [] \<Rightarrow> (True, {r \<in> rs. (fst r, fst (snd r)) \<noteq> (d, m)}))
          else (True, rs)
      | _ \<Rightarrow> (True, rs))"

lemma routeProgram_simpleOS: "routeProgram simpleOS"
  by (auto simp: routeProgram_def simpleOS_def addRoute_def split: list.splits)

text \<open>The routes of a device whose excluded addresses go through the gateway \<open>g\<close>.\<close>

definition tunRoutes :: "tunConfig \<Rightarrow> string \<Rightarrow> route set" where
  "tunRoutes cfg g =
     {(a, hostMask, g) | a. a \<in> set (tc_ExcludeIP cfg) \<and> g \<noteq> []} \<union>
     {(''0.0.0.0'', ''128.0.0.0'', tc_Gateway cfg), (''128.0.0.0'', ''128.0.0.0'', tc_Gateway cfg)}"

lemma halfRoutes: "map halfRoute halves = [(''0.0.0.0'', ''128.0.0.0''), (''128.0.0.0'', ''128.0.0.0'')]"
  by code_simp

lemma halves_map: "map (\<lambda>c. case halfRoute c of (a, m) \<Rightarrow> f a m) halves = [f ''0.0.0.0'' ''128.0.0.0'', f ''128.0.0.0'' ''128.0.0.0'']"
proof -
  have "map (\<lambda>c. case halfRoute c of (a, m) \<Rightarrow> f a m) halves = map (\<lambda>(a, m). f a m) (map halfRoute halves)" by simp
  then show ?thesis by (simp add: halfRoutes)
qed

lemma runCmd_frame: "tw_open (snd (runCmd os c w)) = tw_open w" "tw_routes (snd (runCmd os c w)) = snd (os c (tw_routes w))"
  "fst (runCmd os c w) = fst (os c (tw_routes w))"
  by (simp_all add: runCmd_def split_beta)

lemma setAddress_routes: "routeProgram os \<Longrightarrow> snd (os (setAddress n g m) rs) = rs"
  by (simp add: routeProgram_def setAddress_def)

lemma runUntilError_adds:
  assumes "routeProgram os" "runUntilError os (map (\<lambda>(d, m, g). addRoute d m g) xs) w = (e, w')"
  shows "tw_routes w \<subseteq> tw_routes w'" "tw_routes w' \<subseteq> tw_routes w \<union> set xs" "e = None \<Longrightarrow> tw_routes w' = tw_routes w \<union> set xs"
    "tw_open w' = tw_open w"
proof -
  have "tw_routes w \<subseteq> tw_routes w' \<and> tw_routes w' \<subseteq> tw_routes w \<union> set xs \<and> (e = None \<longrightarrow> tw_routes w' = tw_routes w \<union> set xs) \<and> tw_open w' = tw_open w"
    using assms(2)
  proof (induction xs arbitrary: w)
    case (Cons x xs)
    obtain d m g where x: "x = (d, m, g)" by (cases x)
    obtain ok w1 where r: "runCmd os (addRoute d m g) w = (ok, w1)" by fastforce
    have t: "tw_routes w1 = (if ok then insert x (tw_routes w) else tw_routes w)" "tw_open w1 = tw_open w"
      using assms(1) runCmd_frame [of os "addRoute d m g" w] by (simp_all add: r routeProgram_def x)
    show ?case
    proof (cases ok)
      case True
      then have "runUntilError os (map (\<lambda>(d, m, g). addRoute d m g) xs) w1 = (e, w')" using Cons.prems x r by simp
      from Cons.IH [OF this] t True show ?thesis by auto
    next
      case False
      then show ?thesis using Cons.prems x t r by auto
    qed
  qed simp
  then show "tw_routes w \<subseteq> tw_routes w'" "tw_routes w' \<subseteq> tw_routes w \<union> set xs" "e = None \<Longrightarrow> tw_routes w' = tw_routes w \<union> set xs"
    "tw_open w' = tw_open w" by auto
qed

lemma runAll_deletes:
  assumes "routeProgram os"
  shows "tw_routes (runAll os (map (\<lambda>a. [''route'', ''delete'', a, ''mask'', m, g]) as) w) = tw_routes w - {(a, m, g) | a. a \<in> set as}"
  by (induction as arbitrary: w) (use assms in \<open>auto simp: runCmd_frame routeProgram_def\<close>)

lemma runAll_open: "tw_open (runAll os cs w) = tw_open w"
  by (induction cs arbitrary: w) (auto simp: runCmd_frame)

lemma runAll_append: "runAll os (xs @ ys) w = runAll os ys (runAll os xs w)"
  by (induction xs arbitrary: w) auto

text \<open>What setting up and taking down do to the routes.\<close>

lemma setupRoutes_effect:
  assumes "routeProgram os" "setupRoutes os print n cfg w = (e, w')" "physicalGateway (print (tw_routes w)) = g"
  shows "tw_routes w \<subseteq> tw_routes w' \<and> tw_routes w' \<subseteq> tw_routes w \<union> tunRoutes cfg g \<and>
     (e = None \<longrightarrow> tw_routes w' = tw_routes w \<union> tunRoutes cfg g \<and> (tc_ExcludeIP cfg \<noteq> [] \<longrightarrow> g \<noteq> [])) \<and> tw_open w' = tw_open w"
proof -
  let ?adds = "map (\<lambda>a. (a, hostMask, g)) (tc_ExcludeIP cfg) @
      [(''0.0.0.0'', ''128.0.0.0'', tc_Gateway cfg), (''128.0.0.0'', ''128.0.0.0'', tc_Gateway cfg)]"
  have cmds: "map (\<lambda>a. addRoute a hostMask g) (tc_ExcludeIP cfg) @ map (\<lambda>c. case halfRoute c of (a, m) \<Rightarrow> addRoute a m (tc_Gateway cfg)) halves =
      map (\<lambda>(d, m, g). addRoute d m g) ?adds" by (simp add: halves_map)
  have adds: "set ?adds = tunRoutes cfg g" if "tc_ExcludeIP cfg = [] \<or> g \<noteq> []" using that by (auto simp: tunRoutes_def)
  show ?thesis
  proof (cases "ParseCIDR (tc_Subnet cfg)")
    case None
    then show ?thesis using assms(2) by (auto simp: setupRoutes_def)
  next
    case (Some an)
    obtain a nw where an: "an = (a, nw)" by (cases an)
    let ?c = "setAddress n (tc_Gateway cfg) (IPString (net_Mask nw))"
    obtain ok w1 where run: "runCmd os ?c w = (ok, w1)" by fastforce
    have r: "tw_routes w1 = tw_routes w" "tw_open w1 = tw_open w"
      using setAddress_routes [OF assms(1)] runCmd_frame [of os ?c w] by (simp_all add: run)
    have eq: "setupRoutes os print n cfg w =
        (if \<not> ok then (Some (CommandFailed ?c), w1) else if tc_ExcludeIP cfg \<noteq> [] \<and> g = [] then (Some NoPhysicalGateway, w1)
         else runUntilError os (map (\<lambda>(d, m, g). addRoute d m g) ?adds) w1)"
      unfolding setupRoutes_def Some an option.case prod.case Let_def runUntilError.simps run cmds [symmetric]
      using r(1) assms(3) by simp
    show ?thesis
    proof (cases "ok \<and> (tc_ExcludeIP cfg = [] \<or> g \<noteq> [])")
      case True
      then have "runUntilError os (map (\<lambda>(d, m, g). addRoute d m g) ?adds) w1 = (e, w')"
        using assms(2) unfolding eq by (auto simp del: map_append)
      note f = runUntilError_adds [OF assms(1) this, unfolded adds [OF conjunct2 [OF True]] r]
      show ?thesis using f True by (intro conjI impI) simp_all
    next
      case False
      then show ?thesis using assms(2) r unfolding eq by (auto split: if_splits)
    qed
  qed
qed

lemma teardownRoutes_effect:
  assumes "routeProgram os" "\<And>rs. physicalGateway (print rs) = g"
  shows "tw_routes (teardownRoutes os print n cfg w) =
     {r \<in> tw_routes w. (fst r, fst (snd r)) \<notin> {(''0.0.0.0'', ''128.0.0.0''), (''128.0.0.0'', ''128.0.0.0'')}} -
     {(a, hostMask, g) | a. a \<in> set (tc_ExcludeIP cfg) \<and> g \<noteq> []}"
    (is "_ = ?R")
proof -
  let ?del = "map (\<lambda>c. case halfRoute c of (a, m) \<Rightarrow> [''route'', ''delete'', a, ''mask'', m]) halves"
  have "tw_routes (runAll os ?del w) =
      {r \<in> tw_routes w. (fst r, fst (snd r)) \<notin> {(''0.0.0.0'', ''128.0.0.0''), (''128.0.0.0'', ''128.0.0.0'')}}"
    unfolding halves_map using assms(1) by (auto simp: runCmd_frame routeProgram_def)
  moreover have "snd (os (''netsh'' # args) rs) = rs" for args rs using assms(1) by (simp add: routeProgram_def)
  ultimately show ?thesis
    by (cases "g = []") (simp_all add: teardownRoutes_def Let_def assms(2) runCmd_frame runAll_deletes [OF assms(1)])
qed

section \<open>Opening and closing the device\<close>

text \<open>The routes are free of those that the device manages, and the physical gateway is \<open>g\<close>.\<close>

definition foreign :: "tunConfig \<Rightarrow> string \<Rightarrow> route set \<Rightarrow> bool" where
  "foreign cfg g rs \<longleftrightarrow>
     (\<forall>(d, m, x) \<in> rs. (d, m) \<notin> {(''0.0.0.0'', ''128.0.0.0''), (''128.0.0.0'', ''128.0.0.0'')} \<and>
        \<not> (d \<in> set (tc_ExcludeIP cfg) \<and> m = hostMask \<and> x = g))"

definition gatewayIs :: "tunEnv \<Rightarrow> string \<Rightarrow> bool" where
  "gatewayIs env g \<longleftrightarrow> (\<forall>rs. physicalGateway (te_print env rs) = g)"

lemma hostMask_not_half: "hostMask \<noteq> ''128.0.0.0''"
  by (simp add: hostMask_def)

lemma tunClose_restores:
  assumes "routeProgram (te_os env)" "gatewayIs env g" "foreign cfg g rs" "rs \<subseteq> tw_routes w" "tw_routes w \<subseteq> rs \<union> tunRoutes cfg g"
    "td_cfg d = cfg" "\<not> td_closed d"
  shows "tw_routes (snd (tunClose env d w)) = rs \<and> \<not> tw_open (snd (tunClose env d w))"
proof -
  have "tw_routes (teardownRoutes (te_os env) (te_print env) (td_ifName d) cfg w) =
     {r \<in> tw_routes w. (fst r, fst (snd r)) \<notin> {(''0.0.0.0'', ''128.0.0.0''), (''128.0.0.0'', ''128.0.0.0'')}} -
     {(a, hostMask, g) | a. a \<in> set (tc_ExcludeIP cfg) \<and> g \<noteq> []}" (is "_ = ?R")
    using assms(1,2) by (intro teardownRoutes_effect) (auto simp: gatewayIs_def)
  also have "?R = rs"
  proof
    show "?R \<subseteq> rs" using assms(5) by (auto simp: tunRoutes_def)
    show "rs \<subseteq> ?R" using assms(3,4) by (fastforce simp: foreign_def)
  qed
  finally show ?thesis using assms(6,7) by (simp add: tunClose_def)
qed

lemma checkTun_Some: "checkTun ns cfg0 = Inr cfg \<Longrightarrow> cfg = tunDefaults cfg0"
  by (auto simp: checkTun_def Let_def split: if_splits option.splits sum.splits)

lemma tunDefaults_exclude [simp]: "tc_ExcludeIP (tunDefaults cfg) = tc_ExcludeIP cfg"
  by (simp add: tunDefaults_def)

lemma tunRoutes_foreign_defaults: "foreign (tunDefaults cfg) g rs = foreign cfg g rs"
  by (simp add: foreign_def)

text \<open>How \<^verbatim>\<open>Create\<close> ends: without a trace of the device, after closing it again, or with the device.\<close>

lemma tunCreate_cases:
  obtains (early) e where "tunCreate env cfg0 w = (Inl e, w) \<or> tunCreate env cfg0 w = (Inl e, w\<lparr>tw_open := False\<rparr>)"
  | (stack) e d where "tunCreate env cfg0 w = (Inl e, snd (tunClose env d (w\<lparr>tw_open := True\<rparr>)))"
      "td_cfg d = tunDefaults cfg0" "\<not> td_closed d"
  | (routes) n e d w2 where "tunCreate env cfg0 w = (Inl e, snd (tunClose env d w2))" "td_cfg d = tunDefaults cfg0" "\<not> td_closed d"
      "setupRoutes (te_os env) (te_print env) n (tunDefaults cfg0) (w\<lparr>tw_open := True\<rparr>) = (Some e, w2)"
  | (up) n d w2 where "tunCreate env cfg0 w = (Inr d, w2)" "td_cfg d = tunDefaults cfg0" "td_ifName d = n" "\<not> td_closed d"
      "checkTun (te_newSubnet env) cfg0 = Inr (tunDefaults cfg0)"
      "setupRoutes (te_os env) (te_print env) n (tunDefaults cfg0) (w\<lparr>tw_open := True\<rparr>) = (None, w2)"
proof (cases "checkTun (te_newSubnet env) cfg0")
  case (Inl e)
  then show ?thesis by (intro early [of e]) (simp add: tunCreate_def)
next
  case (Inr cfg)
  note cfg = checkTun_Some [OF Inr]
  show ?thesis
  proof (cases "te_create env")
    case False
    then show ?thesis by (intro early [of CreateDeviceFailed]) (simp add: tunCreate_def Inr)
  next
    case create: True
    show ?thesis
    proof (cases "te_name env")
      case None
      then show ?thesis using create by (intro early [of DeviceNameFailed]) (simp add: tunCreate_def Inr)
    next
      case (Some n)
      let ?d = "\<lparr>td_ifName = n, td_cfg = cfg, td_stack = False, td_cancelled = False, td_closed = False\<rparr>"
      show ?thesis
      proof (cases "setupStack env ?d")
        case (Inl e)
        then show ?thesis using create Some by (intro stack [of e ?d]) (simp_all add: tunCreate_def Inr cfg)
      next
        case (Inr d1)
        then have d1: "d1 = ?d\<lparr>td_stack := True\<rparr>" by (auto simp: setupStack_def split: if_splits sum.splits)
        obtain r w2 where r: "setupRoutes (te_os env) (te_print env) n cfg (w\<lparr>tw_open := True\<rparr>) = (r, w2)" by fastforce
        show ?thesis
        proof (cases r)
          case None
          then show ?thesis using create Some Inr r d1 \<open>checkTun _ _ = _\<close> cfg
            by (intro up [of d1 w2 n]) (simp_all add: tunCreate_def)
        next
          case (Some e)
          then show ?thesis using create \<open>te_name env = _\<close> Inr r d1 \<open>checkTun _ _ = _\<close> cfg
            by (intro routes [of e d1 w2 n]) (simp_all add: tunCreate_def)
        qed
      qed
    qed
  qed
qed


text \<open>
  If the physical gateway is another one when the device is closed, every route for an excluded address stays: closing looks the gateway up
  again and deletes routes through the new one.
\<close>

theorem tun_routes_leak:
  assumes "routeProgram (te_os env)" "gatewayIs env g" "routeProgram (te_os env2)" "gatewayIs env2 g2" "g2 \<noteq> g"
    "tunCreate env cfg w = (Inr d, w')" "a \<in> set (tc_ExcludeIP cfg)"
  shows "(a, hostMask, g) \<in> tw_routes (snd (tunClose env2 d w'))"
proof (cases rule: tunCreate_cases [of env cfg w])
  case (up n d' w2)
  then have d: "d' = d" "w2 = w'" using assms(6) by auto
  have "(a, hostMask, g) \<in> tw_routes w'"
    using setupRoutes_effect [OF assms(1) up(6), of g] assms(2,7) d by (auto simp: gatewayIs_def tunRoutes_def)
  moreover have "tw_routes (teardownRoutes (te_os env2) (te_print env2) (td_ifName d) (td_cfg d) w') =
     {r \<in> tw_routes w'. (fst r, fst (snd r)) \<notin> {(''0.0.0.0'', ''128.0.0.0''), (''128.0.0.0'', ''128.0.0.0'')}} -
     {(a, hostMask, g2) | a. a \<in> set (tc_ExcludeIP (td_cfg d)) \<and> g2 \<noteq> []}"
    using assms(3,4) by (intro teardownRoutes_effect) (auto simp: gatewayIs_def)
  ultimately show ?thesis using assms(5) up(4) d hostMask_not_half by (simp add: tunClose_def)
qed (use assms(6) in auto)

section \<open>Where packets go\<close>

text \<open>
  The choice of a route: of those whose destination is the address under the mask, one with a longest mask.
\<close>

definition routeMatches :: "ip \<Rightarrow> route \<Rightarrow> bool" where
  "routeMatches a r =
     (case r of (d, m, _) \<Rightarrow>
        (case parseIPv4 d of None \<Rightarrow> False | Some q \<Rightarrow> (case parseIPv4 m of None \<Rightarrow> False | Some k \<Rightarrow> map2 (AND) a k = q)))"

definition maskNum :: "string \<Rightarrow> nat" where
  "maskNum m = (case parseIPv4 m of None \<Rightarrow> 0 | Some k \<Rightarrow> foldl (\<lambda>n b. 256 * n + unat b) 0 k)"

definition routedVia :: "route set \<Rightarrow> ip \<Rightarrow> string \<Rightarrow> bool" where
  "routedVia rs a g \<longleftrightarrow>
     (\<exists>d m. (d, m, g) \<in> rs \<and> routeMatches a (d, m, g) \<and> (\<forall>r \<in> rs. routeMatches a r \<longrightarrow> maskNum (fst (snd r)) \<le> maskNum m))"

lemma masks:
  "parseIPv4 hostMask = Some [255, 255, 255, 255]" "parseIPv4 ''128.0.0.0'' = Some [128, 0, 0, 0]" "parseIPv4 ''0.0.0.0'' = Some [0, 0, 0, 0]"
  by code_simp+

lemma maskNums: "maskNum hostMask = 4294967295" "maskNum ''128.0.0.0'' = 2147483648" "maskNum ''0.0.0.0'' = 0"
  by (simp_all add: maskNum_def masks)

lemma byte_and_bit: "(b :: byte) AND 2 ^ n = (if bit b n then 2 ^ n else 0)"
  by (rule bit_word_eqI) (auto simp: bit_and_iff bit_exp_iff)

lemma byte_and_128: "(b :: byte) AND 128 = (if bit b 7 then 128 else 0)"
  using byte_and_bit [of b 7] by simp

lemma and_255: "(b :: byte) AND 255 = b"
proof -
  have "b AND mask 8 = b" by (rule bit_word_eqI) (auto simp: bit_and_iff bit_mask_iff)
  then show ?thesis by (simp add: mask_eq_exp_minus_1)
qed

lemma host_matches: "length a = 4 \<Longrightarrow> routeMatches a (d, hostMask, g) \<longleftrightarrow> parseIPv4 d = Some a"
  by (drule length4E) (auto simp: routeMatches_def masks and_255 split: option.splits)

lemma half_matches:
  "length a = 4 \<Longrightarrow> routeMatches a (''0.0.0.0'', ''128.0.0.0'', g) \<longleftrightarrow> \<not> bit (a ! 0) 7"
  "length a = 4 \<Longrightarrow> routeMatches a (''128.0.0.0'', ''128.0.0.0'', g) \<longleftrightarrow> bit (a ! 0) 7"
  by (drule length4E, auto simp: routeMatches_def masks byte_and_128 split: if_splits)+

text \<open>The routes that match an address, by their kind.\<close>

lemma tunRoutes_matching:
  assumes "length a = 4" "(d, m, x) \<in> tunRoutes cfg g" "routeMatches a (d, m, x)"
  shows "m = hostMask \<and> d \<in> set (tc_ExcludeIP cfg) \<and> parseIPv4 d = Some a \<and> x = g \<or> m = ''128.0.0.0'' \<and> x = tc_Gateway cfg"
  using assms host_matches [OF assms(1)] by (auto simp: tunRoutes_def)

lemma half_exists:
  assumes "length a = 4"
  obtains d where "(d, ''128.0.0.0'', tc_Gateway cfg) \<in> tunRoutes cfg g" "routeMatches a (d, ''128.0.0.0'', tc_Gateway cfg)"
  using half_matches [OF assms] by (cases "bit (a ! 0) 7") (auto simp: tunRoutes_def)

lemma routing_excluded:
  assumes "length a = 4" "\<And>d m x. (d, m, x) \<in> rs \<Longrightarrow> routeMatches a (d, m, x) \<Longrightarrow> m = ''0.0.0.0''"
    "e \<in> set (tc_ExcludeIP cfg)" "parseIPv4 e = Some a" "g \<noteq> []"
  shows "routedVia (rs \<union> tunRoutes cfg g) a x \<longleftrightarrow> x = g"
proof
  have e: "(e, hostMask, g) \<in> tunRoutes cfg g" "routeMatches a (e, hostMask, g)"
    using assms(3-5) host_matches [OF assms(1)] by (auto simp: tunRoutes_def)
  assume "routedVia (rs \<union> tunRoutes cfg g) a x"
  then obtain d m where dm: "(d, m, x) \<in> rs \<union> tunRoutes cfg g" "routeMatches a (d, m, x)" "maskNum hostMask \<le> maskNum m"
    using e unfolding routedVia_def by fastforce
  then have "m \<noteq> ''0.0.0.0''" "m \<noteq> ''128.0.0.0''" by (auto simp: maskNums)
  then show "x = g" using dm assms(2) tunRoutes_matching [OF assms(1), of d m x cfg g] by auto
next
  assume [simp]: "x = g"
  have e: "(e, hostMask, g) \<in> tunRoutes cfg g" "routeMatches a (e, hostMask, g)"
    using assms(3-5) host_matches [OF assms(1)] by (auto simp: tunRoutes_def)
  have "maskNum m \<le> maskNum hostMask" if r: "(d, m, y) \<in> rs \<union> tunRoutes cfg g" "routeMatches a (d, m, y)" for d m y
  proof -
    consider "m = ''0.0.0.0''" | "m = hostMask" | "m = ''128.0.0.0''"
      using r assms(2) tunRoutes_matching [OF assms(1), of d m y cfg g] by blast
    then show ?thesis by cases (simp_all add: maskNums)
  qed
  then show "routedVia (rs \<union> tunRoutes cfg g) a x" using e unfolding routedVia_def by fastforce
qed

lemma routing_tunnelled:
  assumes "length a = 4" "\<And>d m x. (d, m, x) \<in> rs \<Longrightarrow> routeMatches a (d, m, x) \<Longrightarrow> m = ''0.0.0.0''"
    "\<forall>e \<in> set (tc_ExcludeIP cfg). parseIPv4 e \<noteq> Some a"
  shows "routedVia (rs \<union> tunRoutes cfg g) a x \<longleftrightarrow> x = tc_Gateway cfg"
proof -
  obtain d0 where h: "(d0, ''128.0.0.0'', tc_Gateway cfg) \<in> tunRoutes cfg g" "routeMatches a (d0, ''128.0.0.0'', tc_Gateway cfg)"
    by (rule half_exists [OF assms(1)])
  have only: "m = ''0.0.0.0'' \<or> m = ''128.0.0.0'' \<and> y = tc_Gateway cfg" if "(d, m, y) \<in> rs \<union> tunRoutes cfg g" "routeMatches a (d, m, y)" for d m y
    using that assms(2,3) tunRoutes_matching [OF assms(1), of d m y cfg g] by blast
  show ?thesis
  proof
    assume "routedVia (rs \<union> tunRoutes cfg g) a x"
    then obtain d m where dm: "(d, m, x) \<in> rs \<union> tunRoutes cfg g" "routeMatches a (d, m, x)" "maskNum ''128.0.0.0'' \<le> maskNum m"
      using h unfolding routedVia_def by fastforce
    then have "m \<noteq> ''0.0.0.0''" by (auto simp: maskNums)
    then show "x = tc_Gateway cfg" using only [OF dm(1,2)] by simp
  next
    assume [simp]: "x = tc_Gateway cfg"
    have "maskNum m \<le> maskNum ''128.0.0.0''" if "(d, m, y) \<in> rs \<union> tunRoutes cfg g" "routeMatches a (d, m, y)" for d m y
      using only [OF that] by (auto simp: maskNums)
    then show "routedVia (rs \<union> tunRoutes cfg g) a x" using h unfolding routedVia_def by fastforce
  qed
qed

text \<open>
  Where the packets of the host go while the device is up, for an address that only default routes matched before: the packets for an
  excluded address go through the physical gateway, and those for every other address through the device.
\<close>

theorem tun_routing:
  assumes "routeProgram (te_os env)" "gatewayIs env g" "tunCreate env cfg w = (Inr d, w')" "length a = 4"
    "\<And>d m x. (d, m, x) \<in> tw_routes w \<Longrightarrow> routeMatches a (d, m, x) \<Longrightarrow> m = ''0.0.0.0''"
  shows "((\<exists>e \<in> set (tc_ExcludeIP cfg). parseIPv4 e = Some a) \<longrightarrow> (\<forall>x. routedVia (tw_routes w') a x \<longleftrightarrow> x = g)) \<and>
     (\<not> (\<exists>e \<in> set (tc_ExcludeIP cfg). parseIPv4 e = Some a) \<longrightarrow> (\<forall>x. routedVia (tw_routes w') a x \<longleftrightarrow> x = tc_Gateway (tunDefaults cfg)))"
proof (cases rule: tunCreate_cases [of env cfg w])
  case (up n d' w2)
  then have w2: "w2 = w'" using assms(3) by auto
  have rs: "tw_routes w' = tw_routes w \<union> tunRoutes (tunDefaults cfg) g" and g: "tc_ExcludeIP cfg \<noteq> [] \<longrightarrow> g \<noteq> []"
    using setupRoutes_effect [OF assms(1) up(6), of g] assms(2) by (simp_all add: gatewayIs_def w2)
  show ?thesis
  proof (intro conjI impI allI)
    fix x
    assume "\<exists>e \<in> set (tc_ExcludeIP cfg). parseIPv4 e = Some a"
    then obtain e where e: "e \<in> set (tc_ExcludeIP cfg)" "parseIPv4 e = Some a" by blast
    then have "g \<noteq> []" using g by auto
    then show "routedVia (tw_routes w') a x \<longleftrightarrow> x = g"
      unfolding rs using e by (intro routing_excluded [OF assms(4,5), where e = e]) simp_all
  next
    fix x
    assume "\<not> (\<exists>e \<in> set (tc_ExcludeIP cfg). parseIPv4 e = Some a)"
    then show "routedVia (tw_routes w') a x \<longleftrightarrow> x = tc_Gateway (tunDefaults cfg)"
      unfolding rs by (intro routing_tunnelled [OF assms(4,5)]) simp_all
  qed
qed (use assms(3) in auto)

text \<open>The addresses of the server are among the excluded ones.\<close>

lemma addUnseen_set: "set (addUnseen ex as) = set ex \<union> set as"
  by (induction ex as rule: addUnseen.induct) auto

definition serverAddress :: "(string \<Rightarrow> ip list option) \<Rightarrow> string \<Rightarrow> ip \<Rightarrow> bool" where
  "serverAddress lookupIP server a \<longleftrightarrow>
     (case ParseIP server of
        Some b \<Rightarrow> To4 b = Some a
      | None \<Rightarrow> (\<exists>ips b. lookupIP server = Some ips \<and> b \<in> set ips \<and> To4 b = Some a))"

lemma server_excluded:
  assumes "tunConfigFor lookupIP server t = Inr cfg" "serverAddress lookupIP server a"
  shows "IPString a \<in> set (tc_ExcludeIP cfg)"
  using assms by (auto simp: tunConfigFor_def resolveServerIPv4_def serverAddress_def addUnseen_set Let_def map_filter_def image_iff
      split: sum.splits option.splits if_splits) fastforce

lemma parse_IPString4: "length a = 4 \<Longrightarrow> parseIPv4 (IPString a) = Some a"
  by (simp add: IPString_def To4_def parse_print_IPv4)

text \<open>
  (C11) The tunnel does not swallow its own transport: when the application brings the device up for a profile, packets for every IPv4 address that
  the server's name stands for still go through the physical gateway.
\<close>

theorem tun_no_loop:
  assumes "tunConfigFor lookupIP server t = Inr cfg" "serverAddress lookupIP server a"
    "routeProgram (te_os env)" "gatewayIs env g" "tunCreate env cfg w = (Inr d, w')"
    "\<And>d m x. (d, m, x) \<in> tw_routes w \<Longrightarrow> routeMatches a (d, m, x) \<Longrightarrow> m = ''0.0.0.0''"
  shows "routedVia (tw_routes w') a x \<longleftrightarrow> x = g"
proof (cases rule: tunCreate_cases [of env cfg w])
  case (up n d' w2)
  have l: "length a = 4" using assms(2) To4_length by (auto simp: serverAddress_def split: option.splits)
  have e: "IPString a \<in> set (tc_ExcludeIP cfg)" "parseIPv4 (IPString a) = Some a"
    using server_excluded [OF assms(1,2)] parse_IPString4 [OF l] by auto
  have rs: "tw_routes w' = tw_routes w \<union> tunRoutes (tunDefaults cfg) g" "g \<noteq> []"
    using setupRoutes_effect [OF assms(3) up(6), of g] assms(4,5) up(1) e(1) by (auto simp: gatewayIs_def)
  show ?thesis unfolding rs(1) using e rs(2) by (intro routing_excluded [OF l assms(6), where e = "IPString a"]) simp_all
qed (use assms(5) in auto)

section \<open>Checked configurations and flows\<close>

text \<open>
  A device exists only for a configuration that makes sense: the MTU is that of an IPv4 link, the gateway is an IPv4 address inside the subnet,
  every excluded address is an IPv4 address, and, if there are any, the physical gateway was found.
\<close>

theorem tun_created_valid:
  assumes "routeProgram (te_os env)" "gatewayIs env g" "tunCreate env cfg w = (Inr d, w')"
  shows "let c = td_cfg d in
     c = tunDefaults cfg \<and> 576 \<le> tc_MTU c \<and> tc_MTU c \<le> 65535 \<and> (\<forall>e \<in> set (tc_ExcludeIP c). isIPv4 e) \<and> (tc_ExcludeIP c \<noteq> [] \<longrightarrow> g \<noteq> []) \<and>
     (\<exists>gw q a nw. ParseIP (tc_Gateway c) = Some gw \<and> To4 gw = Some q \<and> ParseCIDR (tc_Subnet c) = Some (a, nw) \<and> netContains nw gw \<and>
        To4 a \<noteq> None \<and> te_newSubnet env (the (To4 a)) (net_Mask nw)) \<and> tw_open w'"
proof (cases rule: tunCreate_cases [of env cfg w])
  case (up n d' w2)
  then have d: "d' = d" "w2 = w'" using assms(3) by auto
  have f: "tc_ExcludeIP cfg \<noteq> [] \<longrightarrow> g \<noteq> []" "tw_open w'"
    using setupRoutes_effect [OF assms(1) up(6), of g] assms(2) d by (simp_all add: gatewayIs_def)
  from up(5) show ?thesis using f up(2) d
    by (auto simp: checkTun_def Let_def parseTunCIDR_def find_None_iff split: if_splits option.splits)
qed (use assms(3) in auto)

text \<open>
  A TCP flow of the host is opened to its own destination: for an address in the form that Go prints and a port other than 0, the core is
  asked to connect to exactly that address and port, and if it accepts, the tunnel starts with the bytes after its reply.
\<close>

theorem tun_flow_target:
  assumes "addrString a = IPString a" "length a = 4 \<or> length a = 16" "port = 256 * unat pa + unat (pb :: byte)" "1 \<le> port"
    "core_dial c" "core_write1 c" "core_write2 c"
    "core_sends c = [5, 0] @ [5, 0, rsv, 1] @ baddr @ [x, y] @ fromCore" "length baddr = 4"
  shows "handleTCP addrString c True a port =
     Some (Inr fromCore, [5, 1, 0] @ [5, 1, 0] @ (case To4 a of Some q \<Rightarrow> 1 # q | None \<Rightarrow> 4 # a) @ [pa, pb])"
proof -
  define atyp :: byte where "atyp = (if length a = 4 then 1 else 4)"
  have ok: "addr_ok atyp a" and host: "hostOf atyp a = IPString a"
    and core: "coreAddr atyp a = (case To4 a of Some q \<Rightarrow> 1 # q | None \<Rightarrow> 4 # a)"
    using assms(2) by (auto simp: addr_ok_def hostOf_def coreAddr_def atyp_def)
  have "socks5Request (JoinHostPort (IPString a) (Itoa (int port))) = Inr ([5, 1, 0] @ (case To4 a of Some q \<Rightarrow> 1 # q | None \<Rightarrow> 4 # a) @ [pa, pb])"
    using socks5Request_target [OF ok, of pa pb] assms(4) unfolding host core assms(3) by simp
  moreover have "readSocks5Reply ([5, 0, rsv, 1] @ baddr @ [x, y] @ fromCore) = Inr fromCore"
    using readSocks5Reply_exact [of 1 baddr rsv x y fromCore] assms(9) by (simp add: encAddr_def)
  ultimately show ?thesis using assms(1,5-8) by (simp add: handleTCP_def Dialer_def socks5Dial_def)
qed

theorem tun_flow_target_witness:
  "handleTCP IPString \<lparr>core_dial = True, core_write1 = True, core_write2 = True, core_sends = [5, 0, 5, 0, 0, 1, 0, 0, 0, 0, 0, 0, 42]\<rparr>
     True [93, 184, 216, 34] 443 = Some (Inr [42], [5, 1, 0, 5, 1, 0, 1, 93, 184, 216, 34, 1, 187])"
  using tun_flow_target [of IPString "[93, 184, 216, 34]" 443 1 187
      "\<lparr>core_dial = True, core_write1 = True, core_write2 = True, core_sends = [5, 0, 5, 0, 0, 1, 0, 0, 0, 0, 0, 0, 42]\<rparr>" 0 "[0, 0, 0, 0]" 0 0 "[42]"]
  by (simp add: To4_def)

text \<open>The packets that reach the stack are whole, in their order, and of the version they are announced with.\<close>

lemma inboundPacket_Some:
  assumes "inboundPacket buf sz = Some (p, k)"
  shows "0 < length p \<and> int (length p) = sz \<and> (\<exists>rest. buf = p @ rest) \<and> drop_bit 4 (p ! 0) = (case k of IPv4Packet \<Rightarrow> 4 | IPv6Packet \<Rightarrow> 6)"
  using assms by (auto simp: inboundPacket_def split: if_splits intro: append_take_drop_id [symmetric])

lemma pumpInbound_packets: "(p, k) \<in> set (pumpInbound rs) \<Longrightarrow> \<exists>ps b n. Some ps \<in> set rs \<and> (b, n) \<in> set ps \<and> inboundPacket b n = Some (p, k)"
  by (induction rs rule: pumpInbound.induct) (fastforce simp: map_filter_def)+

section \<open>Example\<close>

definition exampleTable :: string where
  "exampleTable = ''Active Routes:'' @ [CHR 0x0D, CHR 0x0A] @ ''  0.0.0.0   0.0.0.0   192.168.1.1   192.168.1.20   25'' @ [CHR 0x0D, CHR 0x0A]"

definition exampleSubnet :: "ip \<Rightarrow> byte list \<Rightarrow> bool" where
  "exampleSubnet a m \<longleftrightarrow> length a = length m \<and> map2 (AND) a m = a"

definition exampleTunEnv :: tunEnv where
  "exampleTunEnv = \<lparr>te_newSubnet = exampleSubnet, te_create = True, te_name = Some ''naivereal'',
     te_createNIC = True, te_addAddress = True, te_os = simpleOS, te_print = (\<lambda>_. Some exampleTable)\<rparr>"

definition exampleTun :: TUNConfig where
  "exampleTun = \<lparr>tun_Enabled = True, tun_Gateway = [], tun_Subnet = [], tun_MTU = 0, tun_DoH = [], tun_ExcludeIP = []\<rparr>"

definition exampleTunConfig :: tunConfig where
  "exampleTunConfig = \<lparr>tc_Gateway = [], tc_Subnet = [], tc_MTU = 0, tc_DoH = [], tc_ExcludeIP = [''203.0.113.5''], tc_Dial = True\<rparr>"

definition exampleWorld :: tunWorld where
  "exampleWorld = \<lparr>tw_routes = {(''0.0.0.0'', ''0.0.0.0'', ''192.168.1.1'')}, tw_ran = [], tw_open = False\<rparr>"

lemma exampleGateway: "physicalGateway (Some exampleTable) = ''192.168.1.1''"
  by code_simp

lemma exampleCheck: "checkTun exampleSubnet exampleTunConfig = Inr (tunDefaults exampleTunConfig)"
  by code_simp

lemma exampleConfigFor: "tunConfigFor (\<lambda>_. None) ''203.0.113.5'' exampleTun = Inr exampleTunConfig"
  by code_simp

lemma example_env:
  "routeProgram (te_os exampleTunEnv)" "gatewayIs exampleTunEnv ''192.168.1.1''" "foreign exampleTunConfig ''192.168.1.1'' (tw_routes exampleWorld)"
  "\<not> tw_open exampleWorld"
  by (simp_all add: exampleTunEnv_def routeProgram_simpleOS gatewayIs_def exampleGateway foreign_def exampleWorld_def hostMask_def)

lemma simpleOS_accepts: "fst (simpleOS (addRoute d m g) rs)" "fst (simpleOS (setAddress n g m) rs)"
  by (simp_all add: simpleOS_def addRoute_def setAddress_def)

lemma runUntilError_accepts: "\<forall>c \<in> set cs. \<forall>rs. fst (os c rs) \<Longrightarrow> fst (runUntilError os cs w) = None"
proof (induction cs arbitrary: w)
  case (Cons c cs)
  obtain ok w1 where r: "runCmd os c w = (ok, w1)" by fastforce
  have ok using Cons.prems runCmd_frame(3) [of os c w] by (simp add: r)
  then show ?case using Cons by (simp add: r)
qed simp

lemma example_created: "\<exists>d w'. tunCreate exampleTunEnv exampleTunConfig exampleWorld = (Inr d, w')"
proof -
  obtain r where r: "parseTunCIDR exampleSubnet (tc_Subnet (tunDefaults exampleTunConfig)) = Inr r"
    using exampleCheck by (auto simp: checkTun_def Let_def split: if_splits option.splits sum.splits)
  then obtain a nw where p: "ParseCIDR (tc_Subnet (tunDefaults exampleTunConfig)) = Some (a, nw)"
    by (auto simp: parseTunCIDR_def split: option.splits)
  have "fst (setupRoutes simpleOS (\<lambda>_. Some exampleTable) n (tunDefaults exampleTunConfig) w) = None" for n w
  proof -
    let ?c = "setAddress n (tc_Gateway (tunDefaults exampleTunConfig)) (IPString (net_Mask nw))"
    obtain ok w1 where run: "runCmd simpleOS ?c w = (ok, w1)" by fastforce
    have ok using simpleOS_accepts(2) runCmd_frame(3) [of simpleOS ?c w] by (simp add: run)
    then show ?thesis
      unfolding setupRoutes_def p option.case prod.case Let_def runUntilError.simps run exampleGateway halves_map
      using simpleOS_accepts(1) by (auto intro!: runUntilError_accepts simp del: runUntilError.simps)
  qed
  then show ?thesis
    by (simp add: tunCreate_def exampleTunEnv_def exampleCheck setupStack_def r split: prod.splits option.splits) (metis fst_conv option.distinct(1))
qed

theorem tun_created_valid_witness:
  "\<exists>d w'. tunCreate exampleTunEnv exampleTunConfig exampleWorld = (Inr d, w') \<and> tc_MTU (td_cfg d) \<le> 65535 \<and> tw_open w'"
  using example_created tun_created_valid [OF example_env(1,2)] by (metis (mono_tags, lifting))


theorem tun_routes_leak_witness:
  "\<exists>d w'. tunCreate exampleTunEnv exampleTunConfig exampleWorld = (Inr d, w') \<and>
     (''203.0.113.5'', hostMask, ''192.168.1.1'') \<in> tw_routes (snd (tunClose (exampleTunEnv\<lparr>te_print := \<lambda>_. None\<rparr>) d w'))"
proof -
  obtain d w' where c: "tunCreate exampleTunEnv exampleTunConfig exampleWorld = (Inr d, w')" using example_created by blast
  let ?e = "exampleTunEnv\<lparr>te_print := \<lambda>_. None\<rparr>"
  have "routeProgram (te_os ?e)" "gatewayIs ?e []" using example_env(1) by (simp_all add: gatewayIs_def physicalGateway_def)
  from tun_routes_leak [OF example_env(1,2) this _ c, of "''203.0.113.5''"] c show ?thesis by (auto simp: exampleTunConfig_def)
qed

lemma example_default_only: "(d, m, x) \<in> tw_routes exampleWorld \<Longrightarrow> m = ''0.0.0.0''"
  by (simp add: exampleWorld_def)

theorem tun_routing_witness:
  "\<exists>d w'. tunCreate exampleTunEnv exampleTunConfig exampleWorld = (Inr d, w') \<and> routedVia (tw_routes w') [1, 1, 1, 1] ''198.18.0.1''"
proof -
  obtain d w' where c: "tunCreate exampleTunEnv exampleTunConfig exampleWorld = (Inr d, w')" using example_created by blast
  have n: "parseIPv4 ''203.0.113.5'' \<noteq> Some [1, 1, 1, 1]" by code_simp
  from tun_routing [OF example_env(1,2) c, of "[1, 1, 1, 1]"] example_default_only n
  have "routedVia (tw_routes w') [1, 1, 1, 1] (tc_Gateway (tunDefaults exampleTunConfig))" by (auto simp: exampleTunConfig_def)
  then show ?thesis using c by (auto simp: tunDefaults_def exampleTunConfig_def)
qed

theorem tun_no_loop_witness:
  "\<exists>d w'. tunCreate exampleTunEnv exampleTunConfig exampleWorld = (Inr d, w') \<and> routedVia (tw_routes w') [203, 0, 113, 5] ''192.168.1.1''"
proof -
  obtain d w' where c: "tunCreate exampleTunEnv exampleTunConfig exampleWorld = (Inr d, w')" using example_created by blast
  have "ParseIP ''203.0.113.5'' = Some (v4InV6Prefix @ [203, 0, 113, 5])" by code_simp
  then have "serverAddress (\<lambda>_. None) ''203.0.113.5'' [203, 0, 113, 5]" by (simp add: serverAddress_def To4_def v4InV6Prefix_def)
  from tun_no_loop [OF exampleConfigFor this example_env(1,2) c] example_default_only c show ?thesis by blast
qed

end
