(* ===== verification/NetUrl.thy ===== *)
theory NetUrl
  imports NetAddr
begin

text \<open>
  The part of Go's \<^verbatim>\<open>net/url\<close> (release 1.26) that the share links and the core's configuration use: escaping, parsing of a URL into
  scheme, user, host, query and fragment, and printing.  The path is only checked: the program does not look at it.  The limit on the number
  of query parameters is left out.
\<close>

section \<open>Escaping\<close>

datatype urlMode = ModePath | ModeUser | ModeQuery | ModeFragment | ModeHost | ModeZone

definition isAlnum :: "char \<Rightarrow> bool" where
  "isAlnum c \<longleftrightarrow> (let n = (of_char c :: nat) in 48 \<le> n \<and> n \<le> 57 \<or> 65 \<le> n \<and> n \<le> 90 \<or> 97 \<le> n \<and> n \<le> 122)"

definition hostDelims :: string where
  "hostDelims = [CHR ''!'', CHR ''$'', CHR ''&'', CHR 0x27, CHR ''('', CHR '')'', CHR ''*'', CHR ''+'', CHR '','', CHR '';'', CHR ''='',
     CHR '':'', CHR ''['', CHR '']'', CHR ''<'', CHR ''>'', CHR 0x22]"

definition shouldEscape :: "urlMode \<Rightarrow> char \<Rightarrow> bool" where
  "shouldEscape m c =
     (if isAlnum c then False
      else if (m = ModeHost \<or> m = ModeZone) \<and> c \<in> set hostDelims then False
      else if c \<in> set ''-_.~'' then False
      else if c \<in> set ''$&+,/:;=?@'' \<and> m = ModePath then c = CHR ''?''
      else if c \<in> set ''$&+,/:;=?@'' \<and> m = ModeUser then c \<in> set ''@/?:''
      else if c \<in> set ''$&+,/:;=?@'' \<and> m = ModeFragment then False
      else \<not> (m = ModeFragment \<and> c \<in> set ''!()*''))"

definition upperHex :: "nat \<Rightarrow> char" where
  "upperHex d = (if d < 10 then char_of (48 + d) else char_of (55 + d))"

definition escapeChar :: "urlMode \<Rightarrow> char \<Rightarrow> string" where
  "escapeChar m c =
     (if c = CHR '' '' \<and> m = ModeQuery then ''+''
      else if shouldEscape m c then [CHR ''%'', upperHex (of_char c div 16), upperHex (of_char c mod 16)]
      else [c])"

definition escape :: "urlMode \<Rightarrow> string \<Rightarrow> string" where
  "escape m s = concat (map (escapeChar m) s)"

fun unescape :: "urlMode \<Rightarrow> string \<Rightarrow> string option" where
  "unescape m [] = Some []"
| "unescape m (c # s) =
     (if c = CHR ''%'' then
        (case s of
           a # b # r \<Rightarrow>
             (case (hexVal a, hexVal b) of
                (Some x, Some y) \<Rightarrow>
                  if m = ModeHost \<and> x < 8 \<and> [a, b] \<noteq> ''25'' then None
                  else if m = ModeZone \<and> [a, b] \<noteq> ''25'' \<and> char_of (16 * x + y) \<noteq> CHR '' '' \<and> shouldEscape ModeHost (char_of (16 * x + y)) then None
                  else map_option (Cons (char_of (16 * x + y))) (unescape m r)
              | _ \<Rightarrow> None)
         | _ \<Rightarrow> None)
      else if (m = ModeHost \<or> m = ModeZone) \<and> (of_char c :: nat) < 128 \<and> shouldEscape m c then None
      else map_option (Cons (if c = CHR ''+'' \<and> m = ModeQuery then CHR '' '' else c)) (unescape m s))"

section \<open>Parsing\<close>

record goURL =
  u_Scheme :: string
  u_User :: "(string \<times> string option) option"
  u_Host :: string
  u_RawQuery :: string
  u_Fragment :: string

definition cutAt :: "string \<Rightarrow> char \<Rightarrow> string \<times> string" where
  "cutAt s c = (case Cut s c of Some p \<Rightarrow> p | None \<Rightarrow> (s, []))"

definition validOptionalPort :: "string \<Rightarrow> bool" where
  "validOptionalPort p \<longleftrightarrow> p = [] \<or> hd p = CHR '':'' \<and> list_all isDigit (tl p)"

text \<open>The text before and from the first \<^verbatim>\<open>%25\<close>.\<close>

fun splitZone :: "string \<Rightarrow> string \<times> string" where
  "splitZone [] = ([], [])"
| "splitZone (c # s) = (if take 3 (c # s) = ''%25'' then ([], c # s) else (case splitZone s of (a, z) \<Rightarrow> (c # a, z)))"

text \<open>What \<^verbatim>\<open>netip.ParseAddr\<close> takes for an IPv6 address, with or without a zone.\<close>

definition ipv6Literal :: "string \<Rightarrow> bool" where
  "ipv6Literal s \<longleftrightarrow>
     find (\<lambda>c. c = CHR ''.'' \<or> c = CHR '':'' \<or> c = CHR ''%'') s = Some CHR '':'' \<and>
     (case Cut s CHR ''%'' of None \<Rightarrow> parseIPv6 s \<noteq> None | Some (a, z) \<Rightarrow> z \<noteq> [] \<and> parseIPv6 a \<noteq> None)"

definition parseHost :: "string \<Rightarrow> string option" where
  "parseHost h =
     (case lastIndexByte CHR ''['' h of
        Some j \<Rightarrow>
          if j \<noteq> 0 then None
          else (case lastIndexByte CHR '']'' h of
            None \<Rightarrow> None
          | Some k \<Rightarrow>
              if \<not> validOptionalPort (drop (k + 1) h) then None
              else (case unescape ModeHost (drop (k + 1) h) of
                None \<Rightarrow> None
              | Some port \<Rightarrow>
                  (case splitZone (drop 1 (take k h)) of (a, z) \<Rightarrow>
                     (case unescape ModeHost a of
                        None \<Rightarrow> None
                      | Some a' \<Rightarrow>
                          (case unescape ModeZone z of
                             None \<Rightarrow> None
                           | Some z' \<Rightarrow> if ipv6Literal (a' @ z') then Some (''['' @ a' @ z' @ '']'' @ port) else None)))))
      | None \<Rightarrow>
          (case Cut h CHR '':'' of
             Some (_, port) \<Rightarrow> if list_all isDigit port then unescape ModeHost h else None
           | None \<Rightarrow> unescape ModeHost h))"

definition validUserinfo :: "string \<Rightarrow> bool" where
  "validUserinfo s \<longleftrightarrow> list_all (\<lambda>c. isAlnum c \<or> c \<in> set (CHR 0x27 # ''-._:~!$&()*+,;=%@'')) s"

definition parseAuthority :: "string \<Rightarrow> ((string \<times> string option) option \<times> string) option" where
  "parseAuthority a =
     (case lastIndexByte CHR ''@'' a of
        None \<Rightarrow> map_option (\<lambda>h. (None, h)) (parseHost a)
      | Some i \<Rightarrow>
          (case parseHost (drop (i + 1) a) of
             None \<Rightarrow> None
           | Some h \<Rightarrow>
               let ui = take i a in
               if \<not> validUserinfo ui then None
               else (case Cut ui CHR '':'' of
                 None \<Rightarrow> map_option (\<lambda>u. (Some (u, None), h)) (unescape ModeUser ui)
               | Some (u, p) \<Rightarrow>
                   (case (unescape ModeUser u, unescape ModeUser p) of
                      (Some u', Some p') \<Rightarrow> Some (Some (u', Some p'), h)
                    | _ \<Rightarrow> None))))"

definition schemeChar :: "char \<Rightarrow> bool" where
  "schemeChar c \<longleftrightarrow> isAlnum c \<or> c \<in> set ''+-.''"

definition getScheme :: "string \<Rightarrow> (string \<times> string) option" where
  "getScheme s =
     (if s \<noteq> [] \<and> (isDigit (hd s) \<or> hd s \<in> set ''+-.'') then Some ([], s)
      else case dropWhile schemeChar s of
        [] \<Rightarrow> Some ([], s)
      | c # r \<Rightarrow> if c \<noteq> CHR '':'' then Some ([], s) else if takeWhile schemeChar s = [] then None else Some (takeWhile schemeChar s, r))"

definition ctlByte :: "char \<Rightarrow> bool" where
  "ctlByte c \<longleftrightarrow> (of_char c :: nat) < 32 \<or> (of_char c :: nat) = 127"

text \<open>The part after the scheme and before the query: an authority and a path, an opaque text, or a path.\<close>

definition parseRest :: "string \<Rightarrow> string \<Rightarrow> string \<Rightarrow> goURL option" where
  "parseRest scheme rest query =
     (let u = \<lparr>u_Scheme = scheme, u_User = None, u_Host = [], u_RawQuery = query, u_Fragment = []\<rparr> in
      if \<not> HasPrefix rest ''/'' \<and> scheme \<noteq> [] then Some u
      else if \<not> HasPrefix rest ''/'' \<and> CHR '':'' \<in> set (fst (cutAt rest CHR ''/'')) then None
      else if (scheme \<noteq> [] \<or> \<not> HasPrefix rest ''///'') \<and> HasPrefix rest ''//'' then
        (let authority = takeWhile (\<lambda>c. c \<noteq> CHR ''/'') (drop 2 rest); path = dropWhile (\<lambda>c. c \<noteq> CHR ''/'') (drop 2 rest) in
         case parseAuthority authority of
           None \<Rightarrow> None
         | Some (user, host) \<Rightarrow> if unescape ModePath path = None then None else Some (u\<lparr>u_User := user, u_Host := host\<rparr>))
      else if unescape ModePath rest = None then None else Some u)"

definition parseURL :: "string \<Rightarrow> goURL option" where
  "parseURL raw =
     (if list_ex ctlByte raw then None
      else if raw = ''*'' then Some \<lparr>u_Scheme = [], u_User = None, u_Host = [], u_RawQuery = [], u_Fragment = []\<rparr>
      else case getScheme raw of
        None \<Rightarrow> None
      | Some (scheme, rest) \<Rightarrow>
          if rest \<noteq> [] \<and> last rest = CHR ''?'' \<and> CHR ''?'' \<notin> set (butlast rest) then parseRest (ToLower scheme) (butlast rest) []
          else (case cutAt rest CHR ''?'' of (r, q) \<Rightarrow> parseRest (ToLower scheme) r q))"

definition urlParse :: "string \<Rightarrow> goURL option" where
  "urlParse raw =
     (case cutAt raw CHR ''#'' of (u, frag) \<Rightarrow>
        (case parseURL u of
           None \<Rightarrow> None
         | Some url \<Rightarrow> if frag = [] then Some url else map_option (\<lambda>f. url\<lparr>u_Fragment := f\<rparr>) (unescape ModeFragment frag)))"

text \<open>\<^verbatim>\<open>Hostname\<close> and \<^verbatim>\<open>Port\<close>.\<close>

definition urlHostPort :: "string \<Rightarrow> string \<times> string" where
  "urlHostPort hp =
     (let (host, port) =
        (case lastIndexByte CHR '':'' hp of
           Some i \<Rightarrow> if validOptionalPort (drop i hp) then (take i hp, drop (i + 1) hp) else (hp, [])
         | None \<Rightarrow> (hp, [])) in
      (if host \<noteq> [] \<and> hd host = CHR ''['' \<and> last host = CHR '']'' then drop 1 (butlast host) else host, port))"

section \<open>Queries\<close>

definition queryPair :: "string \<Rightarrow> (string \<times> string) option" where
  "queryPair piece =
     (if CHR '';'' \<in> set piece \<or> piece = [] then None
      else case cutAt piece CHR ''='' of (k, v) \<Rightarrow>
        (case (unescape ModeQuery k, unescape ModeQuery v) of (Some k', Some v') \<Rightarrow> Some (k', v') | _ \<Rightarrow> None))"

definition urlQuery :: "string \<Rightarrow> (string \<times> string) list" where
  "urlQuery q = List.map_filter queryPair (splitOn CHR ''&'' q)"

definition queryGet :: "string \<Rightarrow> (string \<times> string) list \<Rightarrow> string" where
  "queryGet k vs = (case map_of vs k of Some v \<Rightarrow> v | None \<Rightarrow> [])"

text \<open>\<^verbatim>\<open>Values.Encode\<close>, of values with one entry for each key.\<close>

fun byteLess :: "string \<Rightarrow> string \<Rightarrow> bool" where
  "byteLess s [] \<longleftrightarrow> False"
| "byteLess [] (d # t) \<longleftrightarrow> True"
| "byteLess (c # s) (d # t) \<longleftrightarrow> (of_char c :: nat) < of_char d \<or> c = d \<and> byteLess s t"

fun insertKey :: "string \<times> string \<Rightarrow> (string \<times> string) list \<Rightarrow> (string \<times> string) list" where
  "insertKey p [] = [p]"
| "insertKey p (q # vs) = (if byteLess (fst q) (fst p) then q # insertKey p vs else p # q # vs)"

definition encodeValues :: "(string \<times> string) list \<Rightarrow> string" where
  "encodeValues vs = joinWith ''&'' (map (\<lambda>(k, v). escape ModeQuery k @ ''='' @ escape ModeQuery v) (foldr insertKey vs []))"

section \<open>Printing\<close>

text \<open>\<^verbatim>\<open>URL.String\<close>, for a URL with a scheme, a host and no path.\<close>

definition userString :: "(string \<times> string option) option \<Rightarrow> string" where
  "userString u =
     (case u of
        None \<Rightarrow> []
      | Some (n, p) \<Rightarrow> escape ModeUser n @ (case p of None \<Rightarrow> [] | Some w \<Rightarrow> '':'' @ escape ModeUser w) @ ''@'')"

definition urlString :: "goURL \<Rightarrow> string" where
  "urlString u =
     u_Scheme u @ ''://'' @ userString (u_User u) @ escape ModeHost (u_Host u) @
     (if u_RawQuery u \<noteq> [] then ''?'' @ u_RawQuery u else []) @
     (if u_Fragment u \<noteq> [] then ''#'' @ escape ModeFragment (u_Fragment u) else [])"

section \<open>Unescaping undoes escaping\<close>

lemma hexVal_upperHex: "d < 16 \<Longrightarrow> hexVal (upperHex d) = Some d"
  by (auto simp: hexVal_def upperHex_def Let_def)

text \<open>In a host only bytes outside ASCII may be escaped.\<close>

definition escapable :: "urlMode \<Rightarrow> char \<Rightarrow> bool" where
  "escapable m c \<longleftrightarrow> m \<in> {ModeUser, ModeQuery, ModeFragment} \<or> m = ModeHost \<and> (128 \<le> (of_char c :: nat) \<or> \<not> shouldEscape ModeHost c)"

lemma percent_escaped: "shouldEscape m CHR ''%''"
  by (cases m) (simp_all add: shouldEscape_def isAlnum_def hostDelims_def)

lemma plus_query: "shouldEscape ModeQuery CHR ''+''"
  by (simp add: shouldEscape_def isAlnum_def)

lemma nibbles: "(of_char c :: nat) div 16 < 16" "(of_char c :: nat) mod 16 < 16"
proof -
  have "(of_char c :: nat) < 16 * 16" using of_char_less [of c] by simp
  then show "(of_char c :: nat) div 16 < 16" by (rule less_mult_imp_div_less)
qed simp

lemma unescape_escapeChar:
  assumes "escapable m c"
  shows "unescape m (escapeChar m c @ t) = map_option (Cons c) (unescape m t)"
proof (cases "shouldEscape m c")
  case True
  let ?n = "of_char c :: nat"
  have whole: "char_of (16 * (?n div 16) + ?n mod 16) = c" by simp
  have "m = ModeHost \<Longrightarrow> 8 \<le> ?n div 16" using assms True by (auto simp: escapable_def)
  moreover have "m \<noteq> ModeZone" using assms by (auto simp: escapable_def)
  ultimately have "unescape m ([CHR ''%'', upperHex (?n div 16), upperHex (?n mod 16)] @ t) = map_option (Cons c) (unescape m t)"
    using hexVal_upperHex [OF nibbles(1) [of c]] hexVal_upperHex [OF nibbles(2) [of c]] whole by auto
  then show ?thesis using True by (auto simp: escapeChar_def)
next
  case False
  then have "c \<noteq> CHR ''%''" "m = ModeQuery \<Longrightarrow> c \<noteq> CHR ''+''" using percent_escaped plus_query by auto
  moreover have "escapeChar m c = [c]" using False by (auto simp: escapeChar_def shouldEscape_def isAlnum_def)
  ultimately show ?thesis using False by (auto split: if_splits)
qed

lemma unescape_escape_append:
  "\<forall>c \<in> set s. escapable m c \<Longrightarrow> unescape m (escape m s @ t) = map_option (\<lambda>r. s @ r) (unescape m t)"
proof (induction s)
  case (Cons c s)
  then have "unescape m (escape m (c # s) @ t) = map_option (Cons c) (map_option (\<lambda>r. s @ r) (unescape m t))"
    by (simp add: escape_def unescape_escapeChar)
  then show ?case by (simp add: option.map_comp comp_def)
qed (cases "unescape m t"; simp add: escape_def)

lemma unescape_escape: "\<forall>c \<in> set s. escapable m c \<Longrightarrow> unescape m (escape m s) = Some s"
  using unescape_escape_append [of s m "[]"] by simp

interpretation url: encoding "escape m" "unescape m" "\<lambda>s. \<forall>c \<in> set s. escapable m c" for m
  by unfold_locales (rule unescape_escape)

lemma unescape_escape_free: "m \<in> {ModeUser, ModeQuery, ModeFragment} \<Longrightarrow> unescape m (escape m s) = Some s"
  by (rule url.dec_enc) (auto simp: escapable_def)

text \<open>The characters of escaped text.\<close>

lemma upperHex_alnum: "d < 16 \<Longrightarrow> isAlnum (upperHex d)"
  by (auto simp: isAlnum_def upperHex_def Let_def)

lemma escapeChar_chars:
  "x \<in> set (escapeChar m c) \<Longrightarrow> isAlnum x \<or> x = CHR ''%'' \<or> m = ModeQuery \<and> x = CHR ''+'' \<or> \<not> shouldEscape m x"
  using upperHex_alnum [OF nibbles(1) [of c]] upperHex_alnum [OF nibbles(2) [of c]] by (auto simp: escapeChar_def split: if_splits)

lemma escape_chars: "c \<in> set (escape m s) \<Longrightarrow> isAlnum c \<or> c = CHR ''%'' \<or> m = ModeQuery \<and> c = CHR ''+'' \<or> \<not> shouldEscape m c"
  using escapeChar_chars by (auto simp: escape_def)

text \<open>Printable ASCII, as all of it is.\<close>

definition plainChar :: "char \<Rightarrow> bool" where
  "plainChar c \<longleftrightarrow> 32 < (of_char c :: nat) \<and> (of_char c :: nat) < 127"

lemma alnum_plain: "isAlnum c \<Longrightarrow> plainChar c"
  by (auto simp: isAlnum_def plainChar_def Let_def)

lemma delims_plain: "c \<in> set hostDelims \<Longrightarrow> plainChar c" "c \<in> set ''-_.~'' \<Longrightarrow> plainChar c" "c \<in> set ''$&+,/:;=?@'' \<Longrightarrow> plainChar c"
  "c \<in> set ''!()*'' \<Longrightarrow> plainChar c"
proof -
  have "list_all plainChar (hostDelims @ ''-_.~'' @ ''$&+,/:;=?@'' @ ''!()*'')" by code_simp
  then have "\<forall>c \<in> set hostDelims \<union> set ''-_.~'' \<union> set ''$&+,/:;=?@'' \<union> set ''!()*''. plainChar c" by (simp only: list_all_iff set_append Un_assoc)
  then show "c \<in> set hostDelims \<Longrightarrow> plainChar c" "c \<in> set ''-_.~'' \<Longrightarrow> plainChar c" "c \<in> set ''$&+,/:;=?@'' \<Longrightarrow> plainChar c"
    "c \<in> set ''!()*'' \<Longrightarrow> plainChar c" by blast+
qed

lemma kept_plain: "\<not> shouldEscape m c \<Longrightarrow> plainChar c"
  unfolding shouldEscape_def by (simp only: split: if_split_asm) (use alnum_plain delims_plain in blast)+

lemma escape_plain: "c \<in> set (escape m s) \<Longrightarrow> plainChar c"
  using escape_chars [of c m s] alnum_plain kept_plain by (auto simp: plainChar_def)

text \<open>The delimiters that escaped text does not have.\<close>

lemma delims_escaped:
  "shouldEscape m CHR ''#''" "m \<in> {ModeUser, ModeHost, ModeQuery} \<Longrightarrow> shouldEscape m CHR ''/''"
  "m \<in> {ModeUser, ModeHost, ModeQuery} \<Longrightarrow> shouldEscape m CHR ''?''" "m \<in> {ModeUser, ModeHost, ModeQuery} \<Longrightarrow> shouldEscape m CHR ''@''"
  "m \<in> {ModeUser, ModeQuery} \<Longrightarrow> shouldEscape m CHR '':''"
  "shouldEscape ModeQuery CHR ''&''" "shouldEscape ModeQuery CHR ''=''" "shouldEscape ModeQuery CHR '';''"
  by (cases m; simp add: shouldEscape_def isAlnum_def hostDelims_def)+

lemma escape_no:
  assumes "shouldEscape m c" "\<not> isAlnum c" "c \<notin> {CHR ''%'', CHR ''+''}"
  shows "c \<notin> set (escape m s)"
  using escape_chars [of c m s] assms by auto

lemma not_alnum: "\<not> isAlnum CHR ''#''" "\<not> isAlnum CHR ''/''" "\<not> isAlnum CHR ''?''" "\<not> isAlnum CHR ''@''" "\<not> isAlnum CHR '':''"
  "\<not> isAlnum CHR ''&''" "\<not> isAlnum CHR ''=''" "\<not> isAlnum CHR '';''"
  by (simp_all add: isAlnum_def)

lemma escape_free:
  "CHR ''#'' \<notin> set (escape m s)"
  "m \<in> {ModeUser, ModeHost, ModeQuery} \<Longrightarrow> CHR ''/'' \<notin> set (escape m s)" "m \<in> {ModeUser, ModeHost, ModeQuery} \<Longrightarrow> CHR ''?'' \<notin> set (escape m s)"
  "m \<in> {ModeUser, ModeHost, ModeQuery} \<Longrightarrow> CHR ''@'' \<notin> set (escape m s)" "m \<in> {ModeUser, ModeQuery} \<Longrightarrow> CHR '':'' \<notin> set (escape m s)"
  "CHR ''&'' \<notin> set (escape ModeQuery s)" "CHR ''='' \<notin> set (escape ModeQuery s)" "CHR '';'' \<notin> set (escape ModeQuery s)"
  by (intro escape_no delims_escaped not_alnum; simp)+

text \<open>No white space is cut off printable text.\<close>

lemma plain_no_space: "plainChar c \<Longrightarrow> \<not> asciiSpace c \<and> c \<notin> {CHR 0xC2, CHR 0xE1, CHR 0xE2, CHR 0xE3, CHR 0x85, CHR 0xA0}"
  by (auto simp: plainChar_def asciiSpace_def)

lemma TrimSpace_plain:
  assumes "\<forall>c \<in> set s. plainChar c"
  shows "TrimSpace s = s"
proof -
  have sp: "\<exists>c \<in> set w. \<not> plainChar c" if "w \<in> set space2 \<or> w \<in> set space3" for w
    using that by (auto simp: space2_def space3_def plainChar_def)
  have no: "take k s \<notin> set space2 \<and> take k s \<notin> set space3 \<and> drop k s \<notin> set space2 \<and> drop k s \<notin> set space3" for k
    using assms sp [of "take k s"] sp [of "drop k s"] by (meson in_set_dropD in_set_takeD)
  have "s \<noteq> [] \<Longrightarrow> \<not> asciiSpace (hd s) \<and> \<not> asciiSpace (last s)" using assms plain_no_space by simp
  then have "spacePrefix s = 0" "spaceSuffix s = 0" using no by (auto simp: spacePrefix_def spaceSuffix_def)
  then show ?thesis by (simp add: TrimSpace_def trimLeft.simps [of s] trimRight.simps [of s])
qed

section \<open>Parsing undoes printing\<close>

lemma kept_user: "\<not> shouldEscape ModeUser c \<Longrightarrow> isAlnum c \<or> c \<in> set (CHR 0x27 # ''-._:~!$&()*+,;=%@'')"
  unfolding shouldEscape_def by (simp only: split: if_split_asm) auto

lemma escape_validUserinfo: "list_all (\<lambda>c. isAlnum c \<or> c \<in> set (CHR 0x27 # ''-._:~!$&()*+,;=%@'')) (escape ModeUser s)"
  unfolding list_all_iff
proof
  fix c
  assume "c \<in> set (escape ModeUser s)"
  then consider "isAlnum c" | "c = CHR ''%''" | "\<not> shouldEscape ModeUser c" using escape_chars by blast
  then show "isAlnum c \<or> c \<in> set (CHR 0x27 # ''-._:~!$&()*+,;=%@'')" using kept_user by cases auto
qed

lemma parseAuthority_print:
  assumes "parseHost (escape ModeHost h) = Some h" "user = None \<or> (\<exists>n p. user = Some (n, Some p))"
  shows "parseAuthority (userString user @ escape ModeHost h) = Some (user, h)"
proof (cases "user = None")
  case True
  have "lastIndexByte CHR ''@'' (escape ModeHost h) = None" by (simp add: escape_free)
  then show ?thesis using assms(1) True by (simp add: parseAuthority_def userString_def del: lastIndexByte_None)
next
  case False
  then obtain n p where user: "user = Some (n, Some p)" using assms(2) by blast
  let ?u = "escape ModeUser n" and ?p = "escape ModeUser p" and ?h = "escape ModeHost h"
  let ?ui = "?u @ '':'' @ ?p"
  have a: "userString user @ ?h = ?ui @ CHR ''@'' # ?h" by (simp add: userString_def user)
  have i: "lastIndexByte CHR ''@'' (?ui @ CHR ''@'' # ?h) = Some (length ?ui)" by (rule lastIndexByte_append) (simp add: escape_free)
  have v: "validUserinfo ?ui" using escape_validUserinfo [of n] escape_validUserinfo [of p] by (simp add: validUserinfo_def)
  have c: "Cut ?ui CHR '':'' = Some (?u, ?p)" using Cut_append [of "CHR '':''" ?u ?p] by (simp add: escape_free)
  have d: "drop (length ?ui + 1) (?ui @ CHR ''@'' # ?h) = ?h" "take (length ?ui) (?ui @ CHR ''@'' # ?h) = ?ui" by simp_all
  show ?thesis unfolding a parseAuthority_def i option.case d assms(1) Let_def
    using v c by (simp add: user unescape_escape_free)
qed

lemma cutAt_append: "c \<notin> set a \<Longrightarrow> cutAt (a @ c # b) c = (a, b)"
  by (simp add: cutAt_def Cut_append)

lemma Cut_none: "c \<notin> set a \<Longrightarrow> Cut a c = None"
  by (simp add: Cut_def)

lemma cutAt_none: "c \<notin> set a \<Longrightarrow> cutAt a c = (a, [])"
  by (simp add: cutAt_def Cut_none)

definition goodScheme :: "string \<Rightarrow> bool" where
  "goodScheme s \<longleftrightarrow> s \<noteq> [] \<and> list_all schemeChar s \<and> list_all plainChar s \<and> \<not> isDigit (hd s) \<and> hd s \<notin> set ''+-.'' \<and> ToLower s = s"

lemma getScheme_good:
  assumes "goodScheme s"
  shows "getScheme (s @ CHR '':'' # r) = Some (s, r)"
proof -
  have c: "\<not> schemeChar CHR '':''" by (simp add: schemeChar_def isAlnum_def)
  have w: "takeWhile schemeChar (s @ CHR '':'' # r) = s" "dropWhile schemeChar (s @ CHR '':'' # r) = CHR '':'' # r"
    using assms c by (simp_all add: goodScheme_def list_all_iff takeWhile_append2 dropWhile_append2)
  show ?thesis using assms by (simp add: getScheme_def w goodScheme_def)
qed

lemma parseRest_authority:
  assumes "CHR ''/'' \<notin> set a" "parseAuthority a = Some (user, h)" "scheme \<noteq> []"
  shows "parseRest scheme (''//'' @ a) q = Some \<lparr>u_Scheme = scheme, u_User = user, u_Host = h, u_RawQuery = q, u_Fragment = []\<rparr>"
proof -
  have w: "takeWhile (\<lambda>c. c \<noteq> CHR ''/'') a = a" "dropWhile (\<lambda>c. c \<noteq> CHR ''/'') a = []" using assms(1) by auto
  show ?thesis using assms(2,3) by (simp add: parseRest_def Let_def HasPrefix_def w)
qed

lemma parseRest_print:
  assumes "parseHost (escape ModeHost h) = Some h" "user = None \<or> (\<exists>n p. user = Some (n, Some p))" "scheme \<noteq> []"
  shows "parseRest scheme (''//'' @ userString user @ escape ModeHost h) q =
     Some \<lparr>u_Scheme = scheme, u_User = user, u_Host = h, u_RawQuery = q, u_Fragment = []\<rparr>"
  using escape_free(2) [of ModeUser] escape_free(2) [of ModeHost h]
  by (intro parseRest_authority parseAuthority_print assms) (auto simp: userString_def split: option.splits)

lemma plain_not_ctl: "plainChar c \<Longrightarrow> \<not> ctlByte c"
  by (auto simp: ctlByte_def plainChar_def)

lemma last_not: "c \<notin> set r \<Longrightarrow> r \<noteq> [] \<Longrightarrow> last r \<noteq> c"
  by (auto dest: last_in_set)

lemma parseURL_parts:
  assumes "goodScheme scheme" "\<not> list_ex ctlByte (scheme @ CHR '':'' # rest)"
    "\<not> (rest \<noteq> [] \<and> last rest = CHR ''?'' \<and> CHR ''?'' \<notin> set (butlast rest))" "cutAt rest CHR ''?'' = (r, q)"
  shows "parseURL (scheme @ CHR '':'' # rest) = parseRest scheme r q"
proof -
  have "scheme @ CHR '':'' # rest \<noteq> ''*''" using assms(1) by (cases scheme) (auto simp: goodScheme_def)
  moreover have "ToLower scheme = scheme" using assms(1) by (simp add: goodScheme_def)
  ultimately show ?thesis using assms(2-4) getScheme_good [OF assms(1), of rest] unfolding parseURL_def by (simp only: if_False option.case prod.case)
qed

lemma parseURL_print:
  assumes "goodScheme scheme" "parseHost (escape ModeHost h) = Some h" "user = None \<or> (\<exists>n p. user = Some (n, Some p))" "\<forall>c \<in> set q. plainChar c"
  shows "parseURL (scheme @ ''://'' @ userString user @ escape ModeHost h @ (if q \<noteq> [] then ''?'' @ q else [])) =
     Some \<lparr>u_Scheme = scheme, u_User = user, u_Host = h, u_RawQuery = q, u_Fragment = []\<rparr>" (is "parseURL ?raw = Some ?url")
proof -
  let ?r = "''//'' @ userString user @ escape ModeHost h"
  let ?rest = "?r @ (if q \<noteq> [] then ''?'' @ q else [])"
  have raw: "?raw = scheme @ CHR '':'' # ?rest" by simp
  have plain: "\<forall>c \<in> set ?raw. plainChar c"
    using assms(1,4) escape_plain by (fastforce simp: goodScheme_def list_all_iff userString_def plainChar_def split: option.splits)
  then have ctl: "\<not> list_ex ctlByte ?raw" unfolding list_ex_iff using plain_not_ctl by blast
  have no: "CHR ''?'' \<notin> set ?r"
    using escape_free(3) [of ModeUser] escape_free(3) [of ModeHost h] by (auto simp: userString_def split: option.splits)
  have sch: "scheme \<noteq> []" using assms(1) by (simp add: goodScheme_def)
  have force: "\<not> (?rest \<noteq> [] \<and> last ?rest = CHR ''?'' \<and> CHR ''?'' \<notin> set (butlast ?rest))"
  proof (cases "q = []")
    case True
    then have r: "?rest = ?r" by simp
    show ?thesis unfolding r using last_not [OF no] by blast
  next
    case False
    then have "CHR ''?'' \<in> set (butlast ?rest)" by (simp add: butlast_append)
    then show ?thesis by blast
  qed
  have cut: "cutAt ?rest CHR ''?'' = (?r, q)" using cutAt_append [OF no, of q] cutAt_none [OF no] by auto
  show ?thesis unfolding raw parseURL_parts [OF assms(1) ctl [unfolded raw] force cut] by (rule parseRest_print [OF assms(2,3) sch])
qed

text \<open>Parsing a printed URL gives it back, for a host that parses back.\<close>

lemma urlParse_urlString:
  assumes "goodScheme (u_Scheme u)" "parseHost (escape ModeHost (u_Host u)) = Some (u_Host u)"
    "u_User u = None \<or> (\<exists>n p. u_User u = Some (n, Some p))" "\<forall>c \<in> set (u_RawQuery u). plainChar c \<and> c \<noteq> CHR ''#''"
  shows "urlParse (urlString u) = Some u"
proof -
  let ?b = "u_Scheme u @ ''://'' @ userString (u_User u) @ escape ModeHost (u_Host u) @ (if u_RawQuery u \<noteq> [] then ''?'' @ u_RawQuery u else [])"
  have s: "urlString u = ?b @ (if u_Fragment u \<noteq> [] then CHR ''#'' # escape ModeFragment (u_Fragment u) else [])"
    by (simp add: urlString_def)
  have "CHR ''#'' \<notin> set (u_Scheme u)" using assms(1) by (auto simp: goodScheme_def list_all_iff schemeChar_def isAlnum_def)
  then have no: "CHR ''#'' \<notin> set ?b" using assms(4) escape_free(1) by (auto simp: userString_def split: option.splits)
  have "parseURL ?b = Some \<lparr>u_Scheme = u_Scheme u, u_User = u_User u, u_Host = u_Host u, u_RawQuery = u_RawQuery u, u_Fragment = []\<rparr>"
    by (rule parseURL_print [OF assms(1-3)]) (use assms(4) in blast)
  moreover have "escape ModeFragment (u_Fragment u) = [] \<Longrightarrow> u_Fragment u = []"
    using unescape_escape_free [of ModeFragment "u_Fragment u"] by simp
  ultimately show ?thesis unfolding s urlParse_def
    using cutAt_append [OF no] cutAt_none [OF no] unescape_escape_free [of ModeFragment "u_Fragment u"]
    by (cases "u_Fragment u = []") auto
qed

section \<open>Hosts\<close>

text \<open>A host name: no delimiter of a port or an address literal, and nothing that a host must not contain.\<close>

definition nameHost :: "string \<Rightarrow> bool" where
  "nameHost h \<longleftrightarrow> h \<noteq> [] \<and> list_all (\<lambda>c. (128 \<le> (of_char c :: nat) \<or> \<not> shouldEscape ModeHost c) \<and> c \<notin> {CHR '':'', CHR ''['', CHR '']''}) h"

text \<open>An IPv6 address without a zone.\<close>

definition v6Host :: "string \<Rightarrow> bool" where
  "v6Host h \<longleftrightarrow> list_all (\<lambda>c. isHex c \<or> c = CHR '':'' \<or> c = CHR ''.'') h \<and> ipv6Literal h"

text \<open>The host of a URL for a server and, if given, a port.\<close>

definition urlHost :: "string \<Rightarrow> string option \<Rightarrow> string" where
  "urlHost h port =
     (if CHR '':'' \<in> set h then ''['' @ h @ '']'' else h) @ (case port of None \<Rightarrow> [] | Some p \<Rightarrow> '':'' @ p)"

lemma escape_origin: "c \<in> set (escape ModeHost s) \<Longrightarrow> c \<in> set s \<or> isAlnum c \<or> c = CHR ''%''"
  using upperHex_alnum nibbles by (auto simp: escape_def escapeChar_def split: if_splits)

lemma escape_append: "escape m (s @ t) = escape m s @ escape m t"
  by (simp add: escape_def)

lemma escape_kept: "\<forall>c \<in> set s. \<not> shouldEscape m c \<Longrightarrow> m \<noteq> ModeQuery \<Longrightarrow> escape m s = s"
  by (induction s) (auto simp: escape_def escapeChar_def)

lemma digit_alnum: "isDigit c \<Longrightarrow> isAlnum c"
  by (auto simp: isDigit_def isAlnum_def Let_def)

lemma hex_alnum: "isHex c \<Longrightarrow> isAlnum c"
  by (auto simp: isHex_def hexVal_def isAlnum_def Let_def split: if_splits)

lemma alnum_kept: "isAlnum c \<Longrightarrow> \<not> shouldEscape m c"
  by (simp add: shouldEscape_def)

lemma host_kept: "\<not> shouldEscape ModeHost CHR '':''" "\<not> shouldEscape ModeHost CHR ''.''" "\<not> shouldEscape ModeHost CHR ''[''" "\<not> shouldEscape ModeHost CHR '']''"
  by (simp_all add: shouldEscape_def hostDelims_def isAlnum_def)

lemma not_digit_alnum: "\<not> isAlnum CHR ''[''" "\<not> isAlnum CHR '']''"
  by (simp_all add: isAlnum_def)

lemma parseHost_plain:
  assumes "CHR ''['' \<notin> set x"
  shows "parseHost x = (if (case Cut x CHR '':'' of Some (_, port) \<Rightarrow> list_all isDigit port | None \<Rightarrow> True) then unescape ModeHost x else None)"
proof -
  have "lastIndexByte CHR ''['' x = None" using assms by simp
  then show ?thesis by (simp add: parseHost_def del: lastIndexByte_None split: option.split)
qed

lemma urlHostPort_plain:
  assumes "h \<noteq> []" "hd h \<noteq> CHR ''[''"
  shows "CHR '':'' \<notin> set h \<Longrightarrow> urlHostPort h = (h, [])"
    "CHR '':'' \<notin> set p \<Longrightarrow> list_all isDigit p \<Longrightarrow> urlHostPort (h @ CHR '':'' # p) = (h, p)"
proof -
  assume "CHR '':'' \<notin> set h"
  then have "lastIndexByte CHR '':'' h = None" by simp
  then show "urlHostPort h = (h, [])" using assms by (simp add: urlHostPort_def del: lastIndexByte_None)
next
  assume "CHR '':'' \<notin> set p" "list_all isDigit p"
  then show "urlHostPort (h @ CHR '':'' # p) = (h, p)"
    using assms lastIndexByte_append [of "CHR '':''" p h] by (simp add: urlHostPort_def validOptionalPort_def)
qed

lemma parseHost_name:
  assumes "nameHost h" "port = None \<or> (\<exists>p. port = Some p \<and> list_all isDigit p)"
  shows "parseHost (escape ModeHost (urlHost h port)) = Some (urlHost h port)" "urlHostPort (urlHost h port) = (h, case port of None \<Rightarrow> [] | Some p \<Rightarrow> p)"
proof -
  let ?s = "case port of None \<Rightarrow> [] | Some p \<Rightarrow> '':'' @ p"
  have h: "CHR '':'' \<notin> set h" "CHR ''['' \<notin> set h" "CHR '']'' \<notin> set h" "h \<noteq> []" using assms(1) by (auto simp: nameHost_def list_all_iff)
  have u: "urlHost h port = h @ ?s" using h by (simp add: urlHost_def)
  have dk: "isDigit c \<Longrightarrow> \<not> shouldEscape ModeHost c" for c by (intro alnum_kept digit_alnum)
  have es: "escape ModeHost ?s = ?s" using assms(2) dk host_kept(1) by (intro escape_kept) (auto simp: list_all_iff)
  have "unescape ModeHost (escape ModeHost (h @ ?s)) = Some (h @ ?s)"
    using assms dk host_kept(1) by (intro unescape_escape) (auto simp: nameHost_def list_all_iff escapable_def)
  moreover have sb: "CHR ''['' \<notin> set ?s" using assms(2) not_digit_alnum digit_alnum by (auto simp: list_all_iff)
  then have b: "CHR ''['' \<notin> set (escape ModeHost h @ ?s)" using escape_origin [of "CHR ''[''" h] h(2) not_digit_alnum by auto
  moreover have c: "CHR '':'' \<notin> set (escape ModeHost h)" using escape_origin [of "CHR '':''" h] h(1) not_alnum(5) by auto
  have "Cut (escape ModeHost h @ ?s) CHR '':'' = map_option (\<lambda>p. (escape ModeHost h, p)) port"
    using Cut_append [OF c] c by (cases port) (simp_all add: Cut_none)
  ultimately show "parseHost (escape ModeHost (urlHost h port)) = Some (urlHost h port)"
    unfolding u escape_append es parseHost_plain [OF b] using assms(2) by (cases port) auto
  have hd: "hd h \<noteq> CHR ''[''" using h by (cases h) auto
  show "urlHostPort (urlHost h port) = (h, case port of None \<Rightarrow> [] | Some p \<Rightarrow> p)"
  proof (cases port)
    case None
    then show ?thesis unfolding u using urlHostPort_plain(1) [OF h(4) hd h(1)] by simp
  next
    case (Some p)
    then have d: "list_all isDigit p" using assms(2) by simp
    then have "CHR '':'' \<notin> set p" using digit_not by (auto simp: list_all_iff)
    then show ?thesis unfolding u using urlHostPort_plain(2) [OF h(4) hd _ d] Some by simp
  qed
qed

lemma find_mem: "find P xs = Some x \<Longrightarrow> x \<in> set xs"
  by (induction xs) (auto split: if_splits)

lemma splitZone_none: "CHR ''%'' \<notin> set s \<Longrightarrow> splitZone s = (s, [])"
  by (induction s) auto

lemma parseHost_v6:
  assumes "v6Host h" "port = None \<or> (\<exists>p. port = Some p \<and> list_all isDigit p)"
  shows "parseHost (escape ModeHost (urlHost h port)) = Some (urlHost h port)" "urlHostPort (urlHost h port) = (h, case port of None \<Rightarrow> [] | Some p \<Rightarrow> p)"
proof -
  let ?s = "case port of None \<Rightarrow> [] | Some p \<Rightarrow> '':'' @ p"
  have kept: "\<forall>c \<in> set h. \<not> shouldEscape ModeHost c" using assms(1) alnum_kept hex_alnum host_kept by (auto simp: v6Host_def list_all_iff)
  have dk: "isDigit c \<Longrightarrow> \<not> shouldEscape ModeHost c" for c by (intro alnum_kept digit_alnum)
  have ps: "\<forall>c \<in> set ?s. \<not> shouldEscape ModeHost c" using assms(2) dk host_kept(1) by (auto simp: list_all_iff)
  have colon: "CHR '':'' \<in> set h" using assms(1) by (auto simp: v6Host_def ipv6Literal_def dest: find_mem)
  have hx: "\<not> isHex CHR ''%''" "\<not> isHex CHR ''[''" "\<not> isHex CHR '']''" by (simp_all add: isHex_def hexVal_def)
  have no: "CHR ''%'' \<notin> set h" "CHR ''['' \<notin> set h" "CHR '']'' \<notin> set h" using assms(1) hx by (auto simp: v6Host_def list_all_iff)
  have sno: "CHR ''['' \<notin> set ?s" "CHR '']'' \<notin> set ?s" using assms(2) not_digit_alnum digit_alnum by (auto simp: list_all_iff)
  let ?H = "''['' @ h @ '']'' @ ?s"
  have u: "urlHost h port = ?H" using colon by (simp add: urlHost_def)
  have e: "escape ModeHost ?H = ?H" using kept ps host_kept by (intro escape_kept) auto
  have l: "lastIndexByte CHR ''['' ?H = Some 0" "lastIndexByte CHR '']'' ?H = Some (length h + 1)"
    using lastIndexByte_append [of "CHR ''[''" "h @ '']'' @ ?s" "[]"] lastIndexByte_append [of "CHR '']''" ?s "''['' @ h"] no sno by simp_all
  have un: "unescape ModeHost ?s = Some ?s" "unescape ModeHost h = Some h"
    using unescape_escape [of ?s ModeHost] unescape_escape [of h ModeHost] escape_kept [OF ps] escape_kept [OF kept] ps kept by (auto simp: escapable_def)
  have v: "validOptionalPort ?s" using assms(2) by (auto simp: validOptionalPort_def)
  have d: "drop (length h + 1 + 1) ?H = ?s" "drop 1 (take (length h + 1) ?H) = h" by simp_all
  show "parseHost (escape ModeHost (urlHost h port)) = Some (urlHost h port)"
    unfolding u e parseHost_def l option.case d un splitZone_none [OF no(1)] prod.case using v assms(1) by (simp add: v6Host_def)
  obtain a b where ab: "h = a @ CHR '':'' # b" "CHR '':'' \<notin> set b" using colon by (meson split_list_last)
  show "urlHostPort (urlHost h port) = (h, case port of None \<Rightarrow> [] | Some p \<Rightarrow> p)"
  proof (cases port)
    case None
    have "lastIndexByte CHR '':'' (''['' @ h @ '']'') = Some (length a + 1)"
      using lastIndexByte_append [of "CHR '':''" "b @ '']''" "''['' @ a"] ab by simp
    moreover have "\<not> isDigit CHR '']''" by (simp add: isDigit_def)
    then have "\<not> validOptionalPort (drop (length a + 1) (''['' @ h @ '']''))" using ab by (simp add: validOptionalPort_def)
    ultimately show ?thesis using None unfolding u urlHostPort_def by simp
  next
    case (Some p)
    then have "CHR '':'' \<notin> set p" using assms(2) digit_not by (auto simp: list_all_iff)
    then have "lastIndexByte CHR '':'' ((''['' @ h @ '']'') @ CHR '':'' # p) = Some (length h + 2)"
      using lastIndexByte_append [of "CHR '':''" p "''['' @ h @ '']''"] by simp
    then show ?thesis using Some v unfolding u urlHostPort_def by simp
  qed
qed

end
