(* ===== verification/ShareLink.thy ===== *)
theory ShareLink
  imports NetUrl ProfileStore
begin

text \<open>
  Share links (\<^verbatim>\<open>tui/internal/sharelink/sharelink.go\<close>) and the configuration of the core (\<^verbatim>\<open>BuildCoreConfig\<close> of
  \<^verbatim>\<open>tui/internal/coremgr/coremgr.go\<close>): a profile as a URL, and what comes back when the URL is read again.
\<close>

section \<open>Checks\<close>

datatype link_error =
    BadLink | UnsupportedScheme string | BadPort | MissingHost | MissingServerName | MissingPublicKey | BadPublicKey
  | ShortIdTooLong | ShortIdNotHex | MissingServer

definition validatePublicKey :: "string \<Rightarrow> link_error option" where
  "validatePublicKey s =
     (if s = [] then Some MissingPublicKey
      else case b64Decode True False s of
        None \<Rightarrow> Some BadPublicKey
      | Some b \<Rightarrow> if length b \<noteq> 32 then Some BadPublicKey else None)"

definition validateShortID :: "string \<Rightarrow> link_error option" where
  "validateShortID s =
     (if s = [] then None
      else if 16 < length s then Some ShortIdTooLong
      else if hexDecode s = None then Some ShortIdNotHex else None)"

section \<open>Reading a link\<close>

definition linkReality :: "(string \<times> string) list \<Rightarrow> link_error + ClientReality" where
  "linkReality q =
     (let r = \<lparr>cr_ServerName = queryGet ''server_name'' q, cr_PublicKey = queryGet ''public_key'' q,
               cr_ShortID = queryGet ''short_id'' q, cr_Fingerprint = queryGet ''fingerprint'' q\<rparr> in
      if cr_ServerName r = [] then Inl MissingServerName
      else case validatePublicKey (cr_PublicKey r) of
        Some e \<Rightarrow> Inl e
      | None \<Rightarrow>
          (case validateShortID (cr_ShortID r) of
             Some e \<Rightarrow> Inl e
           | None \<Rightarrow> Inr (if cr_Fingerprint r = [] then r\<lparr>cr_Fingerprint := ''chrome''\<rparr> else r)))"

definition linkPort :: "string \<Rightarrow> link_error + int" where
  "linkPort s =
     (if s = [] then Inr 443
      else case Atoi s of
        None \<Rightarrow> Inl BadPort
      | Some n \<Rightarrow> if n < 1 \<or> 65535 < n then Inl BadPort else Inr n)"

definition ParseLink :: "string \<Rightarrow> link_error + ClientProfile" where
  "ParseLink link =
     (case urlParse (TrimSpace link) of
        None \<Rightarrow> Inl BadLink
      | Some u \<Rightarrow>
          let scheme = ToLower (u_Scheme u) in
          if scheme \<noteq> ''naivereal'' \<and> scheme \<noteq> ''naive+https'' then Inl (UnsupportedScheme (u_Scheme u))
          else
            let host = fst (urlHostPort (u_Host u));
                username = (case u_User u of None \<Rightarrow> [] | Some (n, _) \<Rightarrow> n);
                password = (case u_User u of Some (_, Some p) \<Rightarrow> p | _ \<Rightarrow> []) in
            (case linkPort (snd (urlHostPort (u_Host u))) of
               Inl e \<Rightarrow> Inl e
             | Inr port \<Rightarrow>
                 if host = [] then Inl MissingHost
                 else
                   let p = \<lparr>p_Name = if u_Fragment u = [] then host else u_Fragment u, p_Server = host, p_Port = port,
                            p_Username = username, p_Password = password, p_InsecureConcurrency = 1, p_Reality = None, p_TLS = None,
                            p_LocalSocks = ''127.0.0.1:1080'', p_LocalHTTP = ''127.0.0.1:8080'', p_SystemProxy = None, p_TUN = None\<rparr> in
                   if scheme = ''naivereal'' then
                     (case linkReality (urlQuery (u_RawQuery u)) of Inl e \<Rightarrow> Inl e | Inr r \<Rightarrow> Inr (p\<lparr>p_Reality := Some r\<rparr>))
                   else Inr p))"

section \<open>Writing a link\<close>

definition linkHost :: "ClientProfile \<Rightarrow> int \<Rightarrow> string" where
  "linkHost p port =
     (if p_Port p \<noteq> 0 \<and> p_Port p \<noteq> 443 then JoinHostPort (p_Server p) (Itoa port)
      else if CHR '':'' \<in> set (p_Server p) \<and> \<not> HasPrefix (p_Server p) ''['' then ''['' @ p_Server p @ '']''
      else p_Server p)"

definition linkUser :: "ClientProfile \<Rightarrow> (string \<times> string option) option" where
  "linkUser p = (if p_Username p \<noteq> [] \<or> p_Password p \<noteq> [] then Some (p_Username p, Some (p_Password p)) else None)"

definition BuildLink :: "ClientProfile \<Rightarrow> link_error + string" where
  "BuildLink p =
     (if TrimSpace (p_Server p) = [] then Inl MissingServer
      else
        let port = (if p_Port p = 0 then 443 else p_Port p) in
        if port < 1 \<or> 65535 < port then Inl BadPort
        else
          let u = \<lparr>u_Scheme = [], u_User = linkUser p, u_Host = linkHost p port, u_RawQuery = [], u_Fragment = p_Name p\<rparr> in
          (case p_Reality p of
             None \<Rightarrow> Inr (urlString (u\<lparr>u_Scheme := ''naive+https''\<rparr>))
           | Some r \<Rightarrow>
               if TrimSpace (cr_ServerName r) = [] then Inl MissingServerName
               else (case validatePublicKey (cr_PublicKey r) of
                 Some e \<Rightarrow> Inl e
               | None \<Rightarrow>
                   (case validateShortID (cr_ShortID r) of
                      Some e \<Rightarrow> Inl e
                    | None \<Rightarrow>
                        let q = [(''server_name'', cr_ServerName r), (''public_key'', cr_PublicKey r), (''short_id'', cr_ShortID r)] @
                          (if cr_Fingerprint r \<noteq> [] \<and> cr_Fingerprint r \<noteq> ''chrome'' then [(''fingerprint'', cr_Fingerprint r)] else []) in
                        Inr (urlString (u\<lparr>u_Scheme := ''naivereal'', u_RawQuery := encodeValues q\<rparr>))))))"

section \<open>The configuration of the core\<close>

record coreConfig =
  cc_Listen :: string
  cc_Proxy :: string
  cc_InsecureConcurrency :: int
  cc_HostResolverRules :: string
  cc_Reality :: "ClientReality option"

definition BuildCoreConfig :: "ClientProfile \<Rightarrow> string \<Rightarrow> coreConfig" where
  "BuildCoreConfig p internalSocks =
     (let scheme = (if p_TLS p = Some False then ''http'' else ''https'');
          u = \<lparr>u_Scheme = scheme, u_User = linkUser p, u_Host = JoinHostPort (p_Server p) (Itoa (p_Port p)), u_RawQuery = [], u_Fragment = []\<rparr> in
      \<lparr>cc_Listen = ''socks://'' @ internalSocks, cc_Proxy = urlString u, cc_InsecureConcurrency = p_InsecureConcurrency p,
       cc_HostResolverRules = [], cc_Reality = p_Reality p\<rparr>)"

section \<open>Round trips\<close>

text \<open>A server that can stand in a URL: a host name, or an IPv6 address without a zone.\<close>

definition urlServer :: "string \<Rightarrow> bool" where
  "urlServer s \<longleftrightarrow> nameHost s \<or> v6Host s"

lemma urlServer_host:
  assumes "urlServer s" "port = None \<or> (\<exists>p. port = Some p \<and> list_all isDigit p)"
  shows "parseHost (escape ModeHost (urlHost s port)) = Some (urlHost s port)" "urlHostPort (urlHost s port) = (s, case port of None \<Rightarrow> [] | Some p \<Rightarrow> p)"
  using assms parseHost_name parseHost_v6 unfolding urlServer_def by blast+

lemma JoinHostPort_urlHost: "JoinHostPort s p = urlHost s (Some p)"
  by (simp add: JoinHostPort_def urlHost_def)

lemma urlServer_no_bracket: "urlServer s \<Longrightarrow> \<not> HasPrefix s ''['' \<and> s \<noteq> []"
proof -
  assume s: "urlServer s"
  have "\<not> isHex CHR ''[''" by (simp add: isHex_def hexVal_def)
  then have "CHR ''['' \<notin> set s" using s by (auto simp: urlServer_def nameHost_def v6Host_def list_all_iff)
  moreover have "s \<noteq> []" using s by (auto simp: urlServer_def nameHost_def v6Host_def ipv6Literal_def)
  ultimately show ?thesis by (cases s) (auto simp: HasPrefix_def)
qed

lemma linkHost_urlHost:
  assumes "urlServer (p_Server p)"
  shows "linkHost p port = urlHost (p_Server p) (if p_Port p \<noteq> 0 \<and> p_Port p \<noteq> 443 then Some (Itoa port) else None)"
  using urlServer_no_bracket [OF assms] by (auto simp: linkHost_def JoinHostPort_urlHost urlHost_def)

lemma Itoa_digits: "0 \<le> n \<Longrightarrow> list_all isDigit (Itoa n) \<and> Itoa n \<noteq> []"
  by (simp add: Itoa_def utoa_digits)

lemma schemes_good: "goodScheme ''naivereal''" "goodScheme ''naive+https''" "goodScheme ''http''" "goodScheme ''https''"
  by code_simp+

text \<open>Printed URLs are printable, so no white space is cut off them.\<close>

lemma urlString_plain:
  assumes "goodScheme (u_Scheme u)" "\<forall>c \<in> set (u_RawQuery u). plainChar c"
  shows "TrimSpace (urlString u) = urlString u"
proof (rule TrimSpace_plain)
  have s: "plainChar CHR '':''" "plainChar CHR ''/''" "plainChar CHR ''?''" "plainChar CHR ''#''" "plainChar CHR ''@''" by (simp_all add: plainChar_def)
  have "\<forall>c \<in> set (userString (u_User u)). plainChar c" using escape_plain s by (auto simp: userString_def split: option.splits)
  then show "\<forall>c \<in> set (urlString u). plainChar c"
    using assms s escape_plain [of _ ModeHost] escape_plain [of _ ModeFragment] by (auto simp: urlString_def goodScheme_def list_all_iff)
qed

text \<open>The query of a link is read back.\<close>

lemma queryPair_print: "k \<noteq> [] \<Longrightarrow> queryPair (escape ModeQuery k @ ''='' @ escape ModeQuery v) = Some (k, v)"
  using cutAt_append [OF escape_free(7), of k "escape ModeQuery v"] by (simp add: queryPair_def escape_free unescape_escape_free)

lemma urlQuery_print:
  assumes "vs \<noteq> []" "\<forall>(k, v) \<in> set vs. k \<noteq> []"
  shows "urlQuery (joinWith ''&'' (map (\<lambda>(k, v). escape ModeQuery k @ ''='' @ escape ModeQuery v) vs)) = vs"
proof -
  let ?f = "\<lambda>(k, v). escape ModeQuery k @ ''='' @ escape ModeQuery v"
  have "splitOn CHR ''&'' (joinWith ''&'' (map ?f vs)) = map ?f vs" using assms(1) by (intro splitOn_join) (auto simp: escape_free)
  moreover have "List.map_filter queryPair (map ?f vs) = vs"
    using assms(2) by (induction vs) (auto simp: map_filter_def queryPair_print [simplified])
  ultimately show ?thesis by (simp add: urlQuery_def)
qed

lemma query_plain: "c \<in> set (joinWith ''&'' (map (\<lambda>(k, v). escape ModeQuery k @ ''='' @ escape ModeQuery v) vs)) \<Longrightarrow> plainChar c \<and> c \<noteq> CHR ''#''"
proof (induction vs rule: induct_list012)
  case (2 v)
  then show ?case using escape_plain escape_free(1) [of ModeQuery] by (auto simp: plainChar_def split: prod.splits)
next
  case (3 v w vs)
  then show ?case using escape_plain escape_free(1) [of ModeQuery] by (auto simp: plainChar_def split: prod.splits)
qed simp

lemma sorted_keys:
  "foldr insertKey [(''server_name'', a), (''public_key'', b), (''short_id'', c)] [] = [(''public_key'', b), (''server_name'', a), (''short_id'', c)]"
  "foldr insertKey [(''server_name'', a), (''public_key'', b), (''short_id'', c), (''fingerprint'', d)] [] =
     [(''fingerprint'', d), (''public_key'', b), (''server_name'', a), (''short_id'', c)]"
  by simp_all

definition linkQuery :: "ClientReality \<Rightarrow> (string \<times> string) list" where
  "linkQuery r =
     (if cr_Fingerprint r \<noteq> [] \<and> cr_Fingerprint r \<noteq> ''chrome'' then [(''fingerprint'', cr_Fingerprint r)] else []) @
     [(''public_key'', cr_PublicKey r), (''server_name'', cr_ServerName r), (''short_id'', cr_ShortID r)]"

definition linkQueryText :: "ClientReality \<Rightarrow> string" where
  "linkQueryText r = joinWith ''&'' (map (\<lambda>(k, v). escape ModeQuery k @ ''='' @ escape ModeQuery v) (linkQuery r))"

lemma encode_linkQuery:
  "encodeValues ([(''server_name'', cr_ServerName r), (''public_key'', cr_PublicKey r), (''short_id'', cr_ShortID r)] @
      (if cr_Fingerprint r \<noteq> [] \<and> cr_Fingerprint r \<noteq> ''chrome'' then [(''fingerprint'', cr_Fingerprint r)] else [])) = linkQueryText r"
proof (cases "cr_Fingerprint r \<noteq> [] \<and> cr_Fingerprint r \<noteq> ''chrome''")
  case True
  then show ?thesis unfolding encodeValues_def linkQueryText_def linkQuery_def by (simp only: if_True simp_thms sorted_keys append.simps)
next
  case False
  then show ?thesis unfolding encodeValues_def linkQueryText_def linkQuery_def by (simp only: if_False simp_thms sorted_keys append.simps append_Nil2)
qed

lemma linkReality_print:
  assumes "cr_ServerName r \<noteq> []" "validatePublicKey (cr_PublicKey r) = None" "validateShortID (cr_ShortID r) = None"
  shows "linkReality (urlQuery (linkQueryText r)) = Inr (defaultReality r)"
proof -
  have q: "urlQuery (linkQueryText r) = linkQuery r" unfolding linkQueryText_def by (rule urlQuery_print) (auto simp: linkQuery_def)
  have g: "queryGet ''server_name'' (linkQuery r) = cr_ServerName r" "queryGet ''public_key'' (linkQuery r) = cr_PublicKey r"
    "queryGet ''short_id'' (linkQuery r) = cr_ShortID r"
    "queryGet ''fingerprint'' (linkQuery r) = (if cr_Fingerprint r = ''chrome'' then [] else cr_Fingerprint r)"
    by (simp_all add: linkQuery_def queryGet_def)
  show ?thesis unfolding linkReality_def q g Let_def using assms by (simp add: defaultReality_def orElse_def)
qed

text \<open>Reading a printed link.\<close>

lemma ParseLink_print:
  assumes "scheme \<in> {''naivereal'', ''naive+https''}" "urlServer (p_Server p)" "1 \<le> port" "port \<le> 65535" "\<forall>c \<in> set q. plainChar c \<and> c \<noteq> CHR ''#''"
    "pp = (if p_Port p \<noteq> 0 \<and> p_Port p \<noteq> 443 then Some (Itoa port) else None)" "pp = None \<Longrightarrow> port = 443"
  shows "ParseLink (urlString \<lparr>u_Scheme = scheme, u_User = linkUser p, u_Host = urlHost (p_Server p) pp, u_RawQuery = q, u_Fragment = p_Name p\<rparr>) =
     (let r = \<lparr>p_Name = if p_Name p = [] then p_Server p else p_Name p, p_Server = p_Server p, p_Port = port,
               p_Username = p_Username p, p_Password = p_Password p, p_InsecureConcurrency = 1, p_Reality = None, p_TLS = None,
               p_LocalSocks = ''127.0.0.1:1080'', p_LocalHTTP = ''127.0.0.1:8080'', p_SystemProxy = None, p_TUN = None\<rparr> in
      if scheme = ''naivereal'' then (case linkReality (urlQuery q) of Inl e \<Rightarrow> Inl e | Inr x \<Rightarrow> Inr (r\<lparr>p_Reality := Some x\<rparr>)) else Inr r)"
    (is "ParseLink (urlString ?u) = _")
proof -
  have g: "goodScheme (u_Scheme ?u)" using assms(1) schemes_good by auto
  have d: "pp = None \<or> (\<exists>d. pp = Some d \<and> list_all isDigit d)" using assms(3,6) Itoa_digits [of port] by auto
  note h = urlServer_host [OF assms(2) d]
  have t: "TrimSpace (urlString ?u) = urlString ?u" using g assms(5) by (intro urlString_plain) auto
  have u: "urlParse (urlString ?u) = Some ?u" using g h(1) assms(5) by (intro urlParse_urlString) (auto simp: linkUser_def)
  have low: "ToLower scheme = scheme" using g by (simp add: goodScheme_def)
  have "in_i64 port" using assms(3,4) by (simp add: in_i64_def)
  then have lp: "linkPort (case pp of None \<Rightarrow> [] | Some x \<Rightarrow> x) = Inr port"
    using assms(3,4,6,7) Itoa_digits [of port] by (cases pp) (auto simp: linkPort_def Atoi_Itoa split: if_splits)
  have user: "(case linkUser p of None \<Rightarrow> [] | Some (n, _) \<Rightarrow> n) = p_Username p"
    "(case linkUser p of Some (_, Some w) \<Rightarrow> w | _ \<Rightarrow> []) = p_Password p" by (auto simp: linkUser_def)
  have ne: "p_Server p \<noteq> []" using urlServer_no_bracket [OF assms(2)] by simp
  show ?thesis
    unfolding ParseLink_def t u option.case goURL.simps low Let_def h(2) fst_conv snd_conv lp sum.case user
    using assms(1) ne by auto
qed

text \<open>
  (C39) A share link brings its profile back: if a link can be built from a profile whose server is a host name or an IPv6 address, then reading the
  link gives the same server, port, credentials, name and REALITY settings, whatever characters they contain, with the defaults for an empty
  port, name or fingerprint; the other settings of the profile are not in the link and take their defaults.
\<close>

theorem share_link_roundtrip:
  assumes "BuildLink p = Inr link" "urlServer (p_Server p)"
  shows "ParseLink link = Inr (p\<lparr>p_Name := (if p_Name p = [] then p_Server p else p_Name p), p_Port := (if p_Port p = 0 then 443 else p_Port p),
     p_InsecureConcurrency := 1, p_Reality := map_option defaultReality (p_Reality p), p_TLS := None, p_LocalSocks := ''127.0.0.1:1080'',
     p_LocalHTTP := ''127.0.0.1:8080'', p_SystemProxy := None, p_TUN := None\<rparr>)"
proof -
  let ?port = "if p_Port p = 0 then 443 else p_Port p"
  define pp where "pp = (if p_Port p \<noteq> 0 \<and> p_Port p \<noteq> 443 then Some (Itoa ?port) else None)"
  have range: "1 \<le> ?port" "?port \<le> 65535" using assms(1) by (auto simp: BuildLink_def Let_def split: if_splits)
  have host: "linkHost p ?port = urlHost (p_Server p) pp" unfolding pp_def by (rule linkHost_urlHost [OF assms(2)])
  have none: "pp = None \<Longrightarrow> ?port = 443" by (auto simp: pp_def split: if_splits)
  note parse = ParseLink_print [OF _ assms(2) range _ pp_def none]
  show ?thesis
  proof (cases "p_Reality p")
    case None
    then have "link = urlString \<lparr>u_Scheme = ''naive+https'', u_User = linkUser p, u_Host = urlHost (p_Server p) pp, u_RawQuery = [], u_Fragment = p_Name p\<rparr>"
      using assms(1) host by (auto simp: BuildLink_def Let_def split: if_splits)
    then show ?thesis using parse [of "''naive+https''" "[]"] None by simp
  next
    case (Some r)
    have l: "link = urlString \<lparr>u_Scheme = ''naivereal'', u_User = linkUser p, u_Host = urlHost (p_Server p) pp, u_RawQuery = linkQueryText r, u_Fragment = p_Name p\<rparr>"
      and v: "TrimSpace (cr_ServerName r) \<noteq> []" "validatePublicKey (cr_PublicKey r) = None" "validateShortID (cr_ShortID r) = None"
      using assms(1) host unfolding BuildLink_def Let_def Some encode_linkQuery option.case by (auto split: if_splits option.splits)
    have "TrimSpace [] = []" by code_simp
    then have "cr_ServerName r \<noteq> []" using v(1) by auto
    then show ?thesis using parse [of "''naivereal''" "linkQueryText r"] query_plain linkReality_print [OF _ v(2,3)] Some
      unfolding l linkQueryText_def by simp
  qed
qed

text \<open>
  The core is pointed at the server of the profile: the proxy URL in its configuration reads back as the host, port and credentials of the
  profile, over plain HTTP exactly if the profile turns TLS off; the REALITY settings are handed over as they are.
\<close>

theorem core_config_url:
  assumes "urlServer (p_Server p)" "1 \<le> p_Port p" "p_Port p \<le> 65535"
  shows "\<exists>u. urlParse (cc_Proxy (BuildCoreConfig p s)) = Some u \<and> urlHostPort (u_Host u) = (p_Server p, Itoa (p_Port p)) \<and>
     u_User u = linkUser p \<and> u_Scheme u = (if p_TLS p = Some False then ''http'' else ''https'') \<and> cc_Reality (BuildCoreConfig p s) = p_Reality p"
proof -
  let ?u = "\<lparr>u_Scheme = if p_TLS p = Some False then ''http'' else ''https'', u_User = linkUser p,
      u_Host = urlHost (p_Server p) (Some (Itoa (p_Port p))), u_RawQuery = [], u_Fragment = []\<rparr>"
  have d: "Some (Itoa (p_Port p)) = None \<or> (\<exists>d. Some (Itoa (p_Port p)) = Some d \<and> list_all isDigit d)" using assms(2) Itoa_digits [of "p_Port p"] by auto
  note h = urlServer_host [OF assms(1) d]
  have "urlParse (urlString ?u) = Some ?u" using h(1) schemes_good by (intro urlParse_urlString) (auto simp: linkUser_def)
  then show ?thesis using h(2) by (simp add: BuildCoreConfig_def Let_def JoinHostPort_urlHost)
qed

section \<open>Example\<close>

definition exampleLinkProfile :: ClientProfile where
  "exampleLinkProfile =
     \<lparr>p_Name = ''IPv6 node'', p_Server = ''2001:db8::1'', p_Port = 8443, p_Username = ''user@example.com'', p_Password = ''p:a%ss'',
      p_InsecureConcurrency = 2,
      p_Reality = Some \<lparr>cr_ServerName = ''example.com'', cr_PublicKey = b64Encode True False (replicate 32 0), cr_ShortID = ''abcd'', cr_Fingerprint = []\<rparr>,
      p_TLS = None, p_LocalSocks = [], p_LocalHTTP = [], p_SystemProxy = None, p_TUN = None\<rparr>"

lemma exampleServer: "urlServer ''2001:db8::1''"
  by code_simp

lemma exampleKeyValid: "validatePublicKey (b64Encode True False (replicate 32 0)) = None"
proof -
  have d: "b64Decode True False (b64Encode True False (replicate 32 0)) = Some (replicate 32 0)" by (rule b64.dec_enc [OF TrueI])
  moreover have "b64Decode True False [] = Some []" by code_simp
  ultimately have "b64Encode True False (replicate 32 0) \<noteq> []" by force
  then show ?thesis by (simp add: validatePublicKey_def d)
qed

lemma exampleTrim: "TrimSpace ''2001:db8::1'' \<noteq> []" "TrimSpace ''example.com'' \<noteq> []" "validateShortID ''abcd'' = None"
  by code_simp+

lemma exampleLink: "urlServer (p_Server exampleLinkProfile)" "p_Port exampleLinkProfile = 8443" "\<exists>link. BuildLink exampleLinkProfile = Inr link"
  using exampleServer exampleKeyValid exampleTrim by (simp_all add: exampleLinkProfile_def BuildLink_def Let_def)

theorem share_link_roundtrip_witness:
  "\<exists>link p. BuildLink exampleLinkProfile = Inr link \<and> ParseLink link = Inr p \<and> p_Server p = ''2001:db8::1'' \<and> p_Port p = 8443 \<and>
     p_Username p = ''user@example.com'' \<and> p_Password p = ''p:a%ss'' \<and> p_Name p = ''IPv6 node''"
proof -
  obtain link where l: "BuildLink exampleLinkProfile = Inr link" using exampleLink(3) by blast
  show ?thesis using l share_link_roundtrip [OF l exampleLink(1)] by (simp add: exampleLinkProfile_def)
qed

theorem core_config_url_witness:
  "\<exists>u. urlParse (cc_Proxy (BuildCoreConfig exampleLinkProfile ''127.0.0.1:41080'')) = Some u \<and> fst (urlHostPort (u_Host u)) = ''2001:db8::1''"
  using core_config_url [OF exampleLink(1), of "''127.0.0.1:41080''"] exampleLink(2) by (auto simp: exampleLinkProfile_def)

end
