(* ===== verification/FrontendTools.thy ===== *)
theory FrontendTools
  imports NetAddr TcpConfig
begin

text \<open>
  The commands of the TCP front end's program: the command line of \<^verbatim>\<open>frontend/main.go\<close>, the certificate generator of \<^verbatim>\<open>cert.go\<close> and the
  arguments of the test server of \<^verbatim>\<open>tlsserve.go\<close>.  The key generator and the certificate encoder are parameters, as are the failures of the
  file system; a file is its content and its permission bits.
\<close>

section \<open>Command line\<close>

datatype feCommand = RunGenkey | RunGencert "string list" | RunTLSServe "string list" | PrintVersion | RunServer string

definition feArgs :: "string list \<Rightarrow> feCommand" where
  "feArgs args =
     (case args of
        [] \<Rightarrow> RunServer ''frontend.toml''
      | a # rest \<Rightarrow>
          if a = ''genkey'' then RunGenkey
          else if a = ''gencert'' then RunGencert rest
          else if a = ''tlsserve'' then RunTLSServe rest
          else if a = ''version'' \<or> a = ''-version'' \<or> a = ''--version'' then PrintVersion
          else RunServer a)"

section \<open>Keys\<close>

text \<open>
  \<^verbatim>\<open>runGenkey\<close>: the lines it prints, or its failure.  The verb \<^verbatim>\<open>%q\<close> puts a string of base64 characters between quotes.
\<close>

definition quote :: "string \<Rightarrow> string" where
  "quote s = [CHR 0x22] @ s @ [CHR 0x22]"

definition runGenkey :: "string + (byte list \<times> byte list) \<Rightarrow> string list option" where
  "runGenkey gen =
     (case generateKeypair gen of
        Inl e \<Rightarrow> None
      | Inr (privB64, pubB64) \<Rightarrow>
          Some [''Private key: '' @ privB64, ''Public key:  '' @ pubB64, [], ''# add to frontend.toml:'', ''[inbound.reality]'',
                ''private_key = '' @ quote privB64, ''short_ids = ['' @ quote ''0123456789abcdef'' @ '']'',
                ''server_names = ['' @ quote ''www.example.com'' @ '']'', [],
                ''# client side (config.json reality block or naivereal share link):'', ''public_key: '' @ pubB64])"

section \<open>Status\<close>

text \<open>
  \<^verbatim>\<open>startStatus\<close>: without an address nothing is served; otherwise \<open>serve\<close> is the error \<^verbatim>\<open>ListenAndServe\<close> ends with, of which the one that reports an
  orderly shutdown (\<^verbatim>\<open>http.ErrServerClosed\<close>) is no error.
\<close>

datatype serveEnd = ServerClosed | ServeFailed string

definition startStatus :: "feConfig \<Rightarrow> (string \<Rightarrow> serveEnd) \<Rightarrow> string option" where
  "startStatus cfg serve =
     (if fe_HTTP (fe_Status cfg) = [] then None
      else case serve (fe_HTTP (fe_Status cfg)) of ServerClosed \<Rightarrow> None | ServeFailed e \<Rightarrow> Some e)"

section \<open>Arguments\<close>

datatype tool_error =
    NeedsValue string | UnknownArg string | EmptyHost | MkdirFailed | KeyFailed | CertFailed | MarshalFailed | WriteFailed string | ChmodFailed string
  | TlsUsage | LoadCertFailed | ListenFailed

record gencertOpts =
  go_hosts :: "string list"
  go_out :: string

fun gencertArgs :: "string list \<Rightarrow> gencertOpts \<Rightarrow> tool_error + gencertOpts" where
  "gencertArgs [] o' = Inr o'"
| "gencertArgs (a # args) o' =
     (if a = ''-hosts'' then
        (case args of [] \<Rightarrow> Inl (NeedsValue a) | v # rest \<Rightarrow> gencertArgs rest (o'\<lparr>go_hosts := splitOn CHR '','' v\<rparr>))
      else if a = ''-out'' then
        (case args of [] \<Rightarrow> Inl (NeedsValue a) | v # rest \<Rightarrow> gencertArgs rest (o'\<lparr>go_out := v\<rparr>))
      else Inl (UnknownArg a))"

record tlsOpts =
  to_cert :: string
  to_key :: string
  to_listen :: string

fun tlsServeArgs :: "string list \<Rightarrow> tlsOpts \<Rightarrow> tool_error + tlsOpts" where
  "tlsServeArgs [] o' = (if to_cert o' = [] \<or> to_key o' = [] then Inl TlsUsage else Inr o')"
| "tlsServeArgs (a # args) o' =
     (if a = ''-cert'' then
        (case args of [] \<Rightarrow> Inl (NeedsValue a) | v # rest \<Rightarrow> tlsServeArgs rest (o'\<lparr>to_cert := v\<rparr>))
      else if a = ''-key'' then
        (case args of [] \<Rightarrow> Inl (NeedsValue a) | v # rest \<Rightarrow> tlsServeArgs rest (o'\<lparr>to_key := v\<rparr>))
      else if a = ''-listen'' then
        (case args of [] \<Rightarrow> Inl (NeedsValue a) | v # rest \<Rightarrow> tlsServeArgs rest (o'\<lparr>to_listen := v\<rparr>))
      else Inl (UnknownArg a))"

section \<open>Certificates\<close>

text \<open>The hosts of the leaf certificate, sorted into names and addresses.\<close>

fun classifyHosts :: "string list \<Rightarrow> string list \<times> ip list \<Rightarrow> tool_error + (string list \<times> ip list)" where
  "classifyHosts [] acc = Inr acc"
| "classifyHosts (h # hs) (names, ips) =
     (let host = TrimSpace h in
      if host = [] then Inl EmptyHost
      else case ParseIP host of
        Some a \<Rightarrow> classifyHosts hs (names, ips @ [a])
      | None \<Rightarrow> classifyHosts hs (names @ [host], ips))"

definition commonName :: "string list \<times> ip list \<Rightarrow> string" where
  "commonName ni = (case ni of (n # _, _) \<Rightarrow> n | ([], a # _) \<Rightarrow> IPString a | ([], []) \<Rightarrow> ''naive.test'')"

text \<open>The two templates; the times are offsets from now, the beginning in hours and the end in years.\<close>

datatype keyUsage = CertSign | CRLSign | DigitalSignature

datatype extKeyUsage = ServerAuth

record certTmpl =
  ct_SerialNumber :: int
  ct_CommonName :: string
  ct_NotBefore :: int
  ct_NotAfter :: int
  ct_IsCA :: bool
  ct_BasicConstraintsValid :: bool
  ct_KeyUsage :: "keyUsage list"
  ct_ExtKeyUsage :: "extKeyUsage list"
  ct_DNSNames :: "string list"
  ct_IPAddresses :: "ip list"

definition caTmpl :: certTmpl where
  "caTmpl = \<lparr>ct_SerialNumber = 1, ct_CommonName = ''naivereal test CA'', ct_NotBefore = -1, ct_NotAfter = 10, ct_IsCA = True,
     ct_BasicConstraintsValid = True, ct_KeyUsage = [CertSign, CRLSign, DigitalSignature], ct_ExtKeyUsage = [], ct_DNSNames = [], ct_IPAddresses = []\<rparr>"

definition leafTmpl :: "string list \<times> ip list \<Rightarrow> certTmpl" where
  "leafTmpl ni = \<lparr>ct_SerialNumber = 2, ct_CommonName = commonName ni, ct_NotBefore = -1, ct_NotAfter = 1, ct_IsCA = False,
     ct_BasicConstraintsValid = False, ct_KeyUsage = [DigitalSignature], ct_ExtKeyUsage = [ServerAuth], ct_DNSNames = fst ni, ct_IPAddresses = snd ni\<rparr>"

section \<open>Files\<close>

type_synonym fileSys = "string \<Rightarrow> (string \<times> nat) option"

text \<open>\<^verbatim>\<open>os.WriteFile\<close> keeps the permissions of a file that exists; a new file has the given ones without the bits of the umask, here \<open>um\<close>.\<close>

definition writeFile :: "(nat \<Rightarrow> nat) \<Rightarrow> string \<Rightarrow> string \<Rightarrow> nat \<Rightarrow> fileSys \<Rightarrow> fileSys" where
  "writeFile um path content mode fs = fs(path \<mapsto> (content, case fs path of Some (_, m) \<Rightarrow> m | None \<Rightarrow> um mode))"

definition chmod :: "string \<Rightarrow> nat \<Rightarrow> fileSys \<Rightarrow> fileSys" where
  "chmod path mode fs = (case fs path of Some (c, _) \<Rightarrow> fs(path \<mapsto> (c, mode)) | None \<Rightarrow> fs)"

text \<open>\<open>ok\<close> says which of the system calls succeed; \<open>join\<close> is the path of a file in the output directory.\<close>

datatype sysCall = MkdirCall | WriteCall string | ChmodCall string

definition writePEM :: "(nat \<Rightarrow> nat) \<Rightarrow> (sysCall \<Rightarrow> bool) \<Rightarrow> (string \<Rightarrow> string) \<Rightarrow> string \<Rightarrow> string \<Rightarrow> nat \<Rightarrow> fileSys \<Rightarrow> tool_error option \<times> fileSys" where
  "writePEM um ok join name content mode fs =
     (if \<not> ok (WriteCall name) then (Some (WriteFailed name), fs)
      else let fs1 = writeFile um (join name) content mode fs in
        if \<not> ok (ChmodCall name) then (Some (ChmodFailed name), fs1) else (None, chmod (join name) mode fs1))"

fun writeAll :: "(nat \<Rightarrow> nat) \<Rightarrow> (sysCall \<Rightarrow> bool) \<Rightarrow> (string \<Rightarrow> string) \<Rightarrow> (string \<times> string \<times> nat) list \<Rightarrow> fileSys \<Rightarrow> tool_error option \<times> fileSys" where
  "writeAll um ok join [] fs = (None, fs)"
| "writeAll um ok join ((name, content, mode) # xs) fs =
     (case writePEM um ok join name content mode fs of
        (Some e, fs') \<Rightarrow> (Some e, fs')
      | (None, fs') \<Rightarrow> writeAll um ok join xs fs')"

text \<open>What the libraries produce: the two keys, the two certificates and the encodings of the keys, each of which may fail.\<close>

record pki =
  pk_caKey :: "string option"
  pk_leafKey :: "string option"
  pk_cert :: "certTmpl \<Rightarrow> string \<Rightarrow> byte list option"   \<comment> \<open>a template, signed with the key of the authority\<close>
  pk_marshal :: "string \<Rightarrow> byte list option"

text \<open>\<^verbatim>\<open>pem.EncodeToMemory\<close> of a block without headers: base64 in lines of 64 characters.\<close>

function pemLines :: "string \<Rightarrow> string" where
  "pemLines s = (if s = [] then [] else take 64 s @ [CHR 0x0A] @ pemLines (drop 64 s))"
  by pat_completeness auto
termination
  by (relation "measure length") auto

declare pemLines.simps [simp del]

definition pemEncode :: "string \<Rightarrow> byte list \<Rightarrow> string" where
  "pemEncode typ der =
     ''-----BEGIN '' @ typ @ ''-----'' @ [CHR 0x0A] @ pemLines (b64Encode False True der) @ ''-----END '' @ typ @ ''-----'' @ [CHR 0x0A]"

definition pemFiles :: "byte list \<Rightarrow> byte list \<Rightarrow> byte list \<Rightarrow> byte list \<Rightarrow> (string \<times> string \<times> nat) list" where
  "pemFiles ca caKey leaf leafKey =
     [(''ca.pem'', pemEncode ''CERTIFICATE'' ca, 420), (''ca-key.pem'', pemEncode ''EC PRIVATE KEY'' caKey, 384),
      (''server.pem'', pemEncode ''CERTIFICATE'' leaf, 420), (''server-key.pem'', pemEncode ''EC PRIVATE KEY'' leafKey, 384)]"

definition gencertFiles :: "pki \<Rightarrow> string list \<times> ip list \<Rightarrow> tool_error + (string \<times> string \<times> nat) list" where
  "gencertFiles k ni =
     (case pk_caKey k of
        None \<Rightarrow> Inl KeyFailed
      | Some ck \<Rightarrow>
          (case pk_cert k caTmpl ck of
             None \<Rightarrow> Inl CertFailed
           | Some ca \<Rightarrow>
               (case pk_leafKey k of
                  None \<Rightarrow> Inl KeyFailed
                | Some lk \<Rightarrow>
                    (case pk_cert k (leafTmpl ni) ck of
                       None \<Rightarrow> Inl CertFailed
                     | Some leaf \<Rightarrow>
                         (case pk_marshal k ck of
                            None \<Rightarrow> Inl MarshalFailed
                          | Some ckd \<Rightarrow>
                              (case pk_marshal k lk of
                                 None \<Rightarrow> Inl MarshalFailed
                               | Some lkd \<Rightarrow> Inr (pemFiles ca ckd leaf lkd)))))))"

definition runGencert :: "pki \<Rightarrow> (nat \<Rightarrow> nat) \<Rightarrow> (sysCall \<Rightarrow> bool) \<Rightarrow> (string \<Rightarrow> string \<Rightarrow> string) \<Rightarrow> string list \<Rightarrow> fileSys \<Rightarrow> tool_error option \<times> fileSys" where
  "runGencert k um ok join args fs =
     (case gencertArgs args \<lparr>go_hosts = [''naive.test''], go_out = ''.''\<rparr> of
        Inl e \<Rightarrow> (Some e, fs)
      | Inr o' \<Rightarrow>
          (case classifyHosts (go_hosts o') ([], []) of
             Inl e \<Rightarrow> (Some e, fs)
           | Inr ni \<Rightarrow>
               if \<not> ok MkdirCall then (Some MkdirFailed, fs)
               else (case gencertFiles k ni of
                 Inl e \<Rightarrow> (Some e, fs)
               | Inr files \<Rightarrow> writeAll um ok (join (go_out o')) files fs)))"

section \<open>The program\<close>

definition runTLSServe :: "(string \<Rightarrow> string \<Rightarrow> bool) \<Rightarrow> (string \<Rightarrow> bool) \<Rightarrow> string list \<Rightarrow> tool_error option" where
  "runTLSServe keyPair listen args =
     (case tlsServeArgs args \<lparr>to_cert = [], to_key = [], to_listen = ''127.0.0.1:1443''\<rparr> of
        Inl e \<Rightarrow> Some e
      | Inr o' \<Rightarrow>
          if \<not> keyPair (to_cert o') (to_key o') then Some LoadCertFailed
          else if \<not> listen (to_listen o') then Some ListenFailed else None)"

text \<open>
  One connection of the test server: nothing is sent if the handshake fails; afterwards every read that succeeds is answered with the
  page, until one fails.
\<close>

definition tlsPage :: string where
  "tlsPage = ''HTTP/1.1 200 OK'' @ [CHR 0x0D, CHR 0x0A] @ ''Content-Length: 2'' @ [CHR 0x0D, CHR 0x0A, CHR 0x0D, CHR 0x0A] @ ''ok''"

definition tlsServeConn :: "bool \<Rightarrow> bool list \<Rightarrow> string list" where
  "tlsServeConn handshake reads = (if handshake then map (\<lambda>_. tlsPage) (takeWhile id reads) else [])"

datatype feLogLevel = FeDebug | FeInfo | FeWarn | FeError

definition configureLogging :: "string \<Rightarrow> feLogLevel" where
  "configureLogging level = (if level = ''debug'' then FeDebug else if level = ''warn'' then FeWarn else if level = ''error'' then FeError else FeInfo)"

text \<open>
  The exit code, and the configuration that is served, if one is.  \<open>genkey\<close> and \<open>gencert\<close> are the errors of these commands, \<open>tlsserve\<close> that of the
  test server, \<open>newServer\<close> and \<open>serveFails\<close> the outcomes of \<^verbatim>\<open>NewTunnelServer\<close> and \<^verbatim>\<open>Serve\<close>.
\<close>

definition feMain ::
  "bool \<Rightarrow> (string list \<Rightarrow> tool_error option) \<Rightarrow> (string list \<Rightarrow> tool_error option) \<Rightarrow> (string \<Rightarrow> fe_error + feConfig) \<Rightarrow>
   (feConfig \<Rightarrow> bool) \<Rightarrow> (feConfig \<Rightarrow> bool) \<Rightarrow> string list \<Rightarrow> int \<times> feConfig option"
where
  "feMain genkeyFails gencert tlsserve load newServer serveFails args =
     (case feArgs args of
        RunGenkey \<Rightarrow> (if genkeyFails then 1 else 0, None)
      | RunGencert as \<Rightarrow> (if gencert as = None then 0 else 1, None)
      | RunTLSServe as \<Rightarrow> (if tlsserve as = None then 0 else 1, None)
      | PrintVersion \<Rightarrow> (0, None)
      | RunServer path \<Rightarrow>
          (case load path of
             Inl e \<Rightarrow> (1, None)
           | Inr cfg \<Rightarrow> if \<not> newServer cfg then (1, None) else (if serveFails cfg then 1 else 0, Some cfg)))"

section \<open>Properties\<close>

lemma writePEM_None:
  assumes "writePEM um ok join name content mode fs = (None, fs')"
  shows "fs' = fs(join name \<mapsto> (content, mode))"
  using assms by (auto simp: writePEM_def Let_def writeFile_def chmod_def split: if_splits)

lemma writeAll_None:
  assumes "inj join" "distinct (map fst xs)" "writeAll um ok join xs fs = (None, fs')"
  shows "(\<forall>(n, c, m) \<in> set xs. fs' (join n) = Some (c, m)) \<and> (\<forall>p. p \<notin> join ` fst ` set xs \<longrightarrow> fs' p = fs p)"
  using assms(2,3)
proof (induction xs arbitrary: fs)
  case (Cons x xs)
  obtain n c m where x: "x = (n, c, m)" by (cases x)
  obtain fs1 where 1: "writePEM um ok join n c m fs = (None, fs1)" "writeAll um ok join xs fs1 = (None, fs')"
    using Cons.prems(2) by (auto simp: x split: prod.splits option.splits)
  have fs1: "fs1 = fs(join n \<mapsto> (c, m))" by (rule writePEM_None [OF 1(1)])
  have "distinct (map fst xs)" using Cons.prems(1) by simp
  note IH = Cons.IH [OF this 1(2)]
  have "n \<notin> fst ` set xs" using Cons.prems(1) x by simp
  then have "join n \<notin> join ` fst ` set xs" using assms(1) by (auto simp: inj_image_mem_iff)
  then have "fs' (join n) = Some (c, m)" using IH fs1 by auto
  then show ?case using IH fs1 by (auto simp: x)
qed simp

lemma classifyHosts_sound:
  assumes "classifyHosts hs (ns, as) = Inr (ns', as')"
  shows "ns' = ns @ filter (\<lambda>h. ParseIP h = None) (map TrimSpace hs) \<and> as' = as @ List.map_filter ParseIP (map TrimSpace hs) \<and> [] \<notin> set (map TrimSpace hs)"
  using assms
proof (induction hs arbitrary: ns as)
  case (Cons h hs)
  have ne: "TrimSpace h \<noteq> []" using Cons.prems by (auto simp: Let_def split: if_splits)
  show ?case
  proof (cases "ParseIP (TrimSpace h)")
    case None
    then have "classifyHosts hs (ns @ [TrimSpace h], as) = Inr (ns', as')" using Cons.prems ne by (simp add: Let_def)
    from Cons.IH [OF this] None ne show ?thesis by auto
  next
    case (Some a)
    then have "classifyHosts hs (ns, as @ [a]) = Inr (ns', as')" using Cons.prems ne by (simp add: Let_def)
    from Cons.IH [OF this] Some ne show ?thesis by auto
  qed
qed auto

lemma gencertFiles_Inr:
  assumes "gencertFiles k ni = Inr files"
  obtains ck lk ca leaf ckd lkd where "pk_caKey k = Some ck" "pk_leafKey k = Some lk" "pk_cert k caTmpl ck = Some ca"
    "pk_cert k (leafTmpl ni) ck = Some leaf" "pk_marshal k ck = Some ckd" "pk_marshal k lk = Some lkd" "files = pemFiles ca ckd leaf lkd"
  using assms unfolding gencertFiles_def by (simp split: option.splits)

text \<open>
  When the generator succeeds, the four files are there with their contents, the private keys readable by their owner only and the certificates by
  everybody, whatever was in the directory before; no other file is touched, and the leaf certificate names every requested host,
  the addresses as addresses.
\<close>

theorem gencert_files:
  assumes "runGencert k um ok join args fs = (None, fs')" "\<And>d. inj (join d)"
  shows "\<exists>o' ni ck lk ca leaf ckd lkd. gencertArgs args \<lparr>go_hosts = [''naive.test''], go_out = ''.''\<rparr> = Inr o' \<and>
     ni = (filter (\<lambda>h. ParseIP h = None) (map TrimSpace (go_hosts o')), List.map_filter ParseIP (map TrimSpace (go_hosts o'))) \<and>
     pk_caKey k = Some ck \<and> pk_leafKey k = Some lk \<and>
     pk_cert k caTmpl ck = Some ca \<and> pk_cert k (leafTmpl ni) ck = Some leaf \<and> pk_marshal k ck = Some ckd \<and> pk_marshal k lk = Some lkd \<and>
     fs' (join (go_out o') ''ca.pem'') = Some (pemEncode ''CERTIFICATE'' ca, 420) \<and>
     fs' (join (go_out o') ''ca-key.pem'') = Some (pemEncode ''EC PRIVATE KEY'' ckd, 384) \<and>
     fs' (join (go_out o') ''server.pem'') = Some (pemEncode ''CERTIFICATE'' leaf, 420) \<and>
     fs' (join (go_out o') ''server-key.pem'') = Some (pemEncode ''EC PRIVATE KEY'' lkd, 384) \<and>
     (\<forall>p. p \<notin> join (go_out o') ` {''ca.pem'', ''ca-key.pem'', ''server.pem'', ''server-key.pem''} \<longrightarrow> fs' p = fs p)"
proof -
  obtain o' where o: "gencertArgs args \<lparr>go_hosts = [''naive.test''], go_out = ''.''\<rparr> = Inr o'"
    using assms(1) by (auto simp: runGencert_def split: sum.splits)
  obtain ns as where ni: "classifyHosts (go_hosts o') ([], []) = Inr (ns, as)"
    using assms(1) by (auto simp: runGencert_def o split: sum.splits)
  obtain files where files: "gencertFiles k (ns, as) = Inr files" and w: "writeAll um ok (join (go_out o')) files fs = (None, fs')"
    using assms(1) by (auto simp: runGencert_def o ni split: sum.splits if_splits)
  obtain ck lk ca leaf ckd lkd where c: "pk_caKey k = Some ck" "pk_leafKey k = Some lk" "pk_cert k caTmpl ck = Some ca"
    "pk_cert k (leafTmpl (ns, as)) ck = Some leaf" "pk_marshal k ck = Some ckd" "pk_marshal k lk = Some lkd" "files = pemFiles ca ckd leaf lkd"
    by (rule gencertFiles_Inr [OF files])
  have d: "distinct (map fst files)" by (simp add: pemFiles_def c(7))
  note f = writeAll_None [OF assms(2) d w, unfolded c(7)]
  have ni': "(ns, as) = (filter (\<lambda>h. ParseIP h = None) (map TrimSpace (go_hosts o')), List.map_filter ParseIP (map TrimSpace (go_hosts o')))"
    using classifyHosts_sound [OF ni] by auto
  show ?thesis
    by (rule exI [of _ o'], rule exI [of _ "(ns, as)"], rule exI [of _ ck], rule exI [of _ lk], rule exI [of _ ca], rule exI [of _ leaf],
        rule exI [of _ ckd], rule exI [of _ lkd]) (use o ni' c(1-6) f in \<open>simp add: pemFiles_def\<close>)
qed

text \<open>
  A failure before the first write leaves the file system as it was.  Between writing and changing the mode, a key that replaces an existing
  file has the permissions of that file.
\<close>

lemma key_window: "fs (join ''ca-key.pem'') = Some (old, 420) \<Longrightarrow> writeFile um (join ''ca-key.pem'') key 384 fs (join ''ca-key.pem'') = Some (key, 420)"
  by (simp add: writeFile_def)

text \<open>The argument loops read every flag with its value, in any order, the last one winning.\<close>

lemma gencertArgs_pair: "gencertArgs (''-out'' # v # rest) o' = gencertArgs rest (o'\<lparr>go_out := v\<rparr>)"
  "gencertArgs (''-hosts'' # v # rest) o' = gencertArgs rest (o'\<lparr>go_hosts := splitOn CHR '','' v\<rparr>)"
  by simp_all

lemma tlsServeArgs_complete: "tlsServeArgs args o' = Inr r \<Longrightarrow> to_cert r \<noteq> [] \<and> to_key r \<noteq> []"
  by (induction args o' rule: tlsServeArgs.induct) (auto split: if_splits list.splits)

text \<open>Nothing is served but an accepted configuration, and every refusal has a non-zero exit code.\<close>

lemma feMain_served:
  "snd (feMain gk gc ts load ns sf args) = Some cfg \<Longrightarrow> \<exists>p. feArgs args = RunServer p \<and> load p = Inr cfg \<and> ns cfg"
  "feArgs args = RunServer p \<Longrightarrow> snd (feMain gk gc ts load ns sf args) = None \<Longrightarrow> fst (feMain gk gc ts load ns sf args) = 1"
  by (auto simp: feMain_def split: feCommand.splits sum.splits if_splits)

end
