(* ===== verification/ProfileSave.thy ===== *)
theory ProfileSave
  imports ProfileStore
begin

text \<open>
  \<^verbatim>\<open>Store.Save\<close> of \<^verbatim>\<open>tui/internal/config/config.go\<close>: the store is written to a temporary file, which then replaces the old one.  The
  file system maps paths to contents; the JSON encoder, the path of the store and the outcome of every system call are parameters.
\<close>

type_synonym files = "string \<Rightarrow> string option"

record saveEnv =
  sv_path :: "string option"             \<comment> \<open>the path of the store, if it is known\<close>
  sv_mkdir :: bool
  sv_marshal :: "Store \<Rightarrow> string option"
  sv_written :: "nat option"             \<comment> \<open>the bytes written before writing failed, if it did\<close>
  sv_rename :: bool

datatype save_error = NoPath | NoDir | NotEncoded | NotWritten | NotRenamed

definition tmpPath :: "string \<Rightarrow> string" where
  "tmpPath path = path @ ''.tmp''"

text \<open>
  Where the store is: the environment gives the value of \<^verbatim>\<open>APPDATA\<close>, the home directory and the configuration directory of the user, the latter two
  if they are known; \<open>join\<close> is \<^verbatim>\<open>filepath.Join\<close>.
\<close>

definition Dir :: "bool \<Rightarrow> string \<Rightarrow> string option \<Rightarrow> string option \<Rightarrow> (string list \<Rightarrow> string) \<Rightarrow> string option" where
  "Dir windows appdata home userConfig join =
     (if windows then
        if appdata \<noteq> [] then Some (join [appdata, ''naivereal''])
        else map_option (\<lambda>h. join [join [h, ''AppData'', ''Roaming''], ''naivereal'']) home
      else map_option (\<lambda>c. join [c, ''naivereal'']) userConfig)"

definition Path :: "(string list \<Rightarrow> string) \<Rightarrow> string option \<Rightarrow> string option" where
  "Path join dir = map_option (\<lambda>d. join [d, ''profiles.json'']) dir"

text \<open>
  The states the file system goes through, for an interruption at any moment, and the result.  A file is emptied first and then grows.
\<close>

definition Save :: "saveEnv \<Rightarrow> Store \<Rightarrow> files \<Rightarrow> save_error option \<times> files list" where
  "Save env s fs =
     (case sv_path env of
        None \<Rightarrow> (Some NoPath, [fs])
      | Some path \<Rightarrow>
          if \<not> sv_mkdir env then (Some NoDir, [fs])
          else (case sv_marshal env s of
            None \<Rightarrow> (Some NotEncoded, [fs])
          | Some data \<Rightarrow>
              let tmp = tmpPath path; grow = (\<lambda>n. map (\<lambda>i. fs(tmp \<mapsto> take i data)) [0..<n + 1]) in
              (case sv_written env of
                 Some n \<Rightarrow> (Some NotWritten, fs # grow (min n (length data)))
               | None \<Rightarrow>
                   let full = fs # grow (length data) in
                   if \<not> sv_rename env then (Some NotRenamed, full)
                   else (None, full @ [(fs(path \<mapsto> data))(tmp := None)]))))"

section \<open>Properties\<close>

lemma tmpPath_other: "tmpPath p \<noteq> p"
  by (simp add: tmpPath_def)

text \<open>
  The store on disk is never half written: at every moment of saving the file of the store is the old one or the complete new one, and no file but
  it and the temporary one changes.
\<close>

lemma save_states:
  assumes "Save env s fs = (e, states)" "sv_path env = Some path" "sv_marshal env s = Some data" "f \<in> set states"
  shows "f path \<in> {fs path, Some data} \<and> (\<forall>p. p \<notin> {path, tmpPath path} \<longrightarrow> f p = fs p)"
  using assms tmpPath_other [of path] by (auto simp: Save_def Let_def split: if_splits option.splits)

text \<open>
  Saving is atomic and a saved store is loaded again: whatever fails or interrupts it, the file of the store has its old or its complete new
  content; and when saving reports success, loading gives the store with its defaults, for a decoder that undoes the encoder.
\<close>

theorem save_atomic:
  assumes "Save env s fs = (e, states)" "sv_path env = Some path" "sv_marshal env s = Some data" "decode data = Decoded s"
  shows "(\<forall>f \<in> set states. f path = fs path \<or> f path = Some data) \<and>
    (e = None \<longrightarrow> last states path = Some data \<and> last states (tmpPath path) = None \<and>
       loadStore (case last states path of None \<Rightarrow> NoSuchFile | Some d \<Rightarrow> decode d) = Inr (applyDefaults s)) \<and>
    (e \<noteq> None \<longrightarrow> last states path = fs path)"
proof (intro conjI impI ballI)
  fix f
  assume "f \<in> set states"
  then show "f path = fs path \<or> f path = Some data" using save_states [OF assms(1-3)] by blast
next
  assume "e = None"
  then have l: "last states = (fs(path \<mapsto> data))(tmpPath path := None)"
    using assms(1-3) by (auto simp: Save_def Let_def split: if_splits option.splits)
  then show "last states path = Some data" "last states (tmpPath path) = None" using tmpPath_other [of path] by auto
  then show "loadStore (case last states path of None \<Rightarrow> NoSuchFile | Some d \<Rightarrow> decode d) = Inr (applyDefaults s)"
    by (simp add: assms(4) loadStore_def)
next
  assume "e \<noteq> None"
  then show "last states path = fs path"
    using assms(1-3) tmpPath_other [of path] by (auto simp: Save_def Let_def split: if_splits option.splits)
qed

theorem save_atomic_witness:
  "\<exists>states. Save \<lparr>sv_path = Some ''profiles.json'', sv_mkdir = True, sv_marshal = (\<lambda>_. Some ''{}''), sv_written = None, sv_rename = True\<rparr>
      emptyStore Map.empty = (None, states) \<and> last states ''profiles.json'' = Some ''{}''"
proof -
  let ?env = "\<lparr>sv_path = Some ''profiles.json'', sv_mkdir = True, sv_marshal = (\<lambda>_. Some ''{}''), sv_written = None, sv_rename = True\<rparr>"
  obtain e states where r: "Save ?env emptyStore Map.empty = (e, states)" by fastforce
  then have e: "e = None" by (auto simp: Save_def Let_def)
  from save_atomic [OF r, of "''profiles.json''" "''{}''" "\<lambda>_. Decoded emptyStore"] r e show ?thesis by simp
qed

end
