(* ===== verification/RelayTunnel.thy ===== *)
theory RelayTunnel
  imports Splice
begin

text \<open>
  The tunnels of the front ends, which start where \<^verbatim>\<open>HttpRelay\<close> and \<^verbatim>\<open>H3Origin\<close> end: the second halves of \<^verbatim>\<open>serveH1Connect\<close> and
  \<^verbatim>\<open>handleRequest\<close> (\<^verbatim>\<open>frontend/relay.go\<close>) and of \<^verbatim>\<open>relayHandler.ServeHTTP\<close> (\<^verbatim>\<open>h3frontend/relay.go\<close>).  Two goroutines copy, the first to end
  makes the handler close the upstream connection, and the second has five seconds.  Unlike in \<^verbatim>\<open>Splice\<close> the directions of
  a connection are closed one by one, and the readers have a buffer of their own that survives the closing of the connection.
\<close>

section \<open>Halves of connections\<close>

text \<open>
  The reading half: the bytes in the \<^verbatim>\<open>bufio\<close> buffer, those that have arrived behind them, all bytes read so far, whether the peer has ended, whether
  the connection is broken, and whether it has been closed here.  The writing half: the bytes written.
\<close>

record rdHalf =
  rd_ahead :: "byte list"
  rd_arrived :: "byte list"
  rd_taken :: "byte list"
  rd_eof :: bool
  rd_broken :: bool
  rd_closed :: bool

record wrHalf =
  wr_sent :: "byte list"
  wr_broken :: bool
  wr_closed :: bool

definition readable :: "rdHalf \<Rightarrow> byte list" where
  "readable r = (if rd_ahead r \<noteq> [] then rd_ahead r else if rd_closed r then [] else rd_arrived r)"

definition consume :: "nat \<Rightarrow> rdHalf \<Rightarrow> rdHalf" where
  "consume n r =
     (if rd_ahead r \<noteq> [] then r\<lparr>rd_ahead := drop n (rd_ahead r), rd_taken := rd_taken r @ take n (rd_ahead r)\<rparr>
      else r\<lparr>rd_arrived := drop n (rd_arrived r), rd_taken := rd_taken r @ take n (rd_arrived r)\<rparr>)"

text \<open>One round of \<^verbatim>\<open>io.Copy\<close>, and whether it was the last.\<close>

fun copyRound :: "copyOp \<Rightarrow> rdHalf \<Rightarrow> wrHalf \<Rightarrow> (rdHalf \<times> wrHalf \<times> bool) option" where
  "copyRound (Moved n) r w =
     (if 0 < n \<and> n \<le> length (readable r) \<and> \<not> wr_closed w
      then Some (consume n r, w\<lparr>wr_sent := wr_sent w @ take n (readable r)\<rparr>, False) else None)"
| "copyRound (WriteFailed n m) r w =
     (if 0 < n \<and> n \<le> length (readable r) \<and> m \<le> n \<and> (wr_closed w \<or> wr_broken w)
      then Some (consume n r, w\<lparr>wr_sent := wr_sent w @ take m (readable r)\<rparr>, True) else None)"
| "copyRound AtEof r w = (if readable r = [] \<and> \<not> rd_closed r \<and> rd_eof r then Some (r, w, True) else None)"
| "copyRound ReadFailed r w = (if rd_ahead r = [] \<and> (rd_closed r \<or> rd_broken r) then Some (r, w, True) else None)"

section \<open>The response writer of HTTP/2\<close>

text \<open>The response writer buffers what is written; \<^verbatim>\<open>flushWriter\<close> sends it on at once.\<close>

record respWriter =
  rw_buffered :: "byte list"
  rw_wire :: "byte list"

definition rwFlush :: "respWriter \<Rightarrow> respWriter" where
  "rwFlush w = \<lparr>rw_buffered = [], rw_wire = rw_wire w @ rw_buffered w\<rparr>"

definition flushWrite :: "byte list \<Rightarrow> respWriter \<Rightarrow> respWriter" where
  "flushWrite bs w = rwFlush (w\<lparr>rw_buffered := rw_buffered w @ bs\<rparr>)"

section \<open>The handler\<close>

datatype tunnelKind = H1Tunnel | H2Tunnel | H3Tunnel

datatype relayPc = AwaitFirst | AwaitSecond | HandlerReturned

record relayTunnel =
  rt_cin :: rdHalf        \<comment> \<open>from the client\<close>
  rt_uout :: wrHalf       \<comment> \<open>to the upstream server\<close>
  rt_uin :: rdHalf        \<comment> \<open>from the upstream server\<close>
  rt_cout :: wrHalf       \<comment> \<open>to the client\<close>
  rt_upEnded :: bool
  rt_downEnded :: bool
  rt_done :: nat
  rt_timer :: bool        \<comment> \<open>five seconds have passed since the first wait\<close>
  rt_pc :: relayPc

datatype relayLabel = RUp copyOp | RDown copyOp | RFirst | RSecond | RTimeout

definition closeUpstream :: "relayTunnel \<Rightarrow> relayTunnel" where
  "closeUpstream s = s\<lparr>rt_uin := (rt_uin s)\<lparr>rd_closed := True\<rparr>, rt_uout := (rt_uout s)\<lparr>wr_closed := True\<rparr>\<rparr>"

text \<open>\<^verbatim>\<open>stream.Close\<close> ends the sending half of the HTTP/3 stream only.\<close>

definition closeStream :: "tunnelKind \<Rightarrow> wrHalf \<Rightarrow> wrHalf" where
  "closeStream k w = (if k = H3Tunnel then w\<lparr>wr_closed := True\<rparr> else w)"

text \<open>
  What happens when the handler returns: the deferred \<^verbatim>\<open>up.Close\<close>; then \<^verbatim>\<open>handleConn\<close> closes the connection of an HTTP/1.1 client, the HTTP/2 server closes
  the body and the stream of a request, and nobody closes an HTTP/3 stream that has been taken over.
\<close>

definition leaveHandler :: "tunnelKind \<Rightarrow> relayTunnel \<Rightarrow> relayTunnel" where
  "leaveHandler k s =
     (let s' = closeUpstream (s\<lparr>rt_pc := HandlerReturned\<rparr>) in
      if k = H3Tunnel then s'
      else s'\<lparr>rt_cin := (rt_cin s)\<lparr>rd_closed := True\<rparr>, rt_cout := (rt_cout s)\<lparr>wr_closed := True\<rparr>\<rparr>)"

text \<open>The upward goroutine ends with \<^verbatim>\<open>CloseWrite\<close>, the downward one of HTTP/3 with \<^verbatim>\<open>stream.Close\<close>.\<close>

fun relayStep :: "tunnelKind \<Rightarrow> relayLabel \<Rightarrow> relayTunnel \<Rightarrow> relayTunnel option" where
  "relayStep k (RUp p) s =
     (if rt_upEnded s then None
      else map_option (\<lambda>(r, w, e). s\<lparr>rt_cin := r, rt_uout := (if e then w\<lparr>wr_closed := True\<rparr> else w), rt_upEnded := e,
                         rt_done := rt_done s + (if e then 1 else 0)\<rparr>)
             (copyRound p (rt_cin s) (rt_uout s)))"
| "relayStep k (RDown p) s =
     (if rt_downEnded s then None
      else map_option (\<lambda>(r, w, e). s\<lparr>rt_uin := r, rt_cout := (if e then closeStream k w else w), rt_downEnded := e,
                         rt_done := rt_done s + (if e then 1 else 0)\<rparr>)
             (copyRound p (rt_uin s) (rt_cout s)))"
| "relayStep k RFirst s =
     (if rt_pc s = AwaitFirst \<and> 0 < rt_done s
      then Some (closeUpstream (s\<lparr>rt_pc := AwaitSecond, rt_done := rt_done s - 1, rt_cout := closeStream k (rt_cout s)\<rparr>)) else None)"
| "relayStep k RSecond s =
     (if rt_pc s = AwaitSecond \<and> 0 < rt_done s then Some (leaveHandler k (s\<lparr>rt_done := rt_done s - 1\<rparr>)) else None)"
| "relayStep k RTimeout s = (if rt_pc s = AwaitSecond \<and> rt_timer s then Some (leaveHandler k s) else None)"

text \<open>What the peers and the clock may do meanwhile.\<close>

datatype relayPeer = ClientSends "byte list" | ServerSends "byte list" | ClientEnds | ServerEnds | ClientBreaks | ServerBreaks | Elapse

fun relayPeerStep :: "relayPeer \<Rightarrow> relayTunnel \<Rightarrow> relayTunnel" where
  "relayPeerStep (ClientSends bs) s = (if rd_eof (rt_cin s) then s else s\<lparr>rt_cin := (rt_cin s)\<lparr>rd_arrived := rd_arrived (rt_cin s) @ bs\<rparr>\<rparr>)"
| "relayPeerStep (ServerSends bs) s = (if rd_eof (rt_uin s) then s else s\<lparr>rt_uin := (rt_uin s)\<lparr>rd_arrived := rd_arrived (rt_uin s) @ bs\<rparr>\<rparr>)"
| "relayPeerStep ClientEnds s = s\<lparr>rt_cin := (rt_cin s)\<lparr>rd_eof := True\<rparr>\<rparr>"
| "relayPeerStep ServerEnds s = s\<lparr>rt_uin := (rt_uin s)\<lparr>rd_eof := True\<rparr>\<rparr>"
| "relayPeerStep ClientBreaks s = s\<lparr>rt_cin := (rt_cin s)\<lparr>rd_broken := True\<rparr>, rt_cout := (rt_cout s)\<lparr>wr_broken := True\<rparr>\<rparr>"
| "relayPeerStep ServerBreaks s = s\<lparr>rt_uin := (rt_uin s)\<lparr>rd_broken := True\<rparr>, rt_uout := (rt_uout s)\<lparr>wr_broken := True\<rparr>\<rparr>"
| "relayPeerStep Elapse s = (if rt_pc s = AwaitSecond then s\<lparr>rt_timer := True\<rparr> else s)"

text \<open>
  The start of a tunnel: \<open>c\<close> and \<open>u\<close> are the bytes that the readers of the request and of the response have buffered behind the heads.
\<close>

definition tunnelStart :: "byte list \<Rightarrow> byte list \<Rightarrow> relayTunnel" where
  "tunnelStart c u =
     (let rd = (\<lambda>bs. \<lparr>rd_ahead = bs, rd_arrived = [], rd_taken = [], rd_eof = False, rd_broken = False, rd_closed = False\<rparr>);
          wr = \<lparr>wr_sent = [], wr_broken = False, wr_closed = False\<rparr> in
      \<lparr>rt_cin = rd c, rt_uout = wr, rt_uin = rd u, rt_cout = wr, rt_upEnded = False, rt_downEnded = False, rt_done = 0, rt_timer = False,
       rt_pc = AwaitFirst\<rparr>)"

inductive relay_steps :: "tunnelKind \<Rightarrow> relayTunnel \<Rightarrow> relayTunnel \<Rightarrow> bool" for k s0 where
  refl: "relay_steps k s0 s0"
| prog: "relay_steps k s0 s \<Longrightarrow> relayStep k l s = Some s' \<Longrightarrow> relay_steps k s0 s'"
| peer: "relay_steps k s0 s \<Longrightarrow> relay_steps k s0 (relayPeerStep p s)"

section \<open>Rounds\<close>

text \<open>All bytes a reader has had or will have from what has arrived.\<close>

definition rdAll :: "rdHalf \<Rightarrow> byte list" where
  "rdAll r = rd_taken r @ rd_ahead r @ rd_arrived r"

definition rdUnread :: "rdHalf \<Rightarrow> nat" where
  "rdUnread r = length (rd_ahead r) + length (rd_arrived r)"

definition rdEnds :: "rdHalf \<Rightarrow> bool" where
  "rdEnds r \<longleftrightarrow> rd_eof r \<or> rd_broken r"

definition rdQuiet :: "rdHalf \<Rightarrow> bool" where
  "rdQuiet r \<longleftrightarrow> \<not> rd_closed r \<and> rdUnread r = 0 \<and> \<not> rdEnds r"

definition halves_ok :: "bool \<Rightarrow> rdHalf \<Rightarrow> wrHalf \<Rightarrow> bool" where
  "halves_ok e r w \<longleftrightarrow> prefix (wr_sent w) (rd_taken r) \<and> (\<not> e \<longrightarrow> wr_sent w = rd_taken r)"

lemmas half_defs = readable_def consume_def rdAll_def rdUnread_def rdEnds_def halves_ok_def

lemma copyRound_ok:
  assumes "copyRound p r w = Some (r', w', e)" "halves_ok False r w"
  shows "halves_ok e r' w'"
  using assms by (cases p) (auto simp: half_defs take_prefix_take split: if_splits)

lemma copyRound_keeps:
  assumes "copyRound p r w = Some (r', w', e)"
  shows "rdAll r' = rdAll r" "rd_closed r' = rd_closed r" "rdEnds r' = rdEnds r" "wr_closed w' = wr_closed w"
    "rdUnread r' + (if e then 0 else 1) < rdUnread r + 1"
  using assms by (cases p; auto simp: half_defs split: if_splits)+

text \<open>A closed reader gives only what is buffered.\<close>

lemma copyRound_closed:
  assumes "copyRound p r w = Some (r', w', e)" "rd_closed r"
  shows "rd_taken r' @ rd_ahead r' = rd_taken r @ rd_ahead r" "rd_arrived r' = rd_arrived r"
  using assms by (cases p; auto simp: half_defs split: if_splits)+

lemma copyRound_None:
  assumes "\<forall>p. copyRound p r w = None"
  shows "rdQuiet r"
proof -
  have "copyRound ReadFailed r w = None" "copyRound AtEof r w = None" "copyRound (Moved 1) r w = None"
    "copyRound (WriteFailed 1 0) r w = None" using assms by blast+
  then show ?thesis by (cases "rd_ahead r"; cases "rd_arrived r") (auto simp: rdQuiet_def half_defs split: if_splits)
qed

section \<open>Invariant\<close>

definition rtEnded :: "relayTunnel \<Rightarrow> nat" where
  "rtEnded s = (if rt_upEnded s then 1 else 0) + (if rt_downEnded s then 1 else 0)"

definition pc_ok :: "tunnelKind \<Rightarrow> relayTunnel \<Rightarrow> bool" where
  "pc_ok k s \<longleftrightarrow>
     (case rt_pc s of
        AwaitFirst \<Rightarrow> rt_done s = rtEnded s \<and> \<not> rd_closed (rt_uin s) \<and> \<not> rd_closed (rt_cin s) \<and> \<not> rt_timer s
      | AwaitSecond \<Rightarrow> rt_done s + 1 = rtEnded s \<and> rd_closed (rt_uin s) \<and> wr_closed (rt_uout s) \<and> \<not> rd_closed (rt_cin s)
      | HandlerReturned \<Rightarrow> rd_closed (rt_uin s) \<and> wr_closed (rt_uout s) \<and> (rd_closed (rt_cin s) \<longleftrightarrow> k \<noteq> H3Tunnel))"

definition relay_inv :: "tunnelKind \<Rightarrow> relayTunnel \<Rightarrow> bool" where
  "relay_inv k s \<longleftrightarrow> halves_ok (rt_upEnded s) (rt_cin s) (rt_uout s) \<and> halves_ok (rt_downEnded s) (rt_uin s) (rt_cout s) \<and> pc_ok k s"

lemma halves_ok_closed [simp]:
  "halves_ok e r (w\<lparr>wr_closed := b\<rparr>) = halves_ok e r w" "halves_ok e (r\<lparr>rd_closed := b\<rparr>) w = halves_ok e r w"
  "halves_ok e r (closeStream k w) = halves_ok e r w"
  by (auto simp: halves_ok_def closeStream_def)

lemma relayStep_UpE:
  assumes "relayStep k (RUp p) s = Some s'"
  obtains r w e where "\<not> rt_upEnded s" "copyRound p (rt_cin s) (rt_uout s) = Some (r, w, e)"
    "s' = s\<lparr>rt_cin := r, rt_uout := (if e then w\<lparr>wr_closed := True\<rparr> else w), rt_upEnded := e, rt_done := rt_done s + (if e then 1 else 0)\<rparr>"
  using assms by (auto split: if_splits)

lemma relayStep_DownE:
  assumes "relayStep k (RDown p) s = Some s'"
  obtains r w e where "\<not> rt_downEnded s" "copyRound p (rt_uin s) (rt_cout s) = Some (r, w, e)"
    "s' = s\<lparr>rt_uin := r, rt_cout := (if e then closeStream k w else w), rt_downEnded := e, rt_done := rt_done s + (if e then 1 else 0)\<rparr>"
  using assms by (auto split: if_splits)

lemma relay_inv_Up:
  assumes "relayStep k (RUp p) s = Some s'" "relay_inv k s"
  shows "relay_inv k s'"
proof (rule relayStep_UpE [OF assms(1)])
  fix r w e
  assume c: "\<not> rt_upEnded s" "copyRound p (rt_cin s) (rt_uout s) = Some (r, w, e)"
    and s': "s' = s\<lparr>rt_cin := r, rt_uout := (if e then w\<lparr>wr_closed := True\<rparr> else w), rt_upEnded := e, rt_done := rt_done s + (if e then 1 else 0)\<rparr>"
  show ?thesis using assms(2) c(1) copyRound_ok [OF c(2)] copyRound_keeps(2,4) [OF c(2)]
    by (cases "rt_pc s") (auto simp: s' relay_inv_def pc_ok_def rtEnded_def)
qed

lemma relay_inv_Down:
  assumes "relayStep k (RDown p) s = Some s'" "relay_inv k s"
  shows "relay_inv k s'"
proof (rule relayStep_DownE [OF assms(1)])
  fix r w e
  assume c: "\<not> rt_downEnded s" "copyRound p (rt_uin s) (rt_cout s) = Some (r, w, e)"
    and s': "s' = s\<lparr>rt_uin := r, rt_cout := (if e then closeStream k w else w), rt_downEnded := e, rt_done := rt_done s + (if e then 1 else 0)\<rparr>"
  show ?thesis using assms(2) c(1) copyRound_ok [OF c(2)] copyRound_keeps(2) [OF c(2)]
    by (cases "rt_pc s") (auto simp: s' relay_inv_def pc_ok_def rtEnded_def)
qed

lemma relay_inv_step:
  assumes "relayStep k l s = Some s'" "relay_inv k s"
  shows "relay_inv k s'"
proof (cases l)
  case (RUp p)
  then show ?thesis using assms relay_inv_Up by blast
next
  case (RDown p)
  then show ?thesis using assms relay_inv_Down by blast
next
  case RFirst
  then show ?thesis using assms by (auto simp: relay_inv_def pc_ok_def closeUpstream_def rtEnded_def split: if_splits)
qed (use assms in \<open>auto simp: relay_inv_def pc_ok_def closeUpstream_def leaveHandler_def Let_def rtEnded_def split: if_splits\<close>)

lemma relay_inv_peer: "relay_inv k s \<Longrightarrow> relay_inv k (relayPeerStep p s)"
  by (cases p) (auto simp: relay_inv_def pc_ok_def halves_ok_def rtEnded_def split: relayPc.splits if_splits)

lemma relay_inv_start: "relay_inv k (tunnelStart c u)"
  by (simp add: relay_inv_def tunnelStart_def pc_ok_def halves_ok_def rtEnded_def Let_def)

lemma relay_inv_steps: "relay_steps k s0 s \<Longrightarrow> relay_inv k s0 \<Longrightarrow> relay_inv k s"
  by (induction rule: relay_steps.induct) (auto intro: relay_inv_step relay_inv_peer)

section \<open>Integrity\<close>

lemma relayStep_data:
  assumes "relayStep k l s = Some s'"
  shows "rdAll (rt_cin s') = rdAll (rt_cin s)" "rdAll (rt_uin s') = rdAll (rt_uin s)"
    "rdEnds (rt_cin s') = rdEnds (rt_cin s)" "rdEnds (rt_uin s') = rdEnds (rt_uin s)"
proof -
  have "rdAll (rt_cin s') = rdAll (rt_cin s) \<and> rdAll (rt_uin s') = rdAll (rt_uin s) \<and>
     rdEnds (rt_cin s') = rdEnds (rt_cin s) \<and> rdEnds (rt_uin s') = rdEnds (rt_uin s)"
  proof (cases l)
    case (RUp p)
    show ?thesis by (rule relayStep_UpE [OF assms [unfolded RUp]]) (simp add: copyRound_keeps(1,3))
  next
    case (RDown p)
    show ?thesis by (rule relayStep_DownE [OF assms [unfolded RDown]]) (simp add: copyRound_keeps(1,3))
  qed (use assms in \<open>auto simp: closeUpstream_def leaveHandler_def Let_def rdAll_def rdEnds_def split: if_splits\<close>)
  then show "rdAll (rt_cin s') = rdAll (rt_cin s)" "rdAll (rt_uin s') = rdAll (rt_uin s)"
    "rdEnds (rt_cin s') = rdEnds (rt_cin s)" "rdEnds (rt_uin s') = rdEnds (rt_uin s)" by auto
qed

lemma relayPeer_data: "\<exists>bs bs'. rdAll (rt_cin (relayPeerStep p s)) = rdAll (rt_cin s) @ bs \<and> rdAll (rt_uin (relayPeerStep p s)) = rdAll (rt_uin s) @ bs'"
  by (cases p) (simp_all add: rdAll_def)

lemma halves_ok_prefix: "halves_ok e r w \<Longrightarrow> prefix (wr_sent w) (rdAll r)"
  by (metis halves_ok_def rdAll_def prefix_order.trans prefixI)

lemma copyRound_eof:
  assumes "copyRound AtEof r w = Some (r', w', e)" "halves_ok False r w"
  shows "wr_sent w' = rdAll r'"
  using assms by (auto simp: half_defs split: if_splits)

text \<open>
  (C14) The tunnels of the front ends are transparent: whatever the interleaving, what has been sent to either side is a prefix of what the other one
  has sent, beginning with the bytes buffered behind the request and the response; no step of the program loses a byte that has
  arrived; and a direction that ends because its sender has ended has delivered everything.
\<close>

theorem relay_tunnel_integrity:
  assumes "relay_steps k (tunnelStart c u) s"
  shows "prefix (wr_sent (rt_uout s)) (rdAll (rt_cin s)) \<and> prefix (wr_sent (rt_cout s)) (rdAll (rt_uin s)) \<and>
    prefix c (rdAll (rt_cin s)) \<and> prefix u (rdAll (rt_uin s)) \<and>
    (\<forall>l s'. relayStep k l s = Some s' \<longrightarrow> rdAll (rt_cin s') = rdAll (rt_cin s) \<and> rdAll (rt_uin s') = rdAll (rt_uin s) \<and>
       (l = RUp AtEof \<longrightarrow> wr_sent (rt_uout s') = rdAll (rt_cin s)) \<and> (l = RDown AtEof \<longrightarrow> wr_sent (rt_cout s') = rdAll (rt_uin s)))"
proof (intro conjI allI impI)
  have inv: "relay_inv k s" by (rule relay_inv_steps [OF assms relay_inv_start])
  then show "prefix (wr_sent (rt_uout s)) (rdAll (rt_cin s))" "prefix (wr_sent (rt_cout s)) (rdAll (rt_uin s))"
    by (auto simp: relay_inv_def intro: halves_ok_prefix)
  have "prefix c (rdAll (rt_cin s)) \<and> prefix u (rdAll (rt_uin s))"
    using assms
  proof (induction rule: relay_steps.induct)
    case refl
    show ?case by (simp add: tunnelStart_def rdAll_def Let_def)
  next
    case (prog s l s')
    then show ?case by (simp add: relayStep_data)
  next
    case (peer s p)
    then show ?case using relayPeer_data [of p s] by (metis prefix_prefix)
  qed
  then show "prefix c (rdAll (rt_cin s))" "prefix u (rdAll (rt_uin s))" by auto
  fix l s'
  assume st: "relayStep k l s = Some s'"
  show d: "rdAll (rt_cin s') = rdAll (rt_cin s)" "rdAll (rt_uin s') = rdAll (rt_uin s)" using relayStep_data [OF st] by auto
  show "wr_sent (rt_uout s') = rdAll (rt_cin s)" if "l = RUp AtEof"
    by (rule relayStep_UpE [OF st [unfolded that]]) (use inv d(1) in \<open>simp add: relay_inv_def copyRound_eof\<close>)
  show "wr_sent (rt_cout s') = rdAll (rt_uin s)" if "l = RDown AtEof"
    by (rule relayStep_DownE [OF st [unfolded that]]) (use inv d(2) in \<open>simp add: relay_inv_def closeStream_def copyRound_eof\<close>)
qed

text \<open>
  (C15) The end of one direction cuts the other: from the moment the handler has seen it, the client gets at most what the reader of the upstream
  connection had already taken or buffered; what has arrived behind that is lost.
\<close>

theorem half_close_cuts:
  assumes "relay_steps k (tunnelStart c u) s" "relayStep k RFirst s = Some s1" "relay_steps k s1 s2"
  shows "prefix (wr_sent (rt_cout s2)) (rd_taken (rt_uin s) @ rd_ahead (rt_uin s))"
proof -
  have i: "relay_inv k s1" using relay_inv_step [OF assms(2) relay_inv_steps [OF assms(1) relay_inv_start]] .
  have s1: "rd_closed (rt_uin s1)" "rd_taken (rt_uin s1) @ rd_ahead (rt_uin s1) = rd_taken (rt_uin s) @ rd_ahead (rt_uin s)"
    using assms(2) by (auto simp: closeUpstream_def split: if_splits)
  have "rd_closed (rt_uin s2) \<and> rd_taken (rt_uin s2) @ rd_ahead (rt_uin s2) = rd_taken (rt_uin s1) @ rd_ahead (rt_uin s1)"
    using assms(3)
  proof (induction rule: relay_steps.induct)
    case (prog s l s')
    show ?case
    proof (cases l)
      case (RUp p)
      show ?thesis by (rule relayStep_UpE [OF prog(2) [unfolded RUp]]) (simp add: prog.IH)
    next
      case (RDown p)
      show ?thesis by (rule relayStep_DownE [OF prog(2) [unfolded RDown]]) (simp add: prog.IH copyRound_keeps(2) copyRound_closed(1))
    qed (use prog in \<open>auto simp: closeUpstream_def leaveHandler_def Let_def split: if_splits\<close>)
  next
    case (peer s p)
    then show ?case by (cases p) auto
  qed (use s1 in simp)
  moreover have "prefix (wr_sent (rt_cout s2)) (rd_taken (rt_uin s2))"
    using relay_inv_steps [OF assms(3) i] by (simp add: relay_inv_def halves_ok_def)
  ultimately show ?thesis using s1(2) by (metis prefix_prefix)
qed

section \<open>Returning\<close>

abbreviation relayRun :: "tunnelKind \<Rightarrow> relayLabel list \<Rightarrow> relayTunnel \<Rightarrow> relayTunnel option" where
  "relayRun k \<equiv> runSteps (relayStep k)"

abbreviation relayStuck :: "tunnelKind \<Rightarrow> relayTunnel \<Rightarrow> bool" where
  "relayStuck k \<equiv> atRest (relayStep k)"

fun pcLeft :: "relayPc \<Rightarrow> nat" where
  "pcLeft AwaitFirst = 2"
| "pcLeft AwaitSecond = 1"
| "pcLeft HandlerReturned = 0"

definition relayLeft :: "relayTunnel \<Rightarrow> nat" where
  "relayLeft s = rdUnread (rt_cin s) + rdUnread (rt_uin s) + (2 - rtEnded s) + pcLeft (rt_pc s)"

lemma relayLeft_step:
  assumes "relayStep k l s = Some s'"
  shows "relayLeft s' < relayLeft s"
proof (cases l)
  case (RUp p)
  show ?thesis
  proof (rule relayStep_UpE [OF assms [unfolded RUp]])
    fix r w e
    assume c: "\<not> rt_upEnded s" "copyRound p (rt_cin s) (rt_uout s) = Some (r, w, e)"
      and s': "s' = s\<lparr>rt_cin := r, rt_uout := (if e then w\<lparr>wr_closed := True\<rparr> else w), rt_upEnded := e, rt_done := rt_done s + (if e then 1 else 0)\<rparr>"
    show ?thesis using c(1) copyRound_keeps(5) [OF c(2)] by (cases e) (simp_all add: s' relayLeft_def rtEnded_def)
  qed
next
  case (RDown p)
  show ?thesis
  proof (rule relayStep_DownE [OF assms [unfolded RDown]])
    fix r w e
    assume c: "\<not> rt_downEnded s" "copyRound p (rt_uin s) (rt_cout s) = Some (r, w, e)"
      and s': "s' = s\<lparr>rt_uin := r, rt_cout := (if e then closeStream k w else w), rt_downEnded := e, rt_done := rt_done s + (if e then 1 else 0)\<rparr>"
    show ?thesis using c(1) copyRound_keeps(5) [OF c(2)] by (cases e) (simp_all add: s' relayLeft_def rtEnded_def)
  qed
qed (use assms in \<open>auto simp: relayLeft_def rtEnded_def rdUnread_def closeUpstream_def leaveHandler_def Let_def split: if_splits\<close>)

interpretation rel: bounded_steps "relayStep k" relayLeft "\<lambda>s. (rdEnds (rt_cin s), rdEnds (rt_uin s))" for k
  by unfold_locales (auto dest: relayLeft_step relayStep_data(3,4) simp del: relayStep.simps)

lemma relayRun_steps: "relayRun k ls s = Some s' \<Longrightarrow> relay_steps k s0 s \<Longrightarrow> relay_steps k s0 s'"
  by (rule runSteps_invariant [where P = "relay_steps k s0"]) (auto intro: relay_steps.prog simp del: relayStep.simps)

text \<open>When nothing can happen, each copy has ended or waits for its quiet source.\<close>

lemma relayStuck_copies:
  assumes "relayStuck k s"
  shows "rt_upEnded s \<or> rdQuiet (rt_cin s)" "rt_downEnded s \<or> rdQuiet (rt_uin s)"
proof -
  have n: "relayStep k (RUp p) s = None" "relayStep k (RDown p) s = None" for p using assms by (auto simp only: atRest_def)
  show "rt_upEnded s \<or> rdQuiet (rt_cin s)"
  proof (cases "rt_upEnded s")
    case False
    then have "copyRound p (rt_cin s) (rt_uout s) = None" for p using n(1) [of p] by simp
    then show ?thesis using copyRound_None by blast
  qed simp
  show "rt_downEnded s \<or> rdQuiet (rt_uin s)"
  proof (cases "rt_downEnded s")
    case False
    then have "copyRound p (rt_uin s) (rt_cout s) = None" for p using n(2) [of p] by simp
    then show ?thesis using copyRound_None by blast
  qed simp
qed

lemma relayStuck_pc:
  assumes "relayStuck k s" "relay_inv k s" "rdEnds (rt_cin s) \<or> rdEnds (rt_uin s)"
  shows "rt_pc s \<noteq> AwaitFirst"
proof
  assume pc: "rt_pc s = AwaitFirst"
  have "relayStep k RFirst s = None" using assms(1) by (auto simp only: atRest_def)
  then have "rtEnded s = 0" using pc assms(2) by (simp add: relay_inv_def pc_ok_def split: if_splits)
  then show False using relayStuck_copies [OF assms(1)] assms(3) by (auto simp: rtEnded_def rdQuiet_def split: if_splits)
qed


section \<open>Examples\<close>

text \<open>A client that ends its side after the request: the answer of the server has arrived, and is lost.\<close>

definition exampleRd :: "byte list \<Rightarrow> byte list \<Rightarrow> byte list \<Rightarrow> bool \<Rightarrow> rdHalf" where
  "exampleRd ahead arrived done eof = \<lparr>rd_ahead = ahead, rd_arrived = arrived, rd_taken = done, rd_eof = eof, rd_broken = False, rd_closed = False\<rparr>"

definition exampleTunnel :: "rdHalf \<Rightarrow> byte list \<Rightarrow> bool \<Rightarrow> relayTunnel" where
  "exampleTunnel r sent e =
     \<lparr>rt_cin = r, rt_uout = \<lparr>wr_sent = sent, wr_broken = False, wr_closed = e\<rparr>, rt_uin = exampleRd [] [9] [] False,
      rt_cout = \<lparr>wr_sent = [], wr_broken = False, wr_closed = False\<rparr>, rt_upEnded = e, rt_downEnded = False, rt_done = (if e then 1 else 0),
      rt_timer = False, rt_pc = AwaitFirst\<rparr>"

definition exampleRequest :: relayTunnel where
  "exampleRequest = exampleTunnel (exampleRd [1, 2] [] [] True) [] False"

lemma exampleRequest_steps: "relay_steps k (tunnelStart [1, 2] []) exampleRequest"
proof -
  have eq: "exampleRequest = relayPeerStep (ServerSends [9]) (relayPeerStep ClientEnds (tunnelStart [1, 2] []))"
    by (simp add: exampleRequest_def exampleTunnel_def exampleRd_def tunnelStart_def Let_def)
  show ?thesis unfolding eq by (intro relay_steps.peer relay_steps.refl)
qed

lemma exampleRequest_run:
  "relayStep k (RUp (Moved 2)) exampleRequest = Some (exampleTunnel (exampleRd [] [] [1, 2] True) [1, 2] False)"
  "relayStep k (RUp AtEof) (exampleTunnel (exampleRd [] [] [1, 2] True) [1, 2] False) = Some (exampleTunnel (exampleRd [] [] [1, 2] True) [1, 2] True)"
  by (simp_all add: exampleRequest_def exampleTunnel_def exampleRd_def readable_def consume_def)

theorem relay_tunnel_integrity_witness:
  "prefix [1, 2] (rdAll (rt_cin exampleRequest)) \<and> prefix (wr_sent (rt_uout exampleRequest)) (rdAll (rt_cin exampleRequest))"
  using relay_tunnel_integrity [OF exampleRequest_steps, of H1Tunnel] by simp

theorem half_close_cuts_witness:
  "\<exists>s s1. relay_steps H1Tunnel (tunnelStart [1, 2] []) s \<and> relayStep H1Tunnel RFirst s = Some s1 \<and> rd_arrived (rt_uin s) = [9] \<and>
     (\<forall>s2. relay_steps H1Tunnel s1 s2 \<longrightarrow> wr_sent (rt_cout s2) = [])"
proof -
  let ?s = "exampleTunnel (exampleRd [] [] [1, 2] True) [1, 2] True"
  have r: "relay_steps H1Tunnel (tunnelStart [1, 2] []) ?s"
    by (rule relay_steps.prog [OF relay_steps.prog [OF exampleRequest_steps exampleRequest_run(1)] exampleRequest_run(2)])
  obtain s1 where s1: "relayStep H1Tunnel RFirst ?s = Some s1" by (simp add: exampleTunnel_def)
  have u: "rd_taken (rt_uin ?s) = []" "rd_ahead (rt_uin ?s) = []" "rd_arrived (rt_uin ?s) = [9]"
    by (simp_all add: exampleTunnel_def exampleRd_def)
  show ?thesis using r s1 u half_close_cuts [OF r s1] by (intro exI [of _ ?s] exI [of _ s1]) simp
qed


text \<open>Everything given to \<^verbatim>\<open>flushWriter\<close> is on the wire when it returns, in order.\<close>

lemma flushWrite_wire: "rw_buffered w = [] \<Longrightarrow> fold flushWrite bss w = \<lparr>rw_buffered = [], rw_wire = rw_wire w @ concat bss\<rparr>"
  by (induction bss arbitrary: w) (simp_all add: flushWrite_def rwFlush_def)

end
