(* ===== verification/RealityClient.thy ===== *)
theory RealityClient
  imports Bytes
begin

text \<open>
  The reference client of REALITY, \<^verbatim>\<open>frontend/internal/realitytest/realitytest.go\<close>: the session identifier that proves to the server who the client is,
  and the check of the certificate that proves to the client who the server is.  The TLS library and the cryptographic primitives are
  parameters; what the proofs need of authenticated encryption is stated where it is used.
\<close>

section \<open>Model\<close>

record realityClient =
  rc_AuthKey :: "byte list"
  rc_Verified :: bool
  rc_PresentedLeaf :: "byte list"

text \<open>The fields of a parsed certificate: its public key if it is an Ed25519 key, and its signature.\<close>

record leafCert =
  lc_Ed25519 :: "byte list option"
  lc_Signature :: "byte list"

datatype reality_error =
    DialFailed | NoCertificates | BadCertificate | NotReality | BuildFailed | HelloUnusable | BadServerKey | NoKeyShare | EcdhFailed
  | HkdfFailed | CipherFailed

record clientHello =
  he_Raw :: "byte list option"    \<comment> \<open>the serialised message, which may be missing\<close>
  he_Random :: "byte list"

record realityEnv =
  rv_dial :: bool
  rv_hello :: "clientHello option"
  rv_now :: int
  rv_newPublicKey :: "byte list \<Rightarrow> bool"
  rv_ecdh :: "(byte list \<Rightarrow> byte list option) option"
  rv_hkdf :: "byte list \<Rightarrow> byte list \<Rightarrow> byte list \<Rightarrow> nat \<Rightarrow> byte list option"
  rv_cipher :: "byte list \<Rightarrow> bool"
  rv_seal :: "byte list \<Rightarrow> byte list \<Rightarrow> byte list \<Rightarrow> byte list \<Rightarrow> byte list"   \<comment> \<open>key, nonce, text, additional data\<close>

text \<open>The callback \<^verbatim>\<open>VerifyPeerCertificate\<close>; \<open>parse\<close> is \<^verbatim>\<open>x509.ParseCertificate\<close> and \<open>hmac\<close> HMAC-SHA-512.\<close>

definition verifyPeer ::
  "(byte list \<Rightarrow> leafCert option) \<Rightarrow> (byte list \<Rightarrow> byte list \<Rightarrow> byte list) \<Rightarrow> byte list list \<Rightarrow> realityClient \<Rightarrow> reality_error option \<times> realityClient"
where
  "verifyPeer parse hmac rawCerts c =
     (case rawCerts of
        [] \<Rightarrow> (Some NoCertificates, c)
      | leaf # _ \<Rightarrow>
          let c1 = c\<lparr>rc_PresentedLeaf := leaf\<rparr> in
          (case parse leaf of
             None \<Rightarrow> (Some BadCertificate, c1)
           | Some cert \<Rightarrow>
               (case lc_Ed25519 cert of
                  Some pub \<Rightarrow>
                    if hmac (rc_AuthKey c) pub = lc_Signature cert then (None, c1\<lparr>rc_Verified := True\<rparr>) else (Some NotReality, c1)
                | None \<Rightarrow> (Some NotReality, c1))))"

text \<open>\<^verbatim>\<open>copy(dst[off:], src)\<close>\<close>

definition copyAt :: "nat \<Rightarrow> byte list \<Rightarrow> byte list \<Rightarrow> byte list res" where
  "copyAt off dst src = (if off \<le> length dst then Inr (take off dst @ go_copy (drop off dst) src) else Inl IndexOutOfRange)"

text \<open>The session identifier before it is sealed: version, time and short identifier.\<close>

definition sessionPlain :: "int \<Rightarrow> byte list \<Rightarrow> byte list res" where
  "sessionPlain now shortID =
     (let s = (replicate 32 0)[0 := 1, 1 := 0, 2 := 0] in
      bindR (PutUint32 s 4 (of_int now)) (\<lambda>s. copyAt 8 s shortID))"

text \<open>
  The result has the error with whether the connection has been closed, or the client with the message it sends.
\<close>

definition realityKey :: "realityEnv \<Rightarrow> byte list \<Rightarrow> byte list \<Rightarrow> reality_error + byte list" where
  "realityKey env random pubKey =
     (if \<not> rv_newPublicKey env pubKey then Inl BadServerKey
      else case rv_ecdh env of
        None \<Rightarrow> Inl NoKeyShare
      | Some ecdh \<Rightarrow>
          (case ecdh pubKey of
             None \<Rightarrow> Inl EcdhFailed
           | Some secret \<Rightarrow>
               (case rv_hkdf env secret (take 20 random) [0x52, 0x45, 0x41, 0x4C, 0x49, 0x54, 0x59] (length secret) of
                  None \<Rightarrow> Inl HkdfFailed
                | Some key \<Rightarrow> if rv_cipher env key then Inr key else Inl CipherFailed)))"

definition realityDial :: "realityEnv \<Rightarrow> byte list \<Rightarrow> byte list \<Rightarrow> ((reality_error \<times> bool) + (realityClient \<times> byte list)) res" where
  "realityDial env pubKey shortID =
     (if \<not> rv_dial env then Inr (Inl (DialFailed, False))
      else case rv_hello env of
        None \<Rightarrow> Inr (Inl (BuildFailed, True))
      | Some h \<Rightarrow>
          (case he_Raw h of
             None \<Rightarrow> Inr (Inl (HelloUnusable, True))
           | Some raw \<Rightarrow>
               if length (he_Random h) \<noteq> 32 then Inr (Inl (HelloUnusable, True))
               else
                 bindR (copyAt 39 raw (replicate 32 0)) (\<lambda>raw0.
                 bindR (sessionPlain (rv_now env) shortID) (\<lambda>plain.
                 case realityKey env (he_Random h) pubKey of
                   Inl e \<Rightarrow> Inr (Inl (e, True))
                 | Inr key \<Rightarrow>
                     bindR (copyAt 39 raw0 (rv_seal env key (drop 20 (he_Random h)) (take 16 plain) raw0)) (\<lambda>raw1.
                     Inr (Inr (\<lparr>rc_AuthKey = key, rc_Verified = False, rc_PresentedLeaf = []\<rparr>, raw1)))))))"

section \<open>The session identifier\<close>

lemma copyAt_fits: "off + length src \<le> length dst \<Longrightarrow> copyAt off dst src = Inr (take off dst @ src @ drop (off + length src) dst)"
  by (simp add: copyAt_def go_copy_fits add.commute)

lemma sessionPlain_eq: "length sid = 8 \<Longrightarrow> sessionPlain now sid = Inr ([1, 0, 0, 0] @ be32 (of_int now) @ sid @ replicate 16 0)"
  by (simp add: sessionPlain_def PutUint32_def copyAt_def go_copy_def be32_def numeral_eq_Suc)

lemma realityDial_fails_closed: "realityDial env pub sid = Inr (Inl (e, closed)) \<Longrightarrow> closed \<or> e = DialFailed"
  by (cases "realityKey env (he_Random (the (rv_hello env))) pub")
    (auto simp: realityDial_def bindR_eq_Inr split: if_splits option.splits)

lemma realityDial_panics:
  assumes "length sid = 8"
  shows "realityDial env pub sid = Inl p \<Longrightarrow> \<exists>h raw. rv_hello env = Some h \<and> he_Raw h = Some raw \<and> length raw < 39"
  using assms by (fastforce simp: realityDial_def bindR_eq_Inl sessionPlain_eq copyAt_def split: if_splits option.splits sum.splits)

lemma realityDial_Inr:
  assumes "realityDial env pub sid = Inr (Inr (c, raw'))" "length sid = 8"
  obtains h raw raw0 where "rv_hello env = Some h" "he_Raw h = Some raw" "length (he_Random h) = 32" "copyAt 39 raw (replicate 32 0) = Inr raw0"
    "copyAt 39 raw0 (rv_seal env (rc_AuthKey c) (drop 20 (he_Random h)) ([1, 0, 0, 0] @ be32 (of_int (rv_now env)) @ sid) raw0) = Inr raw'"
  using assms by (cases "realityKey env (he_Random (the (rv_hello env))) pub")
    (auto simp: realityDial_def bindR_eq_Inr sessionPlain_eq split: if_splits option.splits)

text \<open>
  (C35) The server can read the session identifier of the client: for an authenticated encryption that opens what it has sealed and adds 16 bytes, the
  32 bytes at offset 39 of the sent message open, with the message in which they are zero as additional data, to version 1.0.0, the time and the
  short identifier of the client; the rest of the message is unchanged.
\<close>

theorem reality_session_id:
  assumes "realityDial env pub sid = Inr (Inr (c, raw'))" "length sid = 8"
    "rv_hello env = Some h" "he_Raw h = Some raw" "71 \<le> length raw"
    "\<And>k n t a. unseal k n (rv_seal env k n t a) a = Some t" "\<And>k n t a. length (rv_seal env k n t a) = length t + 16"
  shows "unseal (rc_AuthKey c) (drop 20 (he_Random h)) (take 32 (drop 39 raw')) (take 39 raw' @ replicate 32 0 @ drop 71 raw') =
      Some ([1, 0, 0, 0] @ be32 (of_int (rv_now env)) @ sid) \<and>
    take 39 raw' = take 39 raw \<and> drop 71 raw' = drop 71 raw"
proof (rule realityDial_Inr [OF assms(1,2)])
  fix h' r raw0
  assume d: "rv_hello env = Some h'" "he_Raw h' = Some r" "copyAt 39 r (replicate 32 0) = Inr raw0"
    "copyAt 39 raw0 (rv_seal env (rc_AuthKey c) (drop 20 (he_Random h')) ([1, 0, 0, 0] @ be32 (of_int (rv_now env)) @ sid) raw0) = Inr raw'"
  let ?t = "[1, 0, 0, 0] @ be32 (of_int (rv_now env)) @ sid"
  let ?s = "rv_seal env (rc_AuthKey c) (drop 20 (he_Random h)) ?t raw0"
  have eq: "h' = h" "r = raw" using d(1,2) assms(3,4) by auto
  have raw0: "raw0 = take 39 raw @ replicate 32 0 @ drop 71 raw"
    using d(3) assms(5) copyAt_fits [of 39 "replicate 32 0" raw] by (simp add: eq)
  have len: "length ?s = 32" using assms(2,7) by simp
  have "raw' = take 39 raw0 @ ?s @ drop 71 raw0"
    using d(4) copyAt_fits [of 39 ?s raw0] assms(5) unfolding eq(1) len by (simp add: raw0)
  then have raw': "raw' = take 39 raw @ ?s @ drop 71 raw" using assms(5) by (simp add: raw0)
  have parts: "take 39 raw' = take 39 raw" "take 32 (drop 39 raw') = ?s" "drop 71 raw' = drop 71 raw"
    using assms(5) len unfolding raw' by simp_all
  show ?thesis unfolding parts raw0 [symmetric] using assms(6) by simp
qed

text \<open>The client takes the server for genuine exactly if the leaf is an Ed25519 certificate signed with the shared key.\<close>

theorem reality_verified:
  assumes "verifyPeer parse hmac certs c = (e, c')" "\<not> rc_Verified c"
  shows "(e = None \<longleftrightarrow> rc_Verified c') \<and>
    (rc_Verified c' \<longleftrightarrow> (\<exists>leaf rest cert pub. certs = leaf # rest \<and> parse leaf = Some cert \<and> lc_Ed25519 cert = Some pub \<and> hmac (rc_AuthKey c) pub = lc_Signature cert))"
  using assms by (auto simp: verifyPeer_def Let_def split: list.splits option.splits if_splits)

section \<open>Example\<close>

definition exampleReality :: realityEnv where
  "exampleReality =
     \<lparr>rv_dial = True, rv_hello = Some \<lparr>he_Raw = Some (replicate 200 7), he_Random = replicate 32 5\<rparr>, rv_now = 1700000000,
      rv_newPublicKey = (\<lambda>_. True), rv_ecdh = Some (\<lambda>p. Some p), rv_hkdf = (\<lambda>s _ _ n. Some (take n s)), rv_cipher = (\<lambda>k. length k = 32),
      rv_seal = (\<lambda>_ _ t _. t @ replicate 16 0)\<rparr>"

lemma exampleReality_dial: "\<exists>c raw. realityDial exampleReality (replicate 32 1) (replicate 8 2) = Inr (Inr (c, raw))"
proof -
  have "copyAt 39 (replicate 200 7) (replicate 32 0) = Inr (replicate 39 7 @ replicate 32 0 @ replicate 129 7)"
    by (simp add: copyAt_fits)
  moreover have "realityKey exampleReality (replicate 32 5) (replicate 32 1) = Inr (replicate 32 1)" by (simp add: realityKey_def exampleReality_def)
  ultimately show ?thesis by (simp add: realityDial_def exampleReality_def sessionPlain_eq copyAt_def)
qed

theorem reality_session_id_witness:
  "\<exists>c raw. realityDial exampleReality (replicate 32 1) (replicate 8 2) = Inr (Inr (c, raw)) \<and> take 39 raw = replicate 39 7"
proof -
  let ?h = "\<lparr>he_Raw = Some (replicate 200 7), he_Random = replicate 32 5\<rparr>"
  obtain c raw where d: "realityDial exampleReality (replicate 32 1) (replicate 8 2) = Inr (Inr (c, raw))" using exampleReality_dial by blast
  have "take 39 raw = take 39 (replicate 200 (7 :: byte))"
    using reality_session_id [OF d, of ?h "replicate 200 7" "\<lambda>_ _ s _. Some (take (length s - 16) s)"] by (simp add: exampleReality_def)
  then show ?thesis using d by simp
qed

end
