(* ===== verification/H3Trace.thy ===== *)
theory H3Trace
  imports H3Serve "HOL-Library.Sublist"
begin

text \<open>
  The trace files of \<^verbatim>\<open>h3frontend/qlog_trace.go\<close>: \<^verbatim>\<open>Tracer\<close> opens one for a connection, its producers sample the events (\<^verbatim>\<open>H3Serve\<close>), and
  \<^verbatim>\<open>flushWriteCloser\<close> writes them through a buffer.  A file is its content with the room that is left for it; the buffer is \<^verbatim>\<open>bufio.Writer\<close>.
\<close>

section \<open>Files and buffers\<close>

record traceFile =
  tf_data :: "byte list"
  tf_room :: nat
  tf_closed :: bool

definition diskWrite :: "byte list \<Rightarrow> traceFile \<Rightarrow> bool \<times> traceFile" where
  "diskWrite p f = (let n = min (length p) (tf_room f) in (n = length p, f\<lparr>tf_data := tf_data f @ take n p, tf_room := tf_room f - n\<rparr>))"

record bufWriter =
  bw_buf :: "byte list"
  bw_failed :: bool            \<comment> \<open>an error stays\<close>
  bw_file :: traceFile

definition bwFlush :: "bufWriter \<Rightarrow> bufWriter" where
  "bwFlush w =
     (if bw_failed w \<or> bw_buf w = [] then w
      else case diskWrite (bw_buf w) (bw_file w) of
        (True, f) \<Rightarrow> w\<lparr>bw_buf := [], bw_file := f\<rparr>
      | (False, f) \<Rightarrow> w\<lparr>bw_buf := drop (tf_room (bw_file w)) (bw_buf w), bw_failed := True, bw_file := f\<rparr>)"

text \<open>With an empty buffer: more bytes than fit go directly to the file.\<close>

definition bwDirect :: "nat \<Rightarrow> byte list \<Rightarrow> bufWriter \<Rightarrow> bufWriter" where
  "bwDirect cap p w =
     (if length p \<le> cap then w\<lparr>bw_buf := p\<rparr>
      else case diskWrite p (bw_file w) of (ok, f) \<Rightarrow> w\<lparr>bw_failed := \<not> ok, bw_file := f\<rparr>)"

definition bwWrite :: "nat \<Rightarrow> byte list \<Rightarrow> bufWriter \<Rightarrow> bufWriter" where
  "bwWrite cap p w =
     (let avail = cap - length (bw_buf w) in
      if bw_failed w then w
      else if length p \<le> avail then w\<lparr>bw_buf := bw_buf w @ p\<rparr>
      else if bw_buf w = [] then bwDirect cap p w
      else let w1 = bwFlush (w\<lparr>bw_buf := bw_buf w @ take avail p\<rparr>) in
        if bw_failed w1 then w1 else bwDirect cap (drop avail p) w1)"

section \<open>The tracer\<close>

definition traceBufferSize :: nat where
  "traceBufferSize = 65536"

definition newFlushWriteCloser :: "traceFile \<Rightarrow> bufWriter" where
  "newFlushWriteCloser f = \<lparr>bw_buf = [], bw_failed = False, bw_file = f\<rparr>"

definition traceWrite :: "byte list \<Rightarrow> bufWriter \<Rightarrow> bufWriter" where
  "traceWrite = bwWrite traceBufferSize"

text \<open>\<^verbatim>\<open>Close\<close> flushes and closes; the result is whether one of the two has failed, \<open>closeOk\<close> being the outcome of the second.\<close>

definition traceClose :: "bool \<Rightarrow> bufWriter \<Rightarrow> bool \<times> bufWriter" where
  "traceClose closeOk w =
     (let w1 = bwFlush w in (\<not> bw_failed w1 \<and> closeOk, w1\<lparr>bw_file := (bw_file w1)\<lparr>tf_closed := True\<rparr>\<rparr>))"

definition tracePath :: "(string \<Rightarrow> string \<Rightarrow> string) \<Rightarrow> string \<Rightarrow> string \<Rightarrow> bool \<Rightarrow> string" where
  "tracePath join dir connID isClient = join dir (connID @ ''_'' @ (if isClient then ''client'' else ''server'') @ ''.sqlog'')"

text \<open>A trace, unless its file cannot be opened; \<open>open\<close> appends to a file that exists.\<close>

definition Tracer :: "(string \<Rightarrow> traceFile option) \<Rightarrow> (string \<Rightarrow> string \<Rightarrow> string) \<Rightarrow> string \<Rightarrow> string \<Rightarrow> bool \<Rightarrow> bufWriter option" where
  "Tracer opens join dir connID isClient = map_option newFlushWriteCloser (opens (tracePath join dir connID isClient))"

text \<open>
  The methods of a trace and of a recorder accept a missing receiver and a missing inner object: the first option is the receiver, the second its field.
\<close>

definition AddProducer :: "('t \<Rightarrow> 'r) \<Rightarrow> 't option option \<Rightarrow> 'r option" where
  "AddProducer add t = (case t of Some (Some inner) \<Rightarrow> Some (add inner) | _ \<Rightarrow> None)"

definition SupportsSchemas :: "('t \<Rightarrow> string \<Rightarrow> bool) \<Rightarrow> 't option option \<Rightarrow> string \<Rightarrow> bool" where
  "SupportsSchemas supports t schema = (case t of Some (Some inner) \<Rightarrow> supports inner schema | _ \<Rightarrow> False)"

definition recorderClose :: "('r \<Rightarrow> 'e option) \<Rightarrow> 'r option option \<Rightarrow> 'e option" where
  "recorderClose close r = (case r of Some (Some inner) \<Rightarrow> close inner | _ \<Rightarrow> None)"

section \<open>Properties\<close>

text \<open>What a writer owes: \<open>d\<close> is everything given to it, behind what the file had.\<close>

definition bw_ok :: "nat \<Rightarrow> byte list \<Rightarrow> bufWriter \<Rightarrow> bool" where
  "bw_ok cap d w \<longleftrightarrow>
     prefix (tf_data (bw_file w)) d \<and> (\<not> bw_failed w \<longrightarrow> tf_data (bw_file w) @ bw_buf w = d \<and> length (bw_buf w) \<le> cap)"

lemma bwFlush_empty: "\<not> bw_failed (bwFlush w) \<Longrightarrow> bw_buf (bwFlush w) = []"
  by (auto simp: bwFlush_def split: if_splits bool.splits prod.splits)

lemma bwFlush_ok: "bw_ok cap d w \<Longrightarrow> bw_ok cap d (bwFlush w)"
  by (auto simp: bw_ok_def bwFlush_def diskWrite_def Let_def take_is_prefix split: if_splits bool.splits)

lemma bwDirect_ok:
  assumes "bw_ok cap d w" "\<not> bw_failed w" "bw_buf w = []"
  shows "bw_ok cap (d @ p) (bwDirect cap p w)"
  using assms by (auto simp: bw_ok_def bwDirect_def diskWrite_def Let_def take_is_prefix)

lemma bwWrite_ok:
  assumes "bw_ok cap d w"
  shows "bw_ok cap (d @ p) (bwWrite cap p w)"
proof (cases "bw_failed w \<or> length p \<le> cap - length (bw_buf w) \<or> bw_buf w = []")
  case True
  then show ?thesis using assms bwDirect_ok [OF assms] by (auto simp: bwWrite_def Let_def bw_ok_def intro: prefix_prefix)
next
  case False
  let ?a = "cap - length (bw_buf w)"
  let ?w1 = "bwFlush (w\<lparr>bw_buf := bw_buf w @ take ?a p\<rparr>)"
  have "bw_ok cap (d @ take ?a p) (w\<lparr>bw_buf := bw_buf w @ take ?a p\<rparr>)" using assms False by (auto simp: bw_ok_def intro: prefix_prefix)
  from bwFlush_ok [OF this] have w1: "bw_ok cap (d @ take ?a p) ?w1" .
  show ?thesis
  proof (cases "bw_failed ?w1")
    case True
    then have "prefix (tf_data (bw_file ?w1)) ((d @ take ?a p) @ drop ?a p)" using w1 unfolding bw_ok_def by (blast intro: prefix_prefix)
    then show ?thesis using True False by (simp add: bwWrite_def Let_def bw_ok_def)
  next
    case ok: False
    then show ?thesis using bwDirect_ok [OF w1 ok, of "drop ?a p"] bwFlush_empty [OF ok] False by (simp add: bwWrite_def Let_def)
  qed
qed

lemma traceWrites_ok: "bw_ok traceBufferSize d w \<Longrightarrow> bw_ok traceBufferSize (d @ concat ps) (fold traceWrite ps w)"
proof (induction ps arbitrary: d w)
  case (Cons p ps)
  show ?case using Cons.IH [OF bwWrite_ok [OF Cons.prems, of p]] by (simp add: traceWrite_def)
qed simp

text \<open>
  A trace file is whole or its loss is reported: whatever is written and however little room there is, closing leaves the file closed, with its old content and
  a prefix of what has been written behind it; and when closing reports no error, with all of it.
\<close>

theorem trace_file_whole:
  assumes "traceClose c (fold traceWrite ps (newFlushWriteCloser f)) = (ok, w)"
  shows "tf_closed (bw_file w) \<and> prefix (tf_data (bw_file w)) (tf_data f @ concat ps) \<and> (ok \<longrightarrow> tf_data (bw_file w) = tf_data f @ concat ps)"
proof -
  let ?w = "fold traceWrite ps (newFlushWriteCloser f)"
  have "bw_ok traceBufferSize (tf_data f) (newFlushWriteCloser f)" by (simp add: bw_ok_def newFlushWriteCloser_def)
  note b = bwFlush_ok [OF traceWrites_ok [OF this, of ps]]
  show ?thesis using b bwFlush_empty [of ?w] assms by (auto simp: traceClose_def Let_def bw_ok_def)
qed

text \<open>With enough room nothing is lost.\<close>

lemma bwFlush_room:
  "\<not> bw_failed w \<Longrightarrow> length (bw_buf w) + n \<le> tf_room (bw_file w) \<Longrightarrow> \<not> bw_failed (bwFlush w) \<and> length (bw_buf (bwFlush w)) + n \<le> tf_room (bw_file (bwFlush w))"
  by (auto simp: bwFlush_def diskWrite_def Let_def)

lemma bwDirect_room:
  "\<not> bw_failed w \<Longrightarrow> bw_buf w = [] \<Longrightarrow> length p + n \<le> tf_room (bw_file w) \<Longrightarrow>
     \<not> bw_failed (bwDirect cap p w) \<and> length (bw_buf (bwDirect cap p w)) + n \<le> tf_room (bw_file (bwDirect cap p w))"
  by (auto simp: bwDirect_def diskWrite_def Let_def)

lemma bwWrite_room:
  assumes "\<not> bw_failed w" "length (bw_buf w) + length p + n \<le> tf_room (bw_file w)"
  shows "\<not> bw_failed (bwWrite cap p w) \<and> length (bw_buf (bwWrite cap p w)) + n \<le> tf_room (bw_file (bwWrite cap p w))"
proof (cases "length p \<le> cap - length (bw_buf w) \<or> bw_buf w = []")
  case True
  then show ?thesis using assms bwDirect_room [of w p n cap] by (auto simp: bwWrite_def Let_def)
next
  case False
  let ?a = "cap - length (bw_buf w)"
  let ?w1 = "bwFlush (w\<lparr>bw_buf := bw_buf w @ take ?a p\<rparr>)"
  have a: "\<not> bw_failed ?w1" "length (bw_buf ?w1) + (length (drop ?a p) + n) \<le> tf_room (bw_file ?w1)"
    using bwFlush_room [of "w\<lparr>bw_buf := bw_buf w @ take ?a p\<rparr>" "length (drop ?a p) + n"] assms False by auto
  show ?thesis using bwDirect_room [OF a(1) bwFlush_empty [OF a(1)], of "drop ?a p" n cap] a False assms(1) by (simp add: bwWrite_def Let_def)
qed

lemma trace_file_room:
  assumes "length (concat ps) \<le> tf_room f"
  shows "fst (traceClose True (fold traceWrite ps (newFlushWriteCloser f)))"
proof -
  have "\<not> bw_failed (fold traceWrite ps w) \<and> length (bw_buf (fold traceWrite ps w)) \<le> tf_room (bw_file (fold traceWrite ps w))"
    if "\<not> bw_failed w" "length (bw_buf w) + length (concat ps) \<le> tf_room (bw_file w)" for w
    using that
  proof (induction ps arbitrary: w)
    case (Cons p ps)
    then show ?case using bwWrite_room [of w p "length (concat ps)" traceBufferSize] by (simp add: traceWrite_def)
  qed simp
  from this [of "newFlushWriteCloser f"] show ?thesis
    using assms bwFlush_room [of "fold traceWrite ps (newFlushWriteCloser f)" 0] by (simp add: traceClose_def Let_def newFlushWriteCloser_def)
qed

theorem trace_file_whole_witness:
  "tf_data (bw_file (snd (traceClose True (fold traceWrite [[1], [2, 3]] (newFlushWriteCloser \<lparr>tf_data = [0], tf_room = 9, tf_closed = False\<rparr>))))) = [0, 1, 2, 3]"
proof -
  let ?f = "\<lparr>tf_data = [0], tf_room = 9, tf_closed = False\<rparr>"
  obtain ok w where r: "traceClose True (fold traceWrite [[1], [2, 3]] (newFlushWriteCloser ?f)) = (ok, w)" by fastforce
  have "ok" using trace_file_room [of "[[1], [2, 3]]" ?f] r by simp
  then show ?thesis using trace_file_whole [OF r] r by simp
qed

end
