(* ===== verification/GoFormat.thy ===== *)
theory GoFormat
  imports GoStrings Float64 Complex_Main
begin

text \<open>
  Addition of floating-point numbers and the verb \<^verbatim>\<open>%.2f\<close> of \<^verbatim>\<open>fmt\<close>, with how far the printed number is from the value; and \<^verbatim>\<open>formatSpeed\<close> of
  \<^verbatim>\<open>h3frontend/internal/congestion/bbr/bbr_sender.go\<close>, which prints a bandwidth.
\<close>

section \<open>Floating point\<close>

definition f64_add :: "f64 \<Rightarrow> f64 \<Rightarrow> f64" where
  "f64_add x y =
     (let e = min (expo x) (expo y) in f64_round (mant x * 2 ^ nat (expo x - e) + mant y * 2 ^ nat (expo y - e)) e)"

text \<open>The verb \<^verbatim>\<open>%.2f\<close>: the exact value in hundredths, rounded to nearest with ties to even.\<close>

definition hundredths :: "f64 \<Rightarrow> int" where
  "hundredths x =
     (let a = \<bar>mant x\<bar> * 100 in
      if 0 \<le> expo x then a * 2 ^ nat (expo x)
      else let d = 2 ^ nat (- expo x); q = a div d; r = a mod d in if d < 2 * r \<or> 2 * r = d \<and> odd q then q + 1 else q)"

definition fixed2 :: "f64 \<Rightarrow> string" where
  "fixed2 x =
     (let h = hundredths x in
      (if mant x < 0 then ''-'' else []) @ Itoa (h div 100) @ ''.'' @ Itoa (h mod 100 div 10) @ Itoa (h mod 10))"

section \<open>Speeds\<close>

text \<open>The loop of \<^verbatim>\<open>formatSpeed\<close>: the value is divided by 1000 as long as it is above 1000 and there is a larger unit.\<close>

fun speedLoop :: "f64 \<Rightarrow> string list \<Rightarrow> f64 \<times> string" where
  "speedLoop x [] = (x, [])"
| "speedLoop x [u] = (x, u)"
| "speedLoop x (u # v # us) = (if f64_less (F64 1000 0) x then speedLoop (f64_div x (F64 1000 0)) (v # us) else (x, u))"

definition formatSpeed :: "int \<Rightarrow> string" where
  "formatSpeed bw = (case speedLoop (f64_of_int bw) [''bps'', ''Kbps'', ''Mbps'', ''Gbps''] of (x, u) \<Rightarrow> fixed2 x @ '' '' @ u)"

section \<open>Signs\<close>

lemma f64_add_nonneg: "0 \<le> mant x \<Longrightarrow> 0 \<le> mant y \<Longrightarrow> 0 \<le> mant (f64_add x y)"
  by (simp add: f64_add_def Let_def f64_round_nonneg)

lemma f64_div_nonneg: "0 \<le> mant x \<Longrightarrow> 0 < mant y \<Longrightarrow> 0 \<le> mant (f64_div x y)"
  unfolding f64_div_def Let_def by (intro f64_round_nonneg) (simp add: sgn_if pos_imp_zdiv_nonneg_iff)

section \<open>Values\<close>

definition f64_val :: "f64 \<Rightarrow> real" where
  "f64_val x = of_int (mant x) * 2 powi expo x"

lemma f64_round_val:
  assumes "\<bar>a\<bar> < 2 ^ 53"
  shows "f64_val (f64_round (a * 2 ^ j) e) = of_int a * 2 powi (e + int j)"
proof -
  have plain: "f64_val (F64 (a * 2 ^ j) e) = of_int a * 2 powi (e + int j)"
    by (simp add: f64_val_def power_int_add)
  show ?thesis
  proof (cases "bitlen \<bar>a * 2 ^ j\<bar> \<le> 53")
    case True
    then show ?thesis using plain by (simp add: f64_round_def)
  next
    case False
    let ?m = "\<bar>a * 2 ^ j\<bar>"
    define s where "s = nat (bitlen ?m - 53)"
    have "a \<noteq> 0" using False by auto
    have "\<bar>a\<bar> * 2 ^ j < 2 ^ 53 * 2 ^ j" using assms by simp
    then have "bitlen ?m \<le> int (53 + j)" by (simp add: bitlen_le_iff_power abs_mult power_add nat_add_distrib)
    then have "s \<le> j" by (simp add: s_def)
    then have j: "(2 :: int) ^ j = 2 ^ (j - s) * 2 ^ s" by (simp flip: power_add)
    have m: "?m = \<bar>a\<bar> * 2 ^ (j - s) * 2 ^ s" by (simp add: j abs_mult)
    have q: "?m div 2 ^ s = \<bar>a\<bar> * 2 ^ (j - s)" "?m mod 2 ^ s = 0" unfolding m by simp_all
    have h: "(0 :: int) < 2 ^ (s - 1)" by simp
    have sg: "sgn (a * 2 ^ j) * \<bar>a\<bar> = a" by (cases "a = 0") (auto simp: sgn_if zero_less_mult_iff)
    have "f64_round (a * 2 ^ j) e = F64 (a * 2 ^ (j - s)) (e + int s)"
      using False h unfolding f64_round_def Let_def s_def [symmetric] q by (simp add: sg)
    moreover have "(2 :: real) ^ j = 2 ^ (j - s) * 2 ^ s" using \<open>s \<le> j\<close> by (simp flip: power_add)
    ultimately show ?thesis by (simp add: f64_val_def power_int_add)
  qed
qed

lemma f64_div_pow2:
  assumes "0 \<le> n" "n < 2 ^ 53"
  shows "f64_val (f64_div (F64 n 0) (F64 (2 ^ u) 0)) = of_int n / 2 ^ u"
proof -
  define k where "k = nat (max 0 (bitlen (2 ^ u) - bitlen n + 55))"
  have "\<not> bitlen (2 ^ u) \<le> int u" by (simp add: bitlen_le_iff_power)
  moreover have "bitlen n \<le> 53" using assms by (simp add: bitlen_le_iff_power)
  ultimately have "u \<le> k" by (simp add: k_def)
  then have k: "(2 :: int) ^ k = 2 ^ (k - u) * 2 ^ u" by (simp flip: power_add)
  have q: "n * 2 ^ k div 2 ^ u = n * 2 ^ (k - u)" "n * 2 ^ k mod 2 ^ u = 0" unfolding k by (simp_all flip: mult.assoc)
  have m: "sgn n * (2 * (n * 2 ^ (k - u)) + 0) = n * 2 ^ (k - u + 1)" using assms(1) by (cases "n = 0") (simp_all add: sgn_if)
  have "f64_div (F64 n 0) (F64 (2 ^ u) 0) = f64_round (n * 2 ^ (k - u + 1)) (- int k - 1)"
    using assms(1) unfolding f64_div_def Let_def f64.sel by (simp only: abs_of_nonneg k_def [symmetric] q if_True m diff_0_right simp_thms) simp
  moreover have "- int k - 1 + int (k - u + 1) = - int u" using \<open>u \<le> k\<close> by simp
  ultimately show ?thesis using f64_round_val [of n "k - u + 1" "- int k - 1"] assms by (simp add: power_int_minus divide_inverse)
qed

lemma hundredths_near: "\<bar>of_int (hundredths x) - 100 * \<bar>f64_val x\<bar>\<bar> \<le> 1 / 2"
proof (cases "0 \<le> expo x")
  case True
  then show ?thesis by (simp add: hundredths_def f64_val_def power_int_def abs_mult)
next
  case False
  define a where "a = \<bar>mant x\<bar> * 100"
  define d :: int where "d = 2 ^ nat (- expo x)"
  have d: "0 < d" by (simp add: d_def)
  have p: "2 powi expo x = 1 / (of_int d :: real)" using False by (simp add: power_int_def d_def power_one_over)
  have v: "100 * \<bar>f64_val x\<bar> = of_int a / of_int d"
    using d by (simp add: f64_val_def p a_def abs_mult)
  define z :: real where z: "z = of_int (a mod d) / of_int d"
  have "of_int a = of_int (a div d) * of_int d + (of_int (a mod d) :: real)" by (metis div_mult_mod_eq of_int_add of_int_mult)
  then have e: "of_int a / of_int d = of_int (a div d) + z" using d by (simp add: z field_simps)
  have b: "0 \<le> a mod d" "a mod d < d" using d by simp_all
  have h: "hundredths x = (if d < 2 * (a mod d) \<or> 2 * (a mod d) = d \<and> odd (a div d) then a div d + 1 else a div d)"
    using False by (simp add: hundredths_def Let_def a_def d_def)
  show ?thesis
  proof (cases "d < 2 * (a mod d) \<or> 2 * (a mod d) = d \<and> odd (a div d)")
    case True
    then have "d \<le> 2 * (a mod d)" by auto
    then have "of_int d \<le> 2 * (of_int (a mod d) :: real)" by (metis of_int_le_iff of_int_mult of_int_numeral)
    then have "1 / 2 \<le> z" "z \<le> 1" using d b unfolding z by (simp_all add: field_simps)
    then show ?thesis using True unfolding v e h by (simp add: abs_le_iff)
  next
    case False
    then have "2 * (a mod d) \<le> d" by auto
    then have "2 * (of_int (a mod d) :: real) \<le> of_int d" by (metis of_int_le_iff of_int_mult of_int_numeral)
    then have "z \<le> 1 / 2" "0 \<le> z" using d b unfolding z by (simp_all add: field_simps)
    then show ?thesis using False unfolding v e h by (auto simp: abs_le_iff)
  qed
qed

lemma speedLoop_unit: "us \<noteq> [] \<Longrightarrow> snd (speedLoop x us) \<in> set us \<and> (f64_less (F64 1000 0) (fst (speedLoop x us)) \<longrightarrow> snd (speedLoop x us) = last us)"
  by (induction x us rule: speedLoop.induct) auto

end
