(* ===== verification/ClientView.thy ===== *)
theory ClientView
  imports ClientApp EntryProxy GoFormat
begin

text \<open>
  What the client shows: the rates that \<^verbatim>\<open>Stats.Add\<close> keeps (\<^verbatim>\<open>tui/internal/stats/stats.go\<close>) and the screen, \<^verbatim>\<open>View\<close> and \<^verbatim>\<open>humanBytes\<close> of
  \<^verbatim>\<open>tui/app.go\<close>.  Floating-point numbers are the binary64 values of \<^verbatim>\<open>Float64\<close>, each operation rounded on its own.
\<close>

section \<open>Rates\<close>

text \<open>\<^verbatim>\<open>Duration.Seconds\<close> of a number of nanoseconds.\<close>

definition Seconds :: "int \<Rightarrow> f64" where
  "Seconds d = f64_add (f64_of_int (d sdiv 1000000000)) (f64_div (f64_of_int (d smod 1000000000)) (F64 1000000000 0))"

text \<open>The whole state of \<^verbatim>\<open>Stats\<close>; \<open>rs_last\<close> is the time of the last update of the rates, if there was one.\<close>

record rateStats =
  rs_traffic :: trafficStats
  rs_upRate :: f64
  rs_downRate :: f64
  rs_last :: "int option"
  rs_lastUp :: int
  rs_lastDown :: int

definition newStats :: rateStats where
  "newStats = \<lparr>rs_traffic = \<lparr>UpBytes = 0, DownBytes = 0\<rparr>, rs_upRate = F64 0 0, rs_downRate = F64 0 0, rs_last = None, rs_lastUp = 0, rs_lastDown = 0\<rparr>"

definition smooth :: "f64 \<Rightarrow> int \<Rightarrow> f64 \<Rightarrow> f64" where
  "smooth rate bytes dt = f64_add (f64_mul rate (f64_lit 7 10)) (f64_mul (f64_div (f64_of_int bytes) dt) (f64_lit 3 10))"

text \<open>\<^verbatim>\<open>Stats.Add\<close> at the time \<open>now\<close>; \<^verbatim>\<open>Time.Sub\<close> of a later time saturates.\<close>

definition statsAdd :: "bool \<Rightarrow> int \<Rightarrow> int \<Rightarrow> rateStats \<Rightarrow> rateStats" where
  "statsAdd up n now s0 =
     (let t = trafficAdd up n (rs_traffic s0); s = s0\<lparr>rs_traffic := t\<rparr> in
      case rs_last s of
        None \<Rightarrow> s\<lparr>rs_last := Some now, rs_lastUp := UpBytes t, rs_lastDown := DownBytes t\<rparr>
      | Some l \<Rightarrow>
          if l < now then
            let dt = Seconds (min 9223372036854775807 (now - l)) in
            if f64_less (F64 1 (- 1)) dt then
              s\<lparr>rs_upRate := smooth (rs_upRate s) (i64 (UpBytes t - rs_lastUp s)) dt,
                rs_downRate := smooth (rs_downRate s) (i64 (DownBytes t - rs_lastDown s)) dt,
                rs_last := Some now, rs_lastUp := UpBytes t, rs_lastDown := DownBytes t\<rparr>
            else s
          else s)"

definition Rates :: "rateStats \<Rightarrow> f64 \<times> f64" where
  "Rates s = (rs_upRate s, rs_downRate s)"

section \<open>The screen\<close>

definition humanBytes :: "int \<Rightarrow> string" where
  "humanBytes n =
     (let f = f64_of_int n in
      if \<not> f64_less f (F64 1073741824 0) then fixed2 (f64_div f (F64 1073741824 0)) @ '' GB''
      else if \<not> f64_less f (F64 1048576 0) then fixed2 (f64_div f (F64 1048576 0)) @ '' MB''
      else if \<not> f64_less f (F64 1024 0) then fixed2 (f64_div f (F64 1024 0)) @ '' KB''
      else Itoa n @ '' B'')"

definition nl :: string where
  "nl = [CHR 0x0A]"

fun stateText :: "appState \<Rightarrow> string" where
  "stateText Disconnected = ''disconnected''"
| "stateText Connecting = ''connecting''"
| "stateText Connected = ''connected''"
| "stateText AppError = ''error''"
| "stateText Reconnecting = ''reconnecting''"

definition boolText :: "bool \<Rightarrow> string" where
  "boolText b = (if b then ''true'' else ''false'')"

definition viewStatus :: "appModel \<Rightarrow> rateStats \<Rightarrow> string" where
  "viewStatus m st =
     ''up:   '' @ humanBytes (UpBytes (rs_traffic st)) @ '' ('' @ humanBytes (f64_to_i64 (fst (Rates st))) @ ''/s)'' @ nl @
     ''down: '' @ humanBytes (DownBytes (rs_traffic st)) @ '' ('' @ humanBytes (f64_to_i64 (snd (Rates st))) @ ''/s)'' @ nl @
     (case Active (store m) of
        None \<Rightarrow> []
      | Some p \<Rightarrow>
          ''server: '' @ p_Server p @ '':'' @ Itoa (p_Port p) @ ''  username: '' @ p_Username p @ ''  reality: '' @ boolText (p_Reality p \<noteq> None) @
          ''  sysproxy: '' @ boolText (case p_SystemProxy p of None \<Rightarrow> False | Some s \<Rightarrow> spc_Enabled s) @ nl @
          ''socks: '' @ p_LocalSocks p @ ''  http: '' @ p_LocalHTTP p @ nl) @
     (if errMsg m \<noteq> [] then ''error: '' @ errMsg m @ nl else [])"

definition profileLine :: "appModel \<Rightarrow> nat \<Rightarrow> ClientProfile \<Rightarrow> string" where
  "profileLine m i p =
     (if int i = cursor m then ''>'' else if p_Name p = ActiveProfile (store m) then ''*'' else '' '') @ '' '' @ p_Name p @ ''  '' @ p_Server p @ '':'' @
     Itoa (p_Port p) @ (if p_Reality p \<noteq> None then '' [reality]'' else []) @ nl"

definition viewProfiles :: "appModel \<Rightarrow> string" where
  "viewProfiles m =
     ''--- profiles (enter=activate, a=import link, x=copy link) ---'' @ nl @
     concat (map (\<lambda>(i, p). profileLine m i p) (List.enumerate 0 (Profiles (store m)))) @
     (if Profiles (store m) = [] then ''(empty - press a and paste a share link)'' @ nl else [])"

definition viewLogs :: "appModel \<Rightarrow> string" where
  "viewLogs m =
     ''--- logs ---'' @ nl @ concat (map (\<lambda>l. l @ nl) (drop (if 30 < length (logs m) then length (logs m) - 30 else 0) (logs m)))"

text \<open>\<^verbatim>\<open>View\<close>; \<open>input\<close> is the rendering of the input field.\<close>

definition View :: "string \<Rightarrow> rateStats \<Rightarrow> appModel \<Rightarrow> string" where
  "View input st m =
     ''naivereal TUI  profile: '' @ (case Active (store m) of None \<Rightarrow> ''(none)'' | Some p \<Rightarrow> p_Name p) @ ''  state: '' @ stateText (state m) @ nl @ nl @
     (if tab m = 0 then viewStatus m st else if tab m = 1 then viewProfiles m else if tab m = 2 then viewLogs m else []) @
     (if editing m then nl @ input @ nl else []) @
     (if msg m \<noteq> [] then ''msg: '' @ msg m @ nl else []) @
     nl @ ''[c] connect  [d] disconnect  [tab] switch  [q] quit'' @ nl"

section \<open>Counters and rates\<close>

text \<open>The counters are those of the tunnel model, whatever the clock does.\<close>

lemma statsAdd_traffic: "rs_traffic (statsAdd up n now s) = trafficAdd up n (rs_traffic s)"
  by (simp add: statsAdd_def Let_def split: option.splits)

lemma f64_less_half:
  assumes "f64_less (F64 1 (- 1)) dt"
  shows "0 < mant dt"
proof (cases "- 1 \<le> expo dt")
  case True
  then have "0 < mant dt * 2 ^ nat (expo dt + 1)" using assms by (simp add: f64_less_def)
  then show ?thesis by (simp add: zero_less_mult_iff)
next
  case False
  then have "2 ^ nat (- 1 - expo dt) < mant dt" using assms by (simp add: f64_less_def)
  moreover have "(0 :: int) < 2 ^ nat (- 1 - expo dt)" by simp
  ultimately show ?thesis by (rule less_trans [rotated])
qed

lemma smooth_nonneg: "0 \<le> mant r \<Longrightarrow> 0 \<le> b \<Longrightarrow> 0 < mant dt \<Longrightarrow> 0 \<le> mant (smooth r b dt)"
  unfolding smooth_def by (intro f64_add_nonneg f64_mul_nonneg f64_div_nonneg f64_of_int_nonneg) (simp_all add: f64_lit_def f64_div_nonneg)

definition stats_ok :: "rateStats \<Rightarrow> bool" where
  "stats_ok s \<longleftrightarrow> 0 \<le> rs_lastUp s \<and> rs_lastUp s \<le> UpBytes (rs_traffic s) \<and> 0 \<le> rs_lastDown s \<and> rs_lastDown s \<le> DownBytes (rs_traffic s) \<and>
     0 \<le> mant (rs_upRate s) \<and> 0 \<le> mant (rs_downRate s)"

text \<open>
  As long as the counters do not overflow, the rates are never negative, and the counters of the last update are those of an earlier moment.
\<close>

lemma statsAdd_ok:
  assumes "stats_ok s" "0 \<le> n" "UpBytes (rs_traffic s) + n \<le> 9223372036854775807" "DownBytes (rs_traffic s) + n \<le> 9223372036854775807"
  shows "stats_ok (statsAdd up n now s)"
proof -
  let ?t = "trafficAdd up n (rs_traffic s)"
  have t: "UpBytes (rs_traffic s) \<le> UpBytes ?t" "DownBytes (rs_traffic s) \<le> DownBytes ?t"
    "UpBytes ?t \<le> 9223372036854775807" "DownBytes ?t \<le> 9223372036854775807"
    using assms by (auto simp: trafficAdd_def stats_ok_def i64_small)
  have d: "i64 (UpBytes ?t - rs_lastUp s) = UpBytes ?t - rs_lastUp s" "i64 (DownBytes ?t - rs_lastDown s) = DownBytes ?t - rs_lastDown s"
    using assms(1) t by (auto simp: stats_ok_def intro!: i64_small)
  show ?thesis using assms(1) t d smooth_nonneg f64_less_half
    by (auto simp: statsAdd_def stats_ok_def Let_def split: option.splits)
qed

text \<open>The rates stand still between calls of \<^verbatim>\<open>Add\<close>, and move at most twice per second.\<close>

lemma rates_move:
  assumes "Rates (statsAdd up n now s) \<noteq> Rates s"
  shows "\<exists>l. rs_last s = Some l \<and> l < now \<and> rs_last (statsAdd up n now s) = Some now"
  using assms by (auto simp: statsAdd_def Rates_def Let_def split: option.splits if_splits)

section \<open>Sizes\<close>

text \<open>
  The sizes on the screen are right: below one kilobyte the exact number of bytes, and above the largest fitting unit with two decimals,
  at most half a hundredth off.
\<close>

definition sizeUnits :: "(nat \<times> string) list" where
  "sizeUnits = [(10, '' KB''), (20, '' MB''), (30, '' GB'')]"

theorem human_bytes_accurate:
  assumes "0 \<le> n" "n < 2 ^ 53"
  shows "n < 1024 \<and> humanBytes n = Itoa n @ '' B'' \<or>
    (\<exists>h u name. (u, name) \<in> set sizeUnits \<and> 2 ^ u \<le> n \<and> (n < 2 ^ (u + 10) \<or> u = 30) \<and>
       humanBytes n = Itoa (h div 100) @ ''.'' @ Itoa (h mod 100 div 10) @ Itoa (h mod 10) @ name \<and>
       \<bar>of_int h / 100 - of_int n / 2 ^ u\<bar> \<le> (1 / 200 :: real))"
proof -
  have f: "f64_of_int n = F64 n 0" using assms by (simp add: f64_of_int_exact)
  have scale: "\<bar>x / 100 - y\<bar> \<le> 1 / 200" if "\<bar>x - 100 * \<bar>y\<bar>\<bar> \<le> 1 / 2" "0 \<le> y" for x y :: real
    using that by arith
  have show_unit: "fixed2 (f64_div (F64 n 0) (F64 (2 ^ u) 0)) @ name =
      Itoa (h div 100) @ ''.'' @ Itoa (h mod 100 div 10) @ Itoa (h mod 10) @ name \<and> \<bar>of_int h / 100 - of_int n / 2 ^ u\<bar> \<le> (1 / 200 :: real)"
    if h: "h = hundredths (f64_div (F64 n 0) (F64 (2 ^ u) 0))" for u h name
  proof -
    have "0 \<le> mant (f64_div (F64 n 0) (F64 (2 ^ u) 0))" using assms by (intro f64_div_nonneg) simp_all
    moreover have "\<bar>of_int h - 100 * \<bar>of_int n / 2 ^ u\<bar>\<bar> \<le> (1 / 2 :: real)"
      using hundredths_near [of "f64_div (F64 n 0) (F64 (2 ^ u) 0)"] unfolding h f64_div_pow2 [OF assms] .
    then have "\<bar>of_int h / 100 - of_int n / 2 ^ u\<bar> \<le> (1 / 200 :: real)" using assms(1) by (intro scale) simp_all
    ultimately show ?thesis by (simp add: fixed2_def Let_def h)
  qed
  consider "n < 1024" | "1024 \<le> n" "n < 1048576" | "1048576 \<le> n" "n < 1073741824" | "1073741824 \<le> n" by linarith
  then show ?thesis
  proof cases
    case 1
    then show ?thesis by (simp add: humanBytes_def f f64_less_def)
  next
    case 2
    then have "humanBytes n = fixed2 (f64_div (F64 n 0) (F64 (2 ^ 10) 0)) @ '' KB''" by (simp add: humanBytes_def f f64_less_def)
    then show ?thesis using 2 show_unit [OF refl, of 10 "'' KB''"] by (intro disjI2 exI [of _ "10 :: nat"] exI) (auto simp: sizeUnits_def)
  next
    case 3
    then have "humanBytes n = fixed2 (f64_div (F64 n 0) (F64 (2 ^ 20) 0)) @ '' MB''" by (simp add: humanBytes_def f f64_less_def)
    then show ?thesis using 3 show_unit [OF refl, of 20 "'' MB''"] by (intro disjI2 exI [of _ "20 :: nat"] exI) (auto simp: sizeUnits_def)
  next
    case 4
    then have "humanBytes n = fixed2 (f64_div (F64 n 0) (F64 (2 ^ 30) 0)) @ '' GB''" by (simp add: humanBytes_def f f64_less_def)
    then show ?thesis using 4 show_unit [OF refl, of 30 "'' GB''"] by (intro disjI2 exI [of _ "30 :: nat"] exI) (auto simp: sizeUnits_def)
  qed
qed

theorem human_bytes_accurate_witness: "humanBytes 1536 = ''1.50 KB'' \<and> (\<exists>h. \<bar>of_int h / 100 - 1536 / 2 ^ 10\<bar> \<le> (1 / 200 :: real))"
proof
  show "humanBytes 1536 = ''1.50 KB''" by code_simp
  show "\<exists>h. \<bar>of_int h / 100 - 1536 / 2 ^ 10\<bar> \<le> (1 / 200 :: real)"
    using human_bytes_accurate [of 1536] by (auto simp: sizeUnits_def)
qed

section \<open>What the screen shows\<close>

text \<open>A profile without its secrets.\<close>

definition redact :: "(ClientProfile \<Rightarrow> string) \<Rightarrow> (ClientReality \<Rightarrow> ClientReality) \<Rightarrow> ClientProfile \<Rightarrow> ClientProfile" where
  "redact pw key p = p\<lparr>p_Password := pw p, p_Reality := map_option key (p_Reality p)\<rparr>"

definition redactStore :: "(ClientProfile \<Rightarrow> string) \<Rightarrow> (ClientReality \<Rightarrow> ClientReality) \<Rightarrow> Store \<Rightarrow> Store" where
  "redactStore pw key s = s\<lparr>Profiles := map (redact pw key) (Profiles s)\<rparr>"

lemma findProfile_redact: "findProfile n (map (redact pw key) ps) = findProfile n ps"
  by (induction ps) (simp_all add: redact_def)

lemma Active_redact: "Active (redactStore pw key s) = map_option (redact pw key) (Active s)"
proof -
  have i: "activeIndex (redactStore pw key s) = activeIndex s"
    by (simp add: activeIndex_def redactStore_def findProfile_redact split: option.splits)
  have "j < length (Profiles s)" if "activeIndex s = Some j" for j
    using that findProfile_Some [of "ActiveProfile s" "Profiles s"] by (auto simp: activeIndex_def split: option.splits if_splits)
  then show ?thesis unfolding Active_def i by (cases "activeIndex s") (simp_all add: redactStore_def)
qed


text \<open>The log tab shows the newest lines, at most thirty, in their order.\<close>

lemma view_logs_newest: "viewLogs m = ''--- logs ---'' @ nl @ concat (map (\<lambda>l. l @ nl) (rev (take 30 (rev (logs m)))))"
  by (simp add: viewLogs_def rev_take)

end
