(* ===== verification/Spec2Isabelle.thy ===== *)
theory Spec2Isabelle
  imports Congestion Dns ClientApp H3Serve TunnelServer TunDevice ShareLink FrontendTools ProfileSave RelayTunnel RealityClient
    H3Trace ClientView
begin

text \<open>
  Verification of the naivereal proxy: two front ends that accept REALITY/TLS and HTTP/3 connections and relay CONNECT requests to a naive
  server (\<^verbatim>\<open>frontend/\<close>, \<^verbatim>\<open>h3frontend/\<close>), and a terminal client that runs the core program, offers a local SOCKS and HTTP
  entry, a system proxy setting and a tunnel with its own DNS (\<^verbatim>\<open>tui/\<close>).

  \<^bold>\<open>Conventions.\<close>  A Go struct is a record, an enumeration a datatype, an integer an \<open>int\<close> with its wrap-around written out (\<open>i64\<close>,
  \<open>u64\<close>), bytes on the wire are 8-bit words, strings are lists of bytes written as characters.  A run-time panic and an error are values of
  sum types.  A goroutine is cut at its critical sections, and a step relation interleaves the pieces in any order.  What is not in the
  repository (the network, the operating system, the QUIC, REALITY, TLS, TOML and terminal libraries) is an argument of the definitions
  that use it.  \<^verbatim>\<open>Prelude\<close>, \<^verbatim>\<open>Bytes\<close>, \<^verbatim>\<open>Float64\<close>, \<^verbatim>\<open>GoStrings\<close>, \<^verbatim>\<open>Validation\<close>, \<^verbatim>\<open>NetAddr\<close>, \<^verbatim>\<open>NetUrl\<close> and \<^verbatim>\<open>GoFormat\<close> hold the shared
  vocabulary: integers, panics, byte slices, binary64 arithmetic with its rounding, and the parts of the Go library the
  code uses (strings, numbers, host and port, hexadecimal, base64, addresses, URLs, printed floating-point numbers), with their round trips.

  \<^bold>\<open>Interfaces.\<close>  The contracts that several components share or rely on are locales, interpreted by the definitions of the model: \<open>fifo_buffer\<close> and \<open>packet_map\<close>
  (the queues below), \<open>keyed_filter\<close> (the windowed filters and the ack tracker), \<open>validation\<close> (the configurations of the two front ends), \<open>encoding\<close> (base64,
  numbers, escaped text), and \<open>bounded_steps\<close> of \<^verbatim>\<open>Runs\<close> (the tunnels of the client and of the front ends).

  \<^bold>\<open>Congestion control\<close> (\<^verbatim>\<open>h3frontend/internal/congestion\<close>), from the data structures upwards:
  \<^item> \<^verbatim>\<open>RingBuffer\<close>, \<^verbatim>\<open>PacketQueue\<close> (\<^verbatim>\<open>ringbuffer.go\<close>, \<^verbatim>\<open>packet_number_indexed_queue.go\<close>): the ring refines a list and the queue refines a
    finite map from packet numbers; the interface of a deque is the locale the queue is built on, interpreted by the ring.
  \<^item> \<^verbatim>\<open>WindowedFilter\<close>, \<^verbatim>\<open>AckHeight\<close> (\<^verbatim>\<open>windowed_filter.go\<close>, part of \<^verbatim>\<open>bandwidth_sampler.go\<close>): the best of a window, and the tracker of ack
    aggregation.
  \<^item> \<^verbatim>\<open>Pacer\<close> (\<^verbatim>\<open>common/pacer.go\<close>): the token bucket, its bounds, and that its timer gives budget.
  \<^item> \<^verbatim>\<open>BandwidthSampler\<close>: samples, app-limited phases, and totals over congestion events.
  \<^item> \<^verbatim>\<open>BbrSender\<close> (the code of \<^verbatim>\<open>bbr_sender.go\<close>), \<^verbatim>\<open>BbrInvariant\<close> (what every call keeps) and \<^verbatim>\<open>BbrProperties\<close> (no panic, window bounds, mode
    transitions, end of startup, pacing, changes of the datagram size).
  \<^item> \<^verbatim>\<open>Congestion\<close> (\<^verbatim>\<open>congestion.go\<close>): the choice of the controller and what it installs.

  \<^bold>\<open>TCP front end\<close> (\<^verbatim>\<open>frontend/\<close>):
  \<^item> \<^verbatim>\<open>TcpConfig\<close> (\<^verbatim>\<open>config.go\<close>, \<^verbatim>\<open>reality.go\<close>, \<^verbatim>\<open>genkey.go\<close>): validation is a projection onto the valid configurations, every accepted REALITY
    configuration can be built, generated keys are accepted.
  \<^item> \<^verbatim>\<open>HttpRelay\<close> (\<^verbatim>\<open>relay.go\<close>): the request head can be read back and carries exactly the forwarded headers; the outcomes of a request; the
    response headers.
  \<^item> \<^verbatim>\<open>TunnelServer\<close> (\<^verbatim>\<open>main.go\<close>, \<^verbatim>\<open>status.go\<close>): the accept loop, the life of a connection, the semaphore of relay connections and the counters
    as a step relation, with the limits as its invariant; the bearer token of the status endpoint.
  \<^item> \<^verbatim>\<open>RelayTunnel\<close> (\<^verbatim>\<open>frontend/relay.go\<close>, \<^verbatim>\<open>h3frontend/relay.go\<close>): the tunnels behind an accepted request, for all three versions of HTTP, as interleaved
    goroutines; the data arrives in order, the handler returns, and what a half-closed connection loses.
  \<^item> \<^verbatim>\<open>FrontendTools\<close> (\<^verbatim>\<open>main.go\<close>, \<^verbatim>\<open>cert.go\<close>, \<^verbatim>\<open>tlsserve.go\<close>): the command line, the certificate generator with the files and permissions it
    leaves, the test server, key generation, the start of the status endpoint.
  \<^item> \<^verbatim>\<open>RealityClient\<close> (\<^verbatim>\<open>internal/realitytest\<close>): the reference client of REALITY; its session identifier can be read by the server.

  \<^bold>\<open>HTTP/3 front end\<close> (\<^verbatim>\<open>h3frontend/\<close>):
  \<^item> \<^verbatim>\<open>H3Config\<close> (\<^verbatim>\<open>config.go\<close>): validation as above.
  \<^item> \<^verbatim>\<open>H3Origin\<close> (\<^verbatim>\<open>relay.go\<close>, \<^verbatim>\<open>origin.go\<close>): the relay answers as that of the TCP front end; the origin lets only the configured credentials
    through and shows everybody else the website.
  \<^item> \<^verbatim>\<open>H3Serve\<close> (\<^verbatim>\<open>main.go\<close>, \<^verbatim>\<open>qlog_trace.go\<close>): the start of the server with the resources it opens and the deferred calls that close them, the
    accept loop, the command line, and the sampling of traces; \<^verbatim>\<open>H3Trace\<close>: the files the traces are written to.

  \<^bold>\<open>Client\<close> (\<^verbatim>\<open>tui/\<close>):
  \<^item> \<^verbatim>\<open>CoreManager\<close> (\<^verbatim>\<open>internal/coremgr\<close>): \<^verbatim>\<open>Start\<close>, \<^verbatim>\<open>Stop\<close> and the supervisors that restart the core, interleaved; one supervisor at a time,
    what \<^verbatim>\<open>Stop\<close> and a cancelled context guarantee, the back-off.
  \<^item> \<^verbatim>\<open>EntryManager\<close> (\<^verbatim>\<open>internal/entry\<close>): listeners and connections; nothing stays open after \<^verbatim>\<open>Stop\<close>.
  \<^item> \<^verbatim>\<open>EntryProxy\<close> (\<^verbatim>\<open>internal/entry\<close>, \<^verbatim>\<open>internal/stats\<close>): the SOCKS5 and HTTP handlers and the SOCKS5 client they use, byte by byte; a request reaches the core as
    it was made.
  \<^item> \<^verbatim>\<open>Splice\<close> (\<^verbatim>\<open>splice\<close> of \<^verbatim>\<open>internal/entry\<close> and \<^verbatim>\<open>internal/tun\<close>): the copying goroutines of a tunnel as a step relation; integrity of the data, exact
    counters, termination.
  \<^item> \<^verbatim>\<open>SysProxy\<close> (\<^verbatim>\<open>internal/sysproxy\<close>): the three registry values; restoring undoes enabling.
  \<^item> \<^verbatim>\<open>ProfileStore\<close> (\<^verbatim>\<open>internal/config\<close>): defaults and the active profile; \<^verbatim>\<open>ProfileSave\<close>: saving is atomic.
  \<^item> \<^verbatim>\<open>ShareLink\<close> (\<^verbatim>\<open>internal/sharelink\<close>, \<^verbatim>\<open>BuildCoreConfig\<close>): links and the proxy URL of the core read back as the profile.
  \<^item> \<^verbatim>\<open>ClientApp\<close> (\<^verbatim>\<open>app.go\<close>): the messages of the user interface over the managers, the store and the proxy setting; disconnecting releases everything, no message panics.
  \<^item> \<^verbatim>\<open>ClientView\<close> (\<^verbatim>\<open>app.go\<close>, \<^verbatim>\<open>internal/stats\<close>): the smoothed rates and the screen; what it shows is accurate and contains no secrets.
  \<^item> \<^verbatim>\<open>Dns\<close> (\<^verbatim>\<open>internal/tun/dns.go\<close> and the DNS branch of \<^verbatim>\<open>tun_windows.go\<close>): the message codec with checked reads, the resolver over HTTPS, and the
    answer to a datagram.
  \<^item> \<^verbatim>\<open>TunDevice\<close> (\<^verbatim>\<open>internal/tun/tun_windows.go\<close>, \<^verbatim>\<open>app_tun_windows.go\<close>): creating and closing the device with the commands for the routes and their
    effect on the routing table, the packet pumps, TCP flows; the tunnel never swallows the connection to its own server.

  \<^bold>\<open>Bounds and fuel.\<close>  The loops that pop or skip have their termination proved or run on fuel that a lemma shows to be enough; a loop out of
  fuel is the panic \<open>Diverges\<close>, which the safety theorems exclude.  Statements about counters that could wrap bound the number of
  events by the width of the counter.

  \<^bold>\<open>Not modelled.\<close>  The TLS and REALITY handshakes, the inside of the gVisor stack and of the wintun driver, the encoding of certificates and of
  JSON and TOML, the rendering of the input field and the notification of WinINET are calls of libraries or of the operating system, and appear as
  parameters or not at all.  Log messages are left out, apart from the text of a speed, and so are accessors that return a field.
\<close>

end
